(* ===== verification/Prelude.thy ===== *)
theory Prelude
  imports Complex_Main "HOL-Library.AList" "HOL-Library.Char_ord"
begin

text \<open>
  Shared vocabulary of the development: Python strings, truthiness, dictionaries and the
  generic lemmas the component theories use.

  A Python \<open>str\<close> is a sequence of Unicode code points, so it is a list of naturals;
  \<open>len\<close>, slicing and \<open>in\<close> then count what Python counts. ASCII literals are written
  through \<open>asc\<close>; literals with Chinese text are lists of hexadecimal code points with a
  translation beside them. An optional string is \<open>ustr option\<close>; both \<open>None\<close> and the empty
  string are falsy. A \<open>dict\<close> whose size or order matters is an association list with
  distinct keys (\<open>AList.update\<close> keeps the position of an existing key and appends a new
  one, as Python's insertion order does); other dictionaries are maps. Python floats
  (clock readings, confidences, scores) are rationals: rounding is not modelled.
\<close>

named_theorems dict_simps \<open>lookups, domains and sizes of association-list dictionaries\<close>
named_theorems str_simps \<open>facts about strings, stripping and truthiness\<close>

type_synonym ustr = "nat list"
type_synonym ('k, 'v) dict = "('k \<times> 'v) list"

definition asc :: "string \<Rightarrow> ustr" where
  "asc s = map of_char s"

lemma asc_eq [simp, str_simps]: "asc s = asc t \<longleftrightarrow> s = t"
proof -
  have "inj (of_char :: char \<Rightarrow> nat)" by (auto intro: injI)
  then show ?thesis by (simp add: asc_def inj_map_eq_map)
qed

lemma asc_Nil [simp, str_simps]: "asc s = [] \<longleftrightarrow> s = []"
  by (simp add: asc_def)

section \<open>Strings\<close>

text \<open>\<open>str.isspace\<close> on one code point (the characters that \<open>str.strip()\<close> removes).\<close>

definition is_space :: "nat \<Rightarrow> bool" where
  "is_space c \<longleftrightarrow> (9 \<le> c \<and> c \<le> 13) \<or> (28 \<le> c \<and> c \<le> 32) \<or> c = 0x85 \<or> c = 0xA0 \<or> c = 0x1680
     \<or> (0x2000 \<le> c \<and> c \<le> 0x200A) \<or> c = 0x2028 \<or> c = 0x2029 \<or> c = 0x202F \<or> c = 0x205F
     \<or> c = 0x3000"

definition strip :: "ustr \<Rightarrow> ustr" where
  "strip s = rev (dropWhile is_space (rev (dropWhile is_space s)))"

fun starts_with :: "ustr \<Rightarrow> ustr \<Rightarrow> bool" where
  "starts_with [] s = True"
| "starts_with (p # ps) [] = False"
| "starts_with (p # ps) (c # cs) = (p = c \<and> starts_with ps cs)"

text \<open>Python's \<open>p in s\<close>.\<close>

fun occurs :: "ustr \<Rightarrow> ustr \<Rightarrow> bool" where
  "occurs p [] = (p = [])"
| "occurs p (c # cs) = (starts_with p (c # cs) \<or> occurs p cs)"

text \<open>Python's \<open>any(token in s for token in tokens)\<close>.\<close>

definition any_in :: "ustr list \<Rightarrow> ustr \<Rightarrow> bool" where
  "any_in tokens s \<longleftrightarrow> (\<exists>t \<in> set tokens. occurs t s)"

text \<open>
  \<open>str.lower()\<close>, exact for every character whose lower-case form contains an ASCII
  character (A to Z, the dotted capital I U+0130 and the Kelvin sign U+212A). Other
  characters are left alone: the code only compares lower-cased text with ASCII words and
  with words of caseless scripts, on which the two agree.
\<close>

definition lower1 :: "nat \<Rightarrow> ustr" where
  "lower1 c = (if 65 \<le> c \<and> c \<le> 90 then [c + 32] else if c = 0x130 then [0x69, 0x307]
     else if c = 0x212A then [0x6B] else [c])"

definition lower :: "ustr \<Rightarrow> ustr" where
  "lower s = concat (map lower1 s)"

lemma starts_with_iff: "starts_with p s \<longleftrightarrow> (\<exists>r. s = p @ r)"
  by (induction p s rule: starts_with.induct) auto

lemma occurs_iff: "occurs p s \<longleftrightarrow> (\<exists>a b. s = a @ p @ b)"
proof (induction s)
  case Nil
  show ?case by simp
next
  case (Cons c cs)
  have "(\<exists>a b. c # cs = a @ p @ b) \<longleftrightarrow> (\<exists>b. c # cs = p @ b) \<or> (\<exists>a b. cs = a @ p @ b)"
    (is "?l \<longleftrightarrow> ?r")
  proof
    assume ?l
    then obtain a b where ab: "c # cs = a @ p @ b" by blast
    show ?r
    proof (cases a)
      case Nil
      with ab show ?thesis by auto
    next
      case (Cons d ds)
      with ab show ?thesis by auto
    qed
  next
    assume ?r
    then show ?l by (metis append_Cons append_Nil)
  qed
  with Cons show ?case by (simp add: starts_with_iff)
qed

lemma strip_Nil [simp, str_simps]: "strip [] = []"
  by (simp add: strip_def)


text \<open>A string with no blank at either end; stripping produces one and leaves one alone.\<close>

definition stripped :: "ustr \<Rightarrow> bool" where
  "stripped s \<longleftrightarrow> s = [] \<or> (\<not> is_space (hd s) \<and> \<not> is_space (last s))"

lemma strip_id [str_simps]: "stripped s \<Longrightarrow> strip s = s"
proof (cases s rule: rev_cases)
  case Nil
  then show ?thesis by simp
next
  case (snoc ys y)
  assume "stripped s"
  with snoc have "dropWhile is_space s = s" and "\<not> is_space y"
    by (cases ys; simp add: stripped_def)+
  with snoc show ?thesis by (simp add: strip_def)
qed

lemma stripped_strip [simp, str_simps]: "stripped (strip s)"
proof (cases "strip s = []")
  case True
  then show ?thesis by (simp add: stripped_def)
next
  case False
  let ?d = "dropWhile is_space s"
  let ?r = "dropWhile is_space (rev ?d)"
  have s: "strip s = rev ?r" by (simp add: strip_def)
  with False have r: "?r \<noteq> []" by simp
  have "rev ?d = takeWhile is_space (rev ?d) @ ?r" by simp
  then have d: "?d = rev ?r @ rev (takeWhile is_space (rev ?d))"
    by (metis rev_append rev_rev_ident)
  from r have r': "rev ?r \<noteq> []" by (simp only: rev_is_Nil_conv not_False_eq_True)
  from d r' have "hd ?d = hd (rev ?r)" by (metis hd_append)
  moreover from d r' have "?d \<noteq> []" by (metis append_is_Nil_conv)
  ultimately have "\<not> is_space (hd (rev ?r))" using hd_dropWhile [of is_space s] by metis
  moreover have "\<not> is_space (last (rev ?r))"
    using r hd_dropWhile [of is_space "rev ?d"] by (simp add: last_rev)
  ultimately show ?thesis by (simp add: s stripped_def)
qed

lemma strip_strip [simp, str_simps]: "strip (strip s) = strip s"
  by (rule strip_id) simp

section \<open>Truthiness of optional strings\<close>

text \<open>\<open>x or ""\<close>, \<open>bool(x)\<close>, \<open>x or y\<close> and \<open>x or None\<close> for \<open>x: str | None\<close>.\<close>

definition str_or_empty :: "ustr option \<Rightarrow> ustr" where
  "str_or_empty x = (case x of None \<Rightarrow> [] | Some s \<Rightarrow> s)"

definition truthy :: "ustr option \<Rightarrow> bool" where
  "truthy x \<longleftrightarrow> str_or_empty x \<noteq> []"

definition or_opt :: "ustr option \<Rightarrow> ustr option \<Rightarrow> ustr option" where
  "or_opt x y = (if truthy x then x else y)"

definition nonempty_opt :: "ustr \<Rightarrow> ustr option" where
  "nonempty_opt s = (if s = [] then None else Some s)"

definition or_str :: "ustr \<Rightarrow> ustr \<Rightarrow> ustr" where
  "or_str s d = (if s = [] then d else s)"

lemma str_or_empty_simps [simp]:
  "str_or_empty None = []" "str_or_empty (Some s) = s"
  by (simp_all add: str_or_empty_def)

lemma truthy_simps [simp]: "\<not> truthy None" "truthy (Some s) \<longleftrightarrow> s \<noteq> []"
  by (simp_all add: truthy_def)

lemma truthy_iff [str_simps]: "truthy x \<longleftrightarrow> (\<exists>s. x = Some s \<and> s \<noteq> [])"
  by (cases x) auto

lemma or_opt_simps [simp]:
  "or_opt None y = y" "or_opt (Some []) y = y" "s \<noteq> [] \<Longrightarrow> or_opt (Some s) y = Some s"
  by (simp_all add: or_opt_def)

lemma or_opt_assoc [str_simps]: "or_opt (or_opt x y) z = or_opt x (or_opt y z)"
  by (simp add: or_opt_def)

lemma truthy_or_opt [simp]: "truthy (or_opt x y) \<longleftrightarrow> truthy x \<or> truthy y"
  by (simp add: or_opt_def)

lemma or_str_nonempty [simp]: "d \<noteq> [] \<Longrightarrow> or_str s d \<noteq> []"
  by (simp add: or_str_def)

section \<open>Dictionaries as association lists\<close>

definition dict_ok :: "('k, 'v) dict \<Rightarrow> bool" where
  "dict_ok d \<longleftrightarrow> distinct (map fst d)"

definition dict_filter :: "('k \<Rightarrow> 'v \<Rightarrow> bool) \<Rightarrow> ('k, 'v) dict \<Rightarrow> ('k, 'v) dict" where
  "dict_filter P d = filter (\<lambda>(k, v). P k v) d"

lemma dict_ok_Nil [simp, dict_simps]: "dict_ok []"
  by (simp add: dict_ok_def)

lemma dict_ok_update [simp, intro]: "dict_ok d \<Longrightarrow> dict_ok (AList.update k v d)"
  by (simp add: dict_ok_def distinct_update)

lemma dict_ok_delete [simp, intro]: "dict_ok d \<Longrightarrow> dict_ok (AList.delete k d)"
  by (simp add: dict_ok_def distinct_delete)

lemma dict_ok_filter [simp, intro]: "dict_ok d \<Longrightarrow> dict_ok (dict_filter P d)"
  by (simp add: dict_ok_def dict_filter_def distinct_map_filter)

lemma map_of_update [simp, dict_simps]: "map_of (AList.update k v d) = (map_of d)(k \<mapsto> v)"
  by (rule update_conv')

lemma map_of_delete [simp, dict_simps]: "map_of (AList.delete k d) = (map_of d)(k := None)"
  by (rule delete_conv')

lemma map_of_filter [dict_simps]:
  "dict_ok d \<Longrightarrow> map_of (dict_filter P d) k =
     (case map_of d k of None \<Rightarrow> None | Some v \<Rightarrow> if P k v then Some v else None)"
proof (induction d)
  case Nil
  then show ?case by (simp add: dict_filter_def)
next
  case (Cons p d)
  obtain k' v' where p: "p = (k', v')" by (cases p)
  from Cons.prems have ok: "dict_ok d" and fresh: "k' \<notin> fst ` set d"
    by (auto simp: dict_ok_def p)
  have IH: "map_of (dict_filter P d) k =
     (case map_of d k of None \<Rightarrow> None | Some v \<Rightarrow> if P k v then Some v else None)"
    using Cons.IH [OF ok] .
  show ?case
  proof (cases "k = k'")
    case True
    with fresh have "map_of d k = None" by (simp add: map_of_eq_None_iff)
    with True IH show ?thesis by (simp add: p dict_filter_def)
  next
    case False
    with IH show ?thesis by (simp add: p dict_filter_def)
  qed
qed

lemma length_update [dict_simps]:
  "length (AList.update k v d) = (if map_of d k = None then Suc (length d) else length d)"
  by (induction d) auto

lemma length_delete_le: "length (AList.delete k d) \<le> length d"
  by (simp add: AList.delete_eq)

lemma length_filter_dict_le: "length (dict_filter P d) \<le> length d"
  by (simp add: dict_filter_def)

section \<open>Separators\<close>

text \<open>A separator splits a string at its first occurrence in one way only.\<close>

lemma split_at_sep: "a \<notin> set xs \<Longrightarrow> a \<notin> set ys \<Longrightarrow> xs @ a # us = ys @ a # vs \<longleftrightarrow> xs = ys \<and> us = vs"
proof (induction xs arbitrary: ys)
  case Nil
  then show ?case by (cases ys) auto
next
  case (Cons x xs)
  then show ?case by (cases ys) auto
qed

lemma split_at_last_sep: "a \<notin> set us \<Longrightarrow> a \<notin> set vs \<Longrightarrow> xs @ a # us = ys @ a # vs \<Longrightarrow> xs = ys \<and> us = vs"
proof -
  assume n: "a \<notin> set us" "a \<notin> set vs" and e: "xs @ a # us = ys @ a # vs"
  from arg_cong [OF e, of rev] have "rev us @ a # rev xs = rev vs @ a # rev ys" by simp
  with split_at_sep [of a "rev us" "rev vs" "rev xs" "rev ys"] n show ?thesis by simp
qed

end
