(* ===== verification/Circuit.thy ===== *)
theory Circuit
  imports Prelude
begin

text \<open>
  The LLM circuit breaker: \<open>app/llm_gateway/circuit.py\<close> and the exceptions of
  \<open>app/llm_gateway/exceptions.py\<close>.

  The module-level \<open>_STATE\<close> is a \<open>breaker option\<close>, passed and returned by every operation;
  the lock makes each operation atomic. The settings (threshold, cooldown) and the clock
  reading an operation takes are arguments. The Prometheus counter increments
  (\<open>inc_llm_circuit\<close>) are returned as a list of events. Concurrent calls are a step
  relation over the breaker and the set of calls in flight: a call may end by success, by
  an \<open>Exception\<close>, or by a \<open>BaseException\<close> that no handler of the gateway records
  (a cancelled task, a closed stream).
\<close>

section \<open>Exceptions\<close>

text \<open>
  The exceptions that reach the gateway. \<open>Failed os name msg\<close> is any other \<open>Exception\<close>:
  \<open>os\<close> tells whether it is an instance of \<open>TimeoutError\<close>, \<open>ConnectionError\<close> or \<open>OSError\<close>.
  \<open>Cancelled\<close> stands for a \<open>BaseException\<close> outside \<open>Exception\<close>
  (\<open>asyncio.CancelledError\<close>, \<open>GeneratorExit\<close>).
\<close>

datatype exc =
    TenantQuotaExceededError ustr int int
  | LlmCircuitOpenError nat rat
  | Failed bool ustr ustr
  | Cancelled

definition is_llm_degradable :: "exc \<Rightarrow> bool" where
  "is_llm_degradable e = (case e of TenantQuotaExceededError t u l \<Rightarrow> False | _ \<Rightarrow> True)"

section \<open>State and operations\<close>

record breaker =
  failures :: nat
  opened_at :: "rat option"
  probe_in_flight :: bool

definition fresh_breaker :: breaker where
  "fresh_breaker = \<lparr>failures = 0, opened_at = None, probe_in_flight = False\<rparr>"

record circuit_cfg =
  threshold :: int
  cooldown :: rat

datatype circuit_event = CircuitOpened | CircuitRejected

datatype circuit_label = Closed | Open | HalfOpen

record circuit_snapshot =
  snap_state :: circuit_label
  snap_failures :: nat
  cooldown_remaining :: rat

definition or_fresh :: "breaker option \<Rightarrow> breaker" where
  "or_fresh st = (case st of None \<Rightarrow> fresh_breaker | Some b \<Rightarrow> b)"

definition snapshot_locked :: "breaker \<Rightarrow> rat \<Rightarrow> rat \<Rightarrow> circuit_snapshot" where
  "snapshot_locked b cool now =
     (case opened_at b of
        None \<Rightarrow> \<lparr>snap_state = Closed, snap_failures = failures b, cooldown_remaining = 0\<rparr>
      | Some t \<Rightarrow>
          let remaining = max 0 (cool - (now - t));
              label = (if remaining \<le> 0 then HalfOpen else Open)
          in \<lparr>snap_state = label, snap_failures = failures b, cooldown_remaining = remaining\<rparr>)"

definition snapshot_llm_breaker :: "circuit_cfg \<Rightarrow> rat \<Rightarrow> breaker option \<Rightarrow> circuit_snapshot" where
  "snapshot_llm_breaker cfg now st = snapshot_locked (or_fresh st) (cooldown cfg) now"

definition reject :: "nat \<Rightarrow> rat \<Rightarrow> exc \<times> circuit_event list" where
  "reject fails cool = (LlmCircuitOpenError fails cool, [CircuitRejected])"

text \<open>\<open>None\<close> in the first component: the guard returned and the call may go upstream.\<close>

definition guard_llm_circuit ::
  "circuit_cfg \<Rightarrow> rat \<Rightarrow> breaker option \<Rightarrow> exc option \<times> breaker option \<times> circuit_event list" where
  "guard_llm_circuit cfg now st =
     (if threshold cfg \<le> 0 then (None, st, [])
      else let b = or_fresh st in
        (case opened_at b of
           None \<Rightarrow> (None, Some b, [])
         | Some t \<Rightarrow>
             (if now - t < cooldown cfg \<or> probe_in_flight b
              then let (e, ev) = reject (failures b) (cooldown cfg) in (Some e, Some b, ev)
              else (None, Some (b\<lparr>probe_in_flight := True\<rparr>), []))))"

definition record_llm_success :: "breaker option \<Rightarrow> breaker option" where
  "record_llm_success st = Some fresh_breaker"

definition record_llm_failure ::
  "circuit_cfg \<Rightarrow> rat \<Rightarrow> breaker option \<Rightarrow> breaker option \<times> circuit_event list" where
  "record_llm_failure cfg now st =
     (let b = (or_fresh st)\<lparr>probe_in_flight := False\<rparr> in
      if threshold cfg \<le> 0 then (Some b, [])
      else
        let was_open = (opened_at b \<noteq> None);
            b' = b\<lparr>failures := failures b + 1\<rparr>
        in if int (failures b') \<ge> threshold cfg
           then (Some (b'\<lparr>opened_at := Some now\<rparr>), if was_open then [] else [CircuitOpened])
           else (Some b', []))"

section \<open>Runs of atomic operations\<close>

datatype circuit_op = Guard rat | Success | Failure rat

definition circuit_apply ::
  "circuit_cfg \<Rightarrow> breaker option \<Rightarrow> circuit_op \<Rightarrow> breaker option \<times> circuit_event list" where
  "circuit_apply cfg st ope = (case ope of
      Guard now \<Rightarrow> (case guard_llm_circuit cfg now st of (_, st', ev) \<Rightarrow> (st', ev))
    | Success \<Rightarrow> (record_llm_success st, [])
    | Failure now \<Rightarrow> record_llm_failure cfg now st)"

fun circuit_run ::
  "circuit_cfg \<Rightarrow> breaker option \<Rightarrow> circuit_op list \<Rightarrow> breaker option \<times> circuit_event list" where
  "circuit_run cfg st [] = (st, [])"
| "circuit_run cfg st (x # xs) =
     (let (st', ev) = circuit_apply cfg st x; (st'', ev') = circuit_run cfg st' xs
      in (st'', ev @ ev'))"

text \<open>The reference view of a history: failures since the last success, and the last of them.\<close>

fun streak :: "circuit_op list \<Rightarrow> nat \<times> rat option \<Rightarrow> nat \<times> rat option" where
  "streak [] acc = acc"
| "streak (Guard now # xs) acc = streak xs acc"
| "streak (Success # xs) acc = streak xs (0, None)"
| "streak (Failure now # xs) acc = streak xs (Suc (fst acc), Some now)"

definition tracks :: "circuit_cfg \<Rightarrow> nat \<times> rat option \<Rightarrow> breaker \<Rightarrow> bool" where
  "tracks cfg acc b \<longleftrightarrow> failures b = fst acc \<and>
     opened_at b = (if int (fst acc) \<ge> threshold cfg then snd acc else None) \<and>
     (fst acc > 0 \<longrightarrow> snd acc \<noteq> None) \<and> (probe_in_flight b \<longrightarrow> opened_at b \<noteq> None)"

lemmas circuit_defs = guard_llm_circuit_def record_llm_failure_def record_llm_success_def
  circuit_apply_def reject_def or_fresh_def fresh_breaker_def Let_def

lemma tracks_guard:
  assumes "threshold cfg > 0" and "tracks cfg acc (or_fresh st)"
  shows "tracks cfg acc (or_fresh (fst (snd (guard_llm_circuit cfg now st))))"
  using assms by (auto simp: guard_llm_circuit_def reject_def tracks_def Let_def or_fresh_def
      split: option.splits if_splits)

lemma tracks_failure:
  assumes "threshold cfg > 0" and "tracks cfg acc (or_fresh st)"
  shows "tracks cfg (Suc (fst acc), Some now) (or_fresh (fst (record_llm_failure cfg now st)))"
  using assms by (auto simp: record_llm_failure_def tracks_def Let_def or_fresh_def split: option.splits)

lemma tracks_success: "threshold cfg > 0 \<Longrightarrow> tracks cfg (0, None) (or_fresh (record_llm_success st))"
  by (simp add: record_llm_success_def tracks_def or_fresh_def fresh_breaker_def)

lemma tracks_run:
  assumes "threshold cfg > 0" and "tracks cfg acc (or_fresh st)"
  shows "tracks cfg (streak xs acc) (or_fresh (fst (circuit_run cfg st xs)))"
  using assms(2)
proof (induction xs arbitrary: st acc)
  case Nil
  then show ?case by simp
next
  case (Cons x xs)
  obtain st' ev where app: "circuit_apply cfg st x = (st', ev)" by (cases "circuit_apply cfg st x")
  have "tracks cfg (streak [x] acc) (or_fresh st')"
  proof (cases x)
    case (Guard now)
    with app tracks_guard [OF assms(1) Cons.prems, of now] show ?thesis
      by (auto simp: circuit_apply_def split: prod.splits)
  next
    case Success
    with app tracks_success [OF assms(1)] show ?thesis by (auto simp: circuit_apply_def)
  next
    case (Failure now)
    with app tracks_failure [OF assms(1) Cons.prems, of now] show ?thesis
      by (auto simp: circuit_apply_def)
  qed
  from Cons.IH [OF this] app show ?case
    by (cases x) (auto simp: Let_def split: prod.splits)
qed

lemma fresh_tracks: "threshold cfg > 0 \<Longrightarrow> tracks cfg (0, None) (or_fresh None)"
  by (simp add: tracks_def or_fresh_def fresh_breaker_def)


section \<open>Properties of the breaker\<close>

text \<open>
  Whatever interleaving of guards, successes and failures happened since the process
  started, the breaker's counter is the number of failures since the last success, and the
  breaker is open exactly when that number has reached the (positive) threshold, its opening
  time then being that of the last failure.
\<close>

lemma breaker_counts_consecutive_failures:
  assumes "threshold cfg > 0"
  shows "failures (or_fresh (fst (circuit_run cfg None xs))) = fst (streak xs (0, None)) \<and>
    opened_at (or_fresh (fst (circuit_run cfg None xs))) =
      (if int (fst (streak xs (0, None))) \<ge> threshold cfg then snd (streak xs (0, None)) else None)"
  using tracks_run [OF assms fresh_tracks [OF assms], of xs] by (simp_all add: tracks_def)

section \<open>Concurrent calls\<close>

text \<open>
  \<open>live\<close> are the calls that passed the guard and have not ended. \<open>cancel\<close> is a call that
  ends by a \<open>BaseException\<close>: \<open>_call_with_circuit\<close>, \<open>_acall_with_circuit\<close>, \<open>stream\<close> and
  \<open>astream\<close> only handle \<open>Exception\<close>, so nothing is recorded.
\<close>

record calls =
  brk :: "breaker option"
  live :: "nat set"

definition no_calls :: calls where
  "no_calls = \<lparr>brk = None, live = {}\<rparr>"

inductive call_step :: "circuit_cfg \<Rightarrow> calls \<Rightarrow> calls \<Rightarrow> bool" for cfg where
  admit: "guard_llm_circuit cfg now (brk s) = (None, b, ev) \<Longrightarrow> i \<notin> live s \<Longrightarrow>
    call_step cfg s (s\<lparr>brk := b, live := insert i (live s)\<rparr>)"
| refuse: "guard_llm_circuit cfg now (brk s) = (Some e, b, ev) \<Longrightarrow>
    call_step cfg s (s\<lparr>brk := b\<rparr>)"
| succeed: "i \<in> live s \<Longrightarrow>
    call_step cfg s (s\<lparr>brk := record_llm_success (brk s), live := live s - {i}\<rparr>)"
| fail: "i \<in> live s \<Longrightarrow>
    call_step cfg s (s\<lparr>brk := fst (record_llm_failure cfg now (brk s)), live := live s - {i}\<rparr>)"
| cancel: "i \<in> live s \<Longrightarrow> call_step cfg s (s\<lparr>live := live s - {i}\<rparr>)"

inductive reachable_calls :: "circuit_cfg \<Rightarrow> calls \<Rightarrow> bool" for cfg where
  start: "reachable_calls cfg no_calls"
| step: "reachable_calls cfg s \<Longrightarrow> call_step cfg s t \<Longrightarrow> reachable_calls cfg t"

definition breaker_inv :: "circuit_cfg \<Rightarrow> breaker \<Rightarrow> bool" where
  "breaker_inv cfg b \<longleftrightarrow> (opened_at b \<noteq> None \<longleftrightarrow> int (failures b) \<ge> threshold cfg) \<and>
     (probe_in_flight b \<longrightarrow> opened_at b \<noteq> None)"

lemma breaker_inv_fresh: "threshold cfg > 0 \<Longrightarrow> breaker_inv cfg fresh_breaker"
  by (simp add: breaker_inv_def fresh_breaker_def)

lemma breaker_inv_guard:
  "breaker_inv cfg (or_fresh st) \<Longrightarrow> guard_llm_circuit cfg now st = (r, st', ev) \<Longrightarrow>
     breaker_inv cfg (or_fresh st')"
  by (auto simp: guard_llm_circuit_def reject_def Let_def breaker_inv_def or_fresh_def
      split: option.splits if_splits)

lemma breaker_inv_failure:
  "threshold cfg > 0 \<Longrightarrow> breaker_inv cfg (or_fresh st) \<Longrightarrow>
     breaker_inv cfg (or_fresh (fst (record_llm_failure cfg now st)))"
  by (auto simp: record_llm_failure_def Let_def breaker_inv_def or_fresh_def split: option.splits)

lemma breaker_inv_success: "threshold cfg > 0 \<Longrightarrow> breaker_inv cfg (or_fresh (record_llm_success st))"
  by (simp add: record_llm_success_def or_fresh_def breaker_inv_fresh)

lemma call_step_inv:
  "call_step cfg s t \<Longrightarrow> threshold cfg > 0 \<Longrightarrow> breaker_inv cfg (or_fresh (brk s)) \<Longrightarrow>
     breaker_inv cfg (or_fresh (brk t))"
  by (induction rule: call_step.induct)
    (auto dest: breaker_inv_guard intro: breaker_inv_failure breaker_inv_success)

lemma reachable_breaker_inv:
  assumes "reachable_calls cfg s" and "threshold cfg > 0"
  shows "breaker_inv cfg (or_fresh (brk s))"
  using assms
proof (induction rule: reachable_calls.induct)
  case start
  then show ?case by (simp add: no_calls_def or_fresh_def breaker_inv_fresh)
next
  case (step s t)
  then show ?case by (blast intro: call_step_inv)
qed

text \<open>
  In every reachable state of any number of concurrent calls, an open breaker has
  counted at least the threshold of failures, a closed one fewer, and during the cooldown
  every guard raises \<open>LlmCircuitOpenError\<close> and leaves the breaker as it was.
\<close>

lemma open_breaker_fails_fast:
  assumes "reachable_calls cfg s" and "threshold cfg > 0"
    and "opened_at (or_fresh (brk s)) = Some t" and "now - t < cooldown cfg"
  shows "int (failures (or_fresh (brk s))) \<ge> threshold cfg \<and>
    guard_llm_circuit cfg now (brk s) =
      (Some (LlmCircuitOpenError (failures (or_fresh (brk s))) (cooldown cfg)), Some (or_fresh (brk s)),
       [CircuitRejected])"
  using reachable_breaker_inv [OF assms(1,2)] assms(2-4)
  by (auto simp: breaker_inv_def guard_llm_circuit_def reject_def Let_def)

lemma reach_open_demo:
  "reachable_calls \<lparr>threshold = 1, cooldown = 30\<rparr>
     \<lparr>brk = Some \<lparr>failures = 1, opened_at = Some 10, probe_in_flight = False\<rparr>, live = {}\<rparr>"
proof -
  let ?c = "\<lparr>threshold = 1, cooldown = 30\<rparr> :: circuit_cfg"
  have 1: "reachable_calls ?c (no_calls\<lparr>brk := Some fresh_breaker, live := {0}\<rparr>)"
    using reachable_calls.step [OF reachable_calls.start
        call_step.admit [of ?c 0 no_calls "Some fresh_breaker" "[]" 0]]
    by (simp add: circuit_defs no_calls_def)
  show ?thesis
    using reachable_calls.step [OF 1 call_step.fail [of 0 _ ?c 10]]
    by (simp add: circuit_defs no_calls_def)
qed

fun guards_all :: "circuit_cfg \<Rightarrow> breaker option \<Rightarrow> rat list \<Rightarrow> exc option list" where
  "guards_all cfg st [] = []"
| "guards_all cfg st (now # ns) =
     (let (r, st', ev) = guard_llm_circuit cfg now st in r # guards_all cfg st' ns)"

lemma probing_rejects:
  assumes "threshold cfg > 0" and "opened_at b = Some t" and "probe_in_flight b"
  shows "guard_llm_circuit cfg now (Some b) =
     (Some (LlmCircuitOpenError (failures b) (cooldown cfg)), Some b, [CircuitRejected])"
  using assms by (simp add: guard_llm_circuit_def reject_def or_fresh_def)

lemma guards_while_probing:
  "threshold cfg > 0 \<Longrightarrow> opened_at b = Some t \<Longrightarrow> probe_in_flight b \<Longrightarrow>
     guards_all cfg (Some b) ns =
       replicate (length ns) (Some (LlmCircuitOpenError (failures b) (cooldown cfg)))"
  by (induction ns) (simp_all add: probing_rejects)

text \<open>
  After the cooldown exactly one probe is let through: the first guard passes and all
  guards after it, however late, are rejected until a call has recorded its outcome.
\<close>

lemma one_probe_after_cooldown:
  assumes "threshold cfg > 0" and "opened_at b = Some t" and "\<not> probe_in_flight b"
    and "cooldown cfg \<le> now - t"
  shows "guards_all cfg (Some b) (now # ns) =
     None # replicate (length ns) (Some (LlmCircuitOpenError (failures b) (cooldown cfg)))"
proof -
  have "guard_llm_circuit cfg now (Some b) = (None, Some (b\<lparr>probe_in_flight := True\<rparr>), [])"
    using assms by (simp add: guard_llm_circuit_def or_fresh_def)
  with guards_while_probing [of cfg "b\<lparr>probe_in_flight := True\<rparr>" t ns] assms show ?thesis
    by simp
qed

text \<open>A probe that was cancelled: it is marked as in flight but no call is.\<close>

definition stranded :: "calls \<Rightarrow> bool" where
  "stranded s \<longleftrightarrow> live s = {} \<and> (\<exists>b t. brk s = Some b \<and> opened_at b = Some t \<and> probe_in_flight b)"

lemma stranded_stuck:
  assumes "call_step cfg s t" and "threshold cfg > 0" and "stranded s"
  shows "t = s"
  using assms by cases (auto simp: stranded_def probing_rejects)

lemma stranded_forever:
  assumes "(call_step cfg)\<^sup>*\<^sup>* s t" and "threshold cfg > 0" and "stranded s"
  shows "t = s"
  using assms(1)
  by (induction rule: rtranclp_induct) (auto dest: stranded_stuck [OF _ assms(2,3)])


lemma reach_stranded_demo:
  "reachable_calls \<lparr>threshold = 1, cooldown = 30\<rparr>
     \<lparr>brk = Some \<lparr>failures = 1, opened_at = Some 10, probe_in_flight = True\<rparr>, live = {}\<rparr>"
proof -
  let ?c = "\<lparr>threshold = 1, cooldown = 30\<rparr> :: circuit_cfg"
  let ?b = "\<lparr>failures = 1, opened_at = Some 10, probe_in_flight = True\<rparr> :: breaker"
  have 1: "reachable_calls ?c \<lparr>brk = Some ?b, live = {7}\<rparr>"
    using reachable_calls.step [OF reach_open_demo
        call_step.admit [of ?c 40 _ "Some ?b" "[]" 7]]
    by (simp add: guard_llm_circuit_def or_fresh_def)
  show ?thesis
    using reachable_calls.step [OF 1 call_step.cancel [of 7]] by simp
qed


end
