(* ===== verification/Redis_Client.thy ===== *)
theory Redis_Client
  imports Prelude
begin

text \<open>
  The Redis server is not part of the program. A client is a record of the commands the code
  issues, over a database type \<open>'r\<close> the development says nothing about; every definition that
  talks to Redis takes such a record, and what the code relies on is the predicate
  \<open>kv_laws\<close> (GET, SET, SET NX PX, DEL, EXPIRE) or \<open>zset_laws\<close> (ZADD, ZREM, ZCARD,
  ZREMRANGEBYSCORE) or \<open>hash_laws\<close> (HINCRBY, HGETALL): the documented behaviour of the
  commands, with the server's clock as the first argument of time. The \<open>ref_\<close> clients at
  the end are only used by witnesses: they show that the laws can hold.
\<close>

section \<open>Strings with expiry\<close>

record ('r, 'v) kv_store =
  kv_get :: "'r \<Rightarrow> rat \<Rightarrow> ustr \<Rightarrow> 'v option"
  kv_set :: "'r \<Rightarrow> rat \<Rightarrow> ustr \<Rightarrow> 'v \<Rightarrow> rat option \<Rightarrow> 'r"
  kv_set_nx :: "'r \<Rightarrow> rat \<Rightarrow> ustr \<Rightarrow> 'v \<Rightarrow> rat \<Rightarrow> bool \<times> 'r"
  kv_del :: "'r \<Rightarrow> rat \<Rightarrow> ustr \<Rightarrow> 'r"
  kv_expire :: "'r \<Rightarrow> rat \<Rightarrow> ustr \<Rightarrow> rat \<Rightarrow> 'r"

text \<open>
  The values are byte strings; where the program only stores the JSON text of an object, the
  object stands for its text.
\<close>

type_synonym 'r kv_client = "('r, ustr) kv_store"

text \<open>What is left at time \<open>t\<close> of a value written at \<open>now\<close> with an optional time to live.\<close>

definition until :: "rat \<Rightarrow> rat option \<Rightarrow> rat \<Rightarrow> 'v \<Rightarrow> 'v option" where
  "until now ttl t v = (case ttl of None \<Rightarrow> Some v | Some d \<Rightarrow> if t < now + d then Some v else None)"

definition kv_laws :: "('r, 'v) kv_store \<Rightarrow> bool" where
  "kv_laws c \<longleftrightarrow>
     (\<forall>r now t k. now \<le> t \<longrightarrow> kv_get c r now k = None \<longrightarrow> kv_get c r t k = None) \<and>
     (\<forall>r now t k. now \<le> t \<longrightarrow> kv_get c r t k \<noteq> None \<longrightarrow> kv_get c r now k = kv_get c r t k) \<and>
     (\<forall>r now t k v ttl k'. now \<le> t \<longrightarrow> kv_get c (kv_set c r now k v ttl) t k' =
        (if k' = k then until now ttl t v else kv_get c r t k')) \<and>
     (\<forall>r now t k v d k'. now \<le> t \<longrightarrow> kv_get c (snd (kv_set_nx c r now k v d)) t k' =
        (if k' = k \<and> kv_get c r now k = None then until now (Some d) t v else kv_get c r t k')) \<and>
     (\<forall>r now k v d. fst (kv_set_nx c r now k v d) \<longleftrightarrow> kv_get c r now k = None) \<and>
     (\<forall>r now t k k'. now \<le> t \<longrightarrow> kv_get c (kv_del c r now k) t k' =
        (if k' = k then None else kv_get c r t k')) \<and>
     (\<forall>r now t k d k'. now \<le> t \<longrightarrow> kv_get c (kv_expire c r now k d) t k' =
        (if k' = k then (case kv_get c r now k of None \<Rightarrow> None | Some v \<Rightarrow> until now (Some d) t v)
         else kv_get c r t k'))"

lemma kv_gone: "kv_laws c \<Longrightarrow> now \<le> t \<Longrightarrow> kv_get c r now k = None \<Longrightarrow> kv_get c r t k = None"
  unfolding kv_laws_def by (drule conjunct1) simp

lemma kv_kept: "kv_laws c \<Longrightarrow> now \<le> t \<Longrightarrow> kv_get c r t k = Some v \<Longrightarrow> kv_get c r now k = Some v"
  unfolding kv_laws_def by (drule conjunct2, drule conjunct1) simp

lemma kv_get_set: "kv_laws c \<Longrightarrow> now \<le> t \<Longrightarrow> kv_get c (kv_set c r now k v ttl) t k' =
    (if k' = k then until now ttl t v else kv_get c r t k')"
  by (simp add: kv_laws_def)

lemma kv_get_set_nx: "kv_laws c \<Longrightarrow> now \<le> t \<Longrightarrow> kv_get c (snd (kv_set_nx c r now k v d)) t k' =
    (if k' = k \<and> kv_get c r now k = None then until now (Some d) t v else kv_get c r t k')"
  by (simp add: kv_laws_def)

lemma kv_set_nx_ok: "kv_laws c \<Longrightarrow> fst (kv_set_nx c r now k v d) \<longleftrightarrow> kv_get c r now k = None"
  by (simp add: kv_laws_def)

lemma kv_get_del: "kv_laws c \<Longrightarrow> now \<le> t \<Longrightarrow> kv_get c (kv_del c r now k) t k' =
    (if k' = k then None else kv_get c r t k')"
  by (simp add: kv_laws_def)

lemma kv_get_expire: "kv_laws c \<Longrightarrow> now \<le> t \<Longrightarrow> kv_get c (kv_expire c r now k d) t k' =
    (if k' = k then (case kv_get c r now k of None \<Rightarrow> None | Some v \<Rightarrow> until now (Some d) t v)
     else kv_get c r t k')"
  by (simp add: kv_laws_def)

lemmas kv_rules = kv_get_set kv_get_set_nx kv_set_nx_ok kv_get_del kv_get_expire

section \<open>Sorted sets\<close>

text \<open>\<open>z_score\<close> is ZSCORE: the program never issues it, the laws are stated through it.\<close>

record 'r zset_client =
  z_score :: "'r \<Rightarrow> ustr \<Rightarrow> ustr \<Rightarrow> rat option"
  z_card :: "'r \<Rightarrow> ustr \<Rightarrow> nat"
  z_add :: "'r \<Rightarrow> ustr \<Rightarrow> rat \<Rightarrow> ustr \<Rightarrow> 'r"
  z_rem :: "'r \<Rightarrow> ustr \<Rightarrow> ustr \<Rightarrow> 'r"
  z_rem_upto :: "'r \<Rightarrow> ustr \<Rightarrow> rat \<Rightarrow> 'r"

text \<open>The members whose score is above \<open>now\<close>.\<close>

definition live :: "rat \<Rightarrow> (ustr \<rightharpoonup> rat) \<Rightarrow> (ustr \<rightharpoonup> rat)" where
  "live now m = (\<lambda>k. case m k of None \<Rightarrow> None | Some e \<Rightarrow> if e > now then Some e else None)"

definition zset_laws :: "'r zset_client \<Rightarrow> bool" where
  "zset_laws c \<longleftrightarrow>
     (\<forall>r k. finite (dom (z_score c r k))) \<and>
     (\<forall>r k. z_card c r k = card (dom (z_score c r k))) \<and>
     (\<forall>r k e m k'. z_score c (z_add c r k e m) k' =
        (if k' = k then (z_score c r k)(m \<mapsto> e) else z_score c r k')) \<and>
     (\<forall>r k m k'. z_score c (z_rem c r k m) k' =
        (if k' = k then (z_score c r k)(m := None) else z_score c r k')) \<and>
     (\<forall>r k now k'. z_score c (z_rem_upto c r k now) k' =
        (if k' = k then live now (z_score c r k) else z_score c r k'))"

lemma z_finite: "zset_laws c \<Longrightarrow> finite (dom (z_score c r k))"
  by (simp add: zset_laws_def)

lemma z_card_eq: "zset_laws c \<Longrightarrow> z_card c r k = card (dom (z_score c r k))"
  by (simp add: zset_laws_def)

lemma z_score_add: "zset_laws c \<Longrightarrow> z_score c (z_add c r k e m) k' =
    (if k' = k then (z_score c r k)(m \<mapsto> e) else z_score c r k')"
  by (simp add: zset_laws_def)

lemma z_score_rem: "zset_laws c \<Longrightarrow> z_score c (z_rem c r k m) k' =
    (if k' = k then (z_score c r k)(m := None) else z_score c r k')"
  by (simp add: zset_laws_def)

lemma z_score_rem_upto: "zset_laws c \<Longrightarrow> z_score c (z_rem_upto c r k now) k' =
    (if k' = k then live now (z_score c r k) else z_score c r k')"
  by (simp add: zset_laws_def)

lemmas zset_rules = z_card_eq z_score_add z_score_rem z_score_rem_upto

lemma live_live: "now \<le> t \<Longrightarrow> live t (live now m) = live t m"
  by (auto simp: live_def fun_eq_iff split: option.splits)

lemma live_upd: "live t (m(k \<mapsto> e)) = (if e > t then (live t m)(k \<mapsto> e) else (live t m)(k := None))"
  by (auto simp: live_def fun_eq_iff)

lemma live_del: "live t (m(k := None)) = (live t m)(k := None)"
  by (auto simp: live_def fun_eq_iff)

lemma dom_live: "dom (live t m) \<subseteq> dom m"
  by (auto simp: live_def split: option.splits)

lemma live_mono: "t \<le> t' \<Longrightarrow> dom (live t' m) \<subseteq> dom (live t m)"
  by (auto simp: live_def split: option.splits if_splits)

lemma finite_live: "finite (dom m) \<Longrightarrow> finite (dom (live t m))"
  by (rule finite_subset [OF dom_live])

section \<open>Hashes of counters\<close>

record 'r hash_client =
  h_getall :: "'r \<Rightarrow> rat \<Rightarrow> ustr \<Rightarrow> (ustr \<rightharpoonup> int)"
  h_incrby :: "'r \<Rightarrow> rat \<Rightarrow> ustr \<Rightarrow> ustr \<Rightarrow> int \<Rightarrow> 'r"
  h_expire :: "'r \<Rightarrow> rat \<Rightarrow> ustr \<Rightarrow> rat \<Rightarrow> 'r"

definition counter :: "(ustr \<rightharpoonup> int) \<Rightarrow> ustr \<Rightarrow> int" where
  "counter m f = (case m f of None \<Rightarrow> 0 | Some n \<Rightarrow> n)"

definition hash_laws :: "'r hash_client \<Rightarrow> bool" where
  "hash_laws c \<longleftrightarrow>
     (\<forall>r now k f d k'. h_getall c (h_incrby c r now k f d) now k' =
        (if k' = k then (h_getall c r now k)(f \<mapsto> counter (h_getall c r now k) f + d)
         else h_getall c r now k')) \<and>
     (\<forall>r now k f d k' t. k' \<noteq> k \<longrightarrow> now \<le> t \<longrightarrow>
        h_getall c (h_incrby c r now k f d) t k' = h_getall c r t k') \<and>
     (\<forall>r now k d k' t. 0 < d \<longrightarrow> now \<le> t \<longrightarrow> h_getall c (h_expire c r now k d) t k' =
        (if k' = k then (if t < now + d then h_getall c r now k else Map.empty)
         else h_getall c r t k'))"

lemma h_getall_incrby: "hash_laws c \<Longrightarrow> h_getall c (h_incrby c r now k f d) now k' =
    (if k' = k then (h_getall c r now k)(f \<mapsto> counter (h_getall c r now k) f + d)
     else h_getall c r now k')"
  by (simp add: hash_laws_def)

lemma h_getall_incrby_other: "hash_laws c \<Longrightarrow> k' \<noteq> k \<Longrightarrow> now \<le> t \<Longrightarrow>
    h_getall c (h_incrby c r now k f d) t k' = h_getall c r t k'"
  by (simp add: hash_laws_def)

lemma h_getall_expire: "hash_laws c \<Longrightarrow> 0 < d \<Longrightarrow> now \<le> t \<Longrightarrow> h_getall c (h_expire c r now k d) t k' =
    (if k' = k then (if t < now + d then h_getall c r now k else Map.empty)
     else h_getall c r t k')"
  by (simp add: hash_laws_def)

section \<open>Clients that satisfy the laws, for witnesses\<close>

type_synonym 'v ref_store = "ustr \<Rightarrow> ('v \<times> rat option) option"
type_synonym ref_db = "ustr ref_store"

definition ref_get :: "'v ref_store \<Rightarrow> rat \<Rightarrow> ustr \<Rightarrow> 'v option" where
  "ref_get r t k = (case r k of None \<Rightarrow> None
     | Some (v, None) \<Rightarrow> Some v | Some (v, Some e) \<Rightarrow> if t < e then Some v else None)"

definition ref_kv :: "('v ref_store, 'v) kv_store" where
  "ref_kv = \<lparr>kv_get = ref_get,
     kv_set = (\<lambda>r now k v ttl. r(k \<mapsto> (v, map_option ((+) now) ttl))),
     kv_set_nx = (\<lambda>r now k v d. if ref_get r now k = None then (True, r(k \<mapsto> (v, Some (now + d))))
       else (False, r)),
     kv_del = (\<lambda>r now k. r(k := None)),
     kv_expire = (\<lambda>r now k d. case ref_get r now k of None \<Rightarrow> r(k := None)
       | Some v \<Rightarrow> r(k \<mapsto> (v, Some (now + d))))\<rparr>"

lemma ref_kv_laws: "kv_laws ref_kv"
  by (auto simp: kv_laws_def ref_kv_def ref_get_def until_def split: option.splits prod.splits if_splits)

type_synonym ref_zdb = "ustr \<Rightarrow> (ustr, rat) dict"

definition ref_zset :: "ref_zdb zset_client" where
  "ref_zset = \<lparr>z_score = (\<lambda>r k. map_of (r k)), z_card = (\<lambda>r k. card (dom (map_of (r k)))),
     z_add = (\<lambda>r k e m. r(k := AList.update m e (r k))),
     z_rem = (\<lambda>r k m. r(k := AList.delete m (r k))),
     z_rem_upto = (\<lambda>r k now. r(k := filter (\<lambda>(m, e). map_of (r k) m = Some e \<and> e > now) (r k)))\<rparr>"

lemma map_of_filter_current:
  "map_of (filter (\<lambda>(m, e). f m = Some e \<and> P e) xs) k =
     (case f k of None \<Rightarrow> None | Some e \<Rightarrow> if P e \<and> (k, e) \<in> set xs then Some e else None)"
  by (induction xs) (auto split: option.splits if_splits)

lemma ref_zset_laws: "zset_laws ref_zset"
  by (auto simp: zset_laws_def ref_zset_def live_def fun_eq_iff map_of_filter_current finite_dom_map_of
      split: option.splits dest: map_of_SomeD)

type_synonym ref_hdb = "ustr \<Rightarrow> (ustr \<rightharpoonup> int) \<times> rat option"

definition ref_hgetall :: "ref_hdb \<Rightarrow> rat \<Rightarrow> ustr \<Rightarrow> (ustr \<rightharpoonup> int)" where
  "ref_hgetall r t k = (case snd (r k) of None \<Rightarrow> fst (r k) | Some e \<Rightarrow> if t < e then fst (r k) else Map.empty)"

definition ref_hash :: "ref_hdb hash_client" where
  "ref_hash = \<lparr>h_getall = ref_hgetall,
     h_incrby = (\<lambda>r now k f d. let m = ref_hgetall r now k in
       r(k := (m(f \<mapsto> counter m f + d), if ref_hgetall r now k = Map.empty then None else snd (r k)))),
     h_expire = (\<lambda>r now k d. r(k := (ref_hgetall r now k, Some (now + d))))\<rparr>"

lemma ref_hash_laws: "hash_laws ref_hash"
  by (auto simp: hash_laws_def ref_hash_def ref_hgetall_def Let_def fun_eq_iff split: option.splits if_splits)

end
