(* ===== verification/Chat_Slots.thy ===== *)
theory Chat_Slots
  imports Redis_Client
begin

text \<open>
  Conversation slots: \<open>app/chat_slots.py\<close>. A slot is a lease (token, tenant, expiry); a store
  admits a conversation when fewer than \<open>global_limit\<close> leases are live and fewer than
  \<open>tenant_limit\<close> of the tenant's.

  The abstract specification is a map of leases (\<open>spec_\<close> operations). The interface both
  stores implement is the locale \<open>slot_store\<close>, over views of the store (its global and its
  per-tenant leases); inside it the stores are shown to answer as the specification does. It
  is interpreted on the in-process store (two dictionaries) and on the Redis store (the Lua
  scripts over two sorted sets). Tokens (\<open>uuid4\<close>) and clock readings are arguments.
\<close>

datatype busy_reason = Cluster | Tenant

section \<open>The abstract specification\<close>

type_synonym leases = "ustr \<rightharpoonup> ustr \<times> rat"

definition all_leases :: "leases \<Rightarrow> (ustr \<rightharpoonup> rat)" where
  "all_leases L = (\<lambda>k. map_option snd (L k))"

definition tenant_leases :: "leases \<Rightarrow> ustr \<Rightarrow> (ustr \<rightharpoonup> rat)" where
  "tenant_leases L tn = (\<lambda>k. case L k of None \<Rightarrow> None | Some (tn', e) \<Rightarrow> if tn' = tn then Some e else None)"

definition live_count :: "rat \<Rightarrow> (ustr \<rightharpoonup> rat) \<Rightarrow> int" where
  "live_count now m = int (card (dom (live now m)))"

definition spec_acquire ::
  "leases \<Rightarrow> ustr \<Rightarrow> int \<Rightarrow> int \<Rightarrow> int \<Rightarrow> rat \<Rightarrow> ustr \<Rightarrow> (busy_reason + ustr) \<times> leases" where
  "spec_acquire L tn glim tlim ttl now tok =
     (if live_count now (all_leases L) \<ge> glim then (Inl Cluster, L)
      else if live_count now (tenant_leases L tn) \<ge> tlim then (Inl Tenant, L)
      else (Inr tok, L(tok \<mapsto> (tn, now + of_int (max 1 ttl)))))"

definition spec_release :: "leases \<Rightarrow> ustr \<Rightarrow> ustr \<Rightarrow> leases" where
  "spec_release L tn tok = L(tok := None)"

section \<open>Sequences of operations\<close>

datatype slot_op = Acquire ustr rat ustr | Release ustr ustr | Count rat

datatype slot_result = Granted ustr | Busy busy_reason | Released | InFlight int

record slot_limits =
  global_limit :: int
  tenant_limit :: int
  slot_ttl :: int

definition acquired :: "busy_reason + ustr \<Rightarrow> slot_result" where
  "acquired r = (case r of Inl b \<Rightarrow> Busy b | Inr tok \<Rightarrow> Granted tok)"

fun slot_run ::
  "('s \<Rightarrow> ustr \<Rightarrow> int \<Rightarrow> int \<Rightarrow> int \<Rightarrow> rat \<Rightarrow> ustr \<Rightarrow> (busy_reason + ustr) \<times> 's) \<Rightarrow>
   ('s \<Rightarrow> ustr \<Rightarrow> ustr \<Rightarrow> 's) \<Rightarrow> ('s \<Rightarrow> rat \<Rightarrow> int \<times> 's) \<Rightarrow>
   slot_limits \<Rightarrow> 's \<Rightarrow> slot_op list \<Rightarrow> slot_result list" where
  "slot_run acq rel cnt lims s [] = []"
| "slot_run acq rel cnt lims s (Acquire tn now tok # ops) =
     (let (r, s') = acq s tn (global_limit lims) (tenant_limit lims) (slot_ttl lims) now tok
      in acquired r # slot_run acq rel cnt lims s' ops)"
| "slot_run acq rel cnt lims s (Release tn tok # ops) =
     Released # slot_run acq rel cnt lims (rel s tn tok) ops"
| "slot_run acq rel cnt lims s (Count now # ops) =
     (let (n, s') = cnt s now in InFlight n # slot_run acq rel cnt lims s' ops)"

fun slot_after ::
  "('s \<Rightarrow> ustr \<Rightarrow> int \<Rightarrow> int \<Rightarrow> int \<Rightarrow> rat \<Rightarrow> ustr \<Rightarrow> (busy_reason + ustr) \<times> 's) \<Rightarrow>
   ('s \<Rightarrow> ustr \<Rightarrow> ustr \<Rightarrow> 's) \<Rightarrow> ('s \<Rightarrow> rat \<Rightarrow> int \<times> 's) \<Rightarrow>
   slot_limits \<Rightarrow> 's \<Rightarrow> slot_op list \<Rightarrow> 's" where
  "slot_after acq rel cnt lims s [] = s"
| "slot_after acq rel cnt lims s (Acquire tn now tok # ops) = slot_after acq rel cnt lims
     (snd (acq s tn (global_limit lims) (tenant_limit lims) (slot_ttl lims) now tok)) ops"
| "slot_after acq rel cnt lims s (Release tn tok # ops) = slot_after acq rel cnt lims (rel s tn tok) ops"
| "slot_after acq rel cnt lims s (Count now # ops) = slot_after acq rel cnt lims (snd (cnt s now)) ops"

text \<open>The clock after the last operation.\<close>

fun last_clock :: "rat \<Rightarrow> slot_op list \<Rightarrow> rat" where
  "last_clock clock [] = clock"
| "last_clock clock (Acquire tn now tok # ops) = last_clock now ops"
| "last_clock clock (Release tn tok # ops) = last_clock clock ops"
| "last_clock clock (Count now # ops) = last_clock now ops"

definition spec_count :: "leases \<Rightarrow> rat \<Rightarrow> int \<times> leases" where
  "spec_count L now = (live_count now (all_leases L), L)"

text \<open>
  What the callers guarantee: the clock does not go back, tokens are fresh and a slot is
  released by the tenant that took it (\<open>_release_chat_slot\<close> gets both from \<open>achat\<close>).
\<close>

fun ops_ok :: "slot_limits \<Rightarrow> rat \<Rightarrow> leases \<Rightarrow> slot_op list \<Rightarrow> bool" where
  "ops_ok lims clock L [] = True"
| "ops_ok lims clock L (Acquire tn now tok # ops) =
     (clock \<le> now \<and> L tok = None \<and>
      ops_ok lims now (snd (spec_acquire L tn (global_limit lims) (tenant_limit lims) (slot_ttl lims) now tok)) ops)"
| "ops_ok lims clock L (Release tn tok # ops) =
     ((case L tok of None \<Rightarrow> True | Some (tn', e) \<Rightarrow> tn' = tn) \<and>
      ops_ok lims clock (spec_release L tn tok) ops)"
| "ops_ok lims clock L (Count now # ops) = (clock \<le> now \<and> ops_ok lims now L ops)"

section \<open>The specification respects the limits\<close>

definition within_limits :: "slot_limits \<Rightarrow> rat \<Rightarrow> leases \<Rightarrow> bool" where
  "within_limits lims t L \<longleftrightarrow> finite (dom L) \<and> live_count t (all_leases L) \<le> global_limit lims \<and>
     (\<forall>tn. live_count t (tenant_leases L tn) \<le> tenant_limit lims)"

lemma dom_leases: "dom (all_leases L) = dom L" "dom (tenant_leases L tn) \<subseteq> dom L"
  by (auto simp: all_leases_def tenant_leases_def split: option.splits)

lemma live_count_mono:
  "finite (dom m) \<Longrightarrow> t \<le> t' \<Longrightarrow> live_count t' m \<le> live_count t m"
  unfolding live_count_def by (intro of_nat_mono card_mono finite_live live_mono)

lemma live_count_upd: "finite (dom m) \<Longrightarrow> live_count t (m(k \<mapsto> e)) \<le> live_count t m + 1"
proof -
  assume "finite (dom m)"
  then have fin: "finite (dom (live t m))" by (rule finite_live)
  have "card (dom (live t (m(k \<mapsto> e)))) \<le> card (insert k (dom (live t m)))"
    using fin by (intro card_mono) (auto simp: live_upd)
  also have "\<dots> \<le> Suc (card (dom (live t m)))" by (simp add: card_insert_le_m1 card_insert_if fin)
  finally show ?thesis by (simp add: live_count_def)
qed

lemma live_count_del: "finite (dom m) \<Longrightarrow> live_count t (m(k := None)) \<le> live_count t m"
  unfolding live_count_def live_del by (intro of_nat_mono card_mono finite_live) auto

lemma leases_upd:
  "all_leases (L(k \<mapsto> (tn, e))) = (all_leases L)(k \<mapsto> e)"
  "L k = None \<Longrightarrow> tenant_leases (L(k \<mapsto> (tn, e))) tn' =
    (if tn' = tn then (tenant_leases L tn)(k \<mapsto> e) else tenant_leases L tn')"
  "all_leases (L(k := None)) = (all_leases L)(k := None)"
  "tenant_leases (L(k := None)) tn' = (tenant_leases L tn')(k := None)"
  by (auto simp: all_leases_def tenant_leases_def fun_eq_iff)

lemma within_finite:
  "within_limits lims t L \<Longrightarrow> finite (dom (all_leases L)) \<and> finite (dom (tenant_leases L tn))"
  unfolding within_limits_def by (auto intro: finite_subset [OF dom_leases(2)] simp: dom_leases(1))

lemma within_later:
  assumes "within_limits lims t L" and "t \<le> t'"
  shows "within_limits lims t' L"
  using assms live_count_mono [OF _ assms(2)] within_finite [OF assms(1)]
  unfolding within_limits_def by (meson order_trans)

lemma within_acquire:
  assumes "within_limits lims now L" and "L tok = None"
  shows "within_limits lims now
    (snd (spec_acquire L tn (global_limit lims) (tenant_limit lims) ttl now tok))"
proof (cases "live_count now (all_leases L) \<ge> global_limit lims
    \<or> live_count now (tenant_leases L tn) \<ge> tenant_limit lims")
  case True
  with assms show ?thesis by (auto simp: spec_acquire_def)
next
  case False
  let ?e = "now + of_int (max 1 ttl)"
  from within_finite [OF assms(1)] have "live_count now ((all_leases L)(tok \<mapsto> ?e)) \<le> global_limit lims"
    and "live_count now ((tenant_leases L tn)(tok \<mapsto> ?e)) \<le> tenant_limit lims"
    using live_count_upd [of "all_leases L" now tok ?e] live_count_upd [of "tenant_leases L tn" now tok ?e] False
    by force+
  with False assms show ?thesis
    by (auto simp: spec_acquire_def within_limits_def leases_upd)
qed

lemma within_release:
  assumes "within_limits lims t L"
  shows "within_limits lims t (spec_release L tn tok)"
  using assms within_finite [OF assms] live_count_del [of _ t tok]
  unfolding within_limits_def spec_release_def leases_upd by (auto intro: order_trans)

lemma spec_run_within:
  "within_limits lims clock L \<Longrightarrow> ops_ok lims clock L ops \<Longrightarrow>
     within_limits lims (last_clock clock ops)
       (slot_after spec_acquire spec_release spec_count lims L ops)"
proof (induction ops arbitrary: clock L)
  case Nil
  then show ?case by simp
next
  case (Cons x ops)
  show ?case
  proof (cases x)
    case (Acquire tn now tok)
    with Cons.prems have "within_limits lims now
        (snd (spec_acquire L tn (global_limit lims) (tenant_limit lims) (slot_ttl lims) now tok))"
      by (auto intro: within_acquire within_later)
    with Cons Acquire show ?thesis by simp
  next
    case (Release tn tok)
    with Cons within_release show ?thesis by simp
  next
    case (Count now)
    with Cons.prems have "within_limits lims now L" by (auto intro: within_later)
    with Cons Count show ?thesis by (simp add: spec_count_def)
  qed
qed

lemma within_empty:
  "global_limit lims \<ge> 1 \<Longrightarrow> tenant_limit lims \<ge> 1 \<Longrightarrow> within_limits lims t Map.empty"
  by (simp add: within_limits_def live_count_def live_def all_leases_def tenant_leases_def)

section \<open>The interface\<close>

locale slot_store =
  fixes acquire :: "'s \<Rightarrow> ustr \<Rightarrow> int \<Rightarrow> int \<Rightarrow> int \<Rightarrow> rat \<Rightarrow> ustr \<Rightarrow> (busy_reason + ustr) \<times> 's"
    and release :: "'s \<Rightarrow> ustr \<Rightarrow> ustr \<Rightarrow> 's"
    and in_flight :: "'s \<Rightarrow> rat \<Rightarrow> int \<times> 's"
    and glob :: "'s \<Rightarrow> ustr \<rightharpoonup> rat"
    and ten :: "'s \<Rightarrow> ustr \<Rightarrow> (ustr \<rightharpoonup> rat)"
    and inv :: "'s \<Rightarrow> bool"
  assumes acquire_result: "inv s \<Longrightarrow> fst (acquire s tn glim tlim ttl now tok) =
        (if live_count now (glob s) \<ge> glim then Inl Cluster
         else if live_count now (ten s tn) \<ge> tlim then Inl Tenant else Inr tok)"
    and acquire_busy: "inv s \<Longrightarrow> acquire s tn glim tlim ttl now tok = (Inl b, s') \<Longrightarrow> now \<le> t \<Longrightarrow>
        live t (glob s') = live t (glob s) \<and> live t (ten s' tn') = live t (ten s tn')"
    and acquire_granted: "inv s \<Longrightarrow> acquire s tn glim tlim ttl now tok = (Inr tok, s') \<Longrightarrow> now \<le> t \<Longrightarrow>
        live t (glob s') = live t ((glob s)(tok \<mapsto> now + of_int (max 1 ttl))) \<and>
        live t (ten s' tn') = live t (if tn' = tn then (ten s tn)(tok \<mapsto> now + of_int (max 1 ttl)) else ten s tn')"
    and acquire_raw: "inv s \<Longrightarrow> acquire s tn glim tlim ttl now tok = (r, s') \<Longrightarrow>
        (glob s' k = Some e \<longrightarrow> glob s k = Some e \<or> r = Inr k) \<and>
        (ten s' tn' k = Some e \<longrightarrow> ten s tn' k = Some e \<or> (r = Inr k \<and> tn' = tn))"
    and acquire_inv: "inv s \<Longrightarrow> glob s tok = None \<Longrightarrow> (\<And>tn'. ten s tn' tok = None) \<Longrightarrow>
        inv (snd (acquire s tn glim tlim ttl now tok))"
    and release_views: "inv s \<Longrightarrow> glob (release s tn tok) = (glob s)(tok := None) \<and>
        ten (release s tn tok) tn' = (if tn' = tn then (ten s tn)(tok := None) else ten s tn')"
    and release_inv: "inv s \<Longrightarrow> (\<And>tn'. tn' \<noteq> tn \<Longrightarrow> ten s tn' tok = None) \<Longrightarrow> inv (release s tn tok)"
    and count_result: "inv s \<Longrightarrow> fst (in_flight s now) = live_count now (glob s)"
    and count_live: "inv s \<Longrightarrow> in_flight s now = (n, s') \<Longrightarrow> now \<le> t \<Longrightarrow>
        live t (glob s') = live t (glob s) \<and> live t (ten s' tn') = live t (ten s tn')"
    and count_raw: "inv s \<Longrightarrow> in_flight s now = (n, s') \<Longrightarrow>
        (glob s' k = Some e \<longrightarrow> glob s k = Some e) \<and> (ten s' tn' k = Some e \<longrightarrow> ten s tn' k = Some e)"
    and count_inv: "inv s \<Longrightarrow> inv (snd (in_flight s now))"
begin

text \<open>The store represents the leases \<open>L\<close> from time \<open>now\<close> on.\<close>

definition represents :: "rat \<Rightarrow> leases \<Rightarrow> 's \<Rightarrow> bool" where
  "represents now L s \<longleftrightarrow> inv s \<and>
     (\<forall>t \<ge> now. live t (glob s) = live t (all_leases L) \<and>
        (\<forall>tn. live t (ten s tn) = live t (tenant_leases L tn))) \<and>
     (\<forall>k e. glob s k = Some e \<longrightarrow> L k \<noteq> None) \<and>
     (\<forall>tn k e. ten s tn k = Some e \<longrightarrow> (\<exists>e'. L k = Some (tn, e')))"

lemma represents_counts:
  "represents clock L s \<Longrightarrow> clock \<le> now \<Longrightarrow>
     live_count now (glob s) = live_count now (all_leases L) \<and>
     live_count now (ten s tn) = live_count now (tenant_leases L tn)"
  by (simp add: represents_def live_count_def)

lemma represents_later: "represents clock L s \<Longrightarrow> clock \<le> now \<Longrightarrow> represents now L s"
  unfolding represents_def by (meson order_trans)

lemma fresh_views: "represents clock L s \<Longrightarrow> L tok = None \<Longrightarrow> glob s tok = None \<and> ten s tn tok = None"
  unfolding represents_def by (metis not_None_eq option.distinct(1))

lemma acquire_refines:
  assumes rep: "represents clock L s" and clock: "clock \<le> now" and fresh: "L tok = None"
    and acq: "acquire s tn glim tlim ttl now tok = (r, s')"
    and spec: "spec_acquire L tn glim tlim ttl now tok = (r', L')"
  shows "r = r' \<and> represents now L' s'"
proof -
  from rep have inv: "inv s" by (simp add: represents_def)
  have r: "r = r'"
    using acquire_result [OF inv, of tn glim tlim ttl now tok] acq spec represents_counts [OF rep clock]
    by (auto simp: spec_acquire_def split: if_splits)
  from fresh_views [OF rep fresh] have inv': "inv s'"
    using acquire_inv [OF inv, of tok tn glim tlim ttl now] acq by simp
  note raw = acquire_raw [OF inv acq]
  from represents_later [OF rep clock] have rep': "represents now L s" .
  have "represents now L' s'"
  proof (cases r')
    case (Inl b)
    with spec have L': "L' = L" by (auto simp: spec_acquire_def split: if_splits)
    from acq r Inl have acq': "acquire s tn glim tlim ttl now tok = (Inl b, s')" by simp
    note views = acquire_busy [OF inv acq']
    show ?thesis
      unfolding represents_def L'
      using inv' rep' raw r Inl views by (auto simp: represents_def)
  next
    case (Inr k)
    with spec have k: "k = tok" and L': "L' = L(tok \<mapsto> (tn, now + of_int (max 1 ttl)))"
      by (auto simp: spec_acquire_def split: if_splits)
    from acq r Inr k have acq': "acquire s tn glim tlim ttl now tok = (Inr tok, s')" by simp
    note views = acquire_granted [OF inv acq']
    have lv: "live t (glob s') = live t (all_leases L') \<and> live t (ten s' tn') = live t (tenant_leases L' tn')"
      if t: "now \<le> t" for t tn'
      using views [OF t, of tn'] rep' t unfolding L' represents_def
      by (simp add: leases_upd(1) leases_upd(2) [of L, OF fresh] live_upd)
    have g: "L' k' \<noteq> None" if "glob s' k' = Some e" for k' e
      using that raw [of k' e] rep' r Inr k unfolding L' represents_def by auto
    have t: "\<exists>e'. L' k' = Some (tn', e')" if "ten s' tn' k' = Some e" for tn' k' e
    proof (cases "k' = tok")
      case True
      with that raw [of k' e tn'] fresh_views [OF rep fresh, of tn'] show ?thesis
        by (auto simp: L')
    next
      case False
      with that raw [of k' e tn'] r Inr k have "ten s tn' k' = Some e" by auto
      with rep' False show ?thesis by (auto simp: represents_def L')
    qed
    show ?thesis unfolding represents_def using inv' lv g t by blast
  qed
  with r show ?thesis by blast
qed

lemma release_refines:
  assumes rep: "represents now L s"
    and own: "case L tok of None \<Rightarrow> True | Some (tn', e) \<Rightarrow> tn' = tn"
  shows "represents now (spec_release L tn tok) (release s tn tok)"
proof -
  from rep have inv: "inv s" by (simp add: represents_def)
  have other: "ten s tn' tok = None" if "tn' \<noteq> tn" for tn'
  proof (rule ccontr)
    assume "ten s tn' tok \<noteq> None"
    then obtain e where "ten s tn' tok = Some e" by blast
    with rep obtain e' where "L tok = Some (tn', e')" unfolding represents_def by blast
    with own that show False by simp
  qed
  from release_inv [OF inv other] have inv': "inv (release s tn tok)" .
  note views = release_views [OF inv]
  have all: "all_leases (L(tok := None)) = (all_leases L)(tok := None)"
    by (simp add: all_leases_def fun_eq_iff)
  have ten: "tenant_leases (L(tok := None)) tn' = (tenant_leases L tn')(tok := None)" for tn'
    by (simp add: tenant_leases_def fun_eq_iff)
  have lv: "live t (glob (release s tn tok)) = live t (all_leases (L(tok := None))) \<and>
      live t (ten (release s tn tok) tn') = live t (tenant_leases (L(tok := None)) tn')"
    if "now \<le> t" for t tn'
  proof -
    have nolease: "live t (tenant_leases L tn') tok = None" if "tn' \<noteq> tn"
      using own that by (auto simp: live_def tenant_leases_def split: option.splits)
    then have "tn' \<noteq> tn \<Longrightarrow> (live t (tenant_leases L tn'))(tok := None) = live t (tenant_leases L tn')"
      by (simp add: fun_upd_idem)
    with that rep views [of tn tok tn'] show ?thesis
      by (simp add: all ten live_del represents_def)
  qed
  have raw: "(L(tok := None)) k \<noteq> None" if "glob (release s tn tok) k = Some e" for k e
    using that rep views [of tn tok] by (auto simp: represents_def split: if_splits)
  have rawt: "\<exists>e'. (L(tok := None)) k = Some (tn', e')" if "ten (release s tn tok) tn' k = Some e" for tn' k e
    using that rep views [of tn tok tn'] other [of tn'] by (auto simp: represents_def split: if_splits)
  show ?thesis
    unfolding represents_def spec_release_def using inv' lv raw rawt by blast
qed

lemma count_refines:
  assumes rep: "represents clock L s" and clock: "clock \<le> now" and cnt: "in_flight s now = (n, s')"
  shows "n = live_count now (all_leases L) \<and> represents now L s'"
proof -
  from rep have inv: "inv s" by (simp add: represents_def)
  from represents_later [OF rep clock] have rep': "represents now L s" .
  have "n = live_count now (all_leases L)"
    using count_result [OF inv, of now] cnt represents_counts [OF rep clock] by simp
  moreover have "represents now L s'"
    using rep' count_live [OF inv cnt] count_raw [OF inv cnt] count_inv [OF inv, of now] cnt
    by (auto simp: represents_def)
  ultimately show ?thesis by blast
qed

lemma run_refines:
  "represents clock L s \<Longrightarrow> ops_ok lims clock L ops \<Longrightarrow>
     slot_run acquire release in_flight lims s ops = slot_run spec_acquire spec_release spec_count lims L ops"
proof (induction ops arbitrary: clock L s)
  case Nil
  then show ?case by simp
next
  case (Cons x ops)
  show ?case
  proof (cases x)
    case (Acquire tn now tok)
    obtain r s' where a: "acquire s tn (global_limit lims) (tenant_limit lims) (slot_ttl lims) now tok = (r, s')"
      by fastforce
    obtain r' L' where sp: "spec_acquire L tn (global_limit lims) (tenant_limit lims) (slot_ttl lims) now tok = (r', L')"
      by fastforce
    from Cons.prems Acquire sp have ok: "clock \<le> now" "L tok = None" "ops_ok lims now L' ops" by auto
    from acquire_refines [OF Cons.prems(1) ok(1,2) a sp] have "r = r'" and "represents now L' s'" by auto
    with Cons.IH [OF _ ok(3)] Acquire a sp show ?thesis by simp
  next
    case (Release tn tok)
    with Cons.prems have own: "case L tok of None \<Rightarrow> True | Some (tn', e) \<Rightarrow> tn' = tn"
      and ok: "ops_ok lims clock (spec_release L tn tok) ops" by auto
    from Cons.IH [OF release_refines [OF Cons.prems(1) own] ok] Release show ?thesis by simp
  next
    case (Count now)
    obtain n s' where c: "in_flight s now = (n, s')" by fastforce
    from Cons.prems Count have ok: "clock \<le> now" "ops_ok lims now L ops" by auto
    from count_refines [OF Cons.prems(1) ok(1) c] Cons.IH [OF _ ok(2)] Count c show ?thesis
      by (simp add: spec_count_def)
  qed
qed

lemma after_refines:
  "represents clock L s \<Longrightarrow> ops_ok lims clock L ops \<Longrightarrow>
     represents (last_clock clock ops) (slot_after spec_acquire spec_release spec_count lims L ops)
       (slot_after acquire release in_flight lims s ops)"
proof (induction ops arbitrary: clock L s)
  case Nil
  then show ?case by simp
next
  case (Cons x ops)
  show ?case
  proof (cases x)
    case (Acquire tn now tok)
    obtain r s' where a: "acquire s tn (global_limit lims) (tenant_limit lims) (slot_ttl lims) now tok = (r, s')"
      by fastforce
    obtain r' L' where sp: "spec_acquire L tn (global_limit lims) (tenant_limit lims) (slot_ttl lims) now tok = (r', L')"
      by fastforce
    from Cons.prems Acquire sp have ok: "clock \<le> now" "L tok = None" "ops_ok lims now L' ops" by auto
    from acquire_refines [OF Cons.prems(1) ok(1,2) a sp] have "represents now L' s'" by simp
    from Cons.IH [OF this ok(3)] Acquire a sp show ?thesis by simp
  next
    case (Release tn tok)
    with Cons.prems have own: "case L tok of None \<Rightarrow> True | Some (tn', e) \<Rightarrow> tn' = tn"
      and ok: "ops_ok lims clock (spec_release L tn tok) ops" by auto
    from Cons.IH [OF release_refines [OF Cons.prems(1) own] ok] Release show ?thesis by simp
  next
    case (Count now)
    obtain n s' where c: "in_flight s now = (n, s')" by fastforce
    from Cons.prems Count have ok: "clock \<le> now" "ops_ok lims now L ops" by auto
    from count_refines [OF Cons.prems(1) ok(1) c] Cons.IH [OF _ ok(2)] Count c show ?thesis
      by (simp add: spec_count_def)
  qed
qed

lemma run_within_limits:
  assumes rep: "represents clock Map.empty s" and ok: "ops_ok lims clock Map.empty ops"
    and pos: "global_limit lims \<ge> 1" "tenant_limit lims \<ge> 1" and t: "last_clock clock ops \<le> t"
  shows "live_count t (glob (slot_after acquire release in_flight lims s ops)) \<le> global_limit lims \<and>
    live_count t (ten (slot_after acquire release in_flight lims s ops) tn) \<le> tenant_limit lims"
proof -
  let ?L = "slot_after spec_acquire spec_release spec_count lims Map.empty ops"
  from within_later [OF spec_run_within [OF within_empty [OF pos] ok] t]
  have "within_limits lims t ?L" .
  with represents_counts [OF after_refines [OF rep ok] t] show ?thesis
    by (simp add: within_limits_def)
qed

end

section \<open>The in-process store\<close>

text \<open>\<open>MemoryChatSlotStore\<close>: \<open>_global\<close> maps tokens to expiry, \<open>_tenants\<close> tenants to such maps.\<close>

record memory_slots =
  globals :: "(ustr, rat) dict"
  tenants :: "(ustr, (ustr, rat) dict) dict"

definition drop_token :: "memory_slots \<Rightarrow> ustr \<Rightarrow> memory_slots" where
  "drop_token s tok = \<lparr>globals = AList.delete tok (globals s),
     tenants = map (\<lambda>(tn, held). (tn, AList.delete tok held)) (tenants s)\<rparr>"

definition mem_purge :: "rat \<Rightarrow> memory_slots \<Rightarrow> memory_slots" where
  "mem_purge now s =
     (let stale = map fst (filter (\<lambda>(tok, e). e \<le> now) (globals s))
      in foldl drop_token s stale)"

definition held_by :: "memory_slots \<Rightarrow> ustr \<Rightarrow> (ustr, rat) dict" where
  "held_by s tn = (case map_of (tenants s) tn of None \<Rightarrow> [] | Some held \<Rightarrow> held)"

definition mem_acquire ::
  "memory_slots \<Rightarrow> ustr \<Rightarrow> int \<Rightarrow> int \<Rightarrow> int \<Rightarrow> rat \<Rightarrow> ustr \<Rightarrow> (busy_reason + ustr) \<times> memory_slots" where
  "mem_acquire s tn glim tlim ttl now tok =
     (let expire_at = now + of_int (max 1 ttl);
          s1 = mem_purge now s
      in if int (length (globals s1)) \<ge> glim then (Inl Cluster, s1)
         else
           let held = held_by s1 tn;
               s2 = s1\<lparr>tenants := AList.update tn held (tenants s1)\<rparr>
           in if int (length held) \<ge> tlim then (Inl Tenant, s2)
              else (Inr tok, s2\<lparr>globals := AList.update tok expire_at (globals s2),
                                tenants := AList.update tn (AList.update tok expire_at held) (tenants s2)\<rparr>))"

definition mem_release :: "memory_slots \<Rightarrow> ustr \<Rightarrow> ustr \<Rightarrow> memory_slots" where
  "mem_release s tn tok =
     (let s1 = s\<lparr>globals := AList.delete tok (globals s)\<rparr>
      in case map_of (tenants s1) tn of
           None \<Rightarrow> s1
         | Some held \<Rightarrow> s1\<lparr>tenants := AList.update tn (AList.delete tok held) (tenants s1)\<rparr>)"

definition mem_in_flight :: "memory_slots \<Rightarrow> rat \<Rightarrow> int \<times> memory_slots" where
  "mem_in_flight s now = (let s1 = mem_purge now s in (int (length (globals s1)), s1))"

definition mem_glob :: "memory_slots \<Rightarrow> ustr \<rightharpoonup> rat" where
  "mem_glob s = map_of (globals s)"

definition mem_ten :: "memory_slots \<Rightarrow> ustr \<Rightarrow> (ustr \<rightharpoonup> rat)" where
  "mem_ten s tn = map_of (held_by s tn)"

text \<open>Well-formed dictionaries, and every tenant's token is a global one with the same expiry.\<close>

definition mem_inv :: "memory_slots \<Rightarrow> bool" where
  "mem_inv s \<longleftrightarrow> dict_ok (globals s) \<and> (\<forall>tn. dict_ok (held_by s tn)) \<and>
     (\<forall>tn k e. mem_ten s tn k = Some e \<longrightarrow> mem_glob s k = Some e)"

definition no_slots :: memory_slots where
  "no_slots = \<lparr>globals = [], tenants = []\<rparr>"

lemma map_of_map_snd: "map_of (map (\<lambda>(k, v). (k, f v)) xs) k = map_option f (map_of xs k)"
  by (induction xs) auto

lemma drop_token_views [simp]:
  "globals (drop_token s tok) = AList.delete tok (globals s)"
  "held_by (drop_token s tok) tn = AList.delete tok (held_by s tn)"
  by (auto simp: drop_token_def held_by_def map_of_map_snd split: option.splits)

lemma foldl_drop:
  "globals (foldl drop_token s toks) = filter (\<lambda>p. fst p \<notin> set toks) (globals s)"
  "held_by (foldl drop_token s toks) tn = filter (\<lambda>p. fst p \<notin> set toks) (held_by s tn)"
  by (induction toks arbitrary: s) (auto simp: AList.delete_eq intro!: filter_cong)

lemma map_of_drop_keys: "map_of (filter (\<lambda>p. fst p \<notin> K) xs) k = (if k \<in> K then None else map_of xs k)"
  by (induction xs) auto

lemma stale_iff:
  "dict_ok d \<Longrightarrow> k \<in> set (map fst (filter (\<lambda>(tok, e). e \<le> now) d)) \<longleftrightarrow> (\<exists>e. map_of d k = Some e \<and> e \<le> now)"
  unfolding dict_ok_def by (force simp: map_of_eq_Some_iff)

lemma purge_views:
  assumes "mem_inv s"
  shows "mem_glob (mem_purge now s) = live now (mem_glob s)"
    and "mem_ten (mem_purge now s) tn = live now (mem_ten s tn)"
proof -
  from assms have ok: "dict_ok (globals s)" by (simp add: mem_inv_def)
  show "mem_glob (mem_purge now s) = live now (mem_glob s)"
    unfolding mem_glob_def mem_purge_def Let_def foldl_drop map_of_drop_keys fun_eq_iff
    unfolding stale_iff [OF ok]
    by (auto simp: live_def split: option.splits)
  show "mem_ten (mem_purge now s) tn = live now (mem_ten s tn)"
  proof
    fix k
    have "map_of (held_by s tn) k = Some e \<Longrightarrow> map_of (globals s) k = Some e" for e
      using assms by (auto simp: mem_inv_def mem_ten_def mem_glob_def)
    then show "mem_ten (mem_purge now s) tn k = live now (mem_ten s tn) k"
      unfolding mem_ten_def mem_purge_def Let_def foldl_drop map_of_drop_keys
      unfolding stale_iff [OF ok]
      by (auto simp: live_def split: option.splits)
  qed
qed

lemma purge_ok:
  assumes "mem_inv s"
  shows "dict_ok (globals (mem_purge now s))" and "dict_ok (held_by (mem_purge now s) tn)"
  using assms by (auto simp: mem_inv_def mem_purge_def foldl_drop dict_ok_def distinct_map_filter)

lemma purge_inv: "mem_inv s \<Longrightarrow> mem_inv (mem_purge now s)"
  unfolding mem_inv_def [of "mem_purge now s"]
  using purge_ok purge_views
  by (auto simp: live_def mem_inv_def split: option.splits if_splits)

lemma length_dict: "dict_ok d \<Longrightarrow> length d = card (dom (map_of d))"
  unfolding dict_ok_def dom_map_of_conv_image_fst by (metis distinct_card length_map list.set_map)

lemma purge_counts:
  assumes "mem_inv s"
  shows "int (length (globals (mem_purge now s))) = live_count now (mem_glob s)"
    and "int (length (held_by (mem_purge now s) tn)) = live_count now (mem_ten s tn)"
  using length_dict [OF purge_ok(1) [OF assms]] length_dict [OF purge_ok(2) [OF assms]]
    purge_views [OF assms]
  by (simp_all add: live_count_def mem_glob_def mem_ten_def)

lemma held_by_update: "held_by (s\<lparr>tenants := AList.update tn h (tenants s)\<rparr>) tn' = (if tn' = tn then h else held_by s tn')"
  by (simp add: held_by_def)

lemma held_by_globals [simp]: "held_by (s\<lparr>globals := g\<rparr>) tn = held_by s tn"
  by (simp add: held_by_def)

definition grant :: "memory_slots \<Rightarrow> ustr \<Rightarrow> ustr \<Rightarrow> rat \<Rightarrow> memory_slots" where
  "grant p tn tok e = \<lparr>globals = AList.update tok e (globals p),
     tenants = AList.update tn (AList.update tok e (held_by p tn)) (tenants p)\<rparr>"

lemma grant_views:
  "mem_glob (grant p tn tok e) = (mem_glob p)(tok \<mapsto> e)"
  "mem_ten (grant p tn tok e) tn' = (if tn' = tn then (mem_ten p tn)(tok \<mapsto> e) else mem_ten p tn')"
  "held_by (grant p tn tok e) tn' = (if tn' = tn then AList.update tok e (held_by p tn) else held_by p tn')"
  "globals (grant p tn tok e) = AList.update tok e (globals p)"
  by (simp_all add: grant_def mem_glob_def mem_ten_def held_by_def)

lemma mem_acquire_cases:
  assumes "mem_inv s"
  shows "mem_acquire s tn glim tlim ttl now tok =
    (if live_count now (mem_glob s) \<ge> glim then (Inl Cluster, mem_purge now s)
     else if live_count now (mem_ten s tn) \<ge> tlim
       then (Inl Tenant, (mem_purge now s)\<lparr>tenants := AList.update tn (held_by (mem_purge now s) tn)
           (tenants (mem_purge now s))\<rparr>)
     else (Inr tok, grant (mem_purge now s) tn tok (now + of_int (max 1 ttl))))"
  using purge_counts [OF assms] by (simp add: mem_acquire_def grant_def Let_def)

lemma busy_views:
  "mem_glob (s\<lparr>tenants := AList.update tn (held_by s tn) (tenants s)\<rparr>) = mem_glob s"
  "mem_ten (s\<lparr>tenants := AList.update tn (held_by s tn) (tenants s)\<rparr>) tn' = mem_ten s tn'"
  by (simp_all add: mem_glob_def mem_ten_def held_by_update)

lemma mem_acquire_inv:
  assumes inv: "mem_inv s" and fresh: "mem_glob s tok = None" "\<And>tn'. mem_ten s tn' tok = None"
  shows "mem_inv (snd (mem_acquire s tn glim tlim ttl now tok))"
proof -
  let ?p = "mem_purge now s"
  from purge_inv [OF inv] have p: "mem_inv ?p" .
  have busy: "mem_inv (?p\<lparr>tenants := AList.update tn (held_by ?p tn) (tenants ?p)\<rparr>)"
    using p by (simp add: mem_inv_def busy_views held_by_update)
  have fresh': "mem_glob ?p tok = None" "mem_ten ?p tn' tok = None" for tn'
    using fresh purge_views [OF inv] by (simp_all add: live_def)
  have granted: "mem_inv (grant ?p tn tok e)" for e
    using p fresh' unfolding mem_inv_def grant_views by (auto split: if_splits)
  show ?thesis using p busy granted by (simp add: mem_acquire_cases [OF inv])
qed

lemma mem_release_views:
  "mem_glob (mem_release s tn tok) = (mem_glob s)(tok := None)"
  "mem_ten (mem_release s tn tok) tn' = (if tn' = tn then (mem_ten s tn)(tok := None) else mem_ten s tn')"
  by (auto simp: mem_release_def mem_glob_def mem_ten_def held_by_def Let_def fun_eq_iff split: option.splits)

lemma mem_release_held:
  "held_by (mem_release s tn tok) tn' = (if tn' = tn then AList.delete tok (held_by s tn) else held_by s tn')"
  by (auto simp: mem_release_def held_by_def Let_def split: option.splits)

lemma mem_release_inv:
  assumes inv: "mem_inv s" and other: "\<And>tn'. tn' \<noteq> tn \<Longrightarrow> mem_ten s tn' tok = None"
  shows "mem_inv (mem_release s tn tok)"
proof -
  have g: "globals (mem_release s tn tok) = AList.delete tok (globals s)"
    by (simp add: mem_release_def Let_def split: option.splits)
  have "mem_glob (mem_release s tn tok) k = Some e" if t: "mem_ten (mem_release s tn tok) tn' k = Some e" for tn' k e
  proof -
    from t mem_release_views(2) [of s tn tok tn'] have "mem_ten s tn' k = Some e" and k: "tn' = tn \<longrightarrow> k \<noteq> tok"
      by (auto split: if_splits)
    moreover from this other have "k \<noteq> tok" by auto
    ultimately show ?thesis using inv by (simp add: mem_release_views mem_inv_def)
  qed
  with inv show ?thesis by (simp add: mem_inv_def g mem_release_held)
qed

interpretation mem_slots: slot_store mem_acquire mem_release mem_in_flight mem_glob mem_ten mem_inv
proof
  fix s tn glim tlim ttl now tok
  assume inv: "mem_inv s"
  show "fst (mem_acquire s tn glim tlim ttl now tok) =
      (if glim \<le> live_count now (mem_glob s) then Inl Cluster
       else if tlim \<le> live_count now (mem_ten s tn) then Inl Tenant else Inr tok)"
    by (simp add: mem_acquire_cases [OF inv])
next
  fix s tn glim tlim ttl now tok b s' t tn'
  assume inv: "mem_inv s" and acq: "mem_acquire s tn glim tlim ttl now tok = (Inl b, s')" and t: "now \<le> t"
  then show "live t (mem_glob s') = live t (mem_glob s) \<and> live t (mem_ten s' tn') = live t (mem_ten s tn')"
    by (auto simp: mem_acquire_cases [OF inv] busy_views purge_views [OF inv] live_live split: if_splits)
next
  fix s tn glim tlim ttl now tok s' t tn'
  assume inv: "mem_inv s" and acq: "mem_acquire s tn glim tlim ttl now tok = (Inr tok, s')" and t: "now \<le> t"
  then show "live t (mem_glob s') = live t ((mem_glob s)(tok \<mapsto> now + rat_of_int (max 1 ttl))) \<and>
      live t (mem_ten s' tn') =
        live t (if tn' = tn then (mem_ten s tn)(tok \<mapsto> now + rat_of_int (max 1 ttl)) else mem_ten s tn')"
    using purge_views [OF inv, of now] live_live [OF t]
    by (auto simp: mem_acquire_cases [OF inv] grant_views live_upd split: if_splits)
next
  fix s tn glim tlim ttl now tok r s' k e tn'
  assume inv: "mem_inv s" and acq: "mem_acquire s tn glim tlim ttl now tok = (r, s')"
  have raw: "live now m k = Some e \<Longrightarrow> m k = Some e" for m
    by (auto simp: live_def split: option.splits if_splits)
  have g: "mem_glob (mem_purge now s) k = Some e \<Longrightarrow> mem_glob s k = Some e"
    and h: "mem_ten (mem_purge now s) tn' k = Some e \<Longrightarrow> mem_ten s tn' k = Some e"
    using purge_views [OF inv] raw by auto
  from acq g h show "(mem_glob s' k = Some e \<longrightarrow> mem_glob s k = Some e \<or> r = Inr k) \<and>
      (mem_ten s' tn' k = Some e \<longrightarrow> mem_ten s tn' k = Some e \<or> r = Inr k \<and> tn' = tn)"
    by (auto simp: mem_acquire_cases [OF inv] busy_views grant_views split: if_splits)
next
  fix s tok tn glim tlim ttl now
  assume "mem_inv s" "mem_glob s tok = None" "\<And>tn'. mem_ten s tn' tok = None"
  then show "mem_inv (snd (mem_acquire s tn glim tlim ttl now tok))" by (rule mem_acquire_inv)
next
  fix s tn tok tn'
  show "mem_glob (mem_release s tn tok) = (mem_glob s)(tok := None) \<and>
      mem_ten (mem_release s tn tok) tn' = (if tn' = tn then (mem_ten s tn)(tok := None) else mem_ten s tn')"
    by (simp add: mem_release_views)
next
  fix s tn tok
  assume "mem_inv s" "\<And>tn'. tn' \<noteq> tn \<Longrightarrow> mem_ten s tn' tok = None"
  then show "mem_inv (mem_release s tn tok)" by (rule mem_release_inv)
next
  fix s now
  assume "mem_inv s"
  then show "fst (mem_in_flight s now) = live_count now (mem_glob s)"
    and "mem_inv (snd (mem_in_flight s now))"
    by (simp_all add: mem_in_flight_def Let_def purge_counts purge_inv)
next
  fix s now n s' t tn'
  assume "mem_inv s" "mem_in_flight s now = (n, s')" "now \<le> t"
  then show "live t (mem_glob s') = live t (mem_glob s) \<and> live t (mem_ten s' tn') = live t (mem_ten s tn')"
    by (auto simp: mem_in_flight_def Let_def purge_views live_live)
next
  fix s now n s' k e tn'
  assume "mem_inv s" "mem_in_flight s now = (n, s')"
  then show "(mem_glob s' k = Some e \<longrightarrow> mem_glob s k = Some e) \<and>
      (mem_ten s' tn' k = Some e \<longrightarrow> mem_ten s tn' k = Some e)"
    by (auto simp: mem_in_flight_def Let_def purge_views live_def split: option.splits if_splits)
qed

section \<open>The Redis store\<close>

text \<open>
  \<open>RedisChatSlotStore\<close>: a client and the database. The Lua scripts run atomically; their
  return codes are 1, -1 and -2. A release whose EVAL raises is only logged; the model
  covers the calls that reach the server.
\<close>

record 'r redis_slots =
  zcl :: "'r zset_client"
  zdb :: 'r

definition global_key :: ustr where
  "global_key = asc ''cs:chat:inflight:{cs:chat}''"

definition tenant_slot_key :: "ustr \<Rightarrow> ustr" where
  "tenant_slot_key tn = asc ''cs:chat:tenant:{cs:chat}:'' @ tn"

definition acquire_lua ::
  "'r zset_client \<Rightarrow> 'r \<Rightarrow> ustr \<Rightarrow> ustr \<Rightarrow> rat \<Rightarrow> int \<Rightarrow> int \<Rightarrow> rat \<Rightarrow> ustr \<Rightarrow> int \<times> 'r" where
  "acquire_lua c r key1 key2 now glim tlim expire_at token =
     (let r1 = z_rem_upto c r key1 now;
          r2 = z_rem_upto c r1 key2 now
      in if int (z_card c r2 key1) \<ge> glim then (-1, r2)
         else if int (z_card c r2 key2) \<ge> tlim then (-2, r2)
         else let r3 = z_add c r2 key1 expire_at token;
                  r4 = z_add c r3 key2 expire_at token
              in (1, r4))"

definition release_lua :: "'r zset_client \<Rightarrow> 'r \<Rightarrow> ustr \<Rightarrow> ustr \<Rightarrow> ustr \<Rightarrow> 'r" where
  "release_lua c r key1 key2 token = z_rem c (z_rem c r key1 token) key2 token"

definition count_lua :: "'r zset_client \<Rightarrow> 'r \<Rightarrow> ustr \<Rightarrow> rat \<Rightarrow> int \<times> 'r" where
  "count_lua c r key1 now = (let r1 = z_rem_upto c r key1 now in (int (z_card c r1 key1), r1))"

definition redis_acquire ::
  "'r redis_slots \<Rightarrow> ustr \<Rightarrow> int \<Rightarrow> int \<Rightarrow> int \<Rightarrow> rat \<Rightarrow> ustr \<Rightarrow> (busy_reason + ustr) \<times> 'r redis_slots" where
  "redis_acquire s tn glim tlim ttl now tok =
     (let expire_at = now + of_int (max 1 ttl);
          (code, r) = acquire_lua (zcl s) (zdb s) global_key (tenant_slot_key tn) now glim tlim expire_at tok;
          s' = s\<lparr>zdb := r\<rparr>
      in if code = -1 then (Inl Cluster, s')
         else if code = -2 then (Inl Tenant, s')
         else (Inr tok, s'))"

definition redis_release :: "'r redis_slots \<Rightarrow> ustr \<Rightarrow> ustr \<Rightarrow> 'r redis_slots" where
  "redis_release s tn tok = s\<lparr>zdb := release_lua (zcl s) (zdb s) global_key (tenant_slot_key tn) tok\<rparr>"

definition redis_in_flight :: "'r redis_slots \<Rightarrow> rat \<Rightarrow> int \<times> 'r redis_slots" where
  "redis_in_flight s now =
     (let (n, r) = count_lua (zcl s) (zdb s) global_key now in (n, s\<lparr>zdb := r\<rparr>))"

definition redis_glob :: "'r redis_slots \<Rightarrow> ustr \<rightharpoonup> rat" where
  "redis_glob s = z_score (zcl s) (zdb s) global_key"

definition redis_ten :: "'r redis_slots \<Rightarrow> ustr \<Rightarrow> (ustr \<rightharpoonup> rat)" where
  "redis_ten s tn = z_score (zcl s) (zdb s) (tenant_slot_key tn)"

definition redis_slots_ok :: "'r redis_slots \<Rightarrow> bool" where
  "redis_slots_ok s \<longleftrightarrow> zset_laws (zcl s)"

lemma slot_keys_distinct [simp]:
  "tenant_slot_key tn \<noteq> global_key" "global_key \<noteq> tenant_slot_key tn"
  "tenant_slot_key tn = tenant_slot_key tn' \<longleftrightarrow> tn = tn'"
  by (simp_all add: tenant_slot_key_def global_key_def asc_def)

lemma live_count_live: "live_count now m = int (card (dom (live now m)))"
  by (simp add: live_count_def)

lemmas redis_slot_defs = redis_acquire_def redis_release_def redis_in_flight_def redis_glob_def redis_ten_def
  redis_slots_ok_def acquire_lua_def release_lua_def count_lua_def Let_def

interpretation redis_slots: slot_store redis_acquire redis_release redis_in_flight redis_glob redis_ten redis_slots_ok
proof
  fix s :: "'r redis_slots" and tn glim tlim ttl now tok
  assume "redis_slots_ok s"
  then show "fst (redis_acquire s tn glim tlim ttl now tok) =
      (if glim \<le> live_count now (redis_glob s) then Inl Cluster
       else if tlim \<le> live_count now (redis_ten s tn) then Inl Tenant else Inr tok)"
    by (simp add: redis_slot_defs live_count_live zset_rules)
next
  fix s :: "'r redis_slots" and tn glim tlim ttl now tok b s' t tn'
  assume "redis_slots_ok s" "redis_acquire s tn glim tlim ttl now tok = (Inl b, s')" "now \<le> t"
  then show "live t (redis_glob s') = live t (redis_glob s) \<and> live t (redis_ten s' tn') = live t (redis_ten s tn')"
    by (auto simp: redis_slot_defs zset_rules live_live split: if_splits)
next
  fix s :: "'r redis_slots" and tn glim tlim ttl now tok s' t tn'
  assume "redis_slots_ok s" "redis_acquire s tn glim tlim ttl now tok = (Inr tok, s')" "now \<le> t"
  then show "live t (redis_glob s') = live t ((redis_glob s)(tok \<mapsto> now + rat_of_int (max 1 ttl))) \<and>
      live t (redis_ten s' tn') =
        live t (if tn' = tn then (redis_ten s tn)(tok \<mapsto> now + rat_of_int (max 1 ttl)) else redis_ten s tn')"
    by (auto simp: redis_slot_defs zset_rules live_live live_upd split: if_splits)
next
  fix s :: "'r redis_slots" and tn glim tlim ttl now tok r s' k e tn'
  assume "redis_slots_ok s" "redis_acquire s tn glim tlim ttl now tok = (r, s')"
  then show "(redis_glob s' k = Some e \<longrightarrow> redis_glob s k = Some e \<or> r = Inr k) \<and>
      (redis_ten s' tn' k = Some e \<longrightarrow> redis_ten s tn' k = Some e \<or> r = Inr k \<and> tn' = tn)"
    by (auto simp: redis_slot_defs zset_rules live_def split: if_splits option.splits)
next
  fix s :: "'r redis_slots" and tok tn glim tlim ttl now
  assume "redis_slots_ok s"
  then show "redis_slots_ok (snd (redis_acquire s tn glim tlim ttl now tok))"
    by (simp add: redis_slot_defs)
next
  fix s :: "'r redis_slots" and tn tok tn'
  assume "redis_slots_ok s"
  then show "redis_glob (redis_release s tn tok) = (redis_glob s)(tok := None) \<and>
      redis_ten (redis_release s tn tok) tn' = (if tn' = tn then (redis_ten s tn)(tok := None) else redis_ten s tn')"
    by (simp add: redis_slot_defs zset_rules)
next
  fix s :: "'r redis_slots" and tn tok
  assume "redis_slots_ok s"
  then show "redis_slots_ok (redis_release s tn tok)" by (simp add: redis_slot_defs)
next
  fix s :: "'r redis_slots" and now
  assume "redis_slots_ok s"
  then show "fst (redis_in_flight s now) = live_count now (redis_glob s)"
    and "redis_slots_ok (snd (redis_in_flight s now))"
    by (simp_all add: redis_slot_defs live_count_live zset_rules)
next
  fix s :: "'r redis_slots" and now n s' t tn'
  assume "redis_slots_ok s" "redis_in_flight s now = (n, s')" "now \<le> t"
  then show "live t (redis_glob s') = live t (redis_glob s) \<and> live t (redis_ten s' tn') = live t (redis_ten s tn')"
    by (auto simp: redis_slot_defs zset_rules live_live)
next
  fix s :: "'r redis_slots" and now n s' k e tn'
  assume "redis_slots_ok s" "redis_in_flight s now = (n, s')"
  then show "(redis_glob s' k = Some e \<longrightarrow> redis_glob s k = Some e) \<and>
      (redis_ten s' tn' k = Some e \<longrightarrow> redis_ten s tn' k = Some e)"
    by (auto simp: redis_slot_defs zset_rules live_def split: option.splits if_splits)
qed


section \<open>Properties of the stores\<close>

lemma mem_represents_empty: "mem_slots.represents clock Map.empty no_slots"
  by (simp add: mem_slots.represents_def mem_inv_def no_slots_def mem_glob_def mem_ten_def held_by_def
      all_leases_def tenant_leases_def)

definition empty_redis :: "'r redis_slots \<Rightarrow> bool" where
  "empty_redis s \<longleftrightarrow> redis_slots_ok s \<and> (\<forall>k. z_score (zcl s) (zdb s) k = Map.empty)"

lemma redis_represents_empty: "empty_redis s \<Longrightarrow> redis_slots.represents clock Map.empty s"
  by (simp add: redis_slots.represents_def empty_redis_def redis_glob_def redis_ten_def
      all_leases_def tenant_leases_def)

text \<open>
  C2: Fail-over between the stores is invisible: on every sequence of acquires, releases and
  counts that callers can make, the in-process store and the Redis store answer alike
  (granted, busy for the cluster, busy for the tenant, the number in flight).
\<close>

theorem slot_stores_agree:
  assumes "ops_ok lims clock Map.empty ops" and "empty_redis s"
  shows "slot_run mem_acquire mem_release mem_in_flight lims no_slots ops =
    slot_run redis_acquire redis_release redis_in_flight lims s ops"
  using mem_slots.run_refines [OF mem_represents_empty assms(1)]
    redis_slots.run_refines [OF redis_represents_empty [OF assms(2)] assms(1)] by simp

definition demo_redis :: "ref_zdb redis_slots" where
  "demo_redis = \<lparr>zcl = ref_zset, zdb = (\<lambda>_. [])\<rparr>"

definition demo_lims :: slot_limits where
  "demo_lims = \<lparr>global_limit = 2, tenant_limit = 1, slot_ttl = 10\<rparr>"

lemma demo_redis_empty: "empty_redis demo_redis"
  by (simp add: empty_redis_def demo_redis_def redis_slots_ok_def ref_zset_laws) (simp add: ref_zset_def)

lemma demo_ops_ok:
  "ops_ok demo_lims 0 Map.empty [Acquire [97] 1 [1], Acquire [97] 2 [2], Release [97] [1]]"
  by (simp add: demo_lims_def spec_acquire_def live_count_def live_def all_leases_def tenant_leases_def
      spec_release_def)

theorem slot_stores_agree_witness:
  "slot_run mem_acquire mem_release mem_in_flight demo_lims no_slots
     [Acquire [97] 1 [1], Acquire [97] 2 [2], Release [97] [1]] =
   slot_run redis_acquire redis_release redis_in_flight demo_lims demo_redis
     [Acquire [97] 1 [1], Acquire [97] 2 [2], Release [97] [1]]"
  by (rule slot_stores_agree [OF demo_ops_ok demo_redis_empty])

text \<open>
  With positive limits, at no time after any sequence of operations do more conversations
  hold live slots in the Redis store than the cluster limit, nor more of one tenant than the
  tenant limit.
\<close>

lemma redis_slots_bounded:
  assumes "empty_redis s" and "ops_ok lims clock Map.empty ops"
    and "global_limit lims \<ge> 1" and "tenant_limit lims \<ge> 1" and "last_clock clock ops \<le> t"
  shows "live_count t (redis_glob (slot_after redis_acquire redis_release redis_in_flight lims s ops))
      \<le> global_limit lims \<and>
    live_count t (redis_ten (slot_after redis_acquire redis_release redis_in_flight lims s ops) tn)
      \<le> tenant_limit lims"
  by (rule redis_slots.run_within_limits [OF redis_represents_empty [OF assms(1)] assms(2-5)])

end
