(* ===== verification/Tenancy.thy ===== *)
theory Tenancy
  imports Prelude
begin

text \<open>
  Tenant, user and thread identities: \<open>app/tenancy.py\<close> and \<open>app/thread_id.py\<close>. The two
  context variables are the record \<open>identity_ctx\<close>; the configured default tenant is an
  argument.
\<close>

datatype identity_error = IllegalTenant ustr | Http400

record identity_ctx =
  current_tenant :: ustr
  current_user :: ustr

definition initial_ctx :: identity_ctx where
  "initial_ctx = \<lparr>current_tenant = asc ''demo'', current_user = asc ''anonymous''\<rparr>"

definition tenant_char :: "nat \<Rightarrow> bool" where
  "tenant_char c \<longleftrightarrow> (97 \<le> c \<and> c \<le> 122) \<or> (65 \<le> c \<and> c \<le> 90) \<or> (48 \<le> c \<and> c \<le> 57) \<or> c = 95 \<or> c = 45"

definition tenant_re :: "ustr \<Rightarrow> bool" where
  "tenant_re s \<longleftrightarrow> 1 \<le> length s \<and> length s \<le> 64 \<and> list_all tenant_char s"

definition normalize_tenant_id :: "ustr \<Rightarrow> ustr option \<Rightarrow> identity_error + ustr" where
  "normalize_tenant_id default_tenant raw =
     (let value = or_str (strip (str_or_empty raw)) default_tenant
      in if tenant_re value then Inr value else Inl (IllegalTenant value))"

definition set_current_tenant :: "ustr \<Rightarrow> ustr \<Rightarrow> identity_ctx \<Rightarrow> identity_error + identity_ctx" where
  "set_current_tenant default_tenant tn ctx =
     (case normalize_tenant_id default_tenant (Some tn) of
        Inl e \<Rightarrow> Inl e
      | Inr v \<Rightarrow> Inr (ctx\<lparr>current_tenant := v\<rparr>))"

definition get_current_user :: "identity_ctx \<Rightarrow> ustr" where
  "get_current_user ctx = or_str (current_user ctx) (asc ''anonymous'')"

definition set_current_user :: "ustr option \<Rightarrow> identity_ctx \<Rightarrow> identity_ctx" where
  "set_current_user user ctx =
     ctx\<lparr>current_user := or_str (strip (str_or_empty user)) (asc ''anonymous'')\<rparr>"

definition get_tenant_id :: "ustr \<Rightarrow> ustr option \<Rightarrow> identity_ctx \<Rightarrow> identity_error + (ustr \<times> identity_ctx)" where
  "get_tenant_id default_tenant header ctx =
     (case normalize_tenant_id default_tenant header of
        Inl e \<Rightarrow> Inl Http400
      | Inr tenant \<Rightarrow> (case set_current_tenant default_tenant tenant ctx of
            Inl e \<Rightarrow> Inl e
          | Inr ctx' \<Rightarrow> Inr (tenant, ctx')))"

fun resolve_request_user :: "ustr option list \<Rightarrow> identity_ctx \<Rightarrow> ustr \<times> identity_ctx" where
  "resolve_request_user [] ctx = (asc ''anonymous'', set_current_user (Some (asc ''anonymous'')) ctx)"
| "resolve_request_user (raw # rest) ctx =
     (let value = strip (str_or_empty raw)
      in if value \<noteq> [] then (value, set_current_user (Some value) ctx)
         else resolve_request_user rest ctx)"

section \<open>Thread ids\<close>

definition replace_char :: "nat \<Rightarrow> nat \<Rightarrow> ustr \<Rightarrow> ustr" where
  "replace_char a b s = map (\<lambda>c. if c = a then b else c) s"

definition thread_part :: "ustr \<Rightarrow> ustr \<Rightarrow> ustr" where
  "thread_part value fallback = replace_char 58 95 (or_str (strip value) fallback)"

definition make_thread_id :: "ustr \<Rightarrow> ustr \<Rightarrow> ustr \<Rightarrow> ustr" where
  "make_thread_id tenant_id session_id user_id =
     (let tenant = thread_part tenant_id (asc ''demo'');
          user = thread_part user_id (asc ''anonymous'');
          session = thread_part session_id (asc ''session'')
      in tenant @ [58] @ user @ [58] @ session)"

lemma thread_part_no_colon: "58 \<notin> set (thread_part v f)"
  by (auto simp: thread_part_def replace_char_def)

text \<open>An identifier a client would send: no colon, no blank at its ends, not empty.\<close>

definition clean_id :: "ustr \<Rightarrow> bool" where
  "clean_id s \<longleftrightarrow> s \<noteq> [] \<and> stripped s \<and> 58 \<notin> set s"

lemma thread_part_clean: "clean_id s \<Longrightarrow> thread_part s f = s"
  by (auto simp: clean_id_def thread_part_def replace_char_def strip_id or_str_def intro: map_idI)

lemma tenant_char_facts: "tenant_char c \<Longrightarrow> c \<noteq> 58 \<and> \<not> is_space c"
  by (auto simp: tenant_char_def is_space_def)

lemma tenant_re_clean: "tenant_re s \<Longrightarrow> clean_id s"
proof -
  assume s: "tenant_re s"
  then have ne: "s \<noteq> []" and all: "\<forall>c \<in> set s. tenant_char c"
    by (auto simp: tenant_re_def list_all_iff)
  from ne have "hd s \<in> set s" "last s \<in> set s" by simp_all
  with ne all tenant_char_facts show ?thesis
    by (auto simp: clean_id_def stripped_def)
qed

lemma thread_id_parts:
  "make_thread_id t s u = make_thread_id t' s' u' \<longleftrightarrow>
     thread_part t (asc ''demo'') = thread_part t' (asc ''demo'') \<and>
     thread_part u (asc ''anonymous'') = thread_part u' (asc ''anonymous'') \<and>
     thread_part s (asc ''session'') = thread_part s' (asc ''session'')"
  by (simp add: make_thread_id_def Let_def split_at_sep thread_part_no_colon)

text \<open>
  The three parts of a thread id can be read back from it, so two conversations share a
  checkpoint exactly when their normalised tenant, user and session all agree; in particular
  clean identifiers never collide.
\<close>

lemma make_thread_id_inj:
  "make_thread_id t s u = make_thread_id t' s' u' \<longleftrightarrow>
     thread_part t (asc ''demo'') = thread_part t' (asc ''demo'') \<and>
     thread_part u (asc ''anonymous'') = thread_part u' (asc ''anonymous'') \<and>
     thread_part s (asc ''session'') = thread_part s' (asc ''session'')"
  by (rule thread_id_parts)

lemma make_thread_id_clean:
  "clean_id t \<Longrightarrow> clean_id s \<Longrightarrow> clean_id u \<Longrightarrow> clean_id t' \<Longrightarrow> clean_id s' \<Longrightarrow> clean_id u' \<Longrightarrow>
     make_thread_id t s u = make_thread_id t' s' u' \<longleftrightarrow> t = t' \<and> s = s' \<and> u = u'"
  by (auto simp: thread_id_parts thread_part_clean)

text \<open>
  Replacing the separator is not injective: any two user identifiers that differ only in
  having a colon where the other has an underscore get the same thread id, and so the same
  checkpoint and session lock.
\<close>

lemma thread_id_collision:
  "make_thread_id t s (a @ [58] @ b) = make_thread_id t s (a @ [95] @ b)"
  if "stripped (a @ [58] @ b)" and "stripped (a @ [95] @ b)"
  using that by (simp add: make_thread_id_def thread_part_def or_str_def strip_id replace_char_def)

text \<open>
  A tenant the service accepts is the stripped header or the default, is made of letters,
  digits, underscore and hyphen, has 1 to 64 characters, and normalising it again changes
  nothing; the request's context then holds that tenant.
\<close>

lemma accepted_tenant:
  assumes "get_tenant_id d header ctx = Inr (tenant, ctx')"
  shows "tenant = or_str (strip (str_or_empty header)) d \<and> tenant_re tenant \<and>
    normalize_tenant_id d (Some tenant) = Inr tenant \<and> ctx' = ctx\<lparr>current_tenant := tenant\<rparr>"
proof -
  from assms have t: "tenant = or_str (strip (str_or_empty header)) d" and re: "tenant_re tenant"
    by (auto simp: get_tenant_id_def normalize_tenant_id_def Let_def split: sum.splits if_splits)
  from tenant_re_clean [OF re] have "strip tenant = tenant" and "tenant \<noteq> []"
    by (simp_all add: clean_id_def strip_id)
  with re have "normalize_tenant_id d (Some tenant) = Inr tenant"
    by (simp add: normalize_tenant_id_def or_str_def)
  with assms t re show ?thesis
    by (auto simp: get_tenant_id_def set_current_tenant_def split: sum.splits)
qed

lemma set_current_tenant_clean:
  "tenant_re tn \<Longrightarrow> set_current_tenant d tn ctx = Inr (ctx\<lparr>current_tenant := tn\<rparr>)"
  using tenant_re_clean [of tn]
  by (simp add: set_current_tenant_def normalize_tenant_id_def clean_id_def strip_id or_str_def)

lemma set_current_user_never_blank: "get_current_user (set_current_user u ctx) = current_user (set_current_user u ctx)"
  by (simp add: get_current_user_def set_current_user_def or_str_def asc_def)

end
