(* ===== verification/Session_Lock.thy ===== *)
theory Session_Lock
  imports Redis_Client
begin

text \<open>
  The session locks of \<open>app/session_cache.py\<close>: one conversation turn per thread id at a
  time. \<open>AsyncDictSessionLock\<close> (and \<open>DictSessionLock\<close>) keep the held threads in the process,
  \<open>RedisSessionLock\<close> and \<open>AsyncRedisSessionLock\<close> use SET NX PX with a random token and a Lua
  compare-and-delete. The synchronous and asynchronous classes issue the same commands and
  differ in how they sleep. An attempt is one atomic step; the waiting loop is \<open>wait_for\<close>,
  which may be interrupted by any change of the store between two attempts.
\<close>

section \<open>Operations of a lock and their contract\<close>

datatype lock_op = TryLock rat ustr ustr | Unlock rat ustr ustr

primrec op_time :: "lock_op \<Rightarrow> rat" where
  "op_time (TryLock now tid tok) = now"
| "op_time (Unlock now tid tok) = now"

primrec op_token :: "lock_op \<Rightarrow> ustr" where
  "op_token (TryLock now tid tok) = tok"
| "op_token (Unlock now tid tok) = tok"

fun lock_trace ::
  "('s \<Rightarrow> rat \<Rightarrow> ustr \<Rightarrow> ustr \<Rightarrow> ustr option \<times> 's) \<Rightarrow> ('s \<Rightarrow> rat \<Rightarrow> ustr \<Rightarrow> ustr \<Rightarrow> 's) \<Rightarrow>
   's \<Rightarrow> lock_op list \<Rightarrow> (lock_op \<times> ustr option) list \<times> 's" where
  "lock_trace att fre s [] = ([], s)"
| "lock_trace att fre s (TryLock now tid tok # ops) =
     (let (r, s') = att s now tid tok; (tr, s'') = lock_trace att fre s' ops
      in ((TryLock now tid tok, r) # tr, s''))"
| "lock_trace att fre s (Unlock now tid tok # ops) =
     (let (tr, s'') = lock_trace att fre (fre s now tid tok) ops
      in ((Unlock now tid tok, None) # tr, s''))"

locale session_lock =
  fixes att :: "'s \<Rightarrow> rat \<Rightarrow> ustr \<Rightarrow> ustr \<Rightarrow> ustr option \<times> 's"
    and fre :: "'s \<Rightarrow> rat \<Rightarrow> ustr \<Rightarrow> ustr \<Rightarrow> 's"
    and owner :: "'s \<Rightarrow> rat \<Rightarrow> ustr \<Rightarrow> ustr option"
    and lease :: "'s \<Rightarrow> rat option"
    and lawful :: "'s \<Rightarrow> bool"
    and token_ok :: "ustr \<Rightarrow> bool"
  assumes att_lawful: "lawful s \<Longrightarrow> lawful (snd (att s now tid tok)) \<and> lease (snd (att s now tid tok)) = lease s"
    and fre_lawful: "lawful s \<Longrightarrow> lawful (fre s now tid tok) \<and> lease (fre s now tid tok) = lease s"
    and att_result: "lawful s \<Longrightarrow> token_ok tok \<Longrightarrow>
      fst (att s now tid tok) = (if owner s now tid = None then Some tok else None)"
    and att_owner: "lawful s \<Longrightarrow> token_ok tok \<Longrightarrow> now \<le> t \<Longrightarrow>
      owner (snd (att s now tid tok)) t tid' =
        (if tid' = tid \<and> owner s now tid = None then until now (lease s) t tok else owner s t tid')"
    and fre_owner: "lawful s \<Longrightarrow> token_ok tok \<Longrightarrow> now \<le> t \<Longrightarrow>
      owner (fre s now tid tok) t tid' =
        (if tid' = tid \<and> owner s now tid = Some tok then None else owner s t tid')"
begin

text \<open>\<open>held s t0 e tid tok\<close>: from \<open>t0\<close> until the end \<open>e\<close> of its lease \<open>tok\<close> owns \<open>tid\<close>.\<close>

definition held :: "'s \<Rightarrow> rat \<Rightarrow> rat \<Rightarrow> ustr \<Rightarrow> ustr \<Rightarrow> bool" where
  "held s t0 e tid tok \<longleftrightarrow> (\<forall>t. t0 \<le> t \<longrightarrow> t < e \<longrightarrow> owner s t tid = Some tok)"

lemma held_later: "held s t0 e tid tok \<Longrightarrow> t0 \<le> t1 \<Longrightarrow> held s t1 e tid tok"
  by (simp add: held_def)

lemma held_att:
  "lawful s \<Longrightarrow> token_ok b \<Longrightarrow> held s t0 e tid tok \<Longrightarrow> t0 \<le> now \<Longrightarrow> now < e \<Longrightarrow>
     held (snd (att s now tid' b)) now e tid tok"
  by (auto simp: held_def att_owner)

lemma held_fre:
  "lawful s \<Longrightarrow> token_ok b \<Longrightarrow> held s t0 e tid tok \<Longrightarrow> t0 \<le> now \<Longrightarrow> now < e \<Longrightarrow>
     \<not> (tid' = tid \<and> b = tok) \<Longrightarrow> held (fre s now tid' b) now e tid tok"
  by (auto simp: held_def fre_owner)

lemma held_trace:
  "lawful s \<Longrightarrow> held s t0 e tid tok \<Longrightarrow> sorted (map op_time ops) \<Longrightarrow>
     (\<forall>x \<in> set ops. t0 \<le> op_time x \<and> op_time x < e \<and> token_ok (op_token x)) \<Longrightarrow>
     (\<forall>now. Unlock now tid tok \<notin> set ops) \<Longrightarrow>
     (\<forall>now b. (TryLock now tid b, Some b) \<notin> set (fst (lock_trace att fre s ops))) \<and>
     (\<forall>t1. t0 \<le> t1 \<longrightarrow> (\<forall>x \<in> set ops. op_time x \<le> t1) \<longrightarrow> held (snd (lock_trace att fre s ops)) t1 e tid tok)"
proof (induction ops arbitrary: s t0)
  case Nil
  then show ?case by (simp add: held_def)
next
  case (Cons x ops)
  show ?case
  proof (cases x)
    case (TryLock now tid' b)
    obtain r s' where att: "att s now tid' b = (r, s')" by (cases "att s now tid' b")
    obtain tr s'' where rest: "lock_trace att fre s' ops = (tr, s'')" by (cases "lock_trace att fre s' ops")
    from Cons.prems TryLock have b: "token_ok b" "t0 \<le> now" "now < e" by auto
    have h: "held s' now e tid tok" using held_att [OF Cons.prems(1) b(1) Cons.prems(2) b(2,3), of tid'] by (simp add: att)
    have l: "lawful s'" using att_lawful [OF Cons.prems(1), of now tid' b] by (simp add: att)
    have "r = None" if "tid' = tid"
      using att_result [OF Cons.prems(1) b(1), of now tid'] Cons.prems(2) b unfolding that [symmetric] att
      by (simp add: held_def)
    moreover have "(\<forall>now b. (TryLock now tid b, Some b) \<notin> set tr) \<and>
        (\<forall>t1. now \<le> t1 \<longrightarrow> (\<forall>x \<in> set ops. op_time x \<le> t1) \<longrightarrow> held s'' t1 e tid tok)"
      using Cons.IH [OF l h] Cons.prems TryLock rest by auto
    ultimately show ?thesis by (auto simp: TryLock att rest)
  next
    case (Unlock now tid' b)
    let ?s' = "fre s now tid' b"
    obtain tr s'' where rest: "lock_trace att fre ?s' ops = (tr, s'')" by (cases "lock_trace att fre ?s' ops")
    from Cons.prems Unlock have b: "token_ok b" "t0 \<le> now" "now < e" "\<not> (tid' = tid \<and> b = tok)" by auto
    have h: "held ?s' now e tid tok" by (rule held_fre [OF Cons.prems(1) b(1) Cons.prems(2) b(2-4)])
    have l: "lawful ?s'" using fre_lawful [OF Cons.prems(1), of now tid' b] by simp
    have "(\<forall>now b. (TryLock now tid b, Some b) \<notin> set tr) \<and>
        (\<forall>t1. now \<le> t1 \<longrightarrow> (\<forall>x \<in> set ops. op_time x \<le> t1) \<longrightarrow> held s'' t1 e tid tok)"
      using Cons.IH [OF l h] Cons.prems Unlock rest by auto
    then show ?thesis by (auto simp: Unlock rest)
  qed
qed

text \<open>Nobody else gets the lock before its holder releases it or its lease ends.\<close>

lemma exclusive:
  assumes "lawful s" and "token_ok a" and "fst (att s t0 tid a) = Some a"
    and "sorted (map op_time ops)"
    and "\<forall>x \<in> set ops. t0 \<le> op_time x \<and> token_ok (op_token x) \<and>
      (case lease s of None \<Rightarrow> True | Some d \<Rightarrow> op_time x < t0 + d)"
    and "\<forall>now. Unlock now tid a \<notin> set ops"
  shows "\<forall>now b. (TryLock now tid b, Some b) \<notin> set (fst (lock_trace att fre (snd (att s t0 tid a)) ops))"
proof -
  let ?s = "snd (att s t0 tid a)"
  have free: "owner s t0 tid = None" using att_result [OF assms(1,2), of t0 tid] assms(3) by (auto split: if_splits)
  define e where "e = (case lease s of None \<Rightarrow> Max (insert t0 (op_time ` set ops)) + 1 | Some d \<Rightarrow> t0 + d)"
  have "held ?s t0 e tid a"
    using att_owner [OF assms(1,2), of t0] free
    by (auto simp: held_def until_def e_def split: option.splits)
  moreover have "\<forall>x \<in> set ops. t0 \<le> op_time x \<and> op_time x < e \<and> token_ok (op_token x)"
  proof
    fix x assume x: "x \<in> set ops"
    have "op_time x \<le> Max (insert t0 (op_time ` set ops))" using x by (intro Max_ge) auto
    then have "op_time x < Max (insert t0 (op_time ` set ops)) + 1" by linarith
    with assms(5) x show "t0 \<le> op_time x \<and> op_time x < e \<and> token_ok (op_token x)"
      by (auto simp: e_def split: option.splits)
  qed
  ultimately show ?thesis
    using held_trace [of ?s t0 e tid a ops] att_lawful [OF assms(1), of t0 tid a] assms(4,6) by blast
qed

text \<open>Releasing with another token leaves the owner alone; releasing with its own frees the thread.\<close>

lemma release_own:
  "lawful s \<Longrightarrow> token_ok tok \<Longrightarrow> owner s now tid = Some tok \<Longrightarrow> owner (fre s now tid tok) now tid = None"
  by (simp add: fre_owner)

end

section \<open>Settings and the waiting loop\<close>

record lock_settings =
  lock_ttl :: int
  lock_wait :: rat
  lock_interval :: rat

definition lock_settings_of :: "int \<Rightarrow> rat \<Rightarrow> rat \<Rightarrow> lock_settings" where
  "lock_settings_of ttl wait interval =
     \<lparr>lock_ttl = max 1 ttl, lock_wait = max 0 wait, lock_interval = max (1/100) interval\<rparr>"

text \<open>
  The loop of \<open>acquire\<close> / \<open>aacquire\<close>: try, give up at the deadline, else sleep. \<open>env\<close> is what
  the others do to the store while this caller sleeps. \<open>None\<close>: \<open>SessionBusyError\<close>.
\<close>

function wait_for ::
  "(rat \<Rightarrow> 's \<Rightarrow> ustr option \<times> 's) \<Rightarrow> (rat \<Rightarrow> 's \<Rightarrow> 's) \<Rightarrow> rat \<Rightarrow> rat \<Rightarrow> rat \<Rightarrow> 's \<Rightarrow>
     ustr option \<times> rat \<times> 's" where
  "wait_for attempt env deadline interval now s =
     (case attempt now s of
        (Some tok, s') \<Rightarrow> (Some tok, now, s')
      | (None, s') \<Rightarrow>
          if now \<ge> deadline then (None, now, s')
          else wait_for attempt env deadline interval (now + max (1/100) interval) (env now s'))"
  by pat_completeness auto
termination
proof (relation "measure (\<lambda>(attempt, env, deadline, interval, now, s). nat \<lceil>100 * (deadline - now)\<rceil>)")
  show "wf (measure (\<lambda>(attempt, env, deadline, interval, now, s). nat \<lceil>100 * (deadline - now)\<rceil>))"
    by (rule wf_measure)
next
  fix attempt :: "rat \<Rightarrow> 's \<Rightarrow> ustr option \<times> 's" and env :: "rat \<Rightarrow> 's \<Rightarrow> 's" and deadline interval now :: rat
    and s s' :: 's and p o'
  assume "\<not> deadline \<le> now"
  then have pos: "0 < 100 * (deadline - now)" by simp
  have "100 * (deadline - (now + max (1/100) interval)) \<le> 100 * (deadline - now) - 1"
    by (simp add: algebra_simps max_def)
  then have "\<lceil>100 * (deadline - (now + max (1/100) interval))\<rceil> \<le> \<lceil>100 * (deadline - now)\<rceil> - 1"
    by linarith
  with pos show "((attempt, env, deadline, interval, now + max (1/100) interval, env now s'),
      attempt, env, deadline, interval, now, s) \<in>
      measure (\<lambda>(attempt, env, deadline, interval, now, s). nat \<lceil>100 * (deadline - now)\<rceil>)"
    by simp
qed

declare wait_for.simps [simp del]

lemma wait_for_time:
  "wait_for attempt env deadline interval now s = (r, t, s') \<Longrightarrow>
     now \<le> t \<and> t \<le> max now (deadline + max (1/100) interval)"
proof (induction attempt env deadline interval now s rule: wait_for.induct)
  case (1 attempt env deadline interval now s)
  have p: "0 < max (1/100) interval" by (simp add: max_def)
  show ?case
  proof (cases "fst (attempt now s) = None \<and> now < deadline")
    case True
    then obtain s1 where attempt: "attempt now s = (None, s1)" by (cases "attempt now s") auto
    with True 1(2) have "wait_for attempt env deadline interval (now + max (1/100) interval) (env now s1) = (r, t, s')"
      by (subst (asm) wait_for.simps) simp
    with 1(1) [OF attempt [symmetric]] True have "now + max (1/100) interval \<le> t \<and>
        t \<le> max (now + max (1/100) interval) (deadline + max (1/100) interval)" by simp
    with True p show ?thesis by linarith
  next
    case False
    with 1(2) have "t = now"
      by (subst (asm) wait_for.simps) (auto split: prod.splits option.splits if_splits)
    then show ?thesis by simp
  qed
qed

lemma wait_for_result:
  assumes "\<And>t s. I s \<Longrightarrow> I (snd (attempt t s)) \<and> I (env t s)"
  shows "wait_for attempt env deadline interval now s = (r, t, s') \<Longrightarrow> I s \<Longrightarrow>
     \<exists>s1. I s1 \<and> attempt t s1 = (r, s') \<and> (r = None \<longrightarrow> deadline \<le> t)"
  using assms
proof (induction attempt env deadline interval now s rule: wait_for.induct)
  case (1 attempt env deadline interval now s)
  show ?case
  proof (cases "fst (attempt now s) = None \<and> now < deadline")
    case True
    then obtain s1 where attempt: "attempt now s = (None, s1)" by (cases "attempt now s") auto
    with True 1(2) have w: "wait_for attempt env deadline interval (now + max (1/100) interval) (env now s1) = (r, t, s')"
      by (subst (asm) wait_for.simps) simp
    have "I (env now s1)" using 1(3,4) attempt by (metis snd_conv)
    have n: "\<not> deadline \<le> now" using True by simp
    show ?thesis by (rule 1(1) [OF attempt [symmetric] refl n w \<open>I (env now s1)\<close>]) (rule 1(4))
  next
    case False
    with 1(2) have "attempt now s = (r, s') \<and> t = now \<and> (r = None \<longrightarrow> deadline \<le> t)"
      by (subst (asm) wait_for.simps) (auto split: prod.splits option.splits if_splits)
    with 1(3) show ?thesis by auto
  qed
qed

section \<open>In the process\<close>

text \<open>
  \<open>AsyncDictSessionLock\<close>: the set of held threads; every token is \<open>"local"\<close> and there is no
  lease. \<open>discard\<close> of a thread that is not held does nothing.
\<close>

record dict_lock =
  held_threads :: "ustr list"

definition local_token :: ustr where
  "local_token = (asc ''local'')"

definition dict_try :: "dict_lock \<Rightarrow> rat \<Rightarrow> ustr \<Rightarrow> ustr \<Rightarrow> ustr option \<times> dict_lock" where
  "dict_try s now tid tok =
     (if tid \<notin> set (held_threads s)
      then (Some local_token, s\<lparr>held_threads := tid # held_threads s\<rparr>)
      else (None, s))"

definition dict_unlock :: "dict_lock \<Rightarrow> rat \<Rightarrow> ustr \<Rightarrow> ustr \<Rightarrow> dict_lock" where
  "dict_unlock s now tid tok = s\<lparr>held_threads := removeAll tid (held_threads s)\<rparr>"

definition dict_owner :: "dict_lock \<Rightarrow> rat \<Rightarrow> ustr \<Rightarrow> ustr option" where
  "dict_owner s now tid = (if tid \<in> set (held_threads s) then Some local_token else None)"

interpretation dict_lock: session_lock dict_try dict_unlock dict_owner "\<lambda>_. None" "\<lambda>_. True" "\<lambda>tok. tok = local_token"
  by unfold_locales (auto simp: dict_try_def dict_unlock_def dict_owner_def until_def)

text \<open>
  \<open>DictSessionLock\<close> keeps one \<open>threading.Lock\<close> per thread id; releasing one that is not
  locked raises \<open>RuntimeError\<close> (\<open>None\<close>).
\<close>

record thread_locks =
  locks :: "(ustr, bool) dict"

definition lock_for :: "thread_locks \<Rightarrow> ustr \<Rightarrow> bool \<times> thread_locks" where
  "lock_for s tid = (case map_of (locks s) tid of
      None \<Rightarrow> (False, s\<lparr>locks := AList.update tid False (locks s)\<rparr>)
    | Some b \<Rightarrow> (b, s))"

definition thread_try :: "thread_locks \<Rightarrow> ustr \<Rightarrow> ustr option \<times> thread_locks" where
  "thread_try s tid =
     (let (locked, s) = lock_for s tid
      in if locked then (None, s) else (Some local_token, s\<lparr>locks := AList.update tid True (locks s)\<rparr>))"

definition thread_unlock :: "thread_locks \<Rightarrow> ustr \<Rightarrow> thread_locks option" where
  "thread_unlock s tid =
     (let (locked, s) = lock_for s tid
      in if locked then Some (s\<lparr>locks := AList.update tid False (locks s)\<rparr>) else None)"

definition thread_held :: "thread_locks \<Rightarrow> ustr \<Rightarrow> bool" where
  "thread_held s tid \<longleftrightarrow> map_of (locks s) tid = Some True"

lemma thread_try_held:
  "fst (thread_try s tid) = (if thread_held s tid then None else Some local_token)"
  "thread_held (snd (thread_try s tid)) tid' \<longleftrightarrow> tid' = tid \<or> thread_held s tid'"
  by (auto simp: thread_try_def lock_for_def thread_held_def split: option.splits)

lemma thread_unlock_held:
  "thread_unlock s tid = None \<longleftrightarrow> \<not> thread_held s tid"
  "thread_unlock s tid = Some s' \<Longrightarrow> thread_held s' tid' \<longleftrightarrow> tid' \<noteq> tid \<and> thread_held s tid'"
  by (auto simp: thread_unlock_def lock_for_def thread_held_def split: option.splits if_splits)

section \<open>In Redis\<close>

record 'r redis_lock =
  lk_client :: "'r kv_client"
  lk_db :: 'r
  lk_ttl_ms :: int

definition ttl_ms_of :: "int \<Rightarrow> int" where
  "ttl_ms_of ttl_seconds = max 1000 (ttl_seconds * 1000)"

definition lock_key :: "ustr \<Rightarrow> ustr" where
  "lock_key tid = (asc ''cs:session:lock:'') @ (asc ''{'') @ tid @ (asc ''}'')"

definition redis_try :: "'r redis_lock \<Rightarrow> rat \<Rightarrow> ustr \<Rightarrow> ustr \<Rightarrow> ustr option \<times> 'r redis_lock" where
  "redis_try s now tid tok =
     (let (ok, db) = kv_set_nx (lk_client s) (lk_db s) now (lock_key tid) tok (of_int (lk_ttl_ms s) / 1000)
      in (if ok then Some tok else None, s\<lparr>lk_db := db\<rparr>))"

definition unlock_lua :: "'r kv_client \<Rightarrow> 'r \<Rightarrow> rat \<Rightarrow> ustr \<Rightarrow> ustr \<Rightarrow> 'r" where
  "unlock_lua c db now key tok = (if kv_get c db now key = Some tok then kv_del c db now key else db)"

definition redis_unlock :: "'r redis_lock \<Rightarrow> rat \<Rightarrow> ustr \<Rightarrow> ustr \<Rightarrow> 'r redis_lock" where
  "redis_unlock s now tid tok = s\<lparr>lk_db := unlock_lua (lk_client s) (lk_db s) now (lock_key tid) tok\<rparr>"

definition redis_owner :: "'r redis_lock \<Rightarrow> rat \<Rightarrow> ustr \<Rightarrow> ustr option" where
  "redis_owner s now tid = kv_get (lk_client s) (lk_db s) now (lock_key tid)"

definition redis_lease :: "'r redis_lock \<Rightarrow> rat option" where
  "redis_lease s = Some (of_int (lk_ttl_ms s) / 1000)"

definition redis_lock_ok :: "'r redis_lock \<Rightarrow> bool" where
  "redis_lock_ok s \<longleftrightarrow> kv_laws (lk_client s)"

lemma lock_key_eq [simp]: "lock_key tid = lock_key tid' \<longleftrightarrow> tid = tid'"
  by (simp add: lock_key_def)

lemma redis_try_eq:
  "fst (redis_try s now tid tok) =
     (if fst (kv_set_nx (lk_client s) (lk_db s) now (lock_key tid) tok (of_int (lk_ttl_ms s) / 1000))
      then Some tok else None)"
  "snd (redis_try s now tid tok) = s\<lparr>lk_db :=
     snd (kv_set_nx (lk_client s) (lk_db s) now (lock_key tid) tok (of_int (lk_ttl_ms s) / 1000))\<rparr>"
  by (simp_all add: redis_try_def case_prod_beta)

interpretation redis_lock: session_lock redis_try redis_unlock redis_owner redis_lease redis_lock_ok "\<lambda>_. True"
  by unfold_locales
    (auto simp: redis_try_eq redis_unlock_def unlock_lua_def redis_owner_def redis_lease_def redis_lock_ok_def
      kv_rules)

section \<open>Holding a lock for a turn\<close>

datatype session_error = SessionBusyError ustr

text \<open>
  \<open>hold\<close> / \<open>ahold\<close>: the body runs between a successful acquire and the release in
  \<open>finally\<close>; \<open>'a\<close> is its outcome, exceptions included.
\<close>

definition hold ::
  "('s \<Rightarrow> rat \<Rightarrow> ustr \<Rightarrow> ustr \<Rightarrow> ustr option \<times> 's) \<Rightarrow> ('s \<Rightarrow> rat \<Rightarrow> ustr \<Rightarrow> ustr \<Rightarrow> 's) \<Rightarrow>
   lock_settings \<Rightarrow> (rat \<Rightarrow> 's \<Rightarrow> 's) \<Rightarrow> ustr \<Rightarrow> ustr \<Rightarrow> (rat \<Rightarrow> 's \<Rightarrow> 'a \<times> rat \<times> 's) \<Rightarrow> rat \<Rightarrow> 's \<Rightarrow>
   (session_error + 'a) \<times> rat \<times> 's" where
  "hold att fre cfg env tid tok body now s =
     (case wait_for (\<lambda>t s. att s t tid tok) env (now + lock_wait cfg) (lock_interval cfg) now s of
        (None, t, s') \<Rightarrow> (Inl (SessionBusyError tid), t, s')
      | (Some tk, t, s') \<Rightarrow> let (r, t', s'') = body t s' in (Inr r, t', fre s'' t' tid tk))"

text \<open>
  C5: Mutual exclusion across workers. Once an attempt on a thread id has succeeded, no other
  attempt on it succeeds, whoever tries and whatever is acquired or released on other threads
  or with other tokens, until the holder releases it or its lease runs out.
\<close>

theorem redis_lock_exclusive:
  assumes "redis_lock_ok s" and "fst (redis_try s t0 tid a) = Some a" and "sorted (map op_time ops)"
    and "\<forall>x \<in> set ops. t0 \<le> op_time x \<and> op_time x < t0 + of_int (lk_ttl_ms s) / 1000"
    and "\<forall>now. Unlock now tid a \<notin> set ops"
  shows "\<forall>now b. (TryLock now tid b, Some b) \<notin> set (fst (lock_trace redis_try redis_unlock (snd (redis_try s t0 tid a)) ops))"
  using redis_lock.exclusive [OF assms(1) TrueI assms(2,3) _ assms(5)] assms(4)
  by (simp add: redis_lease_def)

definition demo_lock :: "ref_db redis_lock" where
  "demo_lock = \<lparr>lk_client = ref_kv, lk_db = (\<lambda>_. None), lk_ttl_ms = 180000\<rparr>"

theorem redis_lock_exclusive_witness:
  "(TryLock 5 [116] [98], Some [98]) \<notin> set (fst (lock_trace redis_try redis_unlock (snd (redis_try demo_lock 0 [116] [97]))
     [Unlock 3 [116] [99], TryLock 5 [116] [98]]))"
proof -
  have "redis_lock_ok demo_lock" by (simp add: redis_lock_ok_def demo_lock_def ref_kv_laws)
  moreover have "fst (redis_try demo_lock 0 [116] [97]) = Some [97]"
    by (simp add: redis_try_eq demo_lock_def ref_kv_def ref_get_def)
  ultimately show ?thesis
    using redis_lock_exclusive [of demo_lock 0 "[116]" "[97]" "[Unlock 3 [116] [99], TryLock 5 [116] [98]]"]
    by (simp add: demo_lock_def)
qed

text \<open>
  C6: A turn ends and gives the lock back. Waiting for the lock takes at most the configured
  wait plus one polling interval, whatever the other workers do meanwhile; "busy" is only
  answered once the wait is over, and when the body has run the caller's token no longer owns
  the thread, whether the body returned or raised.
\<close>

theorem hold_waits_boundedly:
  assumes "redis_lock_ok s" and "lock_wait cfg \<ge> 0"
    and "\<And>t s. redis_lock_ok s \<Longrightarrow> redis_lock_ok (env t s) \<and> redis_lock_ok (snd (snd (body t s)))"
  shows "case hold redis_try redis_unlock cfg env tid tok body now s of
      (Inl e, t, s') \<Rightarrow> e = SessionBusyError tid \<and> now + lock_wait cfg \<le> t \<and>
        t \<le> now + lock_wait cfg + max (1/100) (lock_interval cfg)
    | (Inr r, t, s') \<Rightarrow> redis_owner s' t tid \<noteq> Some tok \<and>
        (\<exists>t0 s0. now \<le> t0 \<and> t0 \<le> now + lock_wait cfg + max (1/100) (lock_interval cfg) \<and>
           r = fst (body t0 s0) \<and> t = fst (snd (body t0 s0)))"
proof -
  let ?w = "wait_for (\<lambda>t s. redis_try s t tid tok) env (now + lock_wait cfg) (lock_interval cfg) now s"
  obtain r0 t0 s1 where w: "?w = (r0, t0, s1)" by (cases ?w)
  have p: "0 < max (1/100) (lock_interval cfg)" by (simp add: max_def)
  have time: "now \<le> t0 \<and> t0 \<le> now + lock_wait cfg + max (1/100) (lock_interval cfg)"
    using wait_for_time [OF w] assms(2) p by linarith
  have step: "redis_lock_ok s \<Longrightarrow> redis_lock_ok (snd (redis_try s t tid tok)) \<and> redis_lock_ok (env t s)" for t s
    using assms(3) by (simp add: redis_lock.att_lawful)
  from wait_for_result [of redis_lock_ok, OF step w assms(1)] obtain s0 where
    s0: "redis_lock_ok s0" "redis_try s0 t0 tid tok = (r0, s1)" and late: "r0 = None \<longrightarrow> now + lock_wait cfg \<le> t0"
    by blast
  have ok: "redis_lock_ok s1" using redis_lock.att_lawful [OF s0(1), of t0 tid tok] s0(2) by simp
  show ?thesis
  proof (cases r0)
    case None
    with w time late show ?thesis by (simp add: hold_def)
  next
    case (Some tk)
    with s0(2) have tk: "tk = tok" by (auto simp: redis_try_def split: prod.splits if_splits)
    obtain r t' s2 where b: "body t0 s1 = (r, t', s2)" by (cases "body t0 s1")
    have "redis_lock_ok s2" using assms(3) [OF ok, of t0] b by simp
    then have "redis_owner (redis_unlock s2 t' tid tok) t' tid \<noteq> Some tok"
      by (simp add: redis_lock.fre_owner)
    with w time b Some tk show ?thesis
      by (auto simp: hold_def intro!: exI [of _ t0] exI [of _ s1])
  qed
qed

theorem hold_waits_boundedly_witness:
  "redis_owner (snd (snd (hold redis_try redis_unlock (lock_settings_of 180 10 (1/20)) (\<lambda>t s. s) [116] [97]
     (\<lambda>t s. (True, t + 5, s)) 0 demo_lock))) 5 [116] \<noteq> Some [97]"
proof -
  have ok: "redis_lock_ok demo_lock" by (simp add: redis_lock_ok_def demo_lock_def ref_kv_laws)
  have h: "hold redis_try redis_unlock (lock_settings_of 180 10 (1/20)) (\<lambda>t s. s) [116] [97]
      (\<lambda>t s. (True, t + 5, s)) 0 demo_lock =
     (Inr True, 5, redis_unlock (snd (redis_try demo_lock 0 [116] [97])) 5 [116] [97])"
    by (simp add: hold_def wait_for.simps redis_try_def demo_lock_def ref_kv_def ref_get_def)
  show ?thesis
    using hold_waits_boundedly [OF ok, where cfg = "lock_settings_of 180 10 (1/20)" and env = "\<lambda>t s. s"
        and body = "\<lambda>t s. (True, t + 5, s)" and tid = "[116]" and tok = "[97]" and now = 0]
    unfolding h by (simp add: lock_settings_of_def)
qed

end
