(* ===== verification/Text.thy ===== *)
theory Text
  imports Prelude
begin

text \<open>
  Formatting that the components share: decimal numerals (\<open>str(n)\<close>, f-strings), \<open>sep.join\<close>,
  Python's \<open>round\<close> (half to even, on exact rationals), slices and \<open>str.replace\<close>.
\<close>

fun show_nat :: "nat \<Rightarrow> ustr" where
  "show_nat n = (if n < 10 then [48 + n] else show_nat (n div 10) @ [48 + n mod 10])"

declare show_nat.simps [simp del]

definition show_int :: "int \<Rightarrow> ustr" where
  "show_int i = (if i < 0 then 45 # show_nat (nat (- i)) else show_nat (nat i))"

definition pad2 :: "nat \<Rightarrow> ustr" where
  "pad2 n = (if n < 10 then 48 # show_nat n else show_nat n)"

fun join :: "ustr \<Rightarrow> ustr list \<Rightarrow> ustr" where
  "join sep [] = []"
| "join sep [x] = x"
| "join sep (x # y # xs) = x @ sep @ join sep (y # xs)"

definition round_even :: "rat \<Rightarrow> int" where
  "round_even x =
     (let f = floor x; d = x - of_int f
      in if d < 1/2 then f else if d > 1/2 then f + 1 else if even f then f else f + 1)"

text \<open>\<open>str.replace(old, new)\<close> for a non-empty \<open>old\<close>: left to right, without overlap.\<close>

function replace_all :: "ustr \<Rightarrow> ustr \<Rightarrow> ustr \<Rightarrow> ustr" where
  "replace_all old new [] = []"
| "replace_all old new (c # cs) =
     (if old \<noteq> [] \<and> starts_with old (c # cs)
      then new @ replace_all old new (drop (length old) (c # cs))
      else c # replace_all old new cs)"
  by pat_completeness auto
termination
  by (relation "measure (\<lambda>(old, new, s). length s)") auto

text \<open>Splitting at separators, and \<open>str.splitlines\<close> (blank pieces are kept).\<close>

fun split_on :: "(nat \<Rightarrow> bool) \<Rightarrow> ustr \<Rightarrow> ustr list" where
  "split_on p [] = [[]]"
| "split_on p (c # cs) =
     (if p c then [] # split_on p cs else (case split_on p cs of [] \<Rightarrow> [[c]] | w # ws \<Rightarrow> (c # w) # ws))"

definition is_line_break :: "nat \<Rightarrow> bool" where
  "is_line_break c \<longleftrightarrow> (10 \<le> c \<and> c \<le> 13) \<or> (28 \<le> c \<and> c \<le> 30) \<or> c = 0x85 \<or> c = 0x2028 \<or> c = 0x2029"

definition strip_char :: "nat \<Rightarrow> ustr \<Rightarrow> ustr" where
  "strip_char x s = rev (dropWhile ((=) x) (rev (dropWhile ((=) x) s)))"

text \<open>\<open>xs[-n:]\<close> for a positive \<open>n\<close>.\<close>

definition last_n :: "nat \<Rightarrow> 'a list \<Rightarrow> 'a list" where
  "last_n n xs = drop (length xs - n) xs"

text \<open>UTF-8.\<close>

fun utf8 :: "ustr \<Rightarrow> nat list" where
  "utf8 [] = []"
| "utf8 (c # cs) =
     (if c < 0x80 then [c]
      else if c < 0x800 then [0xC0 + c div 64, 0x80 + c mod 64]
      else if c < 0x10000 then [0xE0 + c div 4096, 0x80 + c div 64 mod 64, 0x80 + c mod 64]
      else [0xF0 + c div 262144, 0x80 + c div 4096 mod 64, 0x80 + c div 64 mod 64, 0x80 + c mod 64]) @ utf8 cs"

text \<open>The format \<open>:g\<close>: six significant digits; the fuel covers the exponents of a float.\<close>

fun decimal_exponent :: "nat \<Rightarrow> rat \<Rightarrow> int" where
  "decimal_exponent 0 x = 0"
| "decimal_exponent (Suc n) x =
     (if x \<ge> 10 then decimal_exponent n (x / 10) + 1 else if x < 1 then decimal_exponent n (x * 10) - 1 else 0)"

definition ten_to :: "int \<Rightarrow> rat" where
  "ten_to k = (if k \<ge> 0 then 10 ^ nat k else 1 / 10 ^ nat (- k))"

definition drop_zeros :: "ustr \<Rightarrow> ustr" where
  "drop_zeros ds = rev (dropWhile ((=) 48) (rev ds))"

definition format_g :: "rat \<Rightarrow> ustr" where
  "format_g x =
     (if x = 0 then [48]
      else let a = abs x; e0 = decimal_exponent 700 a; n0 = nat (round_even (a * ten_to (5 - e0)));
               (n, e) = (if n0 = 1000000 then (100000, e0 + 1) else (n0, e0)); ds = show_nat n;
               with_point = (\<lambda>i f. i @ (if f = [] then [] else 46 # f))
        in (if x < 0 then [45] else []) @
           (if -4 \<le> e \<and> e < 6
            then (if e \<ge> 0 then with_point (take (nat e + 1) ds) (drop_zeros (drop (nat e + 1) ds))
                  else [48, 46] @ replicate (nat (- e) - 1) 48 @ drop_zeros ds)
            else with_point (take 1 ds) (drop_zeros (drop 1 ds)) @ [101] @ (if e < 0 then [45] else [43]) @ pad2 (nat (abs e))))"

section \<open>Facts\<close>

lemma show_nat_nonempty [simp]: "show_nat n \<noteq> []"
  by (subst show_nat.simps) simp

lemma show_nat_digits: "c \<in> set (show_nat n) \<Longrightarrow> 48 \<le> c \<and> c \<le> 57"
proof (induction n rule: show_nat.induct)
  case (1 n)
  show ?case
  proof (cases "n < 10")
    case True
    with 1(2) show ?thesis by (subst (asm) show_nat.simps) simp
  next
    case False
    with 1(2) have "c \<in> set (show_nat (n div 10)) \<or> c = 48 + n mod 10"
      by (subst (asm) show_nat.simps) auto
    with 1(1) False show ?thesis by auto
  qed
qed

text \<open>The numeral read back.\<close>

definition read_nat :: "ustr \<Rightarrow> nat" where
  "read_nat s = foldl (\<lambda>a c. 10 * a + (c - 48)) 0 s"

lemma read_show_nat [simp]: "read_nat (show_nat n) = n"
proof (induction n rule: show_nat.induct)
  case (1 n)
  show ?case
  proof (cases "n < 10")
    case True
    then show ?thesis by (subst show_nat.simps) (simp add: read_nat_def)
  next
    case False
    with 1 have "read_nat (show_nat (n div 10)) = n div 10" by simp
    with False show ?thesis by (subst show_nat.simps) (simp add: read_nat_def)
  qed
qed

lemma show_nat_inj [simp]: "show_nat m = show_nat n \<longleftrightarrow> m = n"
  by (metis read_show_nat)

lemma round_even_bounds: "of_int a \<le> x \<Longrightarrow> x \<le> of_int b \<Longrightarrow> a \<le> round_even x \<and> round_even x \<le> b"
proof -
  assume a: "of_int a \<le> x" and b: "x \<le> of_int b"
  have "a \<le> floor x" using a by (simp add: le_floor_iff)
  moreover have fb: "floor x \<le> b" using b by (metis floor_mono floor_of_int)
  moreover have "floor x + 1 \<le> b" if "\<not> x - of_int (floor x) < 1/2"
  proof -
    have "floor x \<noteq> b" using b that by auto
    with fb show ?thesis by linarith
  qed
  ultimately show ?thesis unfolding round_even_def Let_def by auto
qed

lemma round_even_int [simp]: "round_even (of_int i) = i"
  by (simp add: round_even_def)

lemma length_join_singletons: "length (concat (replicate n [c])) = n"
  by (induction n) auto

lemma split_on_none: "\<forall>c \<in> set s. \<not> p c \<Longrightarrow> split_on p s = [s]"
  by (induction s) simp_all

lemma split_on_sep: "\<forall>c \<in> set s. \<not> p c \<Longrightarrow> p x \<Longrightarrow> split_on p (s @ x # r) = s # split_on p r"
  by (induction s) simp_all

lemma split_on_join:
  "xs \<noteq> [] \<Longrightarrow> \<forall>s \<in> set xs. \<forall>c \<in> set s. \<not> p c \<Longrightarrow> p x \<Longrightarrow> split_on p (join [x] xs) = xs"
  by (induction "[x]" xs rule: join.induct) (simp_all add: split_on_none split_on_sep)

lemma length_last_n [simp]: "length (last_n n xs) = min n (length xs)"
  by (simp add: last_n_def)

lemma set_last_n: "x \<in> set (last_n n xs) \<Longrightarrow> x \<in> set xs"
  by (auto simp: last_n_def dest: in_set_dropD)

lemma join_nonempty: "\<forall>s \<in> set xs. s \<noteq> [] \<Longrightarrow> join sep xs = [] \<longleftrightarrow> xs = []"
  by (induction sep xs rule: join.induct) auto

lemma set_join: "c \<in> set (join sep xs) \<Longrightarrow> c \<in> set sep \<or> (\<exists>s \<in> set xs. c \<in> set s)"
  by (induction sep xs rule: join.induct) auto

lemma hd_join: "hd xs \<noteq> [] \<Longrightarrow> xs \<noteq> [] \<Longrightarrow> hd (join sep xs) = hd (hd xs)"
  by (induction sep xs rule: join.induct) auto

lemma last_join: "\<forall>s \<in> set xs. s \<noteq> [] \<Longrightarrow> xs \<noteq> [] \<Longrightarrow> last (join sep xs) = last (last xs)"
  by (induction sep xs rule: join.induct) (auto simp: join_nonempty)

lemma stripped_join:
  "\<forall>s \<in> set xs. s \<noteq> [] \<and> stripped s \<Longrightarrow> stripped (join sep xs)"
  by (cases "xs = []") (auto simp: stripped_def join_nonempty hd_join last_join)

end
