(* ===== verification/Checkpoint_Codec.thy ===== *)
theory Checkpoint_Codec
  imports Text
begin

text \<open>
  The envelope of a cached session (\<open>app/session_cache.py\<close>): the three dictionaries of
  \<open>InMemorySaver\<close> as a msgpack document behind the magic bytes \<open>CSK1\<close>. Python objects that
  msgpack can carry are \<open>mp\<close>; a tuple used as a dictionary key is a list of them. ormsgpack
  and pickle are third-party or standard-library byte formats: \<open>codec\<close> holds them as
  parameters, with \<open>codec_ok\<close> (unpacking what was packed gives it back) as the only thing
  relied upon. Decoding is written for every document, well formed or not: each Python
  operation that would raise is \<open>None\<close>.
\<close>

type_synonym bytes = "nat list"

datatype mp =
    MNil
  | MInt int
  | MStr ustr
  | MBin bytes
  | MList "mp list"
  | MMap "(ustr \<times> mp) list"

type_synonym typed = "ustr \<times> bytes"
type_synonym saved = "typed \<times> typed \<times> mp"
type_synonym tuple = "mp list"
type_synonym pending = "mp \<times> mp \<times> typed \<times> mp"

record payload =
  storage :: "(ustr, (ustr, saved) dict) dict"
  writes :: "(tuple, (tuple, pending) dict) dict"
  blobs :: "(tuple, typed) dict"

record codec =
  packb :: "mp \<Rightarrow> bytes"
  unpackb :: "bytes \<Rightarrow> mp option"
  unpickle :: "bytes \<Rightarrow> payload option"
  py_str :: "mp \<Rightarrow> ustr"

definition codec_ok :: "codec \<Rightarrow> bool" where
  "codec_ok c \<longleftrightarrow> (\<forall>v. unpackb c (packb c v) = Some v)"

definition envelope_magic :: bytes where
  "envelope_magic = (asc ''CSK1'')"

section \<open>Encoding\<close>

definition typed_to_list :: "typed \<Rightarrow> mp" where
  "typed_to_list p = (case p of (typ, data) \<Rightarrow> MList [MStr typ, MBin data])"

definition encode_saved :: "saved \<Rightarrow> mp" where
  "encode_saved s = (case s of (dumped, meta, parent) \<Rightarrow> MList [typed_to_list dumped, typed_to_list meta, parent])"

definition encode_pending :: "tuple \<times> pending \<Rightarrow> mp" where
  "encode_pending p = (case p of (inner_key, task_id, channel, ty, task_path) \<Rightarrow>
     MList [MList inner_key, MList [task_id, channel, typed_to_list ty, task_path]])"

definition encode_checkpoint_blob :: "codec \<Rightarrow> payload \<Rightarrow> bytes" where
  "encode_checkpoint_blob c p =
     (let storage_out = MMap (map (\<lambda>(ns, cps). (ns, MMap (map (\<lambda>(cid, s). (cid, encode_saved s)) cps))) (storage p));
          writes_out = MList (map (\<lambda>(outer_key, inner). MList [MList outer_key, MList (map encode_pending inner)]) (writes p));
          blobs_out = MList (map (\<lambda>(blob_key, ty). MList [MList blob_key, typed_to_list ty]) (blobs p));
          packed = packb c (MMap [((asc ''v''), MInt 1), ((asc ''storage''), storage_out), ((asc ''writes''), writes_out), ((asc ''blobs''), blobs_out)])
      in envelope_magic @ packed)"

section \<open>Decoding\<close>

text \<open>Iterating over a value, as \<open>for\<close> and tuple assignment do.\<close>

primrec iterate :: "mp \<Rightarrow> mp list option" where
  "iterate MNil = None"
| "iterate (MInt i) = None"
| "iterate (MStr s) = Some (map (\<lambda>c. MStr [c]) s)"
| "iterate (MBin b) = Some (map (\<lambda>x. MInt (int x)) b)"
| "iterate (MList xs) = Some xs"
| "iterate (MMap m) = Some (map (\<lambda>p. MStr (fst p)) m)"

primrec falsy :: "mp \<Rightarrow> bool" where
  "falsy MNil = True"
| "falsy (MInt i) = (i = 0)"
| "falsy (MStr s) = (s = [])"
| "falsy (MBin b) = (b = [])"
| "falsy (MList xs) = (xs = [])"
| "falsy (MMap m) = (m = [])"

primrec hashable :: "mp \<Rightarrow> bool" where
  "hashable MNil = True"
| "hashable (MInt i) = True"
| "hashable (MStr s) = True"
| "hashable (MBin b) = True"
| "hashable (MList xs) = False"
| "hashable (MMap m) = False"

definition items :: "mp \<Rightarrow> (ustr \<times> mp) list option" where
  "items v = (case v of MMap m \<Rightarrow> Some m | _ \<Rightarrow> None)"

definition str_of :: "codec \<Rightarrow> mp \<Rightarrow> ustr" where
  "str_of c v = (case v of MStr s \<Rightarrow> s | _ \<Rightarrow> py_str c v)"

text \<open>\<open>bytes(data)\<close> on a value.\<close>

definition bytes_of :: "mp \<Rightarrow> bytes option" where
  "bytes_of v = (case v of
       MBin b \<Rightarrow> Some b
     | MStr s \<Rightarrow> Some (utf8 s)
     | MInt n \<Rightarrow> if n < 0 then None else Some (replicate (nat n) 0)
     | MList xs \<Rightarrow> if list_all (\<lambda>x. case x of MInt i \<Rightarrow> 0 \<le> i \<and> i < 256 | _ \<Rightarrow> False) xs
         then Some (map (\<lambda>x. case x of MInt i \<Rightarrow> nat i | _ \<Rightarrow> 0) xs) else None
     | MMap m \<Rightarrow> if m = [] then Some [] else None
     | MNil \<Rightarrow> None)"

definition list_to_typed :: "codec \<Rightarrow> mp \<Rightarrow> typed option" where
  "list_to_typed c v = (case iterate v of
       Some [typ, data] \<Rightarrow> map_option (\<lambda>b. (str_of c typ, b)) (bytes_of data)
     | _ \<Rightarrow> None)"

text \<open>A loop that fills a dictionary and fails as soon as one entry fails.\<close>

fun fill :: "('a \<Rightarrow> ('k \<times> 'v) option) \<Rightarrow> 'a list \<Rightarrow> ('k, 'v) dict \<Rightarrow> ('k, 'v) dict option" where
  "fill f [] d = Some d"
| "fill f (x # xs) d = (case f x of None \<Rightarrow> None | Some (k, v) \<Rightarrow> fill f xs (AList.update k v d))"

definition decode_saved :: "codec \<Rightarrow> ustr \<times> mp \<Rightarrow> (ustr \<times> saved) option" where
  "decode_saved c e = (case iterate (snd e) of
       Some [dumped, meta, parent] \<Rightarrow>
         (case (list_to_typed c dumped, list_to_typed c meta) of
            (Some d, Some m) \<Rightarrow> Some (fst e, d, m, parent)
          | _ \<Rightarrow> None)
     | _ \<Rightarrow> None)"

definition decode_ns :: "codec \<Rightarrow> ustr \<times> mp \<Rightarrow> (ustr \<times> (ustr, saved) dict) option" where
  "decode_ns c e = (case items (snd e) of None \<Rightarrow> None
     | Some cps \<Rightarrow> map_option (Pair (fst e)) (fill (decode_saved c) cps []))"

definition decode_pending :: "codec \<Rightarrow> mp \<Rightarrow> (tuple \<times> pending) option" where
  "decode_pending c v = (case iterate v of
       Some [inner_key, value] \<Rightarrow>
         (case iterate value of
            Some [task_id, channel, ty, task_path] \<Rightarrow>
              (case (iterate inner_key, list_to_typed c ty) of
                 (Some key, Some ty') \<Rightarrow>
                   if list_all hashable key then Some (key, task_id, channel, ty', task_path) else None
               | _ \<Rightarrow> None)
          | _ \<Rightarrow> None)
     | _ \<Rightarrow> None)"

definition decode_writes_entry :: "codec \<Rightarrow> mp \<Rightarrow> (tuple \<times> (tuple, pending) dict) option" where
  "decode_writes_entry c v = (case iterate v of
       Some [outer_key, its] \<Rightarrow>
         (case (iterate outer_key, iterate its) of
            (Some key, Some its') \<Rightarrow>
              if length key = 3 \<and> list_all hashable key
              then map_option (Pair key) (fill (decode_pending c) its' []) else None
          | _ \<Rightarrow> None)
     | _ \<Rightarrow> None)"

definition decode_blob :: "codec \<Rightarrow> mp \<Rightarrow> (tuple \<times> typed) option" where
  "decode_blob c v = (case iterate v of
       Some [blob_key, ty] \<Rightarrow>
         (case (iterate blob_key, list_to_typed c ty) of
            (Some key, Some ty') \<Rightarrow>
              if length key = 4 \<and> list_all hashable key then Some (key, ty') else None
          | _ \<Rightarrow> None)
     | _ \<Rightarrow> None)"

text \<open>\<open>loaded.get(name) or {}\<close> (or \<open>[]\<close>).\<close>

definition get_or_empty :: "(ustr \<times> mp) list \<Rightarrow> ustr \<Rightarrow> mp \<Rightarrow> mp" where
  "get_or_empty m name dflt = (case map_of m name of None \<Rightarrow> dflt | Some v \<Rightarrow> if falsy v then dflt else v)"

definition payload_from_msgpack :: "codec \<Rightarrow> (ustr \<times> mp) list \<Rightarrow> payload option" where
  "payload_from_msgpack c loaded =
     (case (items (get_or_empty loaded (asc ''storage'') (MMap [])),
            iterate (get_or_empty loaded (asc ''writes'') (MList [])),
            iterate (get_or_empty loaded (asc ''blobs'') (MList []))) of
        (Some ss, Some ws, Some bs) \<Rightarrow>
          (case (fill (decode_ns c) ss [], fill (decode_writes_entry c) ws [], fill (decode_blob c) bs []) of
             (Some s, Some w, Some b) \<Rightarrow> Some \<lparr>storage = s, writes = w, blobs = b\<rparr>
           | _ \<Rightarrow> None)
      | _ \<Rightarrow> None)"

definition decode_checkpoint_blob :: "codec \<Rightarrow> bytes \<Rightarrow> payload option" where
  "decode_checkpoint_blob c raw =
     (if raw = [] then None
      else if starts_with envelope_magic raw
      then (case unpackb c (drop (length envelope_magic) raw) of
              Some (MMap loaded) \<Rightarrow> payload_from_msgpack c loaded
            | _ \<Rightarrow> None)
      else unpickle c raw)"

section \<open>Round trip\<close>

definition payload_ok :: "payload \<Rightarrow> bool" where
  "payload_ok p \<longleftrightarrow>
     dict_ok (storage p) \<and> (\<forall>(ns, cps) \<in> set (storage p). dict_ok cps) \<and>
     dict_ok (writes p) \<and>
     (\<forall>(k, inner) \<in> set (writes p). length k = 3 \<and> list_all hashable k \<and> dict_ok inner \<and>
        (\<forall>(ik, v) \<in> set inner. list_all hashable ik)) \<and>
     dict_ok (blobs p) \<and> (\<forall>(k, ty) \<in> set (blobs p). length k = 4 \<and> list_all hashable k)"

lemma update_fresh: "k \<notin> fst ` set d \<Longrightarrow> AList.update k v d = d @ [(k, v)]"
  by (induction d) auto

lemma fill_map:
  assumes "\<And>k v. (k, v) \<in> set xs \<Longrightarrow> f (g (k, v)) = Some (k, v)"
    and "dict_ok (d @ xs)"
  shows "fill f (map g xs) d = Some (d @ xs)"
  using assms
proof (induction xs arbitrary: d)
  case Nil
  then show ?case by simp
next
  case (Cons p xs)
  obtain k v where p: "p = (k, v)" by (cases p)
  have "k \<notin> fst ` set d" using Cons.prems(2) by (auto simp: dict_ok_def p)
  moreover have "dict_ok ((d @ [(k, v)]) @ xs)" using Cons.prems(2) by (simp add: p)
  then have "fill f (map g xs) (d @ [(k, v)]) = Some ((d @ [(k, v)]) @ xs)"
    using Cons.prems(1) by (intro Cons.IH) auto
  ultimately show ?case using Cons.prems(1) [of k v] by (simp add: p update_fresh)
qed

lemma fill_map_Nil:
  "(\<And>k v. (k, v) \<in> set xs \<Longrightarrow> f (g (k, v)) = Some (k, v)) \<Longrightarrow> dict_ok xs \<Longrightarrow> fill f (map g xs) [] = Some xs"
  using fill_map [of xs f g "[]"] by simp

lemma list_to_typed_to_list [simp]: "list_to_typed c (typed_to_list p) = Some p"
  by (cases p) (simp add: list_to_typed_def typed_to_list_def str_of_def bytes_of_def)

lemma decode_encode_saved [simp]: "decode_saved c (cid, encode_saved s) = Some (cid, s)"
  by (cases s) (simp add: decode_saved_def encode_saved_def)

lemma decode_encode_ns:
  "dict_ok cps \<Longrightarrow> decode_ns c (ns, MMap (map (\<lambda>(cid, s). (cid, encode_saved s)) cps)) = Some (ns, cps)"
  using fill_map_Nil [of cps "decode_saved c" "\<lambda>(cid, s). (cid, encode_saved s)"]
  by (simp add: decode_ns_def items_def)

lemma decode_encode_pending:
  "list_all hashable k \<Longrightarrow> decode_pending c (encode_pending (k, v)) = Some (k, v)"
  by (cases v) (simp add: decode_pending_def encode_pending_def)

lemma decode_encode_writes:
  "length k = 3 \<Longrightarrow> list_all hashable k \<Longrightarrow> dict_ok inner \<Longrightarrow> \<forall>(ik, v) \<in> set inner. list_all hashable ik \<Longrightarrow>
     decode_writes_entry c (MList [MList k, MList (map encode_pending inner)]) = Some (k, inner)"
proof -
  assume k: "length k = 3" "list_all hashable k" and d: "dict_ok inner"
    and h: "\<forall>(ik, v) \<in> set inner. list_all hashable ik"
  have "fill (decode_pending c) (map encode_pending inner) [] = Some inner"
  proof (rule fill_map_Nil [OF _ d])
    fix ik v assume "(ik, v) \<in> set inner"
    with h have "list_all hashable ik" by blast
    then show "decode_pending c (encode_pending (ik, v)) = Some (ik, v)" by (rule decode_encode_pending)
  qed
  with k show ?thesis by (simp add: decode_writes_entry_def)
qed

lemma decode_encode_blob:
  "length k = 4 \<Longrightarrow> list_all hashable k \<Longrightarrow>
     decode_blob c (MList [MList k, typed_to_list ty]) = Some (k, ty)"
  by (simp add: decode_blob_def)

lemma decode_encode:
  assumes "codec_ok c" and "payload_ok p"
  shows "decode_checkpoint_blob c (encode_checkpoint_blob c p) = Some p"
proof -
  let ?gs = "\<lambda>(ns, cps). (ns, MMap (map (\<lambda>(cid, s). (cid, encode_saved s)) cps))"
  let ?gw = "\<lambda>(outer_key, inner). MList [MList outer_key, MList (map encode_pending inner)]"
  let ?gb = "\<lambda>(blob_key, ty). MList [MList blob_key, typed_to_list ty]"
  have s: "fill (decode_ns c) (map ?gs (storage p)) [] = Some (storage p)"
    using assms(2) by (intro fill_map_Nil) (auto simp: payload_ok_def decode_encode_ns)
  have w: "fill (decode_writes_entry c) (map ?gw (writes p)) [] = Some (writes p)"
    using assms(2) by (intro fill_map_Nil) (auto simp: payload_ok_def intro!: decode_encode_writes)
  have b: "fill (decode_blob c) (map ?gb (blobs p)) [] = Some (blobs p)"
    using assms(2) by (intro fill_map_Nil) (auto simp: payload_ok_def decode_encode_blob)
  have magic: "starts_with envelope_magic (envelope_magic @ r)" for r by (simp add: starts_with_iff)
  have ne: "envelope_magic @ r \<noteq> []" for r by (simp add: envelope_magic_def asc_def)
  have keys: "get_or_empty [((asc ''v''), MInt 1), ((asc ''storage''), MMap ss), ((asc ''writes''), MList ws), ((asc ''blobs''), MList bs)] (asc ''storage'') (MMap []) = MMap ss"
    "get_or_empty [((asc ''v''), MInt 1), ((asc ''storage''), MMap ss), ((asc ''writes''), MList ws), ((asc ''blobs''), MList bs)] (asc ''writes'') (MList []) = MList ws"
    "get_or_empty [((asc ''v''), MInt 1), ((asc ''storage''), MMap ss), ((asc ''writes''), MList ws), ((asc ''blobs''), MList bs)] (asc ''blobs'') (MList []) = MList bs"
    for ss ws bs by (auto simp: get_or_empty_def asc_def)
  show ?thesis
    using assms(1) s w b ne
    by (simp add: encode_checkpoint_blob_def Let_def decode_checkpoint_blob_def magic codec_ok_def
        payload_from_msgpack_def keys items_def)
qed

text \<open>
  C7: A cached session survives the envelope: decoding what was encoded gives the three
  dictionaries back exactly, keys, order and bytes included, although tuples travel as lists.
\<close>

theorem checkpoint_roundtrip:
  assumes "codec_ok c" and "payload_ok p"
  shows "decode_checkpoint_blob c (encode_checkpoint_blob c p) = Some p"
  by (rule decode_encode [OF assms])

section \<open>A byte format that satisfies the law, for witnesses\<close>

fun repeat :: "(bytes \<Rightarrow> ('a \<times> bytes) option) \<Rightarrow> nat \<Rightarrow> bytes \<Rightarrow> ('a list \<times> bytes) option" where
  "repeat p 0 r = Some ([], r)"
| "repeat p (Suc n) r = (case p r of None \<Rightarrow> None
     | Some (x, r') \<Rightarrow> map_option (\<lambda>(xs, r''). (x # xs, r'')) (repeat p n r'))"

fun ref_pack :: "mp \<Rightarrow> bytes" where
  "ref_pack MNil = [0]"
| "ref_pack (MInt i) = [1, if i < 0 then 1 else 0, nat \<bar>i\<bar>]"
| "ref_pack (MStr s) = 2 # length s # s"
| "ref_pack (MBin b) = 3 # length b # b"
| "ref_pack (MList xs) = 4 # length xs # concat (map ref_pack xs)"
| "ref_pack (MMap m) = 5 # length m # concat (map (\<lambda>(k, v). length k # k @ ref_pack v) m)"

definition parse_entry :: "(bytes \<Rightarrow> (mp \<times> bytes) option) \<Rightarrow> bytes \<Rightarrow> ((ustr \<times> mp) \<times> bytes) option" where
  "parse_entry p r = (case r of [] \<Rightarrow> None
     | n # r' \<Rightarrow> map_option (\<lambda>(v, r''). ((take n r', v), r'')) (p (drop n r')))"

primrec parse :: "nat \<Rightarrow> bytes \<Rightarrow> (mp \<times> bytes) option" where
  "parse 0 r = None"
| "parse (Suc f) r = (case r of
       tag # r1 \<Rightarrow>
         if tag = 0 then Some (MNil, r1)
         else (case r1 of
             n # r2 \<Rightarrow>
               if tag = 1 then (case r2 of m # r3 \<Rightarrow> Some (MInt (if n = 0 then int m else - int m), r3) | [] \<Rightarrow> None)
               else if tag = 2 then Some (MStr (take n r2), drop n r2)
               else if tag = 3 then Some (MBin (take n r2), drop n r2)
               else if tag = 4 then map_option (\<lambda>(xs, r). (MList xs, r)) (repeat (parse f) n r2)
               else map_option (\<lambda>(m, r). (MMap m, r)) (repeat (parse_entry (parse f)) n r2)
           | [] \<Rightarrow> None)
     | [] \<Rightarrow> None)"

lemma repeat_concat:
  "(\<And>x r. x \<in> set xs \<Longrightarrow> p (g x @ r) = Some (x, r)) \<Longrightarrow>
     repeat p (length xs) (concat (map g xs) @ r) = Some (xs, r)"
  by (induction xs) auto

lemma length_concat_member: "x \<in> set xs \<Longrightarrow> length (g x) \<le> length (concat (map g xs))"
  by (induction xs) auto

lemma parse_pack: "length (ref_pack v) \<le> f \<Longrightarrow> parse f (ref_pack v @ r) = Some (v, r)"
proof (induction v arbitrary: f r rule: ref_pack.induct)
  case (5 xs)
  then obtain f' where f: "f = Suc f'" by (cases f) auto
  have "repeat (parse f') (length xs) (concat (map ref_pack xs) @ r) = Some (xs, r)"
  proof (rule repeat_concat)
    fix x r assume x: "x \<in> set xs"
    show "parse f' (ref_pack x @ r) = Some (x, r)"
      using 5 x length_concat_member [OF x, of ref_pack] f by (intro 5(1)) auto
  qed
  then show ?case by (simp add: f)
next
  case (6 m)
  then obtain f' where f: "f = Suc f'" by (cases f) auto
  let ?g = "\<lambda>(k, v). length k # k @ ref_pack v"
  have "repeat (parse_entry (parse f')) (length m) (concat (map ?g m) @ r) = Some (m, r)"
  proof (rule repeat_concat)
    fix x r assume x: "x \<in> set m"
    obtain k v where kv: "x = (k, v)" by (cases x)
    have "parse f' (ref_pack v @ r) = Some (v, r)"
      using 6 x kv length_concat_member [OF x, of ?g] f by (intro 6(1)) auto
    then show "parse_entry (parse f') (?g x @ r) = Some (x, r)" by (simp add: kv parse_entry_def)
  qed
  then show ?case by (simp add: f)
qed (auto split: nat.splits elim: Suc_le_D [THEN exE])

definition ref_codec :: codec where
  "ref_codec = \<lparr>packb = ref_pack, unpackb = (\<lambda>b. map_option fst (parse (length b) b)),
     unpickle = (\<lambda>_. None), py_str = (\<lambda>_. [])\<rparr>"

lemma ref_codec_ok: "codec_ok ref_codec"
proof -
  have "parse (length (ref_pack v)) (ref_pack v) = Some (v, [])" for v
    using parse_pack [of v "length (ref_pack v)" "[]"] by simp
  then show ?thesis by (simp add: codec_ok_def ref_codec_def)
qed

definition demo_payload :: payload where
  "demo_payload = \<lparr>storage = [([], [((asc ''1''), (((asc ''m''), [1, 2]), ((asc ''m''), [3]), MNil))])],
     writes = [([MStr (asc ''t''), MStr [], MStr (asc ''1'')], [([MStr (asc ''k''), MInt 0], (MStr (asc ''k''), MStr (asc ''ch''), ((asc ''m''), [4]), MStr []))])],
     blobs = [([MStr (asc ''t''), MStr [], MStr (asc ''ch''), MStr (asc ''1'')], ((asc ''m''), [5]))]\<rparr>"

theorem checkpoint_roundtrip_witness:
  "decode_checkpoint_blob ref_codec (encode_checkpoint_blob ref_codec demo_payload) = Some demo_payload"
  by (rule checkpoint_roundtrip [OF ref_codec_ok]) (simp add: payload_ok_def demo_payload_def dict_ok_def)

end
