(* ===== verification/Checkpointer.thy ===== *)
theory Checkpointer
  imports Checkpoint_Codec Redis_Client "HOL-Library.List_Lexorder"
begin

text \<open>
  \<open>CachedInMemorySaver\<close> of \<open>app/session_cache.py\<close>: a checkpointer whose only source of truth
  is a shared byte cache. The caches (\<open>DictSessionCache\<close>, \<open>RedisSessionCache\<close> and their
  asynchronous twins, which issue the same commands) implement the locale \<open>byte_cache\<close>.
  \<open>InMemorySaver\<close> is third-party: its \<open>put\<close> and \<open>put_writes\<close> are an argument \<open>super\<close> of the
  operations, a function on the three dictionaries.
\<close>

section \<open>Byte caches\<close>

record 's cache_ops =
  c_get :: "'s \<Rightarrow> rat \<Rightarrow> ustr \<Rightarrow> bytes option"
  c_set :: "'s \<Rightarrow> rat \<Rightarrow> ustr \<Rightarrow> bytes \<Rightarrow> int \<Rightarrow> 's"
  c_delete :: "'s \<Rightarrow> rat \<Rightarrow> ustr \<Rightarrow> 's"
  c_touch :: "'s \<Rightarrow> rat \<Rightarrow> ustr \<Rightarrow> int \<Rightarrow> 's"

text \<open>\<open>alive now ttl t\<close>: what was written at \<open>now\<close> has not expired at \<open>t\<close>.\<close>

definition alive :: "rat \<Rightarrow> int \<Rightarrow> rat \<Rightarrow> bool" where
  "alive now ttl t \<longleftrightarrow> now \<le> t \<and> (ttl > 0 \<longrightarrow> t < now + of_int ttl)"

locale byte_cache =
  fixes ops :: "'s cache_ops" and lawful :: "'s \<Rightarrow> bool"
  assumes lawful_set: "lawful s \<Longrightarrow> lawful (c_set ops s now k v ttl)"
    and lawful_delete: "lawful s \<Longrightarrow> lawful (c_delete ops s now k)"
    and lawful_touch: "lawful s \<Longrightarrow> lawful (c_touch ops s now k ttl)"
    and get_set: "lawful s \<Longrightarrow> alive now ttl t \<Longrightarrow> c_get ops (c_set ops s now k v ttl) t k = Some v"
    and get_set_other: "lawful s \<Longrightarrow> now \<le> t \<Longrightarrow> k' \<noteq> k \<Longrightarrow>
      c_get ops (c_set ops s now k v ttl) t k' = c_get ops s t k'"
    and get_delete: "lawful s \<Longrightarrow> now \<le> t \<Longrightarrow>
      c_get ops (c_delete ops s now k) t k' = (if k' = k then None else c_get ops s t k')"
    and get_touch: "lawful s \<Longrightarrow> c_get ops s now k = Some v \<Longrightarrow> alive now ttl t \<Longrightarrow> ttl > 0 \<Longrightarrow>
      c_get ops (c_touch ops s now k ttl) t k = Some v"
    and get_touch_other: "lawful s \<Longrightarrow> now \<le> t \<Longrightarrow> k' \<noteq> k \<Longrightarrow>
      c_get ops (c_touch ops s now k ttl) t k' = c_get ops s t k'"

text \<open>\<open>DictSessionCache\<close>: nothing expires.\<close>

type_synonym dict_cache = "(ustr, bytes) dict"

definition dict_cache_get :: "dict_cache \<Rightarrow> rat \<Rightarrow> ustr \<Rightarrow> bytes option" where
  "dict_cache_get s now k = map_of s k"

definition dict_cache_set :: "dict_cache \<Rightarrow> rat \<Rightarrow> ustr \<Rightarrow> bytes \<Rightarrow> int \<Rightarrow> dict_cache" where
  "dict_cache_set s now k v ttl = AList.update k v s"

definition dict_cache_delete :: "dict_cache \<Rightarrow> rat \<Rightarrow> ustr \<Rightarrow> dict_cache" where
  "dict_cache_delete s now k = AList.delete k s"

definition dict_cache_touch :: "dict_cache \<Rightarrow> rat \<Rightarrow> ustr \<Rightarrow> int \<Rightarrow> dict_cache" where
  "dict_cache_touch s now k ttl = s"

definition dict_cache_ops :: "dict_cache cache_ops" where
  "dict_cache_ops = \<lparr>c_get = dict_cache_get, c_set = dict_cache_set, c_delete = dict_cache_delete,
     c_touch = dict_cache_touch\<rparr>"

interpretation dict_cache: byte_cache dict_cache_ops "\<lambda>_. True"
  by unfold_locales
    (auto simp: dict_cache_ops_def dict_cache_get_def dict_cache_set_def dict_cache_delete_def dict_cache_touch_def)

text \<open>
  \<open>RedisSessionCache\<close>. The client returns bytes (\<open>decode_responses=False\<close>); \<open>ttl <= 0\<close> means
  no expiry and no touch. A failing EXPIRE is only logged; the model covers calls that reach
  the server.
\<close>

record 'r redis_cache =
  rc_client :: "'r kv_client"
  rc_db :: 'r

definition redis_cache_get :: "'r redis_cache \<Rightarrow> rat \<Rightarrow> ustr \<Rightarrow> bytes option" where
  "redis_cache_get s now k = kv_get (rc_client s) (rc_db s) now k"

definition redis_cache_set :: "'r redis_cache \<Rightarrow> rat \<Rightarrow> ustr \<Rightarrow> bytes \<Rightarrow> int \<Rightarrow> 'r redis_cache" where
  "redis_cache_set s now k v ttl =
     (if ttl > 0 then s\<lparr>rc_db := kv_set (rc_client s) (rc_db s) now k v (Some (of_int ttl))\<rparr>
      else s\<lparr>rc_db := kv_set (rc_client s) (rc_db s) now k v None\<rparr>)"

definition redis_cache_delete :: "'r redis_cache \<Rightarrow> rat \<Rightarrow> ustr \<Rightarrow> 'r redis_cache" where
  "redis_cache_delete s now k = s\<lparr>rc_db := kv_del (rc_client s) (rc_db s) now k\<rparr>"

definition redis_cache_touch :: "'r redis_cache \<Rightarrow> rat \<Rightarrow> ustr \<Rightarrow> int \<Rightarrow> 'r redis_cache" where
  "redis_cache_touch s now k ttl =
     (if ttl > 0 then s\<lparr>rc_db := kv_expire (rc_client s) (rc_db s) now k (of_int ttl)\<rparr> else s)"

definition redis_cache_ops :: "'r redis_cache cache_ops" where
  "redis_cache_ops = \<lparr>c_get = redis_cache_get, c_set = redis_cache_set, c_delete = redis_cache_delete,
     c_touch = redis_cache_touch\<rparr>"

lemma redis_cache_ops_get: "c_get redis_cache_ops = redis_cache_get"
  by (simp add: redis_cache_ops_def)

definition redis_cache_ok :: "'r redis_cache \<Rightarrow> bool" where
  "redis_cache_ok s \<longleftrightarrow> kv_laws (rc_client s)"

interpretation redis_cache: byte_cache redis_cache_ops redis_cache_ok
  by unfold_locales
    (auto simp: redis_cache_ops_def redis_cache_get_def redis_cache_set_def redis_cache_delete_def
      redis_cache_touch_def redis_cache_ok_def kv_rules until_def alive_def)

section \<open>The saver\<close>

record stores =
  st_storage :: "(ustr, (ustr, (ustr, saved) dict) dict) dict"
  st_writes :: "(tuple, (tuple, pending) dict) dict"
  st_blobs :: "(tuple, typed) dict"

definition no_stores :: stores where
  "no_stores = \<lparr>st_storage = [], st_writes = [], st_blobs = []\<rparr>"

text \<open>What the saver needs of the serialiser: \<open>channel_versions\<close> of a stored checkpoint
  (\<open>self.serde.loads_typed(saved[0])\<close>), \<open>None\<close> when it cannot be decoded.\<close>

record saver_env =
  sv_codec :: codec
  channel_versions :: "typed \<Rightarrow> (ustr \<times> mp) list option"
  sv_ttl :: int

definition cache_key :: "ustr \<Rightarrow> ustr" where
  "cache_key tid = (asc ''cs:session:'') @ (asc ''{'') @ tid @ (asc ''}'')"

definition of_thread :: "ustr \<Rightarrow> tuple \<Rightarrow> bool" where
  "of_thread tid k \<longleftrightarrow> k \<noteq> [] \<and> hd k = MStr tid"

definition evict_thread :: "ustr \<Rightarrow> stores \<Rightarrow> stores" where
  "evict_thread tid st =
     \<lparr>st_storage = AList.delete tid (st_storage st),
      st_writes = filter (\<lambda>(k, v). \<not> of_thread tid k) (st_writes st),
      st_blobs = filter (\<lambda>(k, v). \<not> of_thread tid k) (st_blobs st)\<rparr>"

text \<open>\<open>dict.update\<close>, and \<open>d[k].update(v)\<close> on a defaultdict of dictionaries.\<close>

definition dict_update :: "('k, 'v) dict \<Rightarrow> ('k, 'v) dict \<Rightarrow> ('k, 'v) dict" where
  "dict_update d e = foldl (\<lambda>d (k, v). AList.update k v d) d e"

definition dict_get :: "('a, ('k, 'v) dict) dict \<Rightarrow> 'a \<Rightarrow> ('k, 'v) dict" where
  "dict_get d k = (case map_of d k of None \<Rightarrow> [] | Some e \<Rightarrow> e)"

definition update_inner :: "('a, ('k, 'v) dict) dict \<Rightarrow> ('a, ('k, 'v) dict) dict \<Rightarrow> ('a, ('k, 'v) dict) dict" where
  "update_inner d e = foldl (\<lambda>d (k, v). AList.update k (dict_update (dict_get d k) v) d) d e"

definition merge_payload :: "ustr \<Rightarrow> payload \<Rightarrow> stores \<Rightarrow> stores" where
  "merge_payload tid p st =
     st\<lparr>st_storage := (if storage p = [] then st_storage st
          else AList.update tid (update_inner (dict_get (st_storage st) tid) (storage p)) (st_storage st)),
        st_writes := update_inner (st_writes st) (writes p),
        st_blobs := dict_update (st_blobs st) (blobs p)\<rparr>"

definition saver_load :: "'s cache_ops \<Rightarrow> saver_env \<Rightarrow> rat \<Rightarrow> ustr \<Rightarrow> 's \<times> stores \<Rightarrow> 's \<times> stores" where
  "saver_load ops env now tid x =
     (case x of (cache, st) \<Rightarrow>
       let key = cache_key tid in
       (case c_get ops cache now key of
          None \<Rightarrow> (cache, evict_thread tid st)
        | Some raw \<Rightarrow>
            if raw = [] then (cache, evict_thread tid st)
            else (case decode_checkpoint_blob (sv_codec env) raw of
                None \<Rightarrow> (c_delete ops cache now key, evict_thread tid st)
              | Some p \<Rightarrow> (c_touch ops cache now key (sv_ttl env), merge_payload tid p (evict_thread tid st)))))"

text \<open>The newest checkpoint of each namespace, by the order of checkpoint ids.\<close>

definition latest_id :: "(ustr, saved) dict \<Rightarrow> ustr" where
  "latest_id cps = Max (set (map fst cps))"

definition prune_ns :: "(ustr, (ustr, saved) dict) dict \<Rightarrow> (ustr, (ustr, saved) dict) dict" where
  "prune_ns nsm = map (\<lambda>(ns, cps). (ns, filter (\<lambda>(cid, s). cid = latest_id cps) cps)) (filter (\<lambda>(ns, cps). cps \<noteq> []) nsm)"

definition kept_blobs :: "saver_env \<Rightarrow> ustr \<Rightarrow> (ustr, (ustr, saved) dict) dict \<Rightarrow> tuple list" where
  "kept_blobs env tid nsm = concat (map (\<lambda>(ns, cps). concat (map (\<lambda>(cid, s).
     (case channel_versions env (fst s) of None \<Rightarrow> []
      | Some vs \<Rightarrow> map (\<lambda>(ch, v). [MStr tid, MStr ns, MStr ch, v]) vs)) cps)) nsm)"

definition prune_thread :: "saver_env \<Rightarrow> ustr \<Rightarrow> stores \<Rightarrow> stores" where
  "prune_thread env tid st =
     (case map_of (st_storage st) tid of
        None \<Rightarrow> st
      | Some nsm \<Rightarrow>
          if nsm = [] then st
          else let nsm' = prune_ns nsm;
                   keep_cps = concat (map (\<lambda>(ns, cps). map (\<lambda>(cid, s). [MStr tid, MStr ns, MStr cid]) cps) nsm');
                   keep_blobs = kept_blobs env tid nsm'
            in \<lparr>st_storage = AList.update tid nsm' (st_storage st),
                st_writes = filter (\<lambda>(k, v). \<not> of_thread tid k \<or> k \<in> set keep_cps) (st_writes st),
                st_blobs = filter (\<lambda>(k, v). \<not> of_thread tid k \<or> k \<in> set keep_blobs) (st_blobs st)\<rparr>)"

definition thread_payload :: "ustr \<Rightarrow> stores \<Rightarrow> payload" where
  "thread_payload tid st =
     \<lparr>storage = dict_get (st_storage st) tid,
      writes = filter (\<lambda>(k, v). of_thread tid k) (st_writes st),
      blobs = filter (\<lambda>(k, v). of_thread tid k) (st_blobs st)\<rparr>"

definition saver_persist :: "'s cache_ops \<Rightarrow> saver_env \<Rightarrow> rat \<Rightarrow> ustr \<Rightarrow> 's \<times> stores \<Rightarrow> 's \<times> stores" where
  "saver_persist ops env now tid x =
     (case x of (cache, st0) \<Rightarrow>
       let st = prune_thread env tid st0; key = cache_key tid
       in if dict_get (st_storage st) tid = [] then (c_delete ops cache now key, st)
          else (c_set ops cache now key (encode_checkpoint_blob (sv_codec env) (thread_payload tid st)) (sv_ttl env), st))"

text \<open>\<open>put\<close>, \<open>put_writes\<close> (and \<open>aput\<close>, \<open>aput_writes\<close>), with the superclass call \<open>super\<close>.\<close>

definition saver_update ::
  "'s cache_ops \<Rightarrow> saver_env \<Rightarrow> rat \<Rightarrow> ustr \<Rightarrow> (stores \<Rightarrow> stores) \<Rightarrow> 's \<times> stores \<Rightarrow> 's \<times> stores" where
  "saver_update ops env now tid super x =
     (let (cache, st) = saver_load ops env now tid x;
          (cache, st) = saver_persist ops env now tid (cache, super st)
      in (cache, evict_thread tid st))"

text \<open>
  The asynchronous methods go through \<open>async_cache\<close> when there is one and else fall back to the
  synchronous cache; both are clients of one database.
\<close>

definition async_ops :: "'s cache_ops \<Rightarrow> 's cache_ops option \<Rightarrow> 's cache_ops" where
  "async_ops ops aops = (case aops of None \<Rightarrow> ops | Some a \<Rightarrow> a)"

definition saver_aload ::
  "'s cache_ops \<Rightarrow> 's cache_ops option \<Rightarrow> saver_env \<Rightarrow> rat \<Rightarrow> ustr \<Rightarrow> 's \<times> stores \<Rightarrow> 's \<times> stores" where
  "saver_aload ops aops env now tid x = saver_load (async_ops ops aops) env now tid x"

definition saver_apersist ::
  "'s cache_ops \<Rightarrow> 's cache_ops option \<Rightarrow> saver_env \<Rightarrow> rat \<Rightarrow> ustr \<Rightarrow> 's \<times> stores \<Rightarrow> 's \<times> stores" where
  "saver_apersist ops aops env now tid x = saver_persist (async_ops ops aops) env now tid x"

text \<open>\<open>aput\<close> and \<open>aput_writes\<close> await the cache twice; \<open>persist_at\<close> is when the write back runs.\<close>

definition saver_aupdate ::
  "'s cache_ops \<Rightarrow> 's cache_ops option \<Rightarrow> saver_env \<Rightarrow> rat \<Rightarrow> rat \<Rightarrow> ustr \<Rightarrow> (stores \<Rightarrow> stores) \<Rightarrow> 's \<times> stores \<Rightarrow> 's \<times> stores" where
  "saver_aupdate ops aops env now persist_at tid super x =
     (let (cache, st) = saver_aload ops aops env now tid x;
          (cache, st) = saver_apersist ops aops env persist_at tid (cache, super st)
      in (cache, evict_thread tid st))"

lemma saver_aupdate_eq:
  "saver_aupdate ops aops env now now tid super x = saver_update (async_ops ops aops) env now tid super x"
  by (simp add: saver_aupdate_def saver_update_def saver_aload_def saver_apersist_def)

text \<open>\<open>get_tuple\<close>, \<open>list\<close>, \<open>get_delta_channel_history\<close>: load, then ask the superclass.\<close>

definition saver_read ::
  "'s cache_ops \<Rightarrow> saver_env \<Rightarrow> rat \<Rightarrow> ustr \<Rightarrow> (stores \<Rightarrow> 'a) \<Rightarrow> 's \<times> stores \<Rightarrow> 'a \<times> 's \<times> stores" where
  "saver_read ops env now tid super x = (let y = saver_load ops env now tid x in (super (snd y), y))"

definition saver_delete_thread ::
  "'s cache_ops \<Rightarrow> rat \<Rightarrow> ustr \<Rightarrow> (stores \<Rightarrow> stores) \<Rightarrow> 's \<times> stores \<Rightarrow> 's \<times> stores" where
  "saver_delete_thread ops now tid super x =
     (case x of (cache, st) \<Rightarrow> (c_delete ops cache now (cache_key tid), super st))"

section \<open>Loading what was persisted\<close>

definition stores_ok :: "stores \<Rightarrow> bool" where
  "stores_ok st \<longleftrightarrow> dict_ok (st_storage st) \<and> dict_ok (st_writes st) \<and> dict_ok (st_blobs st) \<and>
     (\<forall>tid. payload_ok (thread_payload tid st))"

lemma cache_key_eq [simp]: "cache_key tid = cache_key tid' \<longleftrightarrow> tid = tid'"
  by (simp add: cache_key_def)

lemma dict_update_append: "dict_ok (d @ e) \<Longrightarrow> dict_update d e = d @ e"
proof (induction e arbitrary: d)
  case Nil
  then show ?case by (simp add: dict_update_def)
next
  case (Cons p e)
  obtain k v where p: "p = (k, v)" by (cases p)
  have "k \<notin> fst ` set d" using Cons.prems by (auto simp: dict_ok_def p)
  moreover have "dict_ok ((d @ [(k, v)]) @ e)" using Cons.prems by (simp add: p)
  ultimately show ?case using Cons.IH [of "d @ [(k, v)]"] by (simp add: dict_update_def p update_fresh)
qed

lemma update_inner_append:
  "dict_ok (d @ e) \<Longrightarrow> (\<forall>(k, v) \<in> set e. dict_ok v) \<Longrightarrow> update_inner d e = d @ e"
proof (induction e arbitrary: d)
  case Nil
  then show ?case by (simp add: update_inner_def)
next
  case (Cons p e)
  obtain k v where p: "p = (k, v)" by (cases p)
  have k: "k \<notin> fst ` set d" using Cons.prems by (auto simp: dict_ok_def p)
  then have "dict_get d k = []" by (auto simp: dict_get_def map_of_eq_None_iff split: option.splits)
      (metis fst_conv image_eqI map_of_SomeD)
  moreover have "dict_update [] v = v" using Cons.prems(2) dict_update_append [of "[]" v] by (auto simp: p)
  moreover have "dict_ok ((d @ [(k, v)]) @ e)" using Cons.prems by (simp add: p)
  ultimately show ?case
    using Cons.IH [of "d @ [(k, v)]"] Cons.prems(2) k by (simp add: update_inner_def p update_fresh)
qed

lemma dict_ok_append_split:
  "dict_ok d \<Longrightarrow> dict_ok e \<Longrightarrow> (\<forall>(k, v) \<in> set d. \<not> P k) \<Longrightarrow> (\<forall>(k, v) \<in> set e. P k) \<Longrightarrow> dict_ok (d @ e)"
  by (fastforce simp: dict_ok_def)

text \<open>A payload whose keys all belong to the thread.\<close>

definition owned :: "ustr \<Rightarrow> payload \<Rightarrow> bool" where
  "owned tid p \<longleftrightarrow> (\<forall>(k, v) \<in> set (writes p). of_thread tid k) \<and> (\<forall>(k, v) \<in> set (blobs p). of_thread tid k)"

lemma owned_thread_payload [simp]: "owned tid (thread_payload tid st)"
  by (auto simp: owned_def thread_payload_def)

lemma filter_of_thread_append:
  "(\<forall>(k, v) \<in> set e. of_thread tid k) \<Longrightarrow>
     filter (\<lambda>(k, v). of_thread tid k) (filter (\<lambda>(k, v). \<not> of_thread tid k) d @ e) = e"
  by (auto simp: filter_empty_conv intro!: filter_True)

lemma filter_keep:
  "filter (\<lambda>(k, v). P k) (filter (\<lambda>(k, v). \<not> P k \<or> Q k) xs) = filter (\<lambda>(k, v). Q k) (filter (\<lambda>(k, v). P k) xs)"
  by (induction xs) auto

lemma filter_keep_other:
  "(\<And>k. P' k \<Longrightarrow> \<not> P k) \<Longrightarrow> filter (\<lambda>(k, v). P' k) (filter (\<lambda>(k, v). \<not> P k \<or> Q k) xs) = filter (\<lambda>(k, v). P' k) xs"
  by (induction xs) auto

lemma of_thread_unique: "tid' \<noteq> tid \<Longrightarrow> of_thread tid' k \<Longrightarrow> \<not> of_thread tid k"
  by (auto simp: of_thread_def)

lemma dict_ok_filter2: "dict_ok d \<Longrightarrow> dict_ok (filter P d)"
  using dict_ok_filter [of d "\<lambda>k v. P (k, v)"] by (simp add: dict_filter_def)

lemma merge_evicted:
  assumes "dict_ok (st_writes st)" and "dict_ok (st_blobs st)" and "payload_ok p" and "owned tid p"
  shows "merge_payload tid p (evict_thread tid st) =
    \<lparr>st_storage = (if storage p = [] then AList.delete tid (st_storage st)
        else AList.update tid (storage p) (AList.delete tid (st_storage st))),
     st_writes = filter (\<lambda>(k, v). \<not> of_thread tid k) (st_writes st) @ writes p,
     st_blobs = filter (\<lambda>(k, v). \<not> of_thread tid k) (st_blobs st) @ blobs p\<rparr>"
proof -
  have s: "dict_get (AList.delete tid (st_storage st)) tid = []" by (simp add: dict_get_def)
  have "update_inner [] (storage p) = [] @ storage p"
    using assms(3) by (intro update_inner_append) (auto simp: payload_ok_def)
  moreover have "update_inner (filter (\<lambda>(k, v). \<not> of_thread tid k) (st_writes st)) (writes p) =
      filter (\<lambda>(k, v). \<not> of_thread tid k) (st_writes st) @ writes p"
    using assms by (intro update_inner_append dict_ok_append_split [of _ _ "of_thread tid"] dict_ok_filter2)
      (auto simp: payload_ok_def owned_def)
  moreover have "dict_update (filter (\<lambda>(k, v). \<not> of_thread tid k) (st_blobs st)) (blobs p) =
      filter (\<lambda>(k, v). \<not> of_thread tid k) (st_blobs st) @ blobs p"
    using assms by (intro dict_update_append dict_ok_append_split [of _ _ "of_thread tid"] dict_ok_filter2)
      (auto simp: payload_ok_def owned_def)
  ultimately show ?thesis by (simp add: merge_payload_def evict_thread_def s)
qed

lemma thread_payload_merge:
  assumes "dict_ok (st_writes st)" and "dict_ok (st_blobs st)" and "payload_ok p" and "owned tid p"
  shows "thread_payload tid (merge_payload tid p (evict_thread tid st)) = p"
proof -
  have "filter (\<lambda>(k, v). of_thread tid k) (filter (\<lambda>(k, v). \<not> of_thread tid k) (st_writes st) @ writes p) = writes p"
    "filter (\<lambda>(k, v). of_thread tid k) (filter (\<lambda>(k, v). \<not> of_thread tid k) (st_blobs st) @ blobs p) = blobs p"
    using assms(4) by (intro filter_of_thread_append; simp add: owned_def)+
  then show ?thesis
    unfolding merge_evicted [OF assms] by (simp add: thread_payload_def dict_get_def)
qed

lemma thread_payload_evict:
  "thread_payload tid (evict_thread tid st) = \<lparr>storage = [], writes = [], blobs = []\<rparr>"
  by (auto simp: thread_payload_def evict_thread_def dict_get_def filter_empty_conv)

section \<open>Pruning\<close>

lemma prune_ns_ok:
  "dict_ok nsm \<Longrightarrow> \<forall>(ns, cps) \<in> set nsm. dict_ok cps \<Longrightarrow>
     dict_ok (prune_ns nsm) \<and> (\<forall>(ns, cps) \<in> set (prune_ns nsm). dict_ok cps)"
proof -
  assume d: "dict_ok nsm" and c: "\<forall>(ns, cps) \<in> set nsm. dict_ok cps"
  have "map fst (prune_ns nsm) = map fst (filter (\<lambda>(ns, cps). cps \<noteq> []) nsm)"
    by (simp add: prune_ns_def comp_def case_prod_beta)
  moreover have "dict_ok (filter (\<lambda>(ns, cps). cps \<noteq> []) nsm)" by (rule dict_ok_filter2 [OF d])
  ultimately have "dict_ok (prune_ns nsm)" by (simp add: dict_ok_def)
  moreover have "\<forall>(ns, cps) \<in> set (prune_ns nsm). dict_ok cps"
    using c by (auto simp: prune_ns_def intro!: dict_ok_filter2)
  ultimately show ?thesis by blast
qed

lemma prune_same_thread:
  assumes "map_of (st_storage st) tid = Some nsm" and "nsm \<noteq> []"
  shows "thread_payload tid (prune_thread env tid st) =
    \<lparr>storage = prune_ns nsm,
     writes = filter (\<lambda>(k, v). k \<in> set (concat (map (\<lambda>(ns, cps). map (\<lambda>(cid, s). [MStr tid, MStr ns, MStr cid]) cps) (prune_ns nsm))))
       (writes (thread_payload tid st)),
     blobs = filter (\<lambda>(k, v). k \<in> set (kept_blobs env tid (prune_ns nsm))) (blobs (thread_payload tid st))\<rparr>"
  using assms by (simp only: prune_thread_def thread_payload_def Let_def dict_get_def option.case if_False
      stores.simps payload.simps filter_keep map_of_update fun_upd_same)

lemma prune_other_thread:
  assumes "tid' \<noteq> tid"
  shows "thread_payload tid' (prune_thread env tid st) = thread_payload tid' st"
proof (cases "dict_get (st_storage st) tid = []")
  case True
  then have "prune_thread env tid st = st"
    by (auto simp: prune_thread_def dict_get_def split: option.splits)
  then show ?thesis by simp
next
  case False
  then obtain nsm where "map_of (st_storage st) tid = Some nsm" "nsm \<noteq> []"
    by (auto simp: dict_get_def split: option.splits)
  with assms show ?thesis
    by (simp only: prune_thread_def option.case Let_def if_False thread_payload_def stores.simps dict_get_def
        map_of_update fun_upd_apply simp_thms if_False filter_keep_other [of "of_thread tid'" "of_thread tid", OF of_thread_unique [OF assms]])
qed

lemma payload_ok_filter:
  "payload_ok p \<Longrightarrow> dict_ok ns \<Longrightarrow> \<forall>(n, cps) \<in> set ns. dict_ok cps \<Longrightarrow>
     payload_ok \<lparr>storage = ns, writes = filter P (writes p), blobs = filter Q (blobs p)\<rparr>"
  by (auto simp: payload_ok_def intro: dict_ok_filter2)

lemma prune_payload_ok:
  assumes "stores_ok st"
  shows "payload_ok (thread_payload tid (prune_thread env tid st))"
proof (cases "dict_get (st_storage st) tid = []")
  case True
  then have "prune_thread env tid st = st"
    by (auto simp: prune_thread_def dict_get_def split: option.splits)
  with assms show ?thesis by (simp add: stores_ok_def)
next
  case False
  then obtain nsm where nsm: "map_of (st_storage st) tid = Some nsm" "nsm \<noteq> []"
    by (auto simp: dict_get_def split: option.splits)
  have p: "payload_ok (thread_payload tid st)" using assms by (simp add: stores_ok_def)
  with nsm have "dict_ok nsm \<and> (\<forall>(ns, cps) \<in> set nsm. dict_ok cps)"
    by (auto simp: payload_ok_def thread_payload_def dict_get_def)
  with prune_ns_ok show ?thesis
    unfolding prune_same_thread [OF nsm] by (intro payload_ok_filter [OF p]) auto
qed

section \<open>Workers share one state\<close>

context byte_cache
begin

lemma load_after_persist:
  assumes "lawful cache" and "codec_ok (sv_codec env)" and "stores_ok st"
    and "dict_get (st_storage (prune_thread env tid st)) tid \<noteq> []"
    and "alive now (sv_ttl env) t" and "stores_ok stB"
  shows "thread_payload tid (snd (saver_load ops env t tid (fst (saver_persist ops env now tid (cache, st)), stB))) =
    thread_payload tid (prune_thread env tid st)"
proof -
  let ?p = "thread_payload tid (prune_thread env tid st)"
  let ?raw = "encode_checkpoint_blob (sv_codec env) ?p"
  have ok: "payload_ok ?p" by (rule prune_payload_ok [OF assms(3)])
  have dec: "decode_checkpoint_blob (sv_codec env) ?raw = Some ?p" by (rule decode_encode [OF assms(2) ok])
  have ne: "?raw \<noteq> []" by (auto simp: encode_checkpoint_blob_def envelope_magic_def asc_def Let_def)
  have cache: "fst (saver_persist ops env now tid (cache, st)) = c_set ops cache now (cache_key tid) ?raw (sv_ttl env)"
    using assms(4) by (simp add: saver_persist_def Let_def)
  have "c_get ops (c_set ops cache now (cache_key tid) ?raw (sv_ttl env)) t (cache_key tid) = Some ?raw"
    by (rule get_set [OF assms(1,5)])
  then show ?thesis
    unfolding cache using dec ne assms(6) ok
    by (simp add: saver_load_def Let_def thread_payload_merge stores_ok_def)
qed

lemma load_lawful: "lawful (fst x) \<Longrightarrow> lawful (fst (saver_load ops env now tid x))"
  by (cases x) (auto simp: saver_load_def Let_def lawful_delete lawful_touch split: option.splits)

lemma load_other_key:
  "lawful (fst x) \<Longrightarrow> now \<le> t \<Longrightarrow> k \<noteq> cache_key tid \<Longrightarrow>
     c_get ops (fst (saver_load ops env now tid x)) t k = c_get ops (fst x) t k"
  by (cases x) (auto simp: saver_load_def Let_def get_delete get_touch_other split: option.splits)

lemma persist_other_key:
  "lawful (fst x) \<Longrightarrow> now \<le> t \<Longrightarrow> k \<noteq> cache_key tid \<Longrightarrow>
     c_get ops (fst (saver_persist ops env now tid x)) t k = c_get ops (fst x) t k"
  by (cases x) (auto simp: saver_persist_def Let_def get_delete get_set_other)

lemma update_shared:
  fixes super cache stA env now tid
  defines "st \<equiv> super (snd (saver_load ops env now tid (cache, stA)))"
  assumes "lawful cache" and "codec_ok (sv_codec env)" and "stores_ok st"
    and "dict_get (st_storage (prune_thread env tid st)) tid \<noteq> []"
    and "alive now (sv_ttl env) t" and "stores_ok stB"
  shows "thread_payload tid (snd (saver_load ops env t tid (fst (saver_update ops env now tid super (cache, stA)), stB))) =
      thread_payload tid (prune_thread env tid st) \<and>
    thread_payload tid (snd (saver_update ops env now tid super (cache, stA))) = \<lparr>storage = [], writes = [], blobs = []\<rparr> \<and>
    (\<forall>tid'. tid' \<noteq> tid \<longrightarrow>
      c_get ops (fst (saver_update ops env now tid super (cache, stA))) t (cache_key tid') = c_get ops cache t (cache_key tid'))"
proof -
  obtain c1 s1 where l: "saver_load ops env now tid (cache, stA) = (c1, s1)" by (cases "saver_load ops env now tid (cache, stA)")
  then have st: "st = super s1" by (simp add: st_def)
  have c1: "lawful c1" using load_lawful [of "(cache, stA)" env now tid] assms(2) l by simp
  have t: "now \<le> t" using assms(6) by (simp add: alive_def)
  have u: "saver_update ops env now tid super (cache, stA) =
      (fst (saver_persist ops env now tid (c1, st)), evict_thread tid (snd (saver_persist ops env now tid (c1, st))))"
    by (simp add: saver_update_def l st case_prod_beta)
  show ?thesis
    using load_after_persist [OF c1 assms(3-7)] persist_other_key [of "(c1, st)" now t _ tid env]
      load_other_key [of "(cache, stA)" now t _ tid env] c1 t assms(2) l
    by (simp add: u thread_payload_evict)
qed

end

text \<open>
  C8: No worker ever works on a stale copy. After one worker wrote a session (load, superclass
  update, prune, write back), any worker, whatever its local dictionaries hold, that loads the
  session before it expires sees exactly the written state; the writer keeps no copy of its
  own, and the cached bytes of all other sessions are unchanged.
\<close>

theorem workers_see_last_write:
  assumes "redis_cache_ok cache" and "codec_ok (sv_codec env)"
    and "stores_ok (super (snd (saver_load redis_cache_ops env now tid (cache, stA))))"
    and "dict_get (st_storage (prune_thread env tid (super (snd (saver_load redis_cache_ops env now tid (cache, stA)))))) tid \<noteq> []"
    and "alive now (sv_ttl env) t" and "stores_ok stB"
  shows "thread_payload tid (snd (saver_load redis_cache_ops env t tid
        (fst (saver_update redis_cache_ops env now tid super (cache, stA)), stB))) =
      thread_payload tid (prune_thread env tid (super (snd (saver_load redis_cache_ops env now tid (cache, stA))))) \<and>
    thread_payload tid (snd (saver_update redis_cache_ops env now tid super (cache, stA))) =
      \<lparr>storage = [], writes = [], blobs = []\<rparr> \<and>
    (\<forall>tid'. tid' \<noteq> tid \<longrightarrow>
      redis_cache_get (fst (saver_update redis_cache_ops env now tid super (cache, stA))) t (cache_key tid') =
      redis_cache_get cache t (cache_key tid'))"
  using redis_cache.update_shared [where super = super and cache = cache and stA = stA and env = env and now = now
      and tid = tid, OF assms]
  by (simp add: redis_cache_ops_get)

definition demo_env :: saver_env where
  "demo_env = \<lparr>sv_codec = ref_codec, channel_versions = (\<lambda>_. Some [((asc ''ch''), MStr (asc ''1''))]), sv_ttl = 7200\<rparr>"

definition demo_cache :: "ref_db redis_cache" where
  "demo_cache = \<lparr>rc_client = ref_kv, rc_db = (\<lambda>_. None)\<rparr>"

definition demo_stores :: stores where
  "demo_stores = \<lparr>st_storage = [((asc ''t''), storage demo_payload)], st_writes = [], st_blobs = blobs demo_payload\<rparr>"

lemma demo_stores_ok: "stores_ok demo_stores"
proof -
  have "payload_ok (thread_payload tid demo_stores)" for tid
    by (cases "tid = (asc ''t'')")
      (simp_all add: thread_payload_def demo_stores_def demo_payload_def payload_ok_def dict_ok_def dict_get_def
        of_thread_def asc_def)
  then show ?thesis
    by (simp add: stores_ok_def) (simp add: demo_stores_def demo_payload_def dict_ok_def)
qed

lemma no_stores_ok: "stores_ok no_stores"
  by (simp add: stores_ok_def no_stores_def thread_payload_def payload_ok_def dict_get_def)

lemma demo_prune: "prune_thread demo_env (asc ''t'') demo_stores = demo_stores"
  by (simp add: prune_thread_def demo_stores_def demo_env_def demo_payload_def prune_ns_def latest_id_def
      kept_blobs_def of_thread_def asc_def)

theorem workers_see_last_write_witness:
  "thread_payload (asc ''t'') (snd (saver_load redis_cache_ops demo_env 10 (asc ''t'')
     (fst (saver_update redis_cache_ops demo_env 0 (asc ''t'') (\<lambda>_. demo_stores) (demo_cache, no_stores)), no_stores))) =
   thread_payload (asc ''t'') demo_stores"
proof -
  have "redis_cache_ok demo_cache" by (simp add: redis_cache_ok_def demo_cache_def ref_kv_laws)
  moreover have "codec_ok (sv_codec demo_env)" by (simp add: demo_env_def ref_codec_ok)
  moreover have "dict_get (st_storage demo_stores) (asc ''t'') \<noteq> []"
    by (simp add: demo_stores_def demo_payload_def dict_get_def)
  moreover have "alive 0 (sv_ttl demo_env) 10" by (simp add: alive_def demo_env_def)
  ultimately show ?thesis
    using workers_see_last_write [of demo_cache demo_env "\<lambda>_. demo_stores" 0 "(asc ''t'')" no_stores 10 no_stores]
      demo_stores_ok no_stores_ok by (simp add: demo_prune)
qed

lemma latest_in: "cps \<noteq> [] \<Longrightarrow> \<exists>s. (latest_id cps, s) \<in> set cps"
proof -
  assume "cps \<noteq> []"
  then have "latest_id cps \<in> set (map fst cps)" unfolding latest_id_def by (intro Max_in) auto
  then obtain x where "x \<in> set cps" "latest_id cps = fst x" by auto
  then have "(latest_id cps, snd x) \<in> set cps" by simp
  then show ?thesis by blast
qed

lemma filter_key: "dict_ok d \<Longrightarrow> (k, v) \<in> set d \<Longrightarrow> filter (\<lambda>(k', v'). k' = k) d = [(k, v)]"
proof (induction d)
  case Nil
  then show ?case by simp
next
  case (Cons p d)
  then show ?case by (cases p) (auto simp: dict_ok_def filter_empty_conv rev_image_eqI)
qed

lemma prune_ns_get:
  assumes "dict_ok nsm" and "(ns, cps) \<in> set nsm" and "dict_ok cps" and "(latest_id cps, s) \<in> set cps"
    and "\<forall>(ns, cps) \<in> set nsm. dict_ok cps"
  shows "(ns, [(latest_id cps, s)]) \<in> set (prune_ns nsm) \<and> dict_get (prune_ns nsm) ns = [(latest_id cps, s)]"
proof -
  have f: "filter (\<lambda>(cid, s). cid = latest_id cps) cps = [(latest_id cps, s)]"
    by (rule filter_key [OF assms(3,4)])
  have m: "(ns, [(latest_id cps, s)]) \<in> set (prune_ns nsm)"
    using assms(2,4) f by (force simp: prune_ns_def)
  moreover have "map_of (prune_ns nsm) ns = Some [(latest_id cps, s)]"
    using prune_ns_ok [OF assms(1,5)] m by (simp add: dict_ok_def)
  ultimately show ?thesis by (simp add: dict_get_def)
qed

lemma map_of_filter_key: "P k \<Longrightarrow> map_of (filter (\<lambda>(k, v). P k) d) k = map_of d k"
  by (induction d) auto

text \<open>
  Pruning keeps the session usable. For every namespace of the session that has
  checkpoints, exactly the newest one is kept; its pending writes and every blob its channel
  versions refer to are still there, and no other session is touched.
\<close>

lemma prune_keeps_newest:
  assumes "stores_ok st" and "map_of (st_storage st) tid = Some nsm" and "(ns, cps) \<in> set nsm" and "cps \<noteq> []"
  shows "(\<exists>s. (latest_id cps, s) \<in> set cps \<and>
      dict_get (dict_get (st_storage (prune_thread env tid st)) tid) ns = [(latest_id cps, s)] \<and>
      (\<forall>vs. channel_versions env (fst s) = Some vs \<longrightarrow> (\<forall>(ch, v) \<in> set vs.
         map_of (st_blobs (prune_thread env tid st)) [MStr tid, MStr ns, MStr ch, v] =
         map_of (st_blobs st) [MStr tid, MStr ns, MStr ch, v]))) \<and>
    map_of (st_writes (prune_thread env tid st)) [MStr tid, MStr ns, MStr (latest_id cps)] =
      map_of (st_writes st) [MStr tid, MStr ns, MStr (latest_id cps)] \<and>
    (\<forall>tid'. tid' \<noteq> tid \<longrightarrow> thread_payload tid' (prune_thread env tid st) = thread_payload tid' st)"
proof -
  have p: "payload_ok (thread_payload tid st)" using assms(1) by (simp add: stores_ok_def)
  with assms(2) have d: "dict_ok nsm" "\<forall>(ns, cps) \<in> set nsm. dict_ok cps"
    by (auto simp: payload_ok_def thread_payload_def dict_get_def)
  with assms(3) have c: "dict_ok cps" by blast
  obtain s where s: "(latest_id cps, s) \<in> set cps" using latest_in [OF assms(4)] by blast
  note pn = prune_ns_get [OF d(1) assms(3) c s d(2)]
  have nsm: "nsm \<noteq> []" using assms(3) by auto
  have pr: "st_storage (prune_thread env tid st) = AList.update tid (prune_ns nsm) (st_storage st)"
    "st_writes (prune_thread env tid st) = filter (\<lambda>(k, v). \<not> of_thread tid k \<or> k \<in> set (concat
       (map (\<lambda>(ns, cps). map (\<lambda>(cid, s). [MStr tid, MStr ns, MStr cid]) cps) (prune_ns nsm)))) (st_writes st)"
    "st_blobs (prune_thread env tid st) =
       filter (\<lambda>(k, v). \<not> of_thread tid k \<or> k \<in> set (kept_blobs env tid (prune_ns nsm))) (st_blobs st)"
    using assms(2) nsm by (simp_all add: prune_thread_def Let_def)
  have kw: "[MStr tid, MStr ns, MStr (latest_id cps)] \<in> set (concat
       (map (\<lambda>(ns, cps). map (\<lambda>(cid, s). [MStr tid, MStr ns, MStr cid]) cps) (prune_ns nsm)))"
    unfolding set_concat set_map image_image by (rule UN_I [OF pn [THEN conjunct1]]) simp
  have kb: "[MStr tid, MStr ns, MStr ch, v] \<in> set (kept_blobs env tid (prune_ns nsm))"
    if "channel_versions env (fst s) = Some vs" "(ch, v) \<in> set vs" for vs ch v
    unfolding kept_blobs_def set_concat set_map image_image
    by (rule UN_I [OF pn [THEN conjunct1]]) (use that in force)
  have "dict_get (dict_get (st_storage (prune_thread env tid st)) tid) ns = [(latest_id cps, s)]"
    using pn by (simp add: pr dict_get_def)
  moreover have blob: "map_of (st_blobs (prune_thread env tid st)) [MStr tid, MStr ns, MStr ch, v] =
      map_of (st_blobs st) [MStr tid, MStr ns, MStr ch, v]"
    if "channel_versions env (fst s) = Some vs" "(ch, v) \<in> set vs" for vs ch v
    unfolding pr using kb [OF that] by (intro map_of_filter_key) blast
  moreover have "map_of (st_writes (prune_thread env tid st)) [MStr tid, MStr ns, MStr (latest_id cps)] =
      map_of (st_writes st) [MStr tid, MStr ns, MStr (latest_id cps)]"
    unfolding pr using kw by (intro map_of_filter_key) blast
  ultimately show ?thesis
  proof (intro conjI exI [of _ s] allI impI)
    fix vs
    assume "channel_versions env (fst s) = Some vs"
    then show "\<forall>(ch, v) \<in> set vs. map_of (st_blobs (prune_thread env tid st)) [MStr tid, MStr ns, MStr ch, v] =
         map_of (st_blobs st) [MStr tid, MStr ns, MStr ch, v]"
      using blob by blast
  qed (use s in \<open>auto intro: prune_other_thread\<close>)
qed

end
