(* ===== verification/Gateway_Store.thy ===== *)
theory Gateway_Store
  imports Redis_Client
begin

text \<open>
  \<open>app/llm_gateway/stores.py\<close> and the data of \<open>types.py\<close>: the daily token counters of each
  tenant and the short response cache, in the process (\<open>MemoryGatewayStore\<close>) or in Redis
  (\<open>RedisGatewayStore\<close>: a hash of counters per tenant and day, SET with expiry). The counters
  implement the locale \<open>quota_store\<close>; the specification is a table of rows.
\<close>

section \<open>Data\<close>

record token_usage =
  prompt_tokens :: int
  completion_tokens :: int
  total_tokens :: int

record quota_row =
  q_prompt :: int
  q_completion :: int
  q_total :: int
  q_requests :: int
  q_cache_hits :: int

definition no_usage :: token_usage where
  "no_usage = \<lparr>prompt_tokens = 0, completion_tokens = 0, total_tokens = 0\<rparr>"

definition normalized :: "token_usage \<Rightarrow> token_usage" where
  "normalized u =
     u\<lparr>total_tokens := if total_tokens u \<noteq> 0 then total_tokens u else prompt_tokens u + completion_tokens u\<rparr>"

definition zero_row :: quota_row where
  "zero_row = \<lparr>q_prompt = 0, q_completion = 0, q_total = 0, q_requests = 0, q_cache_hits = 0\<rparr>"

definition row_plus :: "quota_row \<Rightarrow> token_usage \<Rightarrow> quota_row" where
  "row_plus r u = r\<lparr>q_prompt := q_prompt r + prompt_tokens u, q_completion := q_completion r + completion_tokens u,
     q_total := q_total r + total_tokens u, q_requests := q_requests r + 1\<rparr>"

definition row_hit :: "quota_row \<Rightarrow> quota_row" where
  "row_hit r = r\<lparr>q_cache_hits := q_cache_hits r + 1\<rparr>"

definition quota_ttl_seconds :: rat where
  "quota_ttl_seconds = 60 * 60 * 48"

section \<open>Sequences of operations and the contract\<close>

datatype quota_op = AddUsage rat ustr ustr token_usage | AddCacheHit rat ustr ustr | GetQuota rat ustr ustr

primrec quota_time :: "quota_op \<Rightarrow> rat" where
  "quota_time (AddUsage now tn d u) = now"
| "quota_time (AddCacheHit now tn d) = now"
| "quota_time (GetQuota now tn d) = now"

primrec quota_tenant :: "quota_op \<Rightarrow> ustr" where
  "quota_tenant (AddUsage now tn d u) = tn"
| "quota_tenant (AddCacheHit now tn d) = tn"
| "quota_tenant (GetQuota now tn d) = tn"

fun quota_run ::
  "('s \<Rightarrow> rat \<Rightarrow> ustr \<Rightarrow> ustr \<Rightarrow> token_usage \<Rightarrow> quota_row \<times> 's) \<Rightarrow> ('s \<Rightarrow> rat \<Rightarrow> ustr \<Rightarrow> ustr \<Rightarrow> 's) \<Rightarrow>
   ('s \<Rightarrow> rat \<Rightarrow> ustr \<Rightarrow> ustr \<Rightarrow> quota_row \<times> 's) \<Rightarrow> 's \<Rightarrow> quota_op list \<Rightarrow> quota_row option list \<times> 's" where
  "quota_run add hit get s [] = ([], s)"
| "quota_run add hit get s (AddUsage now tn d u # ops) =
     (let (r, s') = add s now tn d u; (rs, s'') = quota_run add hit get s' ops in (Some r # rs, s''))"
| "quota_run add hit get s (AddCacheHit now tn d # ops) =
     (let (rs, s'') = quota_run add hit get (hit s now tn d) ops in (None # rs, s''))"
| "quota_run add hit get s (GetQuota now tn d # ops) =
     (let (r, s') = get s now tn d; (rs, s'') = quota_run add hit get s' ops in (Some r # rs, s''))"

text \<open>The specification: a table of rows per tenant and day.\<close>

type_synonym tally = "ustr \<Rightarrow> ustr \<Rightarrow> quota_row"

definition tally_set :: "tally \<Rightarrow> ustr \<Rightarrow> ustr \<Rightarrow> quota_row \<Rightarrow> tally" where
  "tally_set f tn d r = (\<lambda>tn' d'. if tn' = tn \<and> d' = d then r else f tn' d')"

definition tally_add :: "tally \<Rightarrow> rat \<Rightarrow> ustr \<Rightarrow> ustr \<Rightarrow> token_usage \<Rightarrow> quota_row \<times> tally" where
  "tally_add f now tn d u = (let r = row_plus (f tn d) (normalized u) in (r, tally_set f tn d r))"

definition tally_hit :: "tally \<Rightarrow> rat \<Rightarrow> ustr \<Rightarrow> ustr \<Rightarrow> tally" where
  "tally_hit f now tn d = tally_set f tn d (row_hit (f tn d))"

definition tally_get :: "tally \<Rightarrow> rat \<Rightarrow> ustr \<Rightarrow> ustr \<Rightarrow> quota_row \<times> tally" where
  "tally_get f now tn d = (f tn d, f)"

definition empty_tally :: tally where
  "empty_tally = (\<lambda>tn d. zero_row)"

locale quota_store =
  fixes add :: "'s \<Rightarrow> rat \<Rightarrow> ustr \<Rightarrow> ustr \<Rightarrow> token_usage \<Rightarrow> quota_row \<times> 's"
    and hit :: "'s \<Rightarrow> rat \<Rightarrow> ustr \<Rightarrow> ustr \<Rightarrow> 's"
    and get :: "'s \<Rightarrow> rat \<Rightarrow> ustr \<Rightarrow> ustr \<Rightarrow> quota_row \<times> 's"
    and row :: "'s \<Rightarrow> rat \<Rightarrow> ustr \<Rightarrow> ustr \<Rightarrow> quota_row"
    and lawful :: "'s \<Rightarrow> bool"
    and tenant_ok :: "ustr \<Rightarrow> bool"
  assumes lawful_step: "lawful s \<Longrightarrow>
      lawful (snd (add s now tn d u)) \<and> lawful (hit s now tn d) \<and> lawful (snd (get s now tn d))"
    and add_result: "lawful s \<Longrightarrow> fst (add s now tn d u) = row_plus (row s now tn d) (normalized u)"
    and add_row: "lawful s \<Longrightarrow> tenant_ok tn \<Longrightarrow> tenant_ok tn' \<Longrightarrow> now \<le> t \<Longrightarrow> t < now + quota_ttl_seconds \<Longrightarrow>
      row (snd (add s now tn d u)) t tn' d' =
        (if tn' = tn \<and> d' = d then row_plus (row s now tn d) (normalized u) else row s t tn' d')"
    and hit_row: "lawful s \<Longrightarrow> tenant_ok tn \<Longrightarrow> tenant_ok tn' \<Longrightarrow> now \<le> t \<Longrightarrow> t < now + quota_ttl_seconds \<Longrightarrow>
      row (hit s now tn d) t tn' d' =
        (if tn' = tn \<and> d' = d then row_hit (row s now tn d) else row s t tn' d')"
    and get_result: "lawful s \<Longrightarrow> fst (get s now tn d) = row s now tn d"
    and get_row: "lawful s \<Longrightarrow> now \<le> t \<Longrightarrow> row (snd (get s now tn d)) t tn' d' = row s t tn' d'"
begin

text \<open>Until the horizon \<open>e\<close> the store holds the table \<open>f\<close>.\<close>

definition holds :: "rat \<Rightarrow> rat \<Rightarrow> tally \<Rightarrow> 's \<Rightarrow> bool" where
  "holds t0 e f s \<longleftrightarrow> lawful s \<and> (\<forall>t tn d. t0 \<le> t \<longrightarrow> t < e \<longrightarrow> tenant_ok tn \<longrightarrow> row s t tn d = f tn d)"

lemma holds_add:
  "holds t0 e f s \<Longrightarrow> t0 \<le> now \<Longrightarrow> now < e \<Longrightarrow> e \<le> now + quota_ttl_seconds \<Longrightarrow> tenant_ok tn \<Longrightarrow>
     fst (add s now tn d u) = fst (tally_add f now tn d u) \<and>
     holds now e (snd (tally_add f now tn d u)) (snd (add s now tn d u))"
  by (auto simp: holds_def add_result add_row lawful_step tally_add_def tally_set_def Let_def)

lemma holds_hit:
  "holds t0 e f s \<Longrightarrow> t0 \<le> now \<Longrightarrow> now < e \<Longrightarrow> e \<le> now + quota_ttl_seconds \<Longrightarrow> tenant_ok tn \<Longrightarrow>
     holds now e (tally_hit f now tn d) (hit s now tn d)"
  by (auto simp: holds_def hit_row lawful_step tally_hit_def tally_set_def)

lemma holds_get:
  "holds t0 e f s \<Longrightarrow> t0 \<le> now \<Longrightarrow> now < e \<Longrightarrow> tenant_ok tn \<Longrightarrow>
     fst (get s now tn d) = fst (tally_get f now tn d) \<and> holds now e (snd (tally_get f now tn d)) (snd (get s now tn d))"
  by (auto simp: holds_def get_result get_row lawful_step tally_get_def)

lemma run_refines:
  "holds t0 e f s \<Longrightarrow> sorted (map quota_time ops) \<Longrightarrow> e \<le> t0 + quota_ttl_seconds \<Longrightarrow>
     (\<forall>x \<in> set ops. t0 \<le> quota_time x \<and> quota_time x < e \<and> tenant_ok (quota_tenant x)) \<Longrightarrow>
     fst (quota_run add hit get s ops) = fst (quota_run tally_add tally_hit tally_get f ops) \<and>
     (\<forall>t1. t0 \<le> t1 \<longrightarrow> (\<forall>x \<in> set ops. quota_time x \<le> t1) \<longrightarrow>
        holds t1 e (snd (quota_run tally_add tally_hit tally_get f ops)) (snd (quota_run add hit get s ops)))"
proof (induction ops arbitrary: s f t0)
  case Nil
  then show ?case by (auto simp: holds_def)
next
  case (Cons x ops)
  have step: "fst (quota_run add hit get s' ops) = fst (quota_run tally_add tally_hit tally_get f' ops) \<and>
     (\<forall>t1. now \<le> t1 \<longrightarrow> (\<forall>x \<in> set ops. quota_time x \<le> t1) \<longrightarrow>
        holds t1 e (snd (quota_run tally_add tally_hit tally_get f' ops)) (snd (quota_run add hit get s' ops)))"
    if "holds now e f' s'" "quota_time x = now" for now s' f'
    using Cons.IH [OF that(1)] Cons.prems that(2) by fastforce
  show ?case
  proof (cases x)
    case (AddUsage now tn d u)
    with Cons.prems have h: "t0 \<le> now" "now < e" "e \<le> now + quota_ttl_seconds" "tenant_ok tn" by auto
    from holds_add [OF Cons.prems(1) h, of d u] step [of now "snd (tally_add f now tn d u)" "snd (add s now tn d u)"]
    show ?thesis by (simp add: AddUsage case_prod_beta)
  next
    case (AddCacheHit now tn d)
    with Cons.prems have h: "t0 \<le> now" "now < e" "e \<le> now + quota_ttl_seconds" "tenant_ok tn" by auto
    from holds_hit [OF Cons.prems(1) h, of d] step [of now "tally_hit f now tn d" "hit s now tn d"]
    show ?thesis by (simp add: AddCacheHit case_prod_beta)
  next
    case (GetQuota now tn d)
    with Cons.prems have h: "t0 \<le> now" "now < e" "tenant_ok tn" by auto
    from holds_get [OF Cons.prems(1) h, of d] step [of now "snd (tally_get f now tn d)" "snd (get s now tn d)"]
    show ?thesis by (simp add: GetQuota case_prod_beta)
  qed
qed

end

section \<open>In the process\<close>

text \<open>
  \<open>MemoryGatewayStore\<close>: rows by (tenant, day), created on first use, and cached bytes with
  an expiry time (0: none). Each method runs under the store's lock.
\<close>

record memory_gateway =
  mg_quota :: "(ustr \<times> ustr, quota_row) dict"
  mg_cache :: "(ustr, ustr \<times> rat) dict"

definition mg_row :: "memory_gateway \<Rightarrow> ustr \<Rightarrow> ustr \<Rightarrow> quota_row \<times> memory_gateway" where
  "mg_row s tn d = (case map_of (mg_quota s) (tn, d) of
       None \<Rightarrow> (zero_row, s\<lparr>mg_quota := AList.update (tn, d) zero_row (mg_quota s)\<rparr>)
     | Some r \<Rightarrow> (r, s))"

definition mg_get_quota :: "memory_gateway \<Rightarrow> rat \<Rightarrow> ustr \<Rightarrow> ustr \<Rightarrow> quota_row \<times> memory_gateway" where
  "mg_get_quota s now tn d = mg_row s tn d"

definition mg_add_usage :: "memory_gateway \<Rightarrow> rat \<Rightarrow> ustr \<Rightarrow> ustr \<Rightarrow> token_usage \<Rightarrow> quota_row \<times> memory_gateway" where
  "mg_add_usage s now tn d u =
     (let u = normalized u; (r, s) = mg_row s tn d; r' = row_plus r u
      in (r', s\<lparr>mg_quota := AList.update (tn, d) r' (mg_quota s)\<rparr>))"

definition mg_add_cache_hit :: "memory_gateway \<Rightarrow> rat \<Rightarrow> ustr \<Rightarrow> ustr \<Rightarrow> memory_gateway" where
  "mg_add_cache_hit s now tn d =
     (let (r, s) = mg_row s tn d in s\<lparr>mg_quota := AList.update (tn, d) (row_hit r) (mg_quota s)\<rparr>)"

definition mg_get_cache :: "memory_gateway \<Rightarrow> rat \<Rightarrow> ustr \<Rightarrow> ustr option \<times> memory_gateway" where
  "mg_get_cache s now key = (case map_of (mg_cache s) key of
       None \<Rightarrow> (None, s)
     | Some (v, expires) \<Rightarrow>
         if expires \<noteq> 0 \<and> expires < now then (None, s\<lparr>mg_cache := AList.delete key (mg_cache s)\<rparr>)
         else (Some v, s))"

definition mg_set_cache :: "memory_gateway \<Rightarrow> rat \<Rightarrow> ustr \<Rightarrow> ustr \<Rightarrow> int \<Rightarrow> memory_gateway" where
  "mg_set_cache s now key v ttl =
     s\<lparr>mg_cache := AList.update key (v, if ttl > 0 then now + of_int ttl else 0) (mg_cache s)\<rparr>"

definition mg_lookup :: "memory_gateway \<Rightarrow> rat \<Rightarrow> ustr \<Rightarrow> ustr \<Rightarrow> quota_row" where
  "mg_lookup s now tn d = (case map_of (mg_quota s) (tn, d) of None \<Rightarrow> zero_row | Some r \<Rightarrow> r)"

definition empty_gateway :: memory_gateway where
  "empty_gateway = \<lparr>mg_quota = [], mg_cache = []\<rparr>"

interpretation mg: quota_store mg_add_usage mg_add_cache_hit mg_get_quota mg_lookup "\<lambda>_. True" "\<lambda>_. True"
  by unfold_locales
    (auto simp: mg_add_usage_def mg_add_cache_hit_def mg_get_quota_def mg_row_def mg_lookup_def Let_def
      split: option.splits prod.splits)

section \<open>In Redis\<close>

record ('r, 'k) redis_gateway =
  rg_hash :: "'r hash_client"
  rg_hdb :: 'r
  rg_kv :: "'k kv_client"
  rg_kdb :: 'k

definition quota_key :: "ustr \<Rightarrow> ustr \<Rightarrow> ustr" where
  "quota_key tn d = (asc ''cs:llm:quota:'') @ (asc ''{'') @ tn @ (asc '':'') @ d @ (asc ''}'')"

definition gateway_cache_key :: "ustr \<Rightarrow> ustr" where
  "gateway_cache_key key = (asc ''cs:llm:cache:'') @ key"

definition row_of_hash :: "(ustr \<rightharpoonup> int) \<Rightarrow> quota_row" where
  "row_of_hash m = \<lparr>q_prompt = counter m (asc ''prompt_tokens''), q_completion = counter m (asc ''completion_tokens''),
     q_total = counter m (asc ''total_tokens''), q_requests = counter m (asc ''requests''), q_cache_hits = counter m (asc ''cache_hits'')\<rparr>"

definition rg_get_quota ::
  "('r, 'k) redis_gateway \<Rightarrow> rat \<Rightarrow> ustr \<Rightarrow> ustr \<Rightarrow> quota_row \<times> ('r, 'k) redis_gateway" where
  "rg_get_quota s now tn d = (row_of_hash (h_getall (rg_hash s) (rg_hdb s) now (quota_key tn d)), s)"

text \<open>The pipeline of commands is one MULTI/EXEC transaction.\<close>

definition rg_add_usage ::
  "('r, 'k) redis_gateway \<Rightarrow> rat \<Rightarrow> ustr \<Rightarrow> ustr \<Rightarrow> token_usage \<Rightarrow> quota_row \<times> ('r, 'k) redis_gateway" where
  "rg_add_usage s now tn d u =
     (let u = normalized u; key = quota_key tn d; c = rg_hash s; r = rg_hdb s;
          r = h_incrby c r now key (asc ''prompt_tokens'') (prompt_tokens u);
          r = h_incrby c r now key (asc ''completion_tokens'') (completion_tokens u);
          r = h_incrby c r now key (asc ''total_tokens'') (total_tokens u);
          r = h_incrby c r now key (asc ''requests'') 1;
          r = h_expire c r now key quota_ttl_seconds
      in (row_of_hash (h_getall c r now key), s\<lparr>rg_hdb := r\<rparr>))"

definition rg_add_cache_hit :: "('r, 'k) redis_gateway \<Rightarrow> rat \<Rightarrow> ustr \<Rightarrow> ustr \<Rightarrow> ('r, 'k) redis_gateway" where
  "rg_add_cache_hit s now tn d =
     (let key = quota_key tn d; c = rg_hash s;
          r = h_incrby c (rg_hdb s) now key (asc ''cache_hits'') 1;
          r = h_expire c r now key quota_ttl_seconds
      in s\<lparr>rg_hdb := r\<rparr>)"

definition rg_get_cache ::
  "('r, 'k) redis_gateway \<Rightarrow> rat \<Rightarrow> ustr \<Rightarrow> ustr option \<times> ('r, 'k) redis_gateway" where
  "rg_get_cache s now key = (kv_get (rg_kv s) (rg_kdb s) now (gateway_cache_key key), s)"

definition rg_set_cache ::
  "('r, 'k) redis_gateway \<Rightarrow> rat \<Rightarrow> ustr \<Rightarrow> ustr \<Rightarrow> int \<Rightarrow> ('r, 'k) redis_gateway" where
  "rg_set_cache s now key v ttl =
     s\<lparr>rg_kdb := kv_set (rg_kv s) (rg_kdb s) now (gateway_cache_key key) v (if ttl > 0 then Some (of_int ttl) else None)\<rparr>"

definition rg_row :: "('r, 'k) redis_gateway \<Rightarrow> rat \<Rightarrow> ustr \<Rightarrow> ustr \<Rightarrow> quota_row" where
  "rg_row s now tn d = row_of_hash (h_getall (rg_hash s) (rg_hdb s) now (quota_key tn d))"

definition rg_ok :: "('r, 'k) redis_gateway \<Rightarrow> bool" where
  "rg_ok s \<longleftrightarrow> hash_laws (rg_hash s) \<and> kv_laws (rg_kv s)"

definition no_colon :: "ustr \<Rightarrow> bool" where
  "no_colon s \<longleftrightarrow> 58 \<notin> set s"

lemma colon_split: "no_colon a \<Longrightarrow> no_colon b \<Longrightarrow> a @ 58 # x = b @ 58 # y \<longleftrightarrow> a = b \<and> x = y"
  unfolding no_colon_def by (rule split_at_sep)

lemma quota_key_eq: "no_colon tn \<Longrightarrow> no_colon tn' \<Longrightarrow> quota_key tn d = quota_key tn' d' \<longleftrightarrow> tn = tn' \<and> d = d'"
  by (auto simp: quota_key_def asc_def colon_split)

lemma ttl_pos: "0 < quota_ttl_seconds"
  by (simp add: quota_ttl_seconds_def)

lemma counter_upd: "counter (m(f \<mapsto> v)) g = (if g = f then v else counter m g)"
  by (simp add: counter_def)

lemmas field_facts = counter_upd h_getall_incrby h_getall_incrby_other h_getall_expire ttl_pos row_of_hash_def row_plus_def row_hit_def

lemma rg_add_row:
  assumes "rg_ok s" and "now \<le> t"
  shows "rg_row (snd (rg_add_usage s now tn d u)) t tn' d' =
    (if quota_key tn' d' = quota_key tn d
     then (if t < now + quota_ttl_seconds then row_plus (rg_row s now tn d) (normalized u) else zero_row)
     else rg_row s t tn' d')"
  using assms by (auto simp: rg_row_def rg_add_usage_def Let_def rg_ok_def field_facts zero_row_def counter_def)

lemma rg_hit_row:
  assumes "rg_ok s" and "now \<le> t"
  shows "rg_row (rg_add_cache_hit s now tn d) t tn' d' =
    (if quota_key tn' d' = quota_key tn d
     then (if t < now + quota_ttl_seconds then row_hit (rg_row s now tn d) else zero_row)
     else rg_row s t tn' d')"
  using assms by (auto simp: rg_row_def rg_add_cache_hit_def Let_def rg_ok_def field_facts zero_row_def counter_def)

lemma rg_add_snapshot:
  "rg_ok s \<Longrightarrow> fst (rg_add_usage s now tn d u) = row_plus (rg_row s now tn d) (normalized u)"
  by (auto simp: rg_row_def rg_add_usage_def Let_def rg_ok_def field_facts)

interpretation rg: quota_store rg_add_usage rg_add_cache_hit rg_get_quota rg_row rg_ok no_colon
proof
  fix s :: "('a, 'b) redis_gateway" and tn tn' d d' u and now t :: rat
  assume ok: "rg_ok s"
  show "rg_ok (snd (rg_add_usage s now tn d u)) \<and> rg_ok (rg_add_cache_hit s now tn d) \<and> rg_ok (snd (rg_get_quota s now tn d))"
    using ok by (simp add: rg_ok_def rg_add_usage_def rg_add_cache_hit_def rg_get_quota_def Let_def)
  show "fst (rg_add_usage s now tn d u) = row_plus (rg_row s now tn d) (normalized u)"
    using ok by (rule rg_add_snapshot)
  show "fst (rg_get_quota s now tn d) = rg_row s now tn d"
    by (simp add: rg_get_quota_def rg_row_def)
  show "rg_row (snd (rg_get_quota s now tn d)) t tn' d' = rg_row s t tn' d'"
    by (simp add: rg_get_quota_def)
  assume "no_colon tn" "no_colon tn'" "now \<le> t" "t < now + quota_ttl_seconds"
  then show "rg_row (snd (rg_add_usage s now tn d u)) t tn' d' =
      (if tn' = tn \<and> d' = d then row_plus (rg_row s now tn d) (normalized u) else rg_row s t tn' d')"
    and "rg_row (rg_add_cache_hit s now tn d) t tn' d' =
      (if tn' = tn \<and> d' = d then row_hit (rg_row s now tn d) else rg_row s t tn' d')"
    using ok by (simp_all add: rg_add_row rg_hit_row quota_key_eq)
qed

section \<open>Properties of the counters\<close>

fun usage_of :: "ustr \<Rightarrow> ustr \<Rightarrow> quota_op list \<Rightarrow> int" where
  "usage_of tn d [] = 0"
| "usage_of tn d (AddUsage now tn' d' u # ops) =
     (if tn' = tn \<and> d' = d then total_tokens (normalized u) else 0) + usage_of tn d ops"
| "usage_of tn d (x # ops) = usage_of tn d ops"

lemma tally_total:
  "q_total (snd (quota_run tally_add tally_hit tally_get f ops) tn d) = q_total (f tn d) + usage_of tn d ops"
  by (induction ops arbitrary: f rule: usage_of.induct)
    (auto simp: case_prod_beta tally_add_def tally_hit_def tally_get_def tally_set_def Let_def row_plus_def row_hit_def)

definition fresh_gateway :: "('r, 'k) redis_gateway \<Rightarrow> bool" where
  "fresh_gateway s \<longleftrightarrow> rg_ok s \<and> (\<forall>t k. h_getall (rg_hash s) (rg_hdb s) t k = Map.empty)"

lemma fresh_holds:
  "fresh_gateway s \<Longrightarrow> rg.holds t0 e empty_tally s"
  by (simp add: rg.holds_def fresh_gateway_def rg_row_def row_of_hash_def counter_def empty_tally_def zero_row_def)

lemma empty_holds: "mg.holds t0 e empty_tally empty_gateway"
  by (simp add: mg.holds_def mg_lookup_def empty_gateway_def empty_tally_def)

definition in_window :: "rat \<Rightarrow> quota_op list \<Rightarrow> bool" where
  "in_window t0 ops \<longleftrightarrow> sorted (map quota_time ops) \<and>
     (\<forall>x \<in> set ops. t0 \<le> quota_time x \<and> quota_time x < t0 + quota_ttl_seconds \<and> no_colon (quota_tenant x))"

text \<open>
  C9: The daily counters. For every sequence of charges, cache hits and reads inside the 48
  hours that a Redis row lives, both stores answer every call alike, and afterwards the total
  of a tenant's day is exactly the sum of the charged totals, each completed from its parts
  when the provider reported none.
\<close>

theorem quota_stores_count_alike:
  assumes "in_window t0 ops" and "fresh_gateway s"
    and "no_colon tn" and "t1 < t0 + quota_ttl_seconds" and "t0 \<le> t1" and "\<forall>x \<in> set ops. quota_time x \<le> t1"
  shows "fst (quota_run rg_add_usage rg_add_cache_hit rg_get_quota s ops) =
      fst (quota_run mg_add_usage mg_add_cache_hit mg_get_quota empty_gateway ops) \<and>
    q_total (rg_row (snd (quota_run rg_add_usage rg_add_cache_hit rg_get_quota s ops)) t1 tn d) = usage_of tn d ops \<and>
    q_total (mg_lookup (snd (quota_run mg_add_usage mg_add_cache_hit mg_get_quota empty_gateway ops)) t1 tn d) = usage_of tn d ops"
proof -
  let ?spec = "quota_run tally_add tally_hit tally_get empty_tally ops"
  have w: "sorted (map quota_time ops)"
    "\<forall>x \<in> set ops. t0 \<le> quota_time x \<and> quota_time x < t0 + quota_ttl_seconds \<and> no_colon (quota_tenant x)"
    using assms(1) by (simp_all add: in_window_def)
  note r = rg.run_refines [OF fresh_holds [OF assms(2)] w(1) order_refl w(2)]
  have w': "\<forall>x \<in> set ops. t0 \<le> quota_time x \<and> quota_time x < t0 + quota_ttl_seconds \<and> True"
    using w(2) by simp
  note m = mg.run_refines [OF empty_holds w(1) order_refl w']
  have hr: "rg.holds t1 (t0 + quota_ttl_seconds) (snd ?spec) (snd (quota_run rg_add_usage rg_add_cache_hit rg_get_quota s ops))"
    using r assms(5,6) by blast
  have hm: "mg.holds t1 (t0 + quota_ttl_seconds) (snd ?spec) (snd (quota_run mg_add_usage mg_add_cache_hit mg_get_quota empty_gateway ops))"
    using m assms(5,6) by blast
  have "q_total (snd ?spec tn d) = usage_of tn d ops"
    by (simp add: tally_total) (simp add: empty_tally_def zero_row_def)
  with r m hr hm assms(3,4) show ?thesis by (simp add: rg.holds_def mg.holds_def)
qed

definition demo_gateway :: "(ref_hdb, ref_db) redis_gateway" where
  "demo_gateway = \<lparr>rg_hash = ref_hash, rg_hdb = (\<lambda>_. (Map.empty, None)), rg_kv = ref_kv, rg_kdb = (\<lambda>_. None)\<rparr>"

definition demo_ops :: "quota_op list" where
  "demo_ops = [AddUsage 1 (asc ''demo'') (asc ''d'') \<lparr>prompt_tokens = 10, completion_tokens = 5, total_tokens = 0\<rparr>,
     AddCacheHit 2 (asc ''demo'') (asc ''d''), AddUsage 3 (asc ''demo'') (asc ''d'') \<lparr>prompt_tokens = 1, completion_tokens = 1, total_tokens = 7\<rparr>]"

theorem quota_stores_count_alike_witness:
  "q_total (rg_row (snd (quota_run rg_add_usage rg_add_cache_hit rg_get_quota demo_gateway demo_ops)) 4 (asc ''demo'') (asc ''d'')) = 22"
proof -
  have "in_window 0 demo_ops"
    by (simp add: in_window_def demo_ops_def quota_ttl_seconds_def no_colon_def asc_def)
  moreover have "fresh_gateway demo_gateway"
    by (simp add: fresh_gateway_def demo_gateway_def rg_ok_def ref_hash_laws ref_kv_laws)
      (simp add: ref_hash_def ref_hgetall_def)
  moreover have "no_colon (asc ''demo'')" by (simp add: no_colon_def asc_def)
  moreover have "usage_of (asc ''demo'') (asc ''d'') demo_ops = 22" by (simp add: demo_ops_def normalized_def)
  moreover have "(4::rat) < 0 + quota_ttl_seconds" by (simp add: quota_ttl_seconds_def)
  moreover have "\<forall>x \<in> set demo_ops. quota_time x \<le> 4" by (simp add: demo_ops_def)
  ultimately show ?thesis
    using quota_stores_count_alike [of 0 demo_ops demo_gateway "(asc ''demo'')" 4 "(asc ''d'')"] by simp
qed

end
