(* ===== verification/Gateway.thy ===== *)
theory Gateway
  imports Circuit Gateway_Store Text
begin

text \<open>
  \<open>app/llm_gateway/gateway.py\<close>: every model call passes the daily quota, the short response
  cache, the circuit breaker and the retry loop, and is charged when it succeeded. The model
  behind the gateway is a parameter: \<open>up_invoke n\<close> is the answer of the n-th upstream call
  since start-up with the time it took, \<open>up_stream n\<close> the chunks of a stream and how it ended
  (\<open>Cancelled\<close> when the consumer abandoned it). The synchronous and the asynchronous methods
  have the same body. Log lines and metrics are the events of the state.
\<close>

section \<open>Messages and usage\<close>

record llm_message =
  usage_metadata :: "(ustr, int) dict"
  meta_token_usage :: "(ustr, int) dict"
  meta_usage :: "(ustr, int) dict"
  content :: ustr

definition get_int :: "(ustr, int) dict \<Rightarrow> ustr \<Rightarrow> int" where
  "get_int m k = (case map_of m k of None \<Rightarrow> 0 | Some n \<Rightarrow> n)"

text \<open>\<open>x or y\<close> on integers.\<close>

definition or_int :: "int \<Rightarrow> int \<Rightarrow> int" where
  "or_int x y = (if x \<noteq> 0 then x else y)"

definition usage_from_message :: "llm_message option \<Rightarrow> token_usage" where
  "usage_from_message message = (case message of None \<Rightarrow> no_usage
     | Some msg \<Rightarrow>
       (let meta = usage_metadata msg in
        if meta \<noteq> [] then
          let prompt = or_int (get_int meta (asc ''input_tokens'')) (get_int meta (asc ''prompt_tokens''));
              completion = or_int (get_int meta (asc ''output_tokens'')) (get_int meta (asc ''completion_tokens''))
          in \<lparr>prompt_tokens = prompt, completion_tokens = completion,
              total_tokens = or_int (get_int meta (asc ''total_tokens'')) (prompt + completion)\<rparr>
        else
          let tu = (if meta_token_usage msg \<noteq> [] then meta_token_usage msg else meta_usage msg) in
          if tu \<noteq> [] then
            let prompt = or_int (get_int tu (asc ''prompt_tokens'')) (get_int tu (asc ''input_tokens''));
                completion = or_int (get_int tu (asc ''completion_tokens'')) (get_int tu (asc ''output_tokens''))
            in \<lparr>prompt_tokens = prompt, completion_tokens = completion,
                total_tokens = or_int (get_int tu (asc ''total_tokens'')) (prompt + completion)\<rparr>
          else no_usage))"

text \<open>The prompt: a string, or a list of messages of which only the content text matters.\<close>

datatype prompt = PromptText ustr | PromptParts "ustr list"

definition payload_text :: "prompt \<Rightarrow> ustr" where
  "payload_text p = (case p of PromptText s \<Rightarrow> s | PromptParts parts \<Rightarrow> join [10] parts)"

definition result_text :: "llm_message option \<Rightarrow> ustr" where
  "result_text r = (case r of None \<Rightarrow> (asc ''None'') | Some m \<Rightarrow> content m)"

definition estimate_usage :: "(ustr \<Rightarrow> int) \<Rightarrow> prompt \<Rightarrow> llm_message option \<Rightarrow> token_usage" where
  "estimate_usage count_tokens payload result =
     (let prompt = count_tokens (payload_text payload); completion = count_tokens (result_text result)
      in \<lparr>prompt_tokens = prompt, completion_tokens = completion, total_tokens = prompt + completion\<rparr>)"

section \<open>State\<close>

record call_policy =
  usage_tag :: ustr
  cache_enabled :: bool
  enforce_quota :: bool
  schema_name :: ustr
  temperature :: rat
  model_name :: ustr

record turn_step =
  ts_tag :: ustr
  ts_prompt :: int
  ts_completion :: int
  ts_total :: int
  ts_cached :: bool

record turn_usage =
  tu_prompt :: int
  tu_completion :: int
  tu_total :: int
  tu_steps :: "turn_step list"

record llm_settings =
  llm_max_retries :: int
  llm_daily_token_limit :: int
  llm_cache_enabled :: bool
  llm_cache_ttl_seconds :: int
  llm_cache_max_chars :: int

record 's gateway_ops =
  g_get_quota :: "'s \<Rightarrow> rat \<Rightarrow> ustr \<Rightarrow> ustr \<Rightarrow> quota_row \<times> 's"
  g_add_usage :: "'s \<Rightarrow> rat \<Rightarrow> ustr \<Rightarrow> ustr \<Rightarrow> token_usage \<Rightarrow> quota_row \<times> 's"
  g_add_cache_hit :: "'s \<Rightarrow> rat \<Rightarrow> ustr \<Rightarrow> ustr \<Rightarrow> 's"
  g_get_cache :: "'s \<Rightarrow> rat \<Rightarrow> ustr \<Rightarrow> ustr option \<times> 's"
  g_set_cache :: "'s \<Rightarrow> rat \<Rightarrow> ustr \<Rightarrow> ustr \<Rightarrow> int \<Rightarrow> 's"

definition memory_gateway_ops :: "memory_gateway gateway_ops" where
  "memory_gateway_ops = \<lparr>g_get_quota = mg_get_quota, g_add_usage = mg_add_usage,
     g_add_cache_hit = mg_add_cache_hit, g_get_cache = mg_get_cache, g_set_cache = mg_set_cache\<rparr>"

definition redis_gateway_ops :: "('r, 'k) redis_gateway gateway_ops" where
  "redis_gateway_ops = \<lparr>g_get_quota = rg_get_quota, g_add_usage = rg_add_usage,
     g_add_cache_hit = rg_add_cache_hit, g_get_cache = rg_get_cache, g_set_cache = rg_set_cache\<rparr>"

datatype gw_event =
    LlmError ustr ustr
  | LlmCall ustr ustr token_usage int rat bool
  | Breaker circuit_event

record 's gw_env =
  e_circuit :: circuit_cfg
  e_settings :: llm_settings
  e_ops :: "'s gateway_ops"
  e_tenant :: ustr
  day_of :: "rat \<Rightarrow> ustr"
  up_invoke :: "nat \<Rightarrow> (exc + llm_message) \<times> rat"
  up_ainvoke :: "nat \<Rightarrow> (exc + llm_message) \<times> rat"
  up_stream :: "nat \<Rightarrow> llm_message list \<times> exc option \<times> rat"
  up_astream :: "nat \<Rightarrow> llm_message list \<times> exc option \<times> rat"
  e_count_tokens :: "ustr \<Rightarrow> int"
  fingerprint :: "ustr \<Rightarrow> call_policy \<Rightarrow> ustr"
  encode_cache :: "llm_message \<Rightarrow> ustr option"
  decode_cache :: "ustr \<Rightarrow> llm_message option"

record 's gw =
  g_breaker :: "breaker option"
  g_store :: 's
  g_turn :: "turn_step list option"
  g_clock :: rat
  g_calls :: nat
  g_events :: "gw_event list"

definition emit :: "gw_event list \<Rightarrow> 's gw \<Rightarrow> 's gw" where
  "emit evs st = st\<lparr>g_events := g_events st @ evs\<rparr>"

section \<open>Usage of a turn\<close>

definition begin_turn_usage :: "'s gw \<Rightarrow> 's gw" where
  "begin_turn_usage st = st\<lparr>g_turn := Some []\<rparr>"

definition take_turn_usage :: "'s gw \<Rightarrow> turn_usage \<times> 's gw" where
  "take_turn_usage st =
     (let ss = (case g_turn st of None \<Rightarrow> [] | Some ss \<Rightarrow> ss)
      in (\<lparr>tu_prompt = sum_list (map ts_prompt ss), tu_completion = sum_list (map ts_completion ss),
           tu_total = sum_list (map ts_total ss), tu_steps = ss\<rparr>, st\<lparr>g_turn := None\<rparr>))"

definition record_turn_step :: "call_policy \<Rightarrow> token_usage \<Rightarrow> bool \<Rightarrow> 's gw \<Rightarrow> 's gw" where
  "record_turn_step pol u cached st = (case g_turn st of None \<Rightarrow> st
     | Some ss \<Rightarrow> st\<lparr>g_turn := Some (ss @ [\<lparr>ts_tag = usage_tag pol, ts_prompt = prompt_tokens u,
         ts_completion = completion_tokens u, ts_total = total_tokens u, ts_cached = cached\<rparr>])\<rparr>)"

section \<open>Errors and retries\<close>

definition exc_name :: "exc \<Rightarrow> ustr" where
  "exc_name e = (case e of TenantQuotaExceededError t u l \<Rightarrow> (asc ''TenantQuotaExceededError'')
     | LlmCircuitOpenError n c \<Rightarrow> (asc ''LlmCircuitOpenError'') | Failed os name msg \<Rightarrow> name | Cancelled \<Rightarrow> (asc ''CancelledError''))"

definition is_transient :: "exc \<Rightarrow> bool" where
  "is_transient e = (case e of
       Failed os name msg \<Rightarrow> os \<or> occurs (asc ''timeout'') (lower name) \<or> occurs (asc ''timeout'') (lower msg) \<or>
         occurs (asc ''connection'') (lower name)
     | _ \<Rightarrow> False)"

text \<open>Exceptions that the retry loop lets through untouched.\<close>

definition passes_retry :: "exc \<Rightarrow> bool" where
  "passes_retry e = (case e of TenantQuotaExceededError t u l \<Rightarrow> True | Cancelled \<Rightarrow> True | _ \<Rightarrow> False)"

definition upstream :: "'s gw_env \<Rightarrow> 's gw \<Rightarrow> (exc + llm_message) \<times> 's gw" where
  "upstream env st =
     (let (r, elapsed) = up_invoke env (g_calls st)
      in (r, st\<lparr>g_calls := g_calls st + 1, g_clock := g_clock st + elapsed\<rparr>))"

text \<open>\<open>_retry_call\<close> / \<open>_aretry_call\<close>: \<open>k\<close> is the number of attempts left after this one.\<close>

fun retry_loop :: "'s gw_env \<Rightarrow> call_policy \<Rightarrow> nat \<Rightarrow> 's gw \<Rightarrow> (exc + llm_message) \<times> 's gw" where
  "retry_loop env pol k st =
     (case upstream env st of
        (Inr m, st') \<Rightarrow> (Inr m, st')
      | (Inl e, st') \<Rightarrow>
          if passes_retry e then (Inl e, st')
          else (case k of
              Suc k' \<Rightarrow> if is_transient e then retry_loop env pol k' st'
                 else (Inl e, emit [LlmError (usage_tag pol) (exc_name e)] st')
            | 0 \<Rightarrow> (Inl e, emit [LlmError (usage_tag pol) (exc_name e)] st')))"

declare retry_loop.simps [simp del]

definition retry_call :: "'s gw_env \<Rightarrow> call_policy \<Rightarrow> int \<Rightarrow> 's gw \<Rightarrow> (exc + llm_message) \<times> 's gw" where
  "retry_call env pol max_retries st =
     (let attempts = max 1 (max_retries + 1) in retry_loop env pol (nat (attempts - 1)) st)"

section \<open>The circuit around a call\<close>

definition guard_step :: "'s gw_env \<Rightarrow> 's gw \<Rightarrow> exc option \<times> 's gw" where
  "guard_step env st =
     (let (e, b, evs) = guard_llm_circuit (e_circuit env) (g_clock st) (g_breaker st)
      in (e, emit (map Breaker evs) (st\<lparr>g_breaker := b\<rparr>)))"

definition success_step :: "'s gw \<Rightarrow> 's gw" where
  "success_step st = st\<lparr>g_breaker := record_llm_success (g_breaker st)\<rparr>"

definition failure_step :: "'s gw_env \<Rightarrow> 's gw \<Rightarrow> 's gw" where
  "failure_step env st =
     (let (b, evs) = record_llm_failure (e_circuit env) (g_clock st) (g_breaker st)
      in emit (map Breaker evs) (st\<lparr>g_breaker := b\<rparr>))"

definition call_with_circuit ::
  "'s gw_env \<Rightarrow> call_policy \<Rightarrow> ('s gw \<Rightarrow> (exc + llm_message) \<times> 's gw) \<Rightarrow> 's gw \<Rightarrow> (exc + llm_message) \<times> 's gw" where
  "call_with_circuit env pol fn st =
     (case guard_step env st of
        (Some e, st1) \<Rightarrow> (Inl e, st1)
      | (None, st1) \<Rightarrow>
          (case fn st1 of
             (Inr m, st2) \<Rightarrow> (Inr m, success_step st2)
           | (Inl e, st2) \<Rightarrow>
               (case e of
                  TenantQuotaExceededError t u l \<Rightarrow> (Inl e, st2)
                | LlmCircuitOpenError n c \<Rightarrow> (Inl e, emit [LlmError (usage_tag pol) (asc ''LlmCircuitOpenError'')] st2)
                | Failed os name msg \<Rightarrow> (Inl e, failure_step env st2)
                | Cancelled \<Rightarrow> (Inl e, st2))))"

section \<open>Quota, charging, cache\<close>

definition assert_quota :: "'s gw_env \<Rightarrow> call_policy \<Rightarrow> 's gw \<Rightarrow> exc option \<times> 's gw" where
  "assert_quota env pol st =
     (if \<not> enforce_quota pol then (None, st)
      else let lim = llm_daily_token_limit (e_settings env) in
        if lim \<le> 0 then (None, st)
        else let (row, s) = g_get_quota (e_ops env) (g_store st) (g_clock st) (e_tenant env) (day_of env (g_clock st));
                 st = st\<lparr>g_store := s\<rparr>
             in if q_total row \<ge> lim then (Some (TenantQuotaExceededError (e_tenant env) (q_total row) lim), st)
                else (None, st))"

definition commit :: "'s gw_env \<Rightarrow> call_policy \<Rightarrow> token_usage \<Rightarrow> 's gw \<Rightarrow> quota_row \<times> 's gw" where
  "commit env pol u st =
     (let (row, s) = g_add_usage (e_ops env) (g_store st) (g_clock st) (e_tenant env) (day_of env (g_clock st)) u
      in (row, record_turn_step pol u False (st\<lparr>g_store := s\<rparr>)))"

definition emit_llm_call ::
  "'s gw_env \<Rightarrow> call_policy \<Rightarrow> token_usage \<Rightarrow> int \<Rightarrow> rat \<Rightarrow> bool \<Rightarrow> 's gw \<Rightarrow> 's gw" where
  "emit_llm_call env pol u daily elapsed cache st =
     emit [LlmCall (e_tenant env) (usage_tag pol) (if cache then no_usage else u) daily elapsed cache] st"

definition read_llm_cache :: "'s gw_env \<Rightarrow> ustr \<Rightarrow> 's gw \<Rightarrow> llm_message option \<times> 's gw" where
  "read_llm_cache env key st =
     (let (v, s) = g_get_cache (e_ops env) (g_store st) (g_clock st) key; st = st\<lparr>g_store := s\<rparr>
      in (case v of None \<Rightarrow> (None, st) | Some raw \<Rightarrow> if raw = [] then (None, st) else (decode_cache env raw, st)))"

definition write_llm_cache :: "'s gw_env \<Rightarrow> ustr \<Rightarrow> llm_message \<Rightarrow> int \<Rightarrow> 's gw \<Rightarrow> 's gw" where
  "write_llm_cache env key m ttl st = (case encode_cache env m of None \<Rightarrow> st
     | Some blob \<Rightarrow> st\<lparr>g_store := g_set_cache (e_ops env) (g_store st) (g_clock st) key blob ttl\<rparr>)"

definition call_usage :: "'s gw_env \<Rightarrow> prompt \<Rightarrow> llm_message option \<Rightarrow> token_usage \<Rightarrow> token_usage" where
  "call_usage env payload result u =
     normalized (if total_tokens u \<noteq> 0 then u else estimate_usage (e_count_tokens env) payload result)"

definition gated :: "'s gw_env \<Rightarrow> call_policy \<Rightarrow> prompt \<Rightarrow> 's gw \<Rightarrow> (exc + llm_message) \<times> 's gw" where
  "gated env pol payload st =
     (case assert_quota env pol st of
        (Some e, st1) \<Rightarrow> (Inl e, st1)
      | (None, st1) \<Rightarrow>
          let cache_on = (cache_enabled pol \<and> llm_cache_enabled (e_settings env));
              key = e_tenant env @ (asc '':'') @ fingerprint env (payload_text payload) pol;
              (cached, st2) = (if cache_on then read_llm_cache env key st1 else (None, st1))
          in (case cached of
               Some m \<Rightarrow>
                 let s = g_add_cache_hit (e_ops env) (g_store st2) (g_clock st2) (e_tenant env) (day_of env (g_clock st2));
                     st3 = record_turn_step pol no_usage True (st2\<lparr>g_store := s\<rparr>)
                 in (Inr m, emit_llm_call env pol no_usage 0 0 True st3)
             | None \<Rightarrow>
                 (case call_with_circuit env pol (retry_call env pol (llm_max_retries (e_settings env))) st2 of
                    (Inl e, st3) \<Rightarrow> (Inl e, st3)
                  | (Inr m, st3) \<Rightarrow>
                      let u = call_usage env payload (Some m) (usage_from_message (Some m));
                          (row, st4) = commit env pol u st3;
                          st5 = emit_llm_call env pol u (q_total row) (g_clock st3 - g_clock st2) False st4
                      in (Inr m, if cache_on \<and> int (length (result_text (Some m))) \<le> llm_cache_max_chars (e_settings env)
                          then write_llm_cache env key m (llm_cache_ttl_seconds (e_settings env)) st5 else st5))))"

text \<open>
  \<open>stream\<close> / \<open>astream\<close>: the chunks that reached the consumer and the exception that ended
  the stream, if any.
\<close>

definition best_usage :: "llm_message list \<Rightarrow> token_usage" where
  "best_usage chunks = foldl (\<lambda>best c. let u = usage_from_message (Some c)
     in if total_tokens u \<noteq> 0 then u else best) no_usage chunks"

definition last_chunk :: "llm_message list \<Rightarrow> llm_message option" where
  "last_chunk chunks = (if chunks = [] then None else Some (last chunks))"

definition gated_stream :: "'s gw_env \<Rightarrow> call_policy \<Rightarrow> prompt \<Rightarrow> 's gw \<Rightarrow> (llm_message list \<times> exc option) \<times> 's gw" where
  "gated_stream env pol payload st =
     (case assert_quota env pol st of
        (Some e, st1) \<Rightarrow> (([], Some e), st1)
      | (None, st1) \<Rightarrow>
        (case guard_step env st1 of
           (Some e, st2) \<Rightarrow> (([], Some e), emit [LlmError (usage_tag pol) (asc ''LlmCircuitOpenError'')] st2)
         | (None, st2) \<Rightarrow>
           (let (chunks, end, elapsed) = up_stream env (g_calls st2);
                st3 = st2\<lparr>g_calls := g_calls st2 + 1, g_clock := g_clock st2 + elapsed\<rparr>
            in (case end of
                 Some (TenantQuotaExceededError t u l) \<Rightarrow> ((chunks, end), st3)
               | Some (LlmCircuitOpenError n c) \<Rightarrow>
                   ((chunks, end), emit [LlmError (usage_tag pol) (asc ''LlmCircuitOpenError'')] st3)
               | Some Cancelled \<Rightarrow> ((chunks, end), st3)
               | Some (Failed os name msg) \<Rightarrow>
                   ((chunks, end), emit [LlmError (usage_tag pol) name] (failure_step env st3))
               | None \<Rightarrow>
                   let st4 = success_step st3;
                       best = best_usage chunks;
                       u0 = (if total_tokens best \<noteq> 0 then best else usage_from_message (last_chunk chunks));
                       u = call_usage env payload (last_chunk chunks) u0;
                       (row, st5) = commit env pol u st4
                   in ((chunks, None), emit_llm_call env pol u (q_total row) (g_clock st4 - g_clock st1) False st5)))))"

text \<open>The asynchronous methods await the model's \<open>ainvoke\<close> and \<open>astream\<close> instead.\<close>

definition async_env :: "'s gw_env \<Rightarrow> 's gw_env" where
  "async_env env = env\<lparr>up_invoke := up_ainvoke env, up_stream := up_astream env\<rparr>"

definition aretry_call :: "'s gw_env \<Rightarrow> call_policy \<Rightarrow> int \<Rightarrow> 's gw \<Rightarrow> (exc + llm_message) \<times> 's gw" where
  "aretry_call env pol max_retries st = retry_call (async_env env) pol max_retries st"

definition acall_with_circuit ::
  "'s gw_env \<Rightarrow> call_policy \<Rightarrow> ('s gw \<Rightarrow> (exc + llm_message) \<times> 's gw) \<Rightarrow> 's gw \<Rightarrow> (exc + llm_message) \<times> 's gw" where
  "acall_with_circuit env pol factory st = call_with_circuit (async_env env) pol factory st"

definition agated :: "'s gw_env \<Rightarrow> call_policy \<Rightarrow> prompt \<Rightarrow> 's gw \<Rightarrow> (exc + llm_message) \<times> 's gw" where
  "agated env pol payload st = gated (async_env env) pol payload st"

definition gated_astream :: "'s gw_env \<Rightarrow> call_policy \<Rightarrow> prompt \<Rightarrow> 's gw \<Rightarrow> (llm_message list \<times> exc option) \<times> 's gw" where
  "gated_astream env pol payload st = gated_stream (async_env env) pol payload st"

section \<open>The retry loop\<close>

text \<open>What a piece of the call leaves alone.\<close>

definition same_books :: "'s gw \<Rightarrow> 's gw \<Rightarrow> bool" where
  "same_books st st' \<longleftrightarrow> g_store st' = g_store st \<and> g_turn st' = g_turn st"

lemma upstream_simps:
  "fst (upstream env st) = fst (up_invoke env (g_calls st))"
  "g_calls (snd (upstream env st)) = Suc (g_calls st)"
  "same_books st (snd (upstream env st))"
  "g_breaker (snd (upstream env st)) = g_breaker st"
  by (simp_all add: upstream_def same_books_def case_prod_beta)

lemma emit_simps [simp]:
  "g_calls (emit ev st) = g_calls st" "g_breaker (emit ev st) = g_breaker st" "g_store (emit ev st) = g_store st"
  "g_turn (emit ev st) = g_turn st" "g_clock (emit ev st) = g_clock st"
  by (simp_all add: emit_def)

definition transient_failure :: "exc + llm_message \<Rightarrow> bool" where
  "transient_failure r = (case r of Inl e \<Rightarrow> is_transient e | Inr m \<Rightarrow> False)"

lemma transient_not_passed: "is_transient e \<Longrightarrow> \<not> passes_retry e"
  by (cases e) (auto simp: is_transient_def passes_retry_def)

lemma retry_loop_spec:
  "retry_loop env pol k st = (r, st') \<Longrightarrow>
     \<exists>n. n \<le> k \<and> g_calls st' = g_calls st + Suc n \<and> r = fst (up_invoke env (g_calls st + n)) \<and>
       (\<forall>i < n. transient_failure (fst (up_invoke env (g_calls st + i)))) \<and>
       (transient_failure r \<longrightarrow> n = k) \<and> same_books st st' \<and> g_breaker st' = g_breaker st"
proof (induction env pol k st rule: retry_loop.induct)
  case (1 env pol k st)
  obtain r0 st1 where u: "upstream env st = (r0, st1)" by (cases "upstream env st")
  have u1: "r0 = fst (up_invoke env (g_calls st))" "g_calls st1 = Suc (g_calls st)" "same_books st st1"
    "g_breaker st1 = g_breaker st"
    using upstream_simps(1) [of env st] upstream_simps(2) [of env st] upstream_simps(3) [of st env]
      upstream_simps(4) [of env st] by (simp_all add: u)
  show ?case
  proof (cases "transient_failure r0 \<and> k \<noteq> 0")
    case False
    have "\<exists>evs. st' = emit evs st1 \<and> r = r0"
      using 1(2) False
      by (subst (asm) retry_loop.simps)
        (auto simp: u transient_failure_def emit_def intro: exI [of _ "[]"]
          split: sum.splits if_splits nat.splits)
    with u1 False show ?thesis by (auto intro!: exI [of _ 0] simp: same_books_def)
  next
    case True
    then obtain e k' where e: "r0 = Inl e" "is_transient e" and k: "k = Suc k'"
      by (auto simp: transient_failure_def split: sum.splits) (cases k; simp)
    have rest: "retry_loop env pol k' st1 = (r, st')"
      using 1(2) e k transient_not_passed by (subst (asm) retry_loop.simps) (simp add: u)
    have np: "\<not> passes_retry e" using e by (intro transient_not_passed)
    from 1(1) [OF u [symmetric] e(1) np k e(2) rest] obtain n where n: "n \<le> k'" "g_calls st' = g_calls st1 + Suc n"
      "r = fst (up_invoke env (g_calls st1 + n))"
      "\<forall>i < n. transient_failure (fst (up_invoke env (g_calls st1 + i)))"
      "transient_failure r \<longrightarrow> n = k'" "same_books st1 st'" "g_breaker st' = g_breaker st1" by blast
    have "\<forall>i < Suc n. transient_failure (fst (up_invoke env (g_calls st + i)))"
      using n(4) u1 True by (auto simp: less_Suc_eq_0_disj)
    with n u1 k show ?thesis by (intro exI [of _ "Suc n"]) (auto simp: same_books_def)
  qed
qed

definition demo_policy :: call_policy where
  "demo_policy = \<lparr>usage_tag = (asc ''rag''), cache_enabled = True, enforce_quota = True, schema_name = [],
     temperature = 0, model_name = (asc ''m'')\<rparr>"

definition demo_reply :: llm_message where
  "demo_reply = \<lparr>usage_metadata = [((asc ''input_tokens''), 3), ((asc ''output_tokens''), 4)], meta_token_usage = [],
     meta_usage = [], content = (asc ''hi'')\<rparr>"

text \<open>An upstream that times out on its first call and answers afterwards.\<close>

definition demo_gw_env :: "(ref_hdb, ref_db) redis_gateway gw_env" where
  "demo_gw_env = \<lparr>e_circuit = \<lparr>threshold = 2, cooldown = 30\<rparr>,
     e_settings = \<lparr>llm_max_retries = 2, llm_daily_token_limit = 100, llm_cache_enabled = True,
       llm_cache_ttl_seconds = 300, llm_cache_max_chars = 4000\<rparr>,
     e_ops = redis_gateway_ops, e_tenant = (asc ''demo''), day_of = (\<lambda>_. (asc ''d'')),
     up_invoke = (\<lambda>n. if n = 0 then (Inl (Failed True (asc ''ReadTimeout'') []), 1) else (Inr demo_reply, 2)),
     up_ainvoke = (\<lambda>n. (Inr demo_reply, 2)), up_stream = (\<lambda>n. ([demo_reply], None, 1)),
     up_astream = (\<lambda>n. ([demo_reply], None, 1)), e_count_tokens = (\<lambda>s. int (length s)),
     fingerprint = (\<lambda>s p. s), encode_cache = (\<lambda>m. Some (content m)), decode_cache = (\<lambda>b. None)\<rparr>"

definition demo_gw :: "(ref_hdb, ref_db) redis_gateway gw" where
  "demo_gw = \<lparr>g_breaker = None, g_store = demo_gateway, g_turn = Some [], g_clock = 10, g_calls = 0, g_events = []\<rparr>"

text \<open>
  The retry loop. It makes at least one and at most \<open>max 1 (max_retries + 1)\<close> upstream
  calls; every call but the last failed transiently (timeout, connection, OS error), the
  answer is that of the last call, a transient failure is only passed on once the attempts
  are used up, and no token is charged by the loop itself.
\<close>

lemma retries_bounded:
  assumes "retry_call env pol max_retries st = (r, st')"
  shows "\<exists>n. int (Suc n) \<le> max 1 (max_retries + 1) \<and> g_calls st' = g_calls st + Suc n \<and>
    r = fst (up_invoke env (g_calls st + n)) \<and>
    (\<forall>i < n. transient_failure (fst (up_invoke env (g_calls st + i)))) \<and>
    (transient_failure r \<longrightarrow> int (Suc n) = max 1 (max_retries + 1)) \<and>
    g_store st' = g_store st \<and> g_turn st' = g_turn st"
proof -
  let ?k = "nat (max 1 (max_retries + 1) - 1)"
  from assms have "retry_loop env pol ?k st = (r, st')" by (simp only: retry_call_def Let_def)
  from retry_loop_spec [OF this] obtain n where n: "n \<le> ?k" "g_calls st' = g_calls st + Suc n"
    "r = fst (up_invoke env (g_calls st + n))"
    "\<forall>i < n. transient_failure (fst (up_invoke env (g_calls st + i)))"
    "transient_failure r \<longrightarrow> n = ?k" and b: "same_books st st'" by blast
  have le: "int (Suc n) \<le> max 1 (max_retries + 1)" using n(1) by linarith
  have last: "transient_failure r \<longrightarrow> int (Suc n) = max 1 (max_retries + 1)" using n(5) by linarith
  from le last n(2-4) b show ?thesis unfolding same_books_def by blast
qed

section \<open>Charging and the breaker\<close>

lemma call_with_circuit_books:
  assumes "call_with_circuit env pol (retry_call env pol n) st = (r, st')"
  shows "same_books st st' \<and> g_calls st \<le> g_calls st' \<and> int (g_calls st') \<le> int (g_calls st) + max 1 (n + 1) \<and>
    (\<forall>m. r = Inr m \<longrightarrow> g_calls st < g_calls st')"
proof -
  obtain e st1 where g: "guard_step env st = (e, st1)" by (cases "guard_step env st")
  have g1: "same_books st st1" "g_calls st1 = g_calls st"
    using g by (auto simp: guard_step_def same_books_def split: prod.splits)
  show ?thesis
  proof (cases e)
    case (Some x)
    with assms g g1 show ?thesis by (auto simp: call_with_circuit_def)
  next
    case None
    obtain r2 st2 where f: "retry_call env pol n st1 = (r2, st2)" by (cases "retry_call env pol n st1")
    then have "retry_loop env pol (nat (max 1 (n + 1) - 1)) st1 = (r2, st2)" by (simp only: retry_call_def Let_def)
    from retry_loop_spec [OF this] have b: "same_books st1 st2" "g_calls st1 < g_calls st2"
      "int (g_calls st2) \<le> int (g_calls st1) + max 1 (n + 1)" by (auto simp: le_nat_iff)
    have "same_books st2 st' \<and> g_calls st' = g_calls st2"
      using assms g None f
      by (auto simp: call_with_circuit_def success_step_def failure_step_def same_books_def
          split: sum.splits exc.splits prod.splits)
    with b g1 show ?thesis by (auto simp: same_books_def)
  qed
qed

text \<open>
  The breaker's view of a call that the guard admitted: a success closes it, a failure is
  recorded at the time the call ended, and a quota error, a nested rejection or a
  cancellation records nothing.
\<close>

lemma call_with_circuit_breaker:
  assumes "call_with_circuit env pol (retry_call env pol n) st = (r, st')"
    and "guard_llm_circuit (e_circuit env) (g_clock st) (g_breaker st) = (None, b, evs)"
  shows "g_breaker st' = (case r of
       Inr m \<Rightarrow> record_llm_success b
     | Inl (Failed os name msg) \<Rightarrow> fst (record_llm_failure (e_circuit env) (g_clock st') b)
     | Inl e \<Rightarrow> b)"
proof -
  define st1 where "st1 = emit (map Breaker evs) (st\<lparr>g_breaker := b\<rparr>)"
  have g: "guard_step env st = (None, st1)" using assms(2) by (simp add: guard_step_def st1_def)
  obtain r2 st2 where f: "retry_call env pol n st1 = (r2, st2)" by (cases "retry_call env pol n st1")
  then have "retry_loop env pol (nat (max 1 (n + 1) - 1)) st1 = (r2, st2)" by (simp only: retry_call_def Let_def)
  from retry_loop_spec [OF this] have b: "g_breaker st2 = b" by (auto simp: st1_def)
  with assms(1) g f show ?thesis
    by (auto simp: call_with_circuit_def success_step_def failure_step_def
        split: sum.splits exc.splits prod.splits)
qed

lemma gated_None_quota:
  "assert_quota env pol st = (Some e, st1) \<Longrightarrow> gated env pol payload st = (Inl e, st1)"
  by (simp add: gated_def)

text \<open>
  The quota gate. When the policy enforces the quota, the limit is positive and the day's
  total has reached it, the call fails with \<open>TenantQuotaExceededError\<close> carrying the total and
  the limit; nothing is sent upstream, nothing is charged and the breaker does not move. In
  every case one gated call makes at most \<open>max 1 (max_retries + 1)\<close> upstream calls.
\<close>

lemma quota_gate:
  fixes st :: "('r, 'k) redis_gateway gw"
  assumes "gated env pol payload st = (r, st')" and "e_ops env = redis_gateway_ops"
  shows "(let lim = llm_daily_token_limit (e_settings env);
           used = q_total (rg_row (g_store st) (g_clock st) (e_tenant env) (day_of env (g_clock st)))
       in enforce_quota pol \<and> 0 < lim \<and> lim \<le> used \<longrightarrow>
         r = Inl (TenantQuotaExceededError (e_tenant env) used lim) \<and> st' = st) \<and>
    g_calls st \<le> g_calls st' \<and>
    int (g_calls st') \<le> int (g_calls st) + max 1 (llm_max_retries (e_settings env) + 1)"
proof -
  let ?q = "rg_row (g_store st) (g_clock st) (e_tenant env) (day_of env (g_clock st))"
  have a: "assert_quota env pol st =
      (if enforce_quota pol \<and> 0 < llm_daily_token_limit (e_settings env) \<and> llm_daily_token_limit (e_settings env) \<le> q_total ?q
       then Some (TenantQuotaExceededError (e_tenant env) (q_total ?q) (llm_daily_token_limit (e_settings env))) else None, st)"
    using assms(2) by (auto simp: assert_quota_def redis_gateway_ops_def rg_get_quota_def rg_row_def Let_def)
  show ?thesis
  proof (cases "fst (assert_quota env pol st)")
    case (Some e)
    with a have "gated env pol payload st = (Inl e, st)" by (intro gated_None_quota) (auto split: if_splits)
    with assms(1) a Some show ?thesis by (auto simp: Let_def split: if_splits)
  next
    case None
    with a have no: "\<not> (enforce_quota pol \<and> 0 < llm_daily_token_limit (e_settings env) \<and>
        llm_daily_token_limit (e_settings env) \<le> q_total ?q)" and a': "assert_quota env pol st = (None, st)"
      by (auto split: if_splits)
    obtain cached st2 where c: "(if cache_enabled pol \<and> llm_cache_enabled (e_settings env)
        then read_llm_cache env (e_tenant env @ (asc '':'') @ fingerprint env (payload_text payload) pol) st
        else (None, st)) = (cached, st2)" by (metis surj_pair)
    then have c2: "g_calls st2 = g_calls st"
      by (auto simp: read_llm_cache_def Let_def split: if_splits prod.splits option.splits)
    show ?thesis
    proof (cases cached)
      case (Some m)
      with assms(1) a' c c2 no show ?thesis
        by (auto simp: gated_def Let_def emit_llm_call_def record_turn_step_def split: option.splits)
    next
      case None
      obtain r3 st3 where k: "call_with_circuit env pol (retry_call env pol (llm_max_retries (e_settings env))) st2 = (r3, st3)"
        by (metis surj_pair)
      have "g_calls st' = g_calls st3"
        using assms(1) a' c None k
        by (auto simp: gated_def Let_def emit_llm_call_def commit_def record_turn_step_def write_llm_cache_def
            split: sum.splits option.splits prod.splits if_splits)
      with call_with_circuit_books [OF k] c2 no show ?thesis by (auto simp: Let_def)
    qed
  qed
qed

definition step_of :: "call_policy \<Rightarrow> token_usage \<Rightarrow> bool \<Rightarrow> turn_step" where
  "step_of pol u cached = \<lparr>ts_tag = usage_tag pol, ts_prompt = prompt_tokens u,
     ts_completion = completion_tokens u, ts_total = total_tokens u, ts_cached = cached\<rparr>"

lemma record_turn_step_turn:
  "g_turn (record_turn_step pol u cached st) = map_option (\<lambda>ss. ss @ [step_of pol u cached]) (g_turn st)"
  "g_store (record_turn_step pol u cached st) = g_store st"
  "g_calls (record_turn_step pol u cached st) = g_calls st"
  "g_clock (record_turn_step pol u cached st) = g_clock st"
  by (simp_all add: record_turn_step_def step_of_def split: option.splits)

lemma read_llm_cache_books:
  "e_ops env = redis_gateway_ops \<Longrightarrow> same_books st (snd (read_llm_cache env key st)) \<and>
     g_calls (snd (read_llm_cache env key st)) = g_calls st \<and> g_clock (snd (read_llm_cache env key st)) = g_clock st"
  by (auto simp: read_llm_cache_def redis_gateway_ops_def rg_get_cache_def same_books_def Let_def split: option.splits)

lemma write_llm_cache_row:
  fixes st :: "('r, 'k) redis_gateway gw"
  shows "e_ops env = redis_gateway_ops \<Longrightarrow>
     rg_row (g_store (write_llm_cache env key m ttl st)) t tn d = rg_row (g_store st) t tn d \<and>
     g_turn (write_llm_cache env key m ttl st) = g_turn st \<and> g_calls (write_llm_cache env key m ttl st) = g_calls st \<and>
     g_clock (write_llm_cache env key m ttl st) = g_clock st"
  by (auto simp: write_llm_cache_def redis_gateway_ops_def rg_set_cache_def rg_row_def split: option.splits)

lemma assert_quota_books:
  fixes st :: "('r, 'k) redis_gateway gw"
  shows "e_ops env = redis_gateway_ops \<Longrightarrow> snd (assert_quota env pol st) = st"
  by (auto simp: assert_quota_def redis_gateway_ops_def rg_get_quota_def Let_def)

text \<open>What an answer costs: nothing but a hit when it came from the cache, else its usage.\<close>

definition charged_row :: "'s gw_env \<Rightarrow> prompt \<Rightarrow> llm_message \<Rightarrow> bool \<Rightarrow> quota_row \<Rightarrow> quota_row" where
  "charged_row env payload m cached row =
     (if cached then row_hit row
      else row_plus row (normalized (call_usage env payload (Some m) (usage_from_message (Some m)))))"

definition charged_step :: "'s gw_env \<Rightarrow> call_policy \<Rightarrow> prompt \<Rightarrow> llm_message \<Rightarrow> bool \<Rightarrow> turn_step" where
  "charged_step env pol payload m cached =
     (if cached then step_of pol no_usage True
      else step_of pol (call_usage env payload (Some m) (usage_from_message (Some m))) False)"

lemma rg_hit_now: "rg_ok s \<Longrightarrow> rg_row (rg_add_cache_hit s now tn d) now tn d = row_hit (rg_row s now tn d)"
  using ttl_pos by (simp add: rg_hit_row)

lemma rg_add_now:
  "rg_ok s \<Longrightarrow> rg_row (snd (rg_add_usage s now tn d u)) now tn d = row_plus (rg_row s now tn d) (normalized u)"
  using ttl_pos by (simp add: rg_add_row)

text \<open>
  Only answers are charged. A call that raises leaves the day's counters and the turn's
  usage as they were. A call that answers charges the tenant's row of that day exactly once
  and appends one step to the turn: a cache hit, when no upstream call was made, or the usage
  of the answer, as reported by the provider or estimated when it reported none.
\<close>

lemma only_answers_are_charged:
  fixes st :: "('r, 'k) redis_gateway gw"
  assumes "gated env pol payload st = (r, st')" and "e_ops env = redis_gateway_ops" and "rg_ok (g_store st)"
  shows "case r of
      Inl e \<Rightarrow> g_store st' = g_store st \<and> g_turn st' = g_turn st
    | Inr m \<Rightarrow>
        rg_row (g_store st') (g_clock st') (e_tenant env) (day_of env (g_clock st')) =
          charged_row env payload m (g_calls st' = g_calls st)
            (rg_row (g_store st) (g_clock st') (e_tenant env) (day_of env (g_clock st'))) \<and>
        g_turn st' = map_option (\<lambda>ss. ss @ [charged_step env pol payload m (g_calls st' = g_calls st)]) (g_turn st)"
proof -
  obtain e st1 where a: "assert_quota env pol st = (e, st1)" by (metis surj_pair)
  have st1: "st1 = st" using assert_quota_books [OF assms(2), of pol st] a by simp
  show ?thesis
  proof (cases e)
    case (Some x)
    with gated_None_quota [of env pol st x st1 payload] a assms(1) st1 show ?thesis by auto
  next
    case None
    let ?on = "cache_enabled pol \<and> llm_cache_enabled (e_settings env)"
    let ?key = "e_tenant env @ (asc '':'') @ fingerprint env (payload_text payload) pol"
    obtain cached st2 where c: "(if ?on then read_llm_cache env ?key st else (None, st)) = (cached, st2)"
      by (metis surj_pair)
    have s2: "g_store st2 = g_store st" "g_turn st2 = g_turn st" "g_calls st2 = g_calls st" "g_clock st2 = g_clock st"
      using c read_llm_cache_books [OF assms(2), of st ?key] by (auto simp: same_books_def split: if_splits)
    show ?thesis
    proof (cases cached)
      case (Some m)
      let ?st3 = "record_turn_step pol no_usage True (st2\<lparr>g_store :=
        rg_add_cache_hit (g_store st2) (g_clock st2) (e_tenant env) (day_of env (g_clock st2))\<rparr>)"
      have "r = Inr m \<and> st' = emit_llm_call env pol no_usage 0 0 True ?st3"
        using assms(1,2) a None st1 c Some by (auto simp: gated_def Let_def redis_gateway_ops_def)
      with s2 rg_hit_now [OF assms(3)] show ?thesis
        by (simp add: emit_llm_call_def record_turn_step_turn charged_row_def charged_step_def)
    next
      case None
      obtain r3 st3 where k: "call_with_circuit env pol (retry_call env pol (llm_max_retries (e_settings env))) st2 = (r3, st3)"
        by (metis surj_pair)
      note books = call_with_circuit_books [OF k]
      have s3: "g_store st3 = g_store st" "g_turn st3 = g_turn st"
        using books s2 by (simp_all add: same_books_def)
      show ?thesis
      proof (cases r3)
        case (Inl x)
        with assms(1) a \<open>e = None\<close> st1 c None k s3 show ?thesis by (auto simp: gated_def Let_def)
      next
        case (Inr m)
        let ?u = "call_usage env payload (Some m) (usage_from_message (Some m))"
        let ?day = "day_of env (g_clock st3)"
        define st4 where "st4 = record_turn_step pol ?u False (st3\<lparr>g_store := snd (rg_add_usage (g_store st3) (g_clock st3) (e_tenant env) ?day ?u)\<rparr>)"
        define st5 where "st5 = emit_llm_call env pol ?u (q_total (fst (rg_add_usage (g_store st3) (g_clock st3) (e_tenant env) ?day ?u)))
          (g_clock st3 - g_clock st2) False st4"
        have res: "r = Inr m \<and> (st' = st5 \<or> st' = write_llm_cache env ?key m (llm_cache_ttl_seconds (e_settings env)) st5)"
          using assms(1,2) a \<open>e = None\<close> st1 c None k Inr
          by (auto simp: gated_def Let_def commit_def redis_gateway_ops_def st4_def st5_def case_prod_beta split: if_splits)
        have s5: "g_turn st5 = map_option (\<lambda>ss. ss @ [step_of pol ?u False]) (g_turn st)" "g_calls st5 = g_calls st3"
          "g_clock st5 = g_clock st3"
          "g_store st5 = snd (rg_add_usage (g_store st) (g_clock st3) (e_tenant env) ?day ?u)"
          by (simp_all add: st5_def st4_def emit_llm_call_def record_turn_step_turn s3)
        have "g_turn st' = g_turn st5 \<and> g_calls st' = g_calls st5 \<and> g_clock st' = g_clock st5 \<and>
            rg_row (g_store st') t tn d = rg_row (g_store st5) t tn d" for t tn d
          using res write_llm_cache_row [OF assms(2), of ?key m "llm_cache_ttl_seconds (e_settings env)" st5 t tn d] by auto
        moreover have "g_calls st3 \<noteq> g_calls st" using books Inr s2 by auto
        ultimately show ?thesis
          using res s5 rg_add_now [OF assms(3)] by (simp add: charged_row_def charged_step_def)
      qed
    qed
  qed
qed

definition plain_policy :: call_policy where
  "plain_policy = demo_policy\<lparr>cache_enabled := False\<rparr>"

lemma demo_call:
  "\<exists>st3. call_with_circuit demo_gw_env plain_policy (retry_call demo_gw_env plain_policy 2) demo_gw = (Inr demo_reply, st3) \<and>
     g_calls st3 = 2 \<and> g_clock st3 = 13"
proof -
  have g: "guard_step demo_gw_env demo_gw = (None, demo_gw\<lparr>g_breaker := Some fresh_breaker\<rparr>)"
    by (simp add: guard_step_def guard_llm_circuit_def demo_gw_env_def demo_gw_def or_fresh_def fresh_breaker_def emit_def)
  have u1: "upstream demo_gw_env (demo_gw\<lparr>g_breaker := b\<rparr>) =
      (Inl (Failed True (asc ''ReadTimeout'') []), demo_gw\<lparr>g_breaker := b, g_calls := Suc 0, g_clock := 11\<rparr>)" for b
    by (simp add: upstream_def demo_gw_env_def demo_gw_def)
  have u2: "upstream demo_gw_env (demo_gw\<lparr>g_breaker := b, g_calls := Suc 0, g_clock := 11\<rparr>) =
      (Inr demo_reply, demo_gw\<lparr>g_breaker := b, g_calls := Suc (Suc 0), g_clock := 13\<rparr>)" for b
    by (simp add: upstream_def demo_gw_env_def demo_gw_def)
  have "retry_call demo_gw_env plain_policy 2 (demo_gw\<lparr>g_breaker := b\<rparr>) =
      (Inr demo_reply, demo_gw\<lparr>g_breaker := b, g_calls := Suc (Suc 0), g_clock := 13\<rparr>)" for b
    by (simp add: retry_call_def retry_loop.simps u1 u2 passes_retry_def is_transient_def numeral_2_eq_2)
  with g show ?thesis by (simp add: call_with_circuit_def success_step_def)
qed



end
