(* ===== verification/Tool_Pool.thy ===== *)
theory Tool_Pool
  imports Prelude
begin

text \<open>
  The thread pool of the order tool with its back-pressure: \<open>app/executors.py\<close>. A pool is
  its semaphore value, the futures that still hold a permit (each with the release callback
  that \<open>_submit\<close> attached) and the number of workers. What the threads do in the
  meantime is a list of events: a worker starts the oldest queued future, a running future
  ends, a future that is still queued is cancelled. The callback of a future runs when the
  future is done, so ending and cancelling give the permit back. Which event happens when is
  not determined; the theorems hold for every interleaving.
\<close>

section \<open>State and configuration\<close>

datatype future_state = Queued | Running

record pool_state =
  semaphore :: nat
  futures :: "(nat, future_state) dict"
  next_future :: nat
  pool_workers :: nat
  pool_cap :: nat

definition default_queue_wait :: rat where
  "default_queue_wait = 5"

definition queue_wait :: "rat option \<Rightarrow> rat" where
  "queue_wait configured = (case configured of None \<Rightarrow> default_queue_wait | Some w \<Rightarrow> if w > 0 then w else default_queue_wait)"

text \<open>\<open>None\<close>: the setting cannot be read.\<close>

definition pool_capacity :: "int option \<Rightarrow> int \<Rightarrow> int" where
  "pool_capacity queue_factor workers =
     (let factor = (case queue_factor of None \<Rightarrow> 2 | Some f \<Rightarrow> max 1 f) in max 1 (max 1 workers * factor))"

definition get_order_pool :: "int \<Rightarrow> int option \<Rightarrow> pool_state option \<Rightarrow> pool_state option" where
  "get_order_pool workers queue_factor pool =
     (if workers \<le> 0 then None
      else case pool of
        Some p \<Rightarrow> Some p
      | None \<Rightarrow> (let cap = nat (pool_capacity queue_factor workers)
          in Some \<lparr>semaphore = cap, futures = [], next_future = 0, pool_workers = nat workers, pool_cap = cap\<rparr>))"

text \<open>\<open>_occupied\<close>, as \<open>tool_pool_in_flight_counts\<close> reports it.\<close>

definition occupied :: "pool_state option \<Rightarrow> nat" where
  "occupied pool = (case pool of None \<Rightarrow> 0 | Some p \<Rightarrow> if pool_cap p = 0 then 0 else pool_cap p - semaphore p)"

section \<open>Submitting\<close>

datatype submission =
    Direct            \<comment> \<open>no pool, or already on one of its workers: run in the caller\<close>
  | Busy              \<comment> \<open>\<open>ToolPoolBusyError\<close>\<close>
  | Rejected          \<comment> \<open>\<open>pool.submit\<close> raised\<close>
  | Accepted nat

text \<open>
  \<open>on_worker\<close>: the caller runs on a worker of the pool; \<open>shut\<close>: the executor no longer
  accepts work. A semaphore at zero means that no permit came free within the wait.
\<close>

definition submit :: "bool \<Rightarrow> bool \<Rightarrow> pool_state option \<Rightarrow> submission \<times> pool_state option" where
  "submit on_worker shut pool =
     (case pool of
        None \<Rightarrow> (Direct, None)
      | Some p \<Rightarrow>
          if on_worker then (Direct, Some p)
          else if semaphore p = 0 then (Busy, Some p)
          else let p = p\<lparr>semaphore := semaphore p - 1\<rparr> in
            if shut then (Rejected, Some (p\<lparr>semaphore := semaphore p + 1\<rparr>))
            else let i = next_future p
              in (Accepted i, Some (p\<lparr>futures := futures p @ [(i, Queued)], next_future := i + 1\<rparr>)))"

definition release :: "nat \<Rightarrow> pool_state \<Rightarrow> pool_state" where
  "release i p = p\<lparr>futures := AList.delete i (futures p), semaphore := semaphore p + 1\<rparr>"

definition running :: "pool_state \<Rightarrow> nat" where
  "running p = length (filter (\<lambda>(_, st). st = Running) (futures p))"

definition start_next :: "pool_state \<Rightarrow> pool_state" where
  "start_next p =
     (if running p < pool_workers p
      then (case filter (\<lambda>(_, st). st = Queued) (futures p) of
              [] \<Rightarrow> p
            | (i, _) # _ \<Rightarrow> p\<lparr>futures := AList.update i Running (futures p)\<rparr>)
      else p)"

definition finish :: "nat \<Rightarrow> pool_state \<Rightarrow> pool_state" where
  "finish i p = (if map_of (futures p) i = Some Running then release i p else p)"

text \<open>
  \<open>future.cancel()\<close> after the caller's timeout: a running future is left alone, its permit
  comes back when it ends.
\<close>

definition cancel :: "nat \<Rightarrow> pool_state \<Rightarrow> pool_state" where
  "cancel i p = (if map_of (futures p) i = Some Queued then release i p else p)"

text \<open>What the caller of \<open>_submit\<close> gets.\<close>

datatype 'a pool_result = Ran 'a | PoolBusy ustr | TimedOut

datatype pool_event = Submit bool | StartNext | Finish nat | Timeout nat

definition pool_step :: "pool_state \<Rightarrow> pool_event \<Rightarrow> pool_state" where
  "pool_step p e = (case e of
       Submit shut \<Rightarrow> (case snd (submit False shut (Some p)) of Some q \<Rightarrow> q | None \<Rightarrow> p)
     | StartNext \<Rightarrow> start_next p
     | Finish i \<Rightarrow> finish i p
     | Timeout i \<Rightarrow> cancel i p)"

section \<open>No permit is lost or forged\<close>

definition pool_ok :: "pool_state \<Rightarrow> bool" where
  "pool_ok p \<longleftrightarrow> semaphore p + length (futures p) = pool_cap p \<and> dict_ok (futures p) \<and>
     (\<forall>i \<in> fst ` set (futures p). i < next_future p) \<and> running p \<le> pool_workers p"

lemma running_update:
  "dict_ok d \<Longrightarrow> map_of d i = Some Queued \<Longrightarrow>
     length (filter (\<lambda>(_, st). st = Running) (AList.update i Running d)) = Suc (length (filter (\<lambda>(_, st). st = Running) d))"
proof (induction d)
  case Nil
  then show ?case by simp
next
  case (Cons x d)
  then show ?case by (cases x) (auto simp: dict_ok_def split: if_splits)
qed

lemma length_update_old: "i \<in> fst ` set d \<Longrightarrow> length (AList.update i v d) = length d"
  by (induction d) auto

lemma length_delete: "dict_ok d \<Longrightarrow> map_of d i = Some v \<Longrightarrow> Suc (length (AList.delete i d)) = length d"
proof (induction d)
  case Nil
  then show ?case by simp
next
  case (Cons x d)
  then show ?case by (cases "fst x = i") (auto simp: dict_ok_def delete_idem)
qed

lemma filter_delete_le: "length (filter Q (AList.delete i d)) \<le> length (filter Q d)"
  by (induction d) auto

lemma set_delete_le: "set (AList.delete i d) \<subseteq> set d"
  by (induction d) auto

lemma release_ok: "pool_ok p \<Longrightarrow> map_of (futures p) i = Some st \<Longrightarrow> pool_ok (release i p)"
  using length_delete [of "futures p" i st] filter_delete_le [of "\<lambda>(_, st). st = Running" i "futures p"]
    set_delete_le [of i "futures p"]
  by (auto simp: pool_ok_def release_def running_def)

lemma start_ok: "pool_ok p \<Longrightarrow> pool_ok (start_next p)"
proof (cases "filter (\<lambda>(_, st). st = Queued) (futures p)")
  case Nil
  then show "pool_ok p \<Longrightarrow> ?thesis" by (simp add: start_next_def)
next
  case (Cons x xs)
  obtain i st where x: "x = (i, st)" by (cases x)
  with Cons have in_set: "(i, Queued) \<in> set (futures p)"
    using filter_set [of "\<lambda>(_, st). st = Queued" "futures p"] by (auto dest!: filter_eq_ConsD)
  assume ok: "pool_ok p"
  then have q: "map_of (futures p) i = Some Queued" using in_set by (simp add: pool_ok_def dict_ok_def)
  show ?thesis
  proof (cases "running p < pool_workers p")
    case True
    have "i \<in> fst ` set (futures p)" using in_set by (force simp: image_iff)
    then show ?thesis using ok running_update [OF _ q] True Cons x
      by (auto simp: pool_ok_def start_next_def running_def length_update_old dom_update)
  next
    case False
    with ok show ?thesis by (simp add: start_next_def)
  qed
qed

lemma submit_ok: "pool_ok p \<Longrightarrow> pool_ok (pool_step p (Submit shut))"
  by (auto simp: pool_step_def submit_def pool_ok_def running_def dict_ok_def Let_def less_Suc_eq)

lemma step_ok: "pool_ok p \<Longrightarrow> pool_ok (pool_step p e)"
  using submit_ok start_ok release_ok
  by (cases e) (auto simp: pool_step_def finish_def cancel_def simp del: pool_event.case(1))

lemma run_ok: "pool_ok p \<Longrightarrow> pool_ok (foldl pool_step p evs)"
  by (induction evs arbitrary: p) (simp_all add: step_ok)

lemma step_frame: "pool_cap (pool_step p e) = pool_cap p" "pool_workers (pool_step p e) = pool_workers p"
  by (auto simp: pool_step_def submit_def start_next_def finish_def cancel_def release_def Let_def
      split: pool_event.splits list.splits)

lemma run_frame: "pool_cap (foldl pool_step p evs) = pool_cap p" "pool_workers (foldl pool_step p evs) = pool_workers p"
  by (induction evs arbitrary: p) (simp_all add: step_frame)


text \<open>Who still holds a permit: only the end or the cancellation of a future gives its permit back.\<close>

definition holders :: "pool_state \<Rightarrow> nat set" where
  "holders p = dom (map_of (futures p))"

lemma holders_release: "holders (release i p) = holders p - {i}"
  by (simp add: holders_def release_def)

lemma holders_step:
  "pool_ok p \<Longrightarrow> holders (pool_step p e) =
     (case e of Submit shut \<Rightarrow> (if semaphore p = 0 \<or> shut then holders p else insert (next_future p) (holders p))
      | StartNext \<Rightarrow> holders p
      | Finish i \<Rightarrow> (if map_of (futures p) i = Some Running then holders p - {i} else holders p)
      | Timeout i \<Rightarrow> (if map_of (futures p) i = Some Queued then holders p - {i} else holders p))"
proof (cases e)
  case (Submit shut)
  then show ?thesis by (auto simp: pool_step_def submit_def holders_def Let_def dom_map_of_conv_image_fst)
next
  case StartNext
  have "i \<in> fst ` set (futures p)" if "filter (\<lambda>(_, st). st = Queued) (futures p) = (i, st) # xs" for i st xs
    using arg_cong [OF that, of set] by (force simp: image_iff)
  then show ?thesis using StartNext
    by (auto simp: pool_step_def start_next_def holders_def dom_map_of_conv_image_fst dom_update split: list.splits)
qed (auto simp: pool_step_def finish_def cancel_def holders_release)

lemma done_for_good:
  "pool_ok p \<Longrightarrow> i < next_future p \<Longrightarrow> i \<notin> holders p \<Longrightarrow> i \<notin> holders (foldl pool_step p evs)"
proof (induction evs arbitrary: p)
  case Nil
  then show ?case by simp
next
  case (Cons e evs)
  have "i \<notin> holders (pool_step p e)" using Cons(2-4) by (auto simp: holders_step split: pool_event.splits)
  moreover have "next_future p \<le> next_future (pool_step p e)"
    by (auto simp: pool_step_def submit_def start_next_def finish_def cancel_def release_def Let_def
        split: pool_event.splits list.splits)
  ultimately show ?case using Cons step_ok by (simp add: order_less_le_trans)
qed

lemma get_order_pool_ok: "get_order_pool workers f None = Some p \<Longrightarrow> pool_ok p \<and> pool_workers p = nat workers \<and> 0 < pool_cap p"
  by (auto simp: get_order_pool_def pool_ok_def running_def pool_capacity_def Let_def max_def split: if_splits)

text \<open>
  C19: Permits of the order pool are neither lost nor forged. Whatever calls are submitted,
  started, ended or timed out, and in whichever order: the free permits and the futures that
  hold one always add up to the capacity, so the reported occupancy is the number of futures
  queued or running and never more than the capacity, and at most as many run as there are
  workers. A new call is turned away exactly when every permit is held, and once a future
  gave its permit back it never holds one again. A call from a worker of the pool itself
  takes no permit.
\<close>

theorem pool_permits_conserved:
  assumes "get_order_pool workers queue_factor None = Some p0" and "p = foldl pool_step p0 evs"
  shows "semaphore p + length (futures p) = pool_cap p0 \<and> occupied (Some p) = length (futures p) \<and>
    running p \<le> nat workers \<and>
    (fst (submit False False (Some p)) = Busy \<longleftrightarrow> length (futures p) = pool_cap p0) \<and>
    (fst (submit False False (Some p)) \<noteq> Busy \<longrightarrow> fst (submit False False (Some p)) = Accepted (next_future p)) \<and>
    submit True shut (Some p) = (Direct, Some p) \<and>
    (i < next_future p \<and> i \<notin> holders p \<longrightarrow> i \<notin> holders (foldl pool_step p evs'))"
proof -
  note p0 = get_order_pool_ok [OF assms(1)]
  have ok: "pool_ok p" unfolding assms(2) by (rule run_ok) (use p0 in simp)
  have "pool_cap p = pool_cap p0" "pool_workers p = nat workers" using p0 by (simp_all add: assms(2) run_frame)
  with ok p0 show ?thesis using done_for_good [OF ok, of i evs']
    by (auto simp: pool_ok_def occupied_def submit_def Let_def)
qed

theorem pool_permits_conserved_witness:
  "\<exists>p0. get_order_pool 1 (Some 1) None = Some p0 \<and>
     occupied (Some (foldl pool_step p0 [Submit False, StartNext, Submit False, Timeout 0])) = 1 \<and>
     occupied (Some (foldl pool_step p0 [Submit False, StartNext, Submit False, Timeout 0, Finish 0])) = 0"
proof -
  let ?p0 = "\<lparr>semaphore = 1, futures = [], next_future = 0, pool_workers = 1, pool_cap = 1\<rparr>"
  have g: "get_order_pool 1 (Some 1) None = Some ?p0" by (simp add: get_order_pool_def pool_capacity_def)
  have "futures (foldl pool_step ?p0 [Submit False, StartNext, Submit False, Timeout 0]) = [(0, Running)]"
    "futures (foldl pool_step ?p0 [Submit False, StartNext, Submit False, Timeout 0, Finish 0]) = []"
    by (simp_all add: pool_step_def submit_def start_next_def running_def cancel_def finish_def release_def)
  with pool_permits_conserved [OF g refl, of "[Submit False, StartNext, Submit False, Timeout 0]"]
    pool_permits_conserved [OF g refl, of "[Submit False, StartNext, Submit False, Timeout 0, Finish 0]"] g
  show ?thesis by simp
qed

end
