(* ===== verification/Regex.thy ===== *)
theory Regex
  imports Prelude
begin

text \<open>
  Regular expressions as Python's \<open>re\<close> runs them: a backtracking matcher that yields the
  matches at a position in order of preference (greedy repetition first, alternatives from
  left to right), so the first element is the match \<open>re\<close> returns. One capturing group is
  enough for the patterns of the program. \<open>pre\<close> is the reversed text before the position
  (for look-behind), \<open>rest\<close> the text after it.
\<close>

datatype re =
    Eps
  | Cls "nat \<Rightarrow> bool"
  | Cat re re
  | Alt re re
  | Many "nat \<Rightarrow> bool" nat "nat option"
  | NotBehind "nat \<Rightarrow> bool"
  | NotAhead "nat \<Rightarrow> bool"
  | Grp re

type_synonym match = "ustr option \<times> ustr \<times> ustr"

fun counts_down :: "nat \<Rightarrow> nat \<Rightarrow> nat list" where
  "counts_down hi lo = rev [lo..<Suc hi]"

primrec matches :: "re \<Rightarrow> ustr \<Rightarrow> ustr \<Rightarrow> match list" where
  "matches Eps pre rest = [(None, pre, rest)]"
| "matches (Cls p) pre rest =
     (case rest of [] \<Rightarrow> [] | c # cs \<Rightarrow> if p c then [(None, c # pre, cs)] else [])"
| "matches (Cat a b) pre rest =
     concat (map (\<lambda>(g, pre', rest').
        map (\<lambda>(g', p, r). (if g' = None then g else g', p, r)) (matches b pre' rest'))
       (matches a pre rest))"
| "matches (Alt a b) pre rest = matches a pre rest @ matches b pre rest"
| "matches (Many p lo hi) pre rest =
     (let n = length (takeWhile p rest); k = (case hi of None \<Rightarrow> n | Some m \<Rightarrow> min m n)
      in map (\<lambda>i. (None, rev (take i rest) @ pre, drop i rest)) (counts_down k lo))"
| "matches (NotBehind p) pre rest =
     (case pre of [] \<Rightarrow> [(None, pre, rest)] | c # _ \<Rightarrow> if p c then [] else [(None, pre, rest)])"
| "matches (NotAhead p) pre rest =
     (case rest of [] \<Rightarrow> [(None, pre, rest)] | c # _ \<Rightarrow> if p c then [] else [(None, pre, rest)])"
| "matches (Grp a) pre rest =
     map (\<lambda>(g, pre', rest'). (Some (take (length rest - length rest') rest), pre', rest')) (matches a pre rest)"

definition lit :: "ustr \<Rightarrow> re" where
  "lit s = foldr (\<lambda>c r. Cat (Cls ((=) c)) r) s Eps"

definition opt :: "re \<Rightarrow> re" where
  "opt a = Alt a Eps"

text \<open>\<open>pattern.search\<close>: the leftmost position with a match, and the preferred match there.\<close>

fun search :: "re \<Rightarrow> ustr \<Rightarrow> ustr \<Rightarrow> match option" where
  "search a pre [] = (case matches a pre [] of [] \<Rightarrow> None | m # _ \<Rightarrow> Some m)"
| "search a pre (c # cs) =
     (case matches a pre (c # cs) of [] \<Rightarrow> search a (c # pre) cs | m # _ \<Rightarrow> Some m)"

text \<open>
  \<open>pattern.finditer\<close>: the captured group (the whole match where the pattern captures
  nothing) of the matches from left to right, without overlap. A match is taken to consume at
  least one character, as every pattern it is used with does.
\<close>

function find_all :: "re \<Rightarrow> ustr \<Rightarrow> ustr \<Rightarrow> ustr list" where
  "find_all a pre [] = []"
| "find_all a pre (c # cs) =
     (case matches a pre (c # cs) of
        [] \<Rightarrow> find_all a (c # pre) cs
      | (g, _, rest) # _ \<Rightarrow>
          (let n = max 1 (length (c # cs) - length rest); hit = take n (c # cs)
           in (case g of None \<Rightarrow> hit | Some w \<Rightarrow> w) # find_all a (rev hit @ pre) (drop n (c # cs))))"
  by pat_completeness auto
termination
  by (relation "measure (\<lambda>(a, pre, rest). length rest)") auto

declare find_all.simps(2) [simp del]

text \<open>A plain alternation of literals.\<close>

definition words :: "ustr list \<Rightarrow> re" where
  "words ws = (case rev (map lit ws) of [] \<Rightarrow> NotAhead (\<lambda>_. True) | r # rs \<Rightarrow> foldl (\<lambda>acc a. Alt a acc) r rs)"

text \<open>\<open>\d\<close>: the Unicode decimal digits, in runs of ten from these code points (and fifty
  mathematical digits).\<close>

definition digit_starts :: "nat list" where
  "digit_starts = [48, 0x660, 0x6F0, 0x7C0, 0x966, 0x9E6, 0xA66, 0xAE6, 0xB66, 0xBE6, 0xC66, 0xCE6,
     0xD66, 0xDE6, 0xE50, 0xED0, 0xF20, 0x1040, 0x1090, 0x17E0, 0x1810, 0x1946, 0x19D0, 0x1A80,
     0x1A90, 0x1B50, 0x1BB0, 0x1C40, 0x1C50, 0xA620, 0xA8D0, 0xA900, 0xA9D0, 0xA9F0, 0xAA50,
     0xABF0, 0xFF10, 0x104A0, 0x10D30, 0x11066, 0x110F0, 0x11136, 0x111D0, 0x112F0, 0x11450,
     0x114D0, 0x11650, 0x116C0, 0x11730, 0x118E0, 0x11950, 0x11C50, 0x11D50, 0x11DA0, 0x16A60,
     0x16AC0, 0x16B50, 0x1D7CE, 0x1D7D8, 0x1D7E2, 0x1D7EC, 0x1D7F6, 0x1E140, 0x1E2F0, 0x1E950,
     0x1FBF0]"

definition is_digit :: "nat \<Rightarrow> bool" where
  "is_digit c \<longleftrightarrow> (\<exists>z \<in> set digit_starts. z \<le> c \<and> c < z + 10)"

section \<open>Facts about the matcher\<close>

lemma hd_concat_map:
  "concat (map f xs) \<noteq> [] \<Longrightarrow> \<exists>x \<in> set xs. f x \<noteq> [] \<and> hd (concat (map f xs)) = hd (f x)"
proof (induction xs)
  case Nil
  then show ?case by simp
next
  case (Cons x xs)
  then show ?case by (cases "f x = []") (auto simp: hd_append)
qed

lemma matches_split:
  "(g, pre', rest') \<in> set (matches a pre rest) \<Longrightarrow> \<exists>u. rest = u @ rest' \<and> pre' = rev u @ pre"
proof (induction a arbitrary: g pre rest pre' rest')
  case Eps
  then show ?case by simp
next
  case (Cls p)
  then show ?case by (auto split: list.splits if_splits intro: exI [of _ "[_]"])
next
  case (Cat a b)
  from Cat.prems obtain g1 p1 r1 g2 where "(g1, p1, r1) \<in> set (matches a pre rest)"
    and "(g2, pre', rest') \<in> set (matches b p1 r1)" by auto
  with Cat.IH obtain u v where "rest = u @ r1" "p1 = rev u @ pre" "r1 = v @ rest'" "pre' = rev v @ p1"
    by metis
  then show ?case by (auto intro: exI [of _ "u @ v"])
next
  case (Alt a b)
  then show ?case by auto
next
  case (Many p lo hi)
  then obtain i where "rest' = drop i rest" "pre' = rev (take i rest) @ pre"
    by (auto simp: Let_def)
  then show ?case by (intro exI [of _ "take i rest"]) simp
next
  case (NotBehind p)
  then show ?case by (auto split: list.splits if_splits)
next
  case (NotAhead p)
  then show ?case by (auto split: list.splits if_splits)
next
  case (Grp a)
  then show ?case by auto
qed

lemma matches_lit: "matches (lit s) pre rest =
    (if starts_with s rest then [(None, rev s @ pre, drop (length s) rest)] else [])"
proof (induction s arbitrary: pre rest)
  case Nil
  then show ?case by (cases rest) (simp_all add: lit_def)
next
  case (Cons c s)
  show ?case
  proof (cases rest)
    case Nil
    then show ?thesis by (simp add: lit_def)
  next
    case (Cons d ds)
    with Cons.IH [of "d # pre" ds] show ?thesis by (simp add: lit_def)
  qed
qed

lemma search_Some_matches:
  "search a pre s = Some m \<Longrightarrow> \<exists>u v. s = u @ v \<and> matches a (rev u @ pre) v \<noteq> [] \<and> m = hd (matches a (rev u @ pre) v)"
proof (induction a pre s rule: search.induct)
  case (1 a pre)
  then show ?case by (auto split: list.splits)
next
  case (2 a pre c cs)
  show ?case
  proof (cases "matches a pre (c # cs)")
    case Nil
    with 2 obtain u v where "cs = u @ v" "matches a (rev u @ c # pre) v \<noteq> []"
      "m = hd (matches a (rev u @ c # pre) v)" by auto
    then show ?thesis by (intro exI [of _ "c # u"] exI [of _ v]) simp
  next
    case (Cons m' ms)
    with 2 show ?thesis by (intro exI [of _ "[]"] exI [of _ "c # cs"]) simp
  qed
qed

lemma search_None_iff:
  "search a pre s = None \<longleftrightarrow> (\<forall>u v. s = u @ v \<longrightarrow> matches a (rev u @ pre) v = [])"
proof (induction a pre s rule: search.induct)
  case (1 a pre)
  then show ?case by (auto split: list.splits)
next
  case (2 a pre c cs)
  have "(\<forall>u v. c # cs = u @ v \<longrightarrow> matches a (rev u @ pre) v = []) \<longleftrightarrow>
      matches a pre (c # cs) = [] \<and> (\<forall>u v. cs = u @ v \<longrightarrow> matches a (rev u @ c # pre) v = [])"
    (is "?l \<longleftrightarrow> ?r")
  proof
    assume l: ?l
    have "matches a (rev u @ c # pre) v = []" if "cs = u @ v" for u v
      using l [rule_format, of "c # u" v] that by simp
    with l [rule_format, of "[]" "c # cs"] show ?r by simp
  next
    assume ?r
    then show ?l by (auto simp: Cons_eq_append_conv)
  qed
  with 2 show ?case by (auto split: list.splits)
qed

end
