(* ===== verification/Order_No.thy ===== *)
theory Order_No
  imports Regex
begin

text \<open>
  Order numbers in text. Four modules search with the same pattern
  \<open>(?:dingdan|#|NO\.?)?\s*(\d{8,})\<close> (dingdan: the two characters of "order") ignoring case:
  \<open>app/agents/policy.py\<close>, \<open>app/services/order.py\<close>, \<open>app/context/summary/facts.py\<close>.
  The pattern is run by the matcher of \<open>Regex\<close>; the reference definition \<open>first_long_run\<close>
  says what it finds.
\<close>

definition order_prefix :: re where
  "order_prefix =
     opt (Alt (lit [0x8BA2, 0x5355])
       (Alt (lit (asc ''#''))
         (Cat (Cls (\<lambda>c. c = 78 \<or> c = 110)) (Cat (Cls (\<lambda>c. c = 79 \<or> c = 111)) (opt (lit (asc ''.'')))))))"

definition order_no_pattern :: re where
  "order_no_pattern = Cat order_prefix (Cat (Many is_space 0 None) (Grp (Many is_digit 8 None)))"

definition extract_query_order_no :: "ustr \<Rightarrow> ustr option" where
  "extract_query_order_no text =
     (case search order_no_pattern [] text of None \<Rightarrow> None | Some (g, _, _) \<Rightarrow> g)"

definition extract_order_no :: "ustr \<Rightarrow> ustr option" where
  "extract_order_no text =
     (case search order_no_pattern [] text of None \<Rightarrow> None | Some (g, _, _) \<Rightarrow> g)"

section \<open>What the pattern finds\<close>

text \<open>The first maximal run of at least eight digits.\<close>

function first_long_run :: "ustr \<Rightarrow> ustr option" where
  "first_long_run [] = None"
| "first_long_run (c # cs) =
     (if is_digit c then
        (let run = takeWhile is_digit (c # cs)
         in if length run \<ge> 8 then Some run else first_long_run (drop (length run) (c # cs)))
      else first_long_run cs)"
  by pat_completeness auto
termination
  by (relation "measure length") auto

lemmas [simp del] = first_long_run.simps(2)

lemma first_long_run_nondigits:
  "\<forall>c \<in> set u. \<not> is_digit c \<Longrightarrow> first_long_run (u @ v) = first_long_run v"
  by (induction u) (simp_all add: first_long_run.simps)

lemma first_long_run_hit:
  "length (takeWhile is_digit v) \<ge> 8 \<Longrightarrow> first_long_run v = Some (takeWhile is_digit v)"
  by (cases v) (auto simp: first_long_run.simps Let_def split: if_splits)

lemma space_not_digit: "is_space c \<Longrightarrow> \<not> is_digit c"
  by (auto simp: is_space_def is_digit_def digit_starts_def)

lemma prefix_not_digit:
  "(g, p, r) \<in> set (matches order_prefix pre rest) \<Longrightarrow> \<exists>u. rest = u @ r \<and> (\<forall>c \<in> set u. \<not> is_digit c)"
  by (auto simp: order_prefix_def opt_def matches_lit asc_def starts_with_iff is_digit_def digit_starts_def
      split: if_splits list.splits)

lemma digits_matches:
  "matches (Grp (Many is_digit 8 None)) pre rest =
     map (\<lambda>i. (Some (take i rest), rev (take i rest) @ pre, drop i rest))
       (counts_down (length (takeWhile is_digit rest)) 8)"
proof -
  have *: "i \<le> length (takeWhile is_digit rest) \<Longrightarrow> length rest - (length rest - i) = i" for i
    using length_takeWhile_le [of is_digit rest] by simp
  show ?thesis by (auto simp: Let_def * comp_def intro!: map_cong)
qed

lemma counts_down_hd: "lo \<le> hi \<Longrightarrow> counts_down hi lo = hi # rev [lo..<hi]"
  by simp

lemma digits_hd:
  "matches (Grp (Many is_digit 8 None)) pre rest \<noteq> [] \<Longrightarrow>
     length (takeWhile is_digit rest) \<ge> 8 \<and>
     fst (hd (matches (Grp (Many is_digit 8 None)) pre rest)) = Some (takeWhile is_digit rest)"
proof -
  let ?n = "length (takeWhile is_digit rest)"
  assume "matches (Grp (Many is_digit 8 None)) pre rest \<noteq> []"
  then have n: "8 \<le> ?n" unfolding digits_matches by (auto split: if_splits)
  have "take ?n rest = takeWhile is_digit rest"
    by (metis append_eq_conv_conj takeWhile_dropWhile_id)
  with n show ?thesis unfolding digits_matches counts_down_hd [OF n] by simp
qed

text \<open>Any match of the whole pattern skips non-digits and then takes a digit run.\<close>

lemma Cat_hd_group:
  assumes ne: "matches (Cat a b) pre rest \<noteq> []"
    and grp: "\<forall>p r. \<forall>x \<in> set (matches b p r). fst x \<noteq> None"
  shows "\<exists>g p r. (g, p, r) \<in> set (matches a pre rest) \<and> matches b p r \<noteq> [] \<and>
    hd (matches (Cat a b) pre rest) = hd (matches b p r)"
proof -
  from ne have "concat (map (\<lambda>(g, p, r). map (\<lambda>(g', p', r'). (if g' = None then g else g', p', r')) (matches b p r))
      (matches a pre rest)) \<noteq> []" by simp
  from hd_concat_map [OF this] obtain g p r where m: "(g, p, r) \<in> set (matches a pre rest)"
    and ne': "matches b p r \<noteq> []"
    and h: "hd (matches (Cat a b) pre rest) =
      hd (map (\<lambda>(g', p', r'). (if g' = None then g else g', p', r')) (matches b p r))" by auto
  obtain g' p' r' where hd: "hd (matches b p r) = (g', p', r')" by (cases "hd (matches b p r)")
  with ne' have "(g', p', r') \<in> set (matches b p r)" by (metis hd_in_set)
  with grp obtain x where "g' = Some x" by (metis fst_conv not_None_eq)
  with ne' hd have "hd (map (\<lambda>(g', p', r'). (if g' = None then g else g', p', r')) (matches b p r)) = hd (matches b p r)"
    by (simp add: hd_map)
  with m ne' h show ?thesis by auto
qed

lemma Grp_group: "\<forall>p r. \<forall>x \<in> set (matches (Grp a) p r). fst x \<noteq> None"
  by auto

lemma Cat_group:
  "\<forall>p r. \<forall>x \<in> set (matches (Cat a (Grp b)) p r). fst x \<noteq> None"
  by auto

lemma spaces_match:
  assumes "(g, p', r') \<in> set (matches (Many is_space 0 None) p r)"
  shows "\<exists>u. r = u @ r' \<and> (\<forall>c \<in> set u. \<not> is_digit c)"
proof -
  from assms obtain i where i: "r' = drop i r" "i \<le> length (takeWhile is_space r)"
    by (auto simp: Let_def simp flip: less_Suc_eq_le)
  have "take i r = take i (takeWhile is_space r)"
    using i(2) by (metis takeWhile_dropWhile_id take_append diff_is_0_eq take0 append_Nil2)
  then have "\<forall>c \<in> set (take i r). is_space c" by (metis in_set_takeD set_takeWhileD)
  with i(1) show ?thesis
    by (intro exI [of _ "take i r"]) (auto dest: space_not_digit)
qed

lemma pattern_match:
  assumes "matches order_no_pattern pre rest \<noteq> []"
  shows "\<exists>u v. rest = u @ v \<and> (\<forall>c \<in> set u. \<not> is_digit c) \<and> length (takeWhile is_digit v) \<ge> 8 \<and>
    fst (hd (matches order_no_pattern pre rest)) = Some (takeWhile is_digit v)"
proof -
  let ?d = "Grp (Many is_digit 8 None)" and ?s = "Many is_space 0 None"
  from Cat_hd_group [OF assms [unfolded order_no_pattern_def] Cat_group] obtain g p r where
    p: "(g, p, r) \<in> set (matches order_prefix pre rest)" and ne: "matches (Cat ?s ?d) p r \<noteq> []"
    and h: "hd (matches order_no_pattern pre rest) = hd (matches (Cat ?s ?d) p r)"
    unfolding order_no_pattern_def by blast
  from Cat_hd_group [OF ne Grp_group] obtain g2 p2 r2 where
    s: "(g2, p2, r2) \<in> set (matches ?s p r)" and ne2: "matches ?d p2 r2 \<noteq> []"
    and h2: "hd (matches (Cat ?s ?d) p r) = hd (matches ?d p2 r2)" by blast
  from prefix_not_digit [OF p] obtain u where u: "rest = u @ r" "\<forall>c \<in> set u. \<not> is_digit c" by blast
  from spaces_match [OF s] obtain w where w: "r = w @ r2" "\<forall>c \<in> set w. \<not> is_digit c" by blast
  have n: "length (takeWhile is_digit r2) \<ge> 8"
    using digits_hd [OF ne2] by (rule conjunct1)
  have "fst (hd (matches order_no_pattern pre rest)) = Some (takeWhile is_digit r2)"
    unfolding h h2 using digits_hd [OF ne2] by (rule conjunct2)
  with n u w show ?thesis
    by (intro exI [of _ "u @ w"] exI [of _ r2]) auto
qed

lemma pattern_at_run:
  "length (takeWhile is_digit rest) \<ge> 8 \<Longrightarrow> matches order_no_pattern pre rest \<noteq> []"
proof -
  assume n: "length (takeWhile is_digit rest) \<ge> 8"
  have "matches (Grp (Many is_digit 8 None)) pre rest \<noteq> []"
    unfolding digits_matches using n by simp
  moreover have "(None, pre, rest) \<in> set (matches (Many is_space 0 None) pre rest)"
    by (auto simp: Let_def image_iff intro!: bexI [of _ 0])
  ultimately have "matches (Cat (Many is_space 0 None) (Grp (Many is_digit 8 None))) pre rest \<noteq> []"
    unfolding matches.simps(3) by fastforce
  moreover have "(None, pre, rest) \<in> set (matches order_prefix pre rest)"
    by (simp add: order_prefix_def opt_def)
  ultimately show ?thesis unfolding order_no_pattern_def matches.simps(3) [of order_prefix]
    by fastforce
qed

text \<open>Inside a short run of digits the pattern has no match, so the search moves past it.\<close>

lemma search_short_run:
  "\<forall>c \<in> set u. is_digit c \<Longrightarrow> length (u @ takeWhile is_digit v) < 8 \<Longrightarrow> v = dropWhile is_digit v \<Longrightarrow>
     search order_no_pattern pre (u @ v) = search order_no_pattern (rev u @ pre) v"
proof (induction u arbitrary: pre)
  case Nil
  then show ?case by simp
next
  case (Cons c u)
  have "matches order_no_pattern pre ((c # u) @ v) = []"
  proof (rule ccontr)
    assume "matches order_no_pattern pre ((c # u) @ v) \<noteq> []"
    from pattern_match [OF this] obtain a b where ab: "(c # u) @ v = a @ b" "\<forall>x \<in> set a. \<not> is_digit x"
      and b: "8 \<le> length (takeWhile is_digit b)" by blast
    have "a = []"
      using ab Cons.prems(1) by (cases a) auto
    with ab have "takeWhile is_digit b = (c # u) @ takeWhile is_digit v"
      using Cons.prems(1) by (metis append_Nil takeWhile_append2)
    with b Cons.prems(2) show False by simp
  qed
  with Cons show ?case by simp
qed

lemma dropWhile_twice: "dropWhile P (dropWhile P xs) = dropWhile P xs"
  by (induction xs) auto

lemma takeWhile_dropWhile_Nil: "takeWhile P (dropWhile P xs) = []"
  by (induction xs) auto

lemma search_is_first_run:
  "(case search order_no_pattern pre s of None \<Rightarrow> None | Some (g, _, _) \<Rightarrow> g) = first_long_run s"
proof (induction "length s" arbitrary: pre s rule: less_induct)
  case less
  show ?case
  proof (cases "matches order_no_pattern pre s")
    case (Cons m ms)
    then have "matches order_no_pattern pre s \<noteq> []" by simp
    from pattern_match [OF this] Cons obtain u v where "s = u @ v" "\<forall>c \<in> set u. \<not> is_digit c"
      "8 \<le> length (takeWhile is_digit v)" "fst m = Some (takeWhile is_digit v)" by auto
    moreover from Cons have "search order_no_pattern pre s = Some m" by (cases s) auto
    ultimately show ?thesis
      by (cases m) (simp add: first_long_run_nondigits first_long_run_hit)
  next
    case Nil
    show ?thesis
    proof (cases s)
      case Nil
      with \<open>matches order_no_pattern pre s = []\<close> show ?thesis by simp
    next
      case (Cons c cs)
      show ?thesis
      proof (cases "is_digit c")
        case False
        with Cons \<open>matches order_no_pattern pre s = []\<close> less [of cs "c # pre"] show ?thesis
          by (simp add: first_long_run.simps)
      next
        case True
        let ?u = "takeWhile is_digit s" and ?v = "dropWhile is_digit s"
        have short: "length ?u < 8"
        proof (rule ccontr)
          assume "\<not> length ?u < 8"
          then have "matches order_no_pattern pre s \<noteq> []" by (intro pattern_at_run) simp
          with Nil show False by simp
        qed
        have "search order_no_pattern pre (?u @ ?v) = search order_no_pattern (rev ?u @ pre) ?v"
        proof (rule search_short_run)
          show "\<forall>c \<in> set ?u. is_digit c" by (auto dest: set_takeWhileD)
          show "?v = dropWhile is_digit ?v" by (simp add: dropWhile_twice)
          have "takeWhile is_digit ?v = []" by (rule takeWhile_dropWhile_Nil)
          with short show "length (?u @ takeWhile is_digit ?v) < 8" by simp
        qed
        moreover have "first_long_run s = first_long_run ?v"
          using Cons True short by (simp add: first_long_run.simps Let_def dropWhile_eq_drop)
        moreover have "length ?v < length s"
          using Cons True by (simp add: length_dropWhile_le less_Suc_eq_le)
        ultimately show ?thesis using less [of ?v "rev ?u @ pre"] by simp
      qed
    qed
  qed
qed

text \<open>
  C3: On every text the searches return the first maximal run of at least eight decimal
  digits, whatever precedes it (the optional word for order, a hash sign, NO, blanks), and
  nothing when there is none; the routing policy and the order service agree on it.
\<close>

theorem order_no_is_first_long_run:
  "extract_query_order_no s = first_long_run s \<and> extract_order_no s = first_long_run s"
  by (simp add: extract_query_order_no_def extract_order_no_def search_is_first_run)

lemma extract_order_no_run: "extract_order_no s = first_long_run s"
  by (simp add: extract_order_no_def search_is_first_run)

lemma extract_query_order_no_run: "extract_query_order_no s = first_long_run s"
  by (simp add: extract_query_order_no_def search_is_first_run)

lemma first_long_run_digits:
  "first_long_run s = Some d \<Longrightarrow> 8 \<le> length d \<and> list_all is_digit d \<and> d \<noteq> []"
proof (induction s rule: first_long_run.induct)
  case 1
  then show ?case by simp
next
  case (2 c cs)
  show ?case
  proof (cases "is_digit c \<and> 8 \<le> length (takeWhile is_digit (c # cs))")
    case True
    have d: "d = takeWhile is_digit (c # cs)"
      using first_long_run_hit [OF True [THEN conjunct2]] 2(3) by (simp only: option.inject)
    have "list_all is_digit d" unfolding d list_all_iff using set_takeWhileD [of _ is_digit "c # cs"] by blast
    moreover have "8 \<le> length d" using True d by blast
    ultimately show ?thesis by auto
  next
    case False
    with 2 show ?thesis by (auto simp: first_long_run.simps Let_def split: if_splits)
  qed
qed

lemmas extract_digits =
  first_long_run_digits [folded extract_order_no_run] first_long_run_digits [folded extract_query_order_no_run]

end
