(* ===== verification/Order_Access.thy ===== *)
theory Order_Access
  imports Order_No Tenancy
begin

text \<open>
  \<open>app/security/order_access.py\<close>, the single authority on who may read an order, with the
  order rows of \<open>app/db/models.py\<close> and \<open>EPHEMERAL_USERS\<close>, \<open>is_persistent_user\<close> of
  \<open>app/memory.py\<close>. The database is the list of its order rows; a query with WHERE
  conditions selects with exact string comparison, and \<open>session.scalar\<close> takes the first
  row. The unique constraint on tenant and order number is \<open>unique_orders\<close>. Denials are
  returned as the audit records that \<open>_record_deny\<close> writes.
\<close>

section \<open>Rows\<close>

record datetime =
  dt_year :: nat
  dt_month :: nat
  dt_day :: nat
  dt_hour :: nat
  dt_minute :: nat

record course_row =
  course_name :: ustr
  course_code :: ustr

record event_row =
  ev_seq :: int
  ev_name :: ustr
  ev_status :: ustr
  occurred_at :: "datetime option"
  ev_note :: "ustr option"

record order_row =
  row_id :: int
  row_tenant :: ustr
  row_order_no :: ustr
  row_user :: ustr
  row_course :: course_row
  row_type :: ustr
  row_status :: ustr
  row_amount :: rat
  row_events :: "event_row list"

type_synonym order_db = "order_row list"

definition unique_orders :: "order_db \<Rightarrow> bool" where
  "unique_orders db \<longleftrightarrow> distinct (map (\<lambda>r. (row_tenant r, row_order_no r)) db)"

section \<open>The decision\<close>

datatype access_context = DIRECT_QUERY | SLOT_FOLLOWUP | MEMORY_RECALL | REACT_BINDING

datatype order_deny_reason =
  ORDER_NOT_FOUND | CROSS_TENANT | NOT_ORDER_OWNER | ANONYMOUS_UNBOUND | MALFORMED_ORDER_NO

record access_decision =
  allowed :: bool
  reason_code :: "order_deny_reason option"
  order_id :: "int option"
  order :: "order_row option"

record deny_record =
  deny_order_no :: ustr
  deny_tenant :: ustr
  deny_user :: ustr
  deny_context :: access_context
  deny_reason :: order_deny_reason

definition ephemeral_users :: "ustr list" where
  "ephemeral_users = [[], (asc ''anonymous''), (asc ''anon'')]"

definition is_persistent_user :: "ustr option \<Rightarrow> bool" where
  "is_persistent_user u \<longleftrightarrow>
     strip (str_or_empty u) \<noteq> [] \<and> strip (str_or_empty u) \<notin> set ephemeral_users"

definition normalize_user_id :: "ustr option \<Rightarrow> ustr" where
  "normalize_user_id u = or_str (strip (str_or_empty u)) (asc ''anonymous'')"

definition order_no_re :: "ustr \<Rightarrow> bool" where
  "order_no_re s \<longleftrightarrow> list_all is_digit s \<and> 8 \<le> length s"

definition is_anon :: "ustr \<Rightarrow> bool" where
  "is_anon uid \<longleftrightarrow> uid \<in> set ephemeral_users \<or> uid = []"

definition user_visible_deny :: "ustr \<Rightarrow> ustr" where
  "user_visible_deny no = [0x672A, 0x627E, 0x5230, 0x8BA2, 0x5355, 32] \<comment> \<open>order not found\<close> @ no"

text \<open>The triple \<open>(allowed, reason, order)\<close> is a sum: a reason, or the order.\<close>

definition decide_access ::
  "order_db \<Rightarrow> ustr \<Rightarrow> ustr \<Rightarrow> ustr \<Rightarrow> access_context \<Rightarrow> order_deny_reason + order_row" where
  "decide_access db order_no tenant_id user_id context =
     (let number = strip order_no in
      if \<not> order_no_re number then Inl MALFORMED_ORDER_NO
      else let uid = normalize_user_id (Some user_id); anon = is_anon uid in
        if anon \<and> context = MEMORY_RECALL then Inl ANONYMOUS_UNBOUND
        else (case find (\<lambda>r. row_order_no r = number \<and> row_tenant r = tenant_id) db of
          None \<Rightarrow>
            (case find (\<lambda>r. row_order_no r = number) db of
               None \<Rightarrow> Inl ORDER_NOT_FOUND
             | Some r \<Rightarrow> Inl (if row_id r \<noteq> 0 then CROSS_TENANT else ORDER_NOT_FOUND))
        | Some r \<Rightarrow>
            (if \<not> anon \<and> row_user r \<noteq> uid then Inl NOT_ORDER_OWNER else Inr r)))"

definition authorize ::
  "order_db \<Rightarrow> identity_ctx \<Rightarrow> ustr \<Rightarrow> access_context \<Rightarrow> ustr option \<Rightarrow> ustr option \<Rightarrow> ustr option \<Rightarrow>
     access_decision \<times> deny_record list" where
  "authorize db ctx order_no context tenant_id user_id session_bound_order_no =
     (let tid = or_str (str_or_empty tenant_id) (current_tenant ctx);
          uid = normalize_user_id (Some (or_str (str_or_empty user_id) (get_current_user ctx)));
          anon = is_anon uid;
          bound = strip (str_or_empty session_bound_order_no);
          denied = (\<lambda>reason. (\<lparr>allowed = False, reason_code = Some reason, order_id = None, order = None\<rparr>,
            [\<lparr>deny_order_no = order_no, deny_tenant = tid, deny_user = uid, deny_context = context,
              deny_reason = reason\<rparr>]))
      in if anon \<and> context = SLOT_FOLLOWUP \<and> bound \<noteq> [] \<and> strip order_no \<noteq> bound
         then denied ANONYMOUS_UNBOUND
         else (case decide_access db order_no tid uid context of
             Inl reason \<Rightarrow> denied reason
           | Inr r \<Rightarrow> (\<lparr>allowed = True, reason_code = None, order_id = Some (row_id r), order = Some r\<rparr>, [])))"

datatype access_error = ValueError ustr | AssertionError

definition ensure_access ::
  "order_db \<Rightarrow> identity_ctx \<Rightarrow> ustr \<Rightarrow> access_context \<Rightarrow> ustr option \<Rightarrow> ustr option \<Rightarrow> ustr option \<Rightarrow>
     (access_error + order_row) \<times> deny_record list" where
  "ensure_access db ctx order_no context tenant_id user_id bound =
     (let (d, audit) = authorize db ctx order_no context tenant_id user_id bound
      in if \<not> allowed d then (Inl (ValueError (user_visible_deny order_no)), audit)
         else (case order d of None \<Rightarrow> (Inl AssertionError, audit) | Some r \<Rightarrow> (Inr r, audit)))"

definition can_access_order ::
  "order_db \<Rightarrow> identity_ctx \<Rightarrow> ustr \<Rightarrow> ustr \<Rightarrow> ustr option \<Rightarrow> access_context \<Rightarrow> bool \<times> deny_record list" where
  "can_access_order db ctx order_no tenant_id user_id context =
     (let (d, audit) = authorize db ctx order_no context (Some tenant_id) user_id None in (allowed d, audit))"

text \<open>The WHERE conditions, as the predicate on rows they express.\<close>

definition make_order_scope_filters :: "ustr \<Rightarrow> ustr \<Rightarrow> ustr option \<Rightarrow> (order_row \<Rightarrow> bool) list" where
  "make_order_scope_filters order_no tenant_id user_id =
     (let number = strip order_no; uid = normalize_user_id user_id
      in [\<lambda>r. row_order_no r = number, \<lambda>r. row_tenant r = tenant_id] @
         (if is_persistent_user (Some uid) then [\<lambda>r. row_user r = uid] else []))"

definition select_where :: "(order_row \<Rightarrow> bool) list \<Rightarrow> order_db \<Rightarrow> order_row list" where
  "select_where conds db = filter (\<lambda>r. \<forall>c \<in> set conds. c r) db"

section \<open>Who may read which order\<close>

text \<open>The requesting tenant and user as \<open>authorize\<close> resolves them, and the access matrix.\<close>

definition request_tenant :: "identity_ctx \<Rightarrow> ustr option \<Rightarrow> ustr" where
  "request_tenant ctx t = or_str (str_or_empty t) (current_tenant ctx)"

definition request_user :: "identity_ctx \<Rightarrow> ustr option \<Rightarrow> ustr" where
  "request_user ctx u = normalize_user_id (Some (or_str (str_or_empty u) (get_current_user ctx)))"

definition may_read :: "ustr \<Rightarrow> ustr \<Rightarrow> access_context \<Rightarrow> ustr option \<Rightarrow> ustr \<Rightarrow> order_row \<Rightarrow> bool" where
  "may_read tid uid context bound order_no r \<longleftrightarrow>
     order_no_re (strip order_no) \<and> row_order_no r = strip order_no \<and> row_tenant r = tid \<and>
     (if is_anon uid
      then context \<noteq> MEMORY_RECALL \<and>
        (context = SLOT_FOLLOWUP \<longrightarrow> strip (str_or_empty bound) \<in> {[], strip order_no})
      else row_user r = uid)"

text \<open>What a requester can see of the database at all.\<close>

definition visible :: "ustr \<Rightarrow> ustr \<Rightarrow> order_row \<Rightarrow> bool" where
  "visible tid uid r \<longleftrightarrow> row_tenant r = tid \<and> (is_anon uid \<or> row_user r = uid)"

lemma normalize_user_id_nonempty [simp]: "normalize_user_id u \<noteq> []"
  by (simp add: normalize_user_id_def asc_def)

lemma normalize_user_id_stripped: "stripped (normalize_user_id u)"
  by (simp add: normalize_user_id_def or_str_def) (simp add: stripped_def asc_def is_space_def)

lemma normalize_user_id_idem [simp]: "normalize_user_id (Some (normalize_user_id u)) = normalize_user_id u"
  using normalize_user_id_stripped [of u] by (simp add: normalize_user_id_def [of "Some _"] strip_id or_str_def)

lemma anon_iff_not_persistent: "is_anon (normalize_user_id u) \<longleftrightarrow> \<not> is_persistent_user u"
  by (auto simp: is_anon_def is_persistent_user_def normalize_user_id_def or_str_def ephemeral_users_def)

lemma persistent_normalized: "is_persistent_user (Some (normalize_user_id u)) \<longleftrightarrow> is_persistent_user u"
  using anon_iff_not_persistent [of u] anon_iff_not_persistent [of "Some (normalize_user_id u)"] by simp

lemma unique_find:
  assumes "unique_orders db"
  shows "find (\<lambda>r. row_order_no r = no \<and> row_tenant r = t) db = Some r \<longleftrightarrow>
    r \<in> set db \<and> row_order_no r = no \<and> row_tenant r = t"
  using assms
proof (induction db)
  case Nil
  then show ?case by simp
next
  case (Cons a db)
  then have d: "(row_tenant a, row_order_no a) \<notin> (\<lambda>r. (row_tenant r, row_order_no r)) ` set db"
    and IH: "find (\<lambda>r. row_order_no r = no \<and> row_tenant r = t) db = Some r \<longleftrightarrow>
      r \<in> set db \<and> row_order_no r = no \<and> row_tenant r = t"
    by (simp_all add: unique_orders_def)
  show ?case
  proof (cases "row_order_no a = no \<and> row_tenant a = t")
    case True
    with d show ?thesis by (auto simp: image_iff)
  next
    case False
    then show ?thesis using IH by auto
  qed
qed

lemma unique_find_None:
  "find (\<lambda>r. row_order_no r = no \<and> row_tenant r = t) db = None \<longleftrightarrow>
     (\<forall>r \<in> set db. \<not> (row_order_no r = no \<and> row_tenant r = t))"
  by (auto simp: find_None_iff)

lemma decide_access_Inr:
  assumes "unique_orders db"
  shows "decide_access db no t u c = Inr r \<longleftrightarrow>
    r \<in> set db \<and> order_no_re (strip no) \<and> row_order_no r = strip no \<and> row_tenant r = t \<and>
    (if is_anon (normalize_user_id (Some u)) then c \<noteq> MEMORY_RECALL
     else row_user r = normalize_user_id (Some u))"
proof (cases "find (\<lambda>r. row_order_no r = strip no \<and> row_tenant r = t) db")
  case None
  then have "\<not> (r \<in> set db \<and> row_order_no r = strip no \<and> row_tenant r = t)"
    by (auto simp: unique_find_None)
  with None show ?thesis by (auto simp: decide_access_def Let_def split: option.splits if_splits)
next
  case (Some r')
  have "(r \<in> set db \<and> row_order_no r = strip no \<and> row_tenant r = t) = (r = r')"
    unfolding unique_find [OF assms, symmetric] Some by auto
  moreover have "decide_access db no t u c = Inr r \<longleftrightarrow> order_no_re (strip no) \<and> r = r' \<and>
      (if is_anon (normalize_user_id (Some u)) then c \<noteq> MEMORY_RECALL
       else row_user r = normalize_user_id (Some u))"
    by (auto simp: decide_access_def Let_def Some)
  ultimately show ?thesis by blast
qed

lemma authorize_allowed:
  assumes "unique_orders db"
  shows "order (fst (authorize db ctx no c t u b)) = Some r \<longleftrightarrow>
    r \<in> set db \<and> may_read (request_tenant ctx t) (request_user ctx u) c b no r"
proof -
  let ?u = "request_user ctx u"
  have n: "normalize_user_id (Some ?u) = ?u" by (simp add: request_user_def)
  have a: "order (fst (authorize db ctx no c t u b)) = Some r \<longleftrightarrow>
      \<not> (is_anon ?u \<and> c = SLOT_FOLLOWUP \<and> strip (str_or_empty b) \<noteq> [] \<and> strip no \<noteq> strip (str_or_empty b)) \<and>
      decide_access db no (request_tenant ctx t) ?u c = Inr r"
    by (auto simp: authorize_def Let_def request_user_def request_tenant_def split: sum.splits)
  show ?thesis unfolding a decide_access_Inr [OF assms] n
    by (auto simp: may_read_def split: if_splits)
qed

lemma authorize_shape:
  "(allowed (fst (authorize db ctx no c t u b)) \<longleftrightarrow> order (fst (authorize db ctx no c t u b)) \<noteq> None) \<and>
   length (snd (authorize db ctx no c t u b)) = (if allowed (fst (authorize db ctx no c t u b)) then 0 else 1) \<and>
   order_id (fst (authorize db ctx no c t u b)) = map_option row_id (order (fst (authorize db ctx no c t u b)))"
  by (auto simp: authorize_def Let_def split: sum.splits)

lemma ensure_access_eq:
  "fst (ensure_access db ctx no c t u b) =
     (case order (fst (authorize db ctx no c t u b)) of
        None \<Rightarrow> Inl (ValueError (user_visible_deny no)) | Some r \<Rightarrow> Inr r)"
  using authorize_shape [of db ctx no c t u b]
  by (auto simp: ensure_access_def split: prod.splits option.splits)


definition demo_order :: order_row where
  "demo_order = \<lparr>row_id = 1, row_tenant = (asc ''demo''), row_order_no = (asc ''20251114001''), row_user = (asc ''u1''),
     row_course = \<lparr>course_name = (asc ''Java''), course_code = (asc ''java'')\<rparr>, row_type = (asc ''purchase''),
     row_status = (asc ''paid''), row_amount = 100, row_events = []\<rparr>"

lemmas access_eval = asc_def strip_def is_space_def or_str_def normalize_user_id_def is_anon_def
  ephemeral_users_def order_no_re_def is_digit_def digit_starts_def get_current_user_def
  initial_ctx_def request_tenant_def request_user_def


text \<open>
  No existence leak. What the caller gets, the order or the error text, depends only on
  the rows the requester may see: two databases that agree on the tenant's rows (for a
  logged-in user: on that user's rows) give the same answer, so an order of another tenant or
  another user cannot be told from one that does not exist.
\<close>

lemma ensure_access_no_leak:
  assumes "unique_orders db" and "unique_orders db'"
    and "{r \<in> set db. visible (request_tenant ctx t) (request_user ctx u) r} =
         {r \<in> set db'. visible (request_tenant ctx t) (request_user ctx u) r}"
  shows "fst (ensure_access db ctx no c t u b) = fst (ensure_access db' ctx no c t u b)"
proof -
  have v: "may_read (request_tenant ctx t) (request_user ctx u) c b no r \<Longrightarrow>
      visible (request_tenant ctx t) (request_user ctx u) r" for r
    by (auto simp: may_read_def visible_def split: if_splits)
  have "order (fst (authorize db ctx no c t u b)) = Some r \<longleftrightarrow>
      order (fst (authorize db' ctx no c t u b)) = Some r" for r
    unfolding authorize_allowed [OF assms(1)] authorize_allowed [OF assms(2)] using assms(3) v by blast
  then have "order (fst (authorize db ctx no c t u b)) = order (fst (authorize db' ctx no c t u b))"
    by (metis not_None_eq)
  then show ?thesis by (simp add: ensure_access_eq)
qed

lemma scope_filters_select:
  "set (select_where (make_order_scope_filters no t u) db) =
     {r \<in> set db. row_order_no r = strip no \<and> row_tenant r = t \<and>
        (is_persistent_user u \<longrightarrow> row_user r = normalize_user_id u)}"
  by (auto simp: select_where_def make_order_scope_filters_def Let_def persistent_normalized)

text \<open>
  The WHERE conditions and the decision function follow the same rules: on a well-formed
  number, outside an anonymous recall from long-term memory, the conditions select exactly
  the order the decision grants, and select nothing when it denies.
\<close>

lemma scope_filters_agree:
  assumes "unique_orders db" and "order_no_re (strip no)"
    and "is_persistent_user (Some u) \<or> c \<noteq> MEMORY_RECALL"
  shows "set (select_where (make_order_scope_filters no t (Some u)) db) =
    (case decide_access db no t u c of Inl _ \<Rightarrow> {} | Inr r \<Rightarrow> {r})"
proof -
  have eq: "r \<in> set (select_where (make_order_scope_filters no t (Some u)) db) \<longleftrightarrow>
      decide_access db no t u c = Inr r" for r
    unfolding decide_access_Inr [OF assms(1)] scope_filters_select
    using assms(2,3) anon_iff_not_persistent [of "Some u"] by auto
  show ?thesis
  proof (rule set_eqI)
    fix r
    show "r \<in> set (select_where (make_order_scope_filters no t (Some u)) db) \<longleftrightarrow>
        r \<in> (case decide_access db no t u c of Inl _ \<Rightarrow> {} | Inr r \<Rightarrow> {r})"
      unfolding eq by (auto split: sum.splits)
  qed
qed

text \<open>
  The comments say that an anonymous slot follow-up must match the number bound to the
  session; when the caller passes no bound number the check is skipped and the follow-up is
  treated as a direct query.
\<close>

lemma anonymous_followup_unbound:
  assumes "is_anon (request_user ctx u)" and "strip (str_or_empty b) = []"
  shows "fst (authorize db ctx no SLOT_FOLLOWUP t u b) = fst (authorize db ctx no DIRECT_QUERY t u b)"
proof -
  have "decide_access db no t u SLOT_FOLLOWUP = decide_access db no t u DIRECT_QUERY" for t u
    by (simp add: decide_access_def Let_def)
  with assms show ?thesis by (auto simp: authorize_def Let_def split: sum.splits)
qed

end
