(* ===== verification/Order_Service.thy ===== *)
theory Order_Service
  imports Order_Access Text
begin

text \<open>
  \<open>app/services/order.py\<close>: resolving the order number of a turn, reading an order through the
  access authority and rendering its progress report. \<open>OrderReport\<close> and
  \<open>OrderProgressStep\<close> of \<open>app/schemas.py\<close> are records; the status of a step is checked
  against the four literals when the step is built, as pydantic does, and a bad one raises.
  The metric \<open>inc_tool_call\<close> and the audit records of the authority are returned as events.
\<close>

section \<open>Data\<close>

record progress_step =
  step_name :: ustr
  step_status :: ustr
  step_timestamp :: "ustr option"
  step_note :: "ustr option"

record order_report =
  rep_order_no :: ustr
  product_name :: ustr
  rep_course_code :: ustr
  order_type :: ustr
  current_status :: ustr
  progress_percent :: int
  amount :: rat
  steps :: "progress_step list"
  visualization :: ustr
  summary :: ustr
  oss_url :: "ustr option"

datatype service_event = ToolCall ustr ustr ustr | Denied deny_record

datatype service_error = Refused ustr | ValidationError | MissingOrder

definition step_statuses :: "ustr list" where
  "step_statuses = [(asc ''completed''), (asc ''in_progress''), (asc ''pending''), (asc ''rejected'')]"

definition status_labels :: "(ustr \<times> ustr) list" where
  "status_labels = [((asc ''paid''), [0x5DF2, 0x652F, 0x4ED8] \<comment> \<open>paid\<close>), ((asc ''active''), [0x5DF2, 0x5F00, 0x901A] \<comment> \<open>opened\<close>),
     ((asc ''refund_reviewing''), [0x9000, 0x6B3E, 0x5BA1, 0x6838, 0x4E2D] \<comment> \<open>refund in review\<close>), ((asc ''refunded''), [0x5DF2, 0x9000, 0x6B3E] \<comment> \<open>refunded\<close>),
     ((asc ''cancelled''), [0x5DF2, 0x53D6, 0x6D88] \<comment> \<open>cancelled\<close>)]"

definition mermaid_status :: "(ustr \<times> ustr) list" where
  "mermaid_status = [((asc ''completed''), [0x2713] \<comment> \<open>check mark\<close>), ((asc ''in_progress''), [0x25CF] \<comment> \<open>filled circle\<close>),
     ((asc ''pending''), [0x25CB] \<comment> \<open>circle\<close>), ((asc ''rejected''), [0x2717] \<comment> \<open>cross\<close>)]"

definition status_cn :: "(ustr \<times> ustr) list" where
  "status_cn = [((asc ''completed''), [0x5DF2, 0x5B8C, 0x6210] \<comment> \<open>done\<close>), ((asc ''in_progress''), [0x8FDB, 0x884C, 0x4E2D] \<comment> \<open>in progress\<close>),
     ((asc ''pending''), [0x5F85, 0x5904, 0x7406] \<comment> \<open>to do\<close>), ((asc ''rejected''), [0x5DF2, 0x62D2, 0x7EDD] \<comment> \<open>rejected\<close>)]"

definition get_or :: "(ustr \<times> ustr) list \<Rightarrow> ustr \<Rightarrow> ustr \<Rightarrow> ustr" where
  "get_or d k v = (case map_of d k of None \<Rightarrow> v | Some x \<Rightarrow> x)"

section \<open>The report\<close>

definition progress_percent_of :: "progress_step list \<Rightarrow> int" where
  "progress_percent_of ss =
     (if ss = [] then 0
      else let unit = 100 / of_nat (length ss);
             score = foldl (\<lambda>acc s. if step_status s = (asc ''completed'') then acc + unit
               else if step_status s = (asc ''in_progress'') then acc + unit / 2 else acc) 0 ss
           in round_even score)"

definition ascii_bar :: "int \<Rightarrow> ustr" where
  "ascii_bar percent =
     (let filled = round_even (of_int percent / 10)
      in replicate (nat filled) 0x2588 @ replicate (nat (10 - filled)) 0x2591)"

definition mermaid_node :: "nat \<Rightarrow> progress_step \<Rightarrow> ustr" where
  "mermaid_node i s =
     (asc ''    S'') @ show_nat i @ [91, 34] @ step_name s @ (asc '' '') @ get_or mermaid_status (step_status s) (asc ''?'') @ [34, 93]"

definition mermaid :: "progress_step list \<Rightarrow> ustr" where
  "mermaid ss =
     (let nodes = map (\<lambda>i. mermaid_node i (ss ! i)) [0..<length ss];
          edges = map (\<lambda>i. (asc ''    S'') @ show_nat (i - 1) @ (asc '' --> S'') @ show_nat i) [1..<length ss]
      in (asc ''flowchart LR'' @ [10]) @ join [10] (nodes @ edges))"

definition or_dash :: "ustr option \<Rightarrow> ustr" where
  "or_dash x = or_str (str_or_empty x) (asc ''-'')"

definition step_row :: "progress_step \<Rightarrow> ustr" where
  "step_row s = (asc ''| '') @ step_name s @ (asc '' | '') @ get_or status_cn (step_status s) (step_status s) @ (asc '' | '')
     @ or_dash (step_timestamp s) @ (asc '' | '') @ or_dash (step_note s) @ (asc '' |'')"

definition visualization_of :: "order_report \<Rightarrow> ustr" where
  "visualization_of rep = join [10]
     ([[42, 42, 0x8BA2, 0x5355, 32] \<comment> \<open>order\<close> @ rep_order_no rep @ [32, 0xB7, 32] \<comment> \<open>dot\<close> @ product_name rep @ (asc ''**''),
       [0x5F53, 0x524D, 0x72B6, 0x6001, 0xFF1A] \<comment> \<open>current status\<close> @ current_status rep @ [0x3000, 0x8FDB, 0x5EA6, 0xFF1A] \<comment> \<open>progress\<close> @
         ascii_bar (progress_percent rep) @ (asc '' '') @ show_int (progress_percent rep) @ (asc ''%''),
       [], [96, 96, 96] @ (asc ''mermaid''), mermaid (steps rep), [96, 96, 96], [],
       ([124, 32, 0x8282, 0x70B9] @ asc '' | '' @ [0x72B6, 0x6001] @ asc '' | '' @ [0x65F6, 0x95F4] @ asc '' | '' @ [0x8BF4, 0x660E, 32, 124]) \<comment> \<open>node, status, time, note\<close>, (asc ''|---|---|---|---|'')] @
      map step_row (steps rep))"

definition open_course_hints :: "ustr list" where
  "open_course_hints = [[0x5F00, 0x8BFE] \<comment> \<open>course opens\<close>, [0x4E0A, 0x8BFE] \<comment> \<open>have class\<close>, [0x5F00, 0x901A] \<comment> \<open>open\<close>]"

fun open_course_summary_steps :: "order_report \<Rightarrow> progress_step list \<Rightarrow> ustr option" where
  "open_course_summary_steps rep [] = None"
| "open_course_summary_steps rep (s # ss) =
     (if occurs [0x5F00, 0x901A] \<comment> \<open>open\<close> (step_name s) \<and> step_status s = (asc ''completed'') \<and> truthy (step_timestamp s)
      then Some ([0x8BA2, 0x5355, 32] \<comment> \<open>order\<close> @ rep_order_no rep @ [32, 0x5173, 0x8054, 0x8BFE, 0x7A0B, 0x300C] \<comment> \<open>course\<close> @ product_name rep @ [0x300D, 0x5DF2, 0x4E8E, 32] \<comment> \<open>was at\<close> @
        str_or_empty (step_timestamp s) @ [32, 0x5F00, 0x901A, 0x3002] \<comment> \<open>opened\<close> @
        (if truthy (step_note s) then [0xFF08] \<comment> \<open>(\<close> @ str_or_empty (step_note s) @ [0xFF09] \<comment> \<open>)\<close> else []))
      else open_course_summary_steps rep ss)"

definition open_course_summary :: "order_report \<Rightarrow> ustr option" where
  "open_course_summary rep = open_course_summary_steps rep (steps rep)"

definition apply_query_summary :: "order_report \<Rightarrow> ustr option \<Rightarrow> order_report" where
  "apply_query_summary rep query =
     (if \<not> truthy query then rep
      else if any_in open_course_hints (str_or_empty query) \<and> truthy (open_course_summary rep)
      then rep\<lparr>summary := str_or_empty (open_course_summary rep)\<rparr>
      else rep)"

section \<open>Operations\<close>

definition order_tool_outcome :: "order_deny_reason option \<Rightarrow> ustr" where
  "order_tool_outcome reason =
     (if reason \<in> {Some ORDER_NOT_FOUND, Some CROSS_TENANT} then (asc ''not_found'') else (asc ''deny''))"

definition resolve_query_order_no ::
  "ustr \<Rightarrow> ustr option \<Rightarrow> ustr option \<Rightarrow> ustr option \<Rightarrow> service_error + ustr" where
  "resolve_query_order_no query order_no user_id last_order_no =
     (let extracted = extract_order_no query;
          number = strip (str_or_empty (or_opt extracted order_no))
      in if number = []
         then Inl (Refused ([0x672A, 0x8BC6, 0x522B, 0x5230, 0x8BA2, 0x5355, 0x53F7, 0xFF0C, 0x8BF7, 0x63D0, 0x4F9B, 0x7C7B, 0x4F3C] @ asc '' #20251114001 '' @ [0x7684, 0x8BA2, 0x5355, 0x7F16, 0x53F7, 0x3002]) \<comment> \<open>no order number recognised\<close>)
         else let uid = normalize_user_id user_id in
           if is_persistent_user (Some uid) then Inr number
           else let bound = strip (str_or_empty last_order_no);
                    mentioned = (extracted = Some number \<or> occurs number query)
             in if mentioned \<or> (bound \<noteq> [] \<and> number = bound) then Inr number
                else Inl (Refused [0x8BF7, 0x5148, 0x63D0, 0x4F9B, 0x8BA2, 0x5355, 0x7F16, 0x53F7, 0x4EE5, 0x7ED1, 0x5B9A, 0x540E, 0x518D, 0x67E5, 0x8BE2, 0x3002] \<comment> \<open>give an order number first\<close>))"

definition strftime :: "datetime \<Rightarrow> ustr" where
  "strftime d = show_nat (dt_year d) @ (asc ''-'') @ pad2 (dt_month d) @ (asc ''-'') @ pad2 (dt_day d) @ (asc '' '') @
     pad2 (dt_hour d) @ (asc '':'') @ pad2 (dt_minute d)"

definition step_of_event :: "event_row \<Rightarrow> progress_step" where
  "step_of_event e = \<lparr>step_name = ev_name e, step_status = ev_status e,
     step_timestamp = map_option strftime (occurred_at e), step_note = ev_note e\<rparr>"

definition report_of_order :: "order_row \<Rightarrow> progress_step list \<Rightarrow> order_report" where
  "report_of_order r ss =
     (let status = get_or status_labels (row_status r) (row_status r);
          rep = \<lparr>rep_order_no = row_order_no r, product_name = course_name (row_course r),
            rep_course_code = course_code (row_course r), order_type = row_type r,
            current_status = status, progress_percent = progress_percent_of ss,
            amount = row_amount r, steps = ss, visualization = [], summary = [], oss_url = None\<rparr>;
          rep = rep\<lparr>visualization := visualization_of rep\<rparr>
      in if row_status r = (asc ''refund_reviewing'')
         then rep\<lparr>summary := [0x8BA2, 0x5355, 32] \<comment> \<open>order\<close> @ row_order_no r @
           [32, 0x5DF2, 0x5B8C, 0x6210, 0x652F, 0x4ED8, 0x4E0E, 0x8BFE, 0x7A0B, 0x5F00, 0x901A, 0xFF0C, 0x9000, 0x6B3E, 0x7533, 0x8BF7, 0x5DF2, 0x53D7, 0x7406, 0xFF0C, 0x76EE, 0x524D, 0x5904, 0x4E8E, 0x8D22, 0x52A1, 0x5BA1, 0x6838, 0x9636, 0x6BB5, 0xFF0C, 0x901A, 0x8FC7, 0x540E, 0x5C06, 0x539F, 0x8DEF, 0x9000, 0x56DE, 0x3002] \<comment> \<open>paid and opened, refund in review\<close>\<rparr>
         else rep\<lparr>summary := [0x8BA2, 0x5355, 32] \<comment> \<open>order\<close> @ row_order_no r @ [32, 0x5F53, 0x524D, 0x72B6, 0x6001, 0x4E3A] \<comment> \<open>current status is\<close> @ status @ [0x3002] \<comment> \<open>.\<close>\<rparr>)"

definition fetch_order_report ::
  "order_db \<Rightarrow> identity_ctx \<Rightarrow> ustr \<Rightarrow> ustr \<Rightarrow> ustr option \<Rightarrow> ustr option \<Rightarrow>
     (service_error + order_report) \<times> service_event list" where
  "fetch_order_report db ctx order_no tenant_id query user_id =
     (let uid = normalize_user_id (case user_id of None \<Rightarrow> Some (get_current_user ctx) | Some u \<Rightarrow> Some u);
          (d, audit) = authorize db ctx order_no DIRECT_QUERY (Some tenant_id) (Some uid) None;
          denied = map Denied audit
      in if \<not> allowed d
         then (Inl (Refused (user_visible_deny order_no)),
           denied @ [ToolCall (asc ''order_query'') (order_tool_outcome (reason_code d)) tenant_id])
         else (case order d of
             None \<Rightarrow> (Inl MissingOrder, denied)
           | Some r \<Rightarrow>
               (let ss = map step_of_event (sort_key ev_seq (row_events r))
                in if \<exists>s \<in> set ss. step_status s \<notin> set step_statuses then (Inl ValidationError, denied)
                   else (Inr (apply_query_summary (report_of_order r ss) query),
                     denied @ [ToolCall (asc ''order_query'') (asc ''ok'') tenant_id]))))"

definition persist_order_report ::
  "(ustr \<Rightarrow> ustr \<Rightarrow> ustr \<Rightarrow> ustr) \<Rightarrow> ustr \<Rightarrow> order_report \<Rightarrow> ustr \<Rightarrow> order_report" where
  "persist_order_report put_text stamp rep tenant_id =
     (let filename = (asc ''reports/'') @ rep_order_no rep @ (asc ''-'') @ stamp @ (asc ''.md'')
      in rep\<lparr>oss_url := Some (put_text filename (visualization rep) tenant_id)\<rparr>)"

section \<open>Reading reports\<close>

lemma occurs_extract: "extract_order_no s = Some d \<Longrightarrow> occurs d s"
  unfolding extract_order_no_run
proof (induction s rule: first_long_run.induct)
  case 1
  then show ?case by simp
next
  case (2 c cs)
  show ?case
  proof (cases "is_digit c")
    case False
    with 2 show ?thesis by (simp add: first_long_run.simps)
  next
    case True
    let ?t = "takeWhile is_digit (c # cs)"
    show ?thesis
    proof (cases "8 \<le> length ?t")
      case True
      then have "d = ?t" using first_long_run_hit [OF True] 2(3) by (simp only: option.inject)
      moreover have "c # cs = [] @ ?t @ dropWhile is_digit (c # cs)"
        by (simp only: takeWhile_dropWhile_id append_Nil)
      ultimately show ?thesis unfolding occurs_iff by blast
    next
      case False
      with 2(3) \<open>is_digit c\<close> have r: "first_long_run (drop (length ?t) (c # cs)) = Some d"
        by (simp add: first_long_run.simps Let_def del: length_Cons drop_Suc_Cons takeWhile.simps) 
      have "occurs d (drop (length ?t) (c # cs))"
        by (rule 2(1) [OF True refl False r])
      then obtain a b where "drop (length ?t) (c # cs) = a @ d @ b" by (auto simp: occurs_iff)
      then have "c # cs = (take (length ?t) (c # cs) @ a) @ d @ b" by (metis append.assoc append_take_drop_id)
      then show ?thesis unfolding occurs_iff by blast
    qed
  qed
qed

text \<open>
  The number a turn is about. An anonymous user only ever gets a number that the text of
  this turn contains or the one already bound to the session; a long digit run in the text
  wins over the number the caller passes, for every user.
\<close>

lemma anonymous_number_is_bound:
  assumes "resolve_query_order_no query no user bound = Inr n"
  shows "(\<not> is_persistent_user user \<longrightarrow> occurs n query \<or> n = strip (str_or_empty bound)) \<and>
    (extract_order_no query = Some d \<longrightarrow> n = strip d) \<and>
    (extract_order_no query = None \<longrightarrow> n = strip (str_or_empty no)) \<and> n \<noteq> []"
proof -
  let ?x = "extract_order_no query"
  have x: "or_opt ?x no = (if ?x = None then no else ?x)"
    using extract_digits(1) [of query] by (cases ?x) auto
  from assms have n: "n = strip (str_or_empty (or_opt ?x no))" "n \<noteq> []"
    and c: "is_persistent_user user \<or> ?x = Some n \<or> occurs n query \<or> n = strip (str_or_empty bound)"
    by (auto simp: resolve_query_order_no_def Let_def persistent_normalized split: if_splits)
  from c occurs_extract have "\<not> is_persistent_user user \<longrightarrow> occurs n query \<or> n = strip (str_or_empty bound)"
    by blast
  with n x show ?thesis by auto
qed

definition of_status :: "ustr \<Rightarrow> progress_step list \<Rightarrow> nat" where
  "of_status st ss = length (filter (\<lambda>s. step_status s = st) ss)"

lemma statuses_distinct: "(asc ''completed'') \<noteq> (asc ''in_progress'')" "(asc ''in_progress'') \<noteq> (asc ''completed'')"
  by (simp_all add: asc_def)

lemma score_fold:
  "foldl (\<lambda>acc s. if step_status s = (asc ''completed'') then acc + unit
      else if step_status s = (asc ''in_progress'') then acc + unit / 2 else acc) a ss =
    a + unit * (of_nat (of_status (asc ''completed'') ss) + of_nat (of_status (asc ''in_progress'') ss) / 2)"
  for unit a :: rat
  by (induction ss arbitrary: a) (auto simp: of_status_def statuses_distinct algebra_simps)

lemma of_status_le: "of_status (asc ''completed'') ss + of_status (asc ''in_progress'') ss \<le> length ss"
  by (induction ss) (auto simp: of_status_def statuses_distinct)

lemma progress_percent_eq:
  "ss \<noteq> [] \<Longrightarrow> progress_percent_of ss = round_even (100 / of_nat (length ss) *
     (of_nat (of_status (asc ''completed'') ss) + of_nat (of_status (asc ''in_progress'') ss) / 2))"
  unfolding progress_percent_of_def Let_def score_fold by (simp only: if_False add_0_left)

lemma progress_percent_bounds: "0 \<le> progress_percent_of ss \<and> progress_percent_of ss \<le> 100"
proof (cases "ss = []")
  case True
  then show ?thesis by (simp add: progress_percent_of_def)
next
  case False
  let ?c = "of_nat (of_status (asc ''completed'') ss) :: rat" and ?p = "of_nat (of_status (asc ''in_progress'') ss) :: rat"
  let ?n = "of_nat (length ss) :: rat"
  have "?c + ?p \<le> ?n" using of_status_le [of ss] unfolding of_nat_add [symmetric] of_nat_le_iff .
  then have le: "?c + ?p / 2 \<le> ?n" using of_nat_0_le_iff [of "of_status (asc ''in_progress'') ss", where 'a = rat]
    by linarith
  have n: "0 < ?n" using False by simp
  have "100 / ?n * (?c + ?p / 2) \<le> 100 / ?n * ?n"
    by (rule mult_left_mono [OF le]) simp
  with n have "100 / ?n * (?c + ?p / 2) \<le> of_int 100" by simp
  moreover have "of_int 0 \<le> 100 / ?n * (?c + ?p / 2)" by simp
  ultimately show ?thesis unfolding progress_percent_eq [OF False]
    by (intro round_even_bounds)
qed

lemma ascii_bar_length: "0 \<le> p \<Longrightarrow> p \<le> 100 \<Longrightarrow> length (ascii_bar p) = 10"
proof -
  assume "0 \<le> p" "p \<le> 100"
  then have "0 \<le> round_even (of_int p / 10) \<and> round_even (of_int p / 10) \<le> 10"
    by (intro round_even_bounds) simp_all
  then show ?thesis by (simp add: ascii_bar_def Let_def) linarith
qed

text \<open>
  The progress figure of a report: a step that is done counts as one unit and one in
  progress as half of \<open>100 / n\<close>; the percentage lies between 0 and 100 and is 100 when every
  step is done, and the bar always has ten cells.
\<close>

lemma progress_of_steps:
  "0 \<le> progress_percent_of ss \<and> progress_percent_of ss \<le> 100 \<and>
   length (ascii_bar (progress_percent_of ss)) = 10 \<and>
   (ss \<noteq> [] \<and> of_status (asc ''completed'') ss = length ss \<longrightarrow> progress_percent_of ss = 100) \<and>
   (ss \<noteq> [] \<longrightarrow> progress_percent_of ss = round_even (100 / of_nat (length ss) *
      (of_nat (of_status (asc ''completed'') ss) + of_nat (of_status (asc ''in_progress'') ss) / 2)))"
proof -
  have "progress_percent_of ss = 100" if "ss \<noteq> []" "of_status (asc ''completed'') ss = length ss"
  proof -
    from that of_status_le [of ss] have "of_status (asc ''in_progress'') ss = 0" by simp
    with that show ?thesis using round_even_int [of 100] by (simp add: progress_percent_eq)
  qed
  then show ?thesis
    using progress_percent_bounds [of ss] ascii_bar_length [of "progress_percent_of ss"] progress_percent_eq [of ss]
    by simp
qed

lemma fetched_report_readable:
  assumes "unique_orders db" and "tenant \<noteq> []"
  shows "(fetch_order_report db ctx no tenant query (Some u) = (Inr rep, events) \<longrightarrow>
      events = [ToolCall (asc ''order_query'') (asc ''ok'') tenant] \<and>
      (\<exists>r \<in> set db. may_read tenant (normalize_user_id (Some u)) DIRECT_QUERY None no r \<and>
        rep_order_no rep = row_order_no r \<and> product_name rep = course_name (row_course r) \<and>
        list_all (\<lambda>s. step_status s \<in> set step_statuses) (steps rep))) \<and>
    (fst (fetch_order_report db ctx no tenant query (Some u)) = Inl (Refused m) \<longrightarrow>
      m = user_visible_deny no \<and>
      \<not> (\<exists>r \<in> set db. may_read tenant (normalize_user_id (Some u)) DIRECT_QUERY None no r))"
proof -
  let ?u = "normalize_user_id (Some u)"
  have ru: "request_user ctx (Some ?u) = ?u" by (simp add: request_user_def or_str_def)
  have rt: "request_tenant ctx (Some tenant) = tenant" using assms(2) by (simp add: request_tenant_def or_str_def)
  have may: "order (fst (authorize db ctx no DIRECT_QUERY (Some tenant) (Some ?u) None)) = Some r \<longleftrightarrow>
      r \<in> set db \<and> may_read tenant ?u DIRECT_QUERY None no r" for r
    using authorize_allowed [OF assms(1), of ctx no DIRECT_QUERY "Some tenant" "Some ?u" None r] unfolding ru rt .
  have fields: "rep_order_no (apply_query_summary (report_of_order r ss) q) = row_order_no r"
    "product_name (apply_query_summary (report_of_order r ss) q) = course_name (row_course r)"
    "steps (apply_query_summary (report_of_order r ss) q) = ss" for r ss q
    by (simp_all add: apply_query_summary_def report_of_order_def Let_def)
  obtain d audit where a: "authorize db ctx no DIRECT_QUERY (Some tenant) (Some ?u) None = (d, audit)"
    by (cases "authorize db ctx no DIRECT_QUERY (Some tenant) (Some ?u) None")
  have shape: "allowed d \<longleftrightarrow> order d \<noteq> None" "allowed d \<Longrightarrow> audit = []"
    using authorize_shape [of db ctx no DIRECT_QUERY "Some tenant" "Some ?u" None] by (auto simp: a)
  show ?thesis
  proof (cases "order d")
    case None
    with shape(1) may show ?thesis by (auto simp: fetch_order_report_def a Let_def)
  next
    case (Some r)
    with shape may [of r] show ?thesis
      by (auto simp: fetch_order_report_def a Let_def fields list_all_iff split: if_splits)
  qed
qed

text \<open>
  A report is only ever built from an order of the given tenant that the requester may
  read; it shows that order's number and course, every step has one of the four statuses, and
  the call is counted as "ok". A refusal always carries the same text and means that no order
  the requester may read has that number.
\<close>

lemma report_only_of_readable_order:
  assumes "unique_orders db" and "tenant \<noteq> []"
  shows "(fetch_order_report db ctx no tenant query (Some u) = (Inr rep, events) \<longrightarrow>
      events = [ToolCall (asc ''order_query'') (asc ''ok'') tenant] \<and>
      (\<exists>r \<in> set db. may_read tenant (normalize_user_id (Some u)) DIRECT_QUERY None no r \<and>
        rep_order_no rep = row_order_no r \<and> product_name rep = course_name (row_course r) \<and>
        list_all (\<lambda>s. step_status s \<in> set step_statuses) (steps rep))) \<and>
    (fst (fetch_order_report db ctx no tenant query (Some u)) = Inl (Refused m) \<longrightarrow>
      m = user_visible_deny no \<and>
      \<not> (\<exists>r \<in> set db. may_read tenant (normalize_user_id (Some u)) DIRECT_QUERY None no r))"
  by (rule fetched_report_readable [OF assms])

end
