(* ===== verification/Tool_Cache.thy ===== *)
theory Tool_Cache
  imports Order_Service Redis_Client
begin

text \<open>
  Results of the tools, kept for when a service is slow: \<open>app/tool_cache.py\<close>. A successful
  result is kept in the session (the snapshot of the graph state, here the argument
  \<open>session\<close>, which the code passes through a ContextVar) and in a store, Redis or the
  process memory; both are instances of the locale \<open>result_store\<close>. Results are the records
  of \<open>app/schemas.py\<close>; a stored JSON text is the object it was made from, and reading an
  object of the other schema fails as its validation does. \<open>now\<close> is \<open>time.time()\<close>. Of the
  access authority only the answer is used; its audit records are those of \<open>Order_Access\<close>.
\<close>

section \<open>Results\<close>

record course_module =
  cm_name :: ustr
  cm_topics :: "ustr list"
  cm_duration_hours :: rat
  cm_outcome :: ustr

record learning_stage =
  ls_stage :: ustr
  ls_modules :: "ustr list"
  ls_goal :: ustr

record evidence_section =
  es_source :: ustr
  es_section_path :: ustr
  es_module_name :: ustr
  es_excerpt :: ustr

record course_result =
  cc_name :: ustr
  cc_summary :: ustr
  cc_modules :: "course_module list"
  cc_path :: "learning_stage list"
  cc_prerequisites :: "ustr list"
  cc_sources :: "ustr list"
  cc_evidence :: "evidence_section list"

datatype tool_payload = OrderPayload order_report | CoursePayload course_result

record tool_blob =
  tb_payload :: tool_payload
  tb_cached_at :: rat

datatype cache_source = FromSession | FromStore

record 'p cached_result =
  cr_payload :: 'p
  cr_cached_at :: rat
  cr_source :: cache_source

record 'p snapshot =
  sn_payload :: 'p
  sn_cached_at :: rat

record session_tool_cache =
  last_order_structured :: "order_report snapshot option"
  last_course_structured :: "course_result snapshot option"
  last_course_structured_key :: "ustr option"

record tool_settings =
  tool_cache_enabled :: bool
  order_ttl_seconds :: int
  course_ttl_seconds :: int
  escalation_enabled :: bool
  transient_threshold :: int

definition tool_order :: ustr where
  "tool_order = (asc ''order_query'')"

definition tool_course :: ustr where
  "tool_course = (asc ''course_retrieve'')"

definition not_found_course :: ustr where
  "not_found_course = [0x672A, 0x627E, 0x5230, 0x8BFE, 0x7A0B] \<comment> \<open>course not found\<close>"

section \<open>What is cached, and under which key\<close>

text \<open>\<open>re.sub(r"\s+", " ", s)\<close>.\<close>

function collapse_space :: "ustr \<Rightarrow> ustr" where
  "collapse_space [] = []"
| "collapse_space (c # cs) =
     (if is_space c then 32 # collapse_space (dropWhile is_space cs) else c # collapse_space cs)"
  by pat_completeness auto
termination
  by (relation "measure length") (auto simp: le_imp_less_Suc length_dropWhile_le)

definition strip_opt :: "ustr option \<Rightarrow> ustr option" where
  "strip_opt v = nonempty_opt (strip (str_or_empty v))"

text \<open>\<open>lower\<close> leaves capitals outside ASCII alone, which can only split one key into two.\<close>

definition normalize_course_cache_key :: "ustr option \<Rightarrow> ustr option \<Rightarrow> ustr" where
  "normalize_course_cache_key query ccode =
     (case strip_opt ccode of
        Some code \<Rightarrow> (asc ''code:'') @ code
      | None \<Rightarrow>
          (let t = collapse_space (lower (strip (str_or_empty query)))
           in if t \<noteq> [] then (asc ''q:'') @ take 120 t else (asc ''q:unknown'')))"

definition is_cacheable_order_report :: "order_report \<Rightarrow> bool" where
  "is_cacheable_order_report rep \<longleftrightarrow> current_status rep \<notin> {(asc ''busy''), (asc ''error''), (asc ''not_found'')}"

definition is_cacheable_course_result :: "course_result \<Rightarrow> bool" where
  "is_cacheable_course_result res \<longleftrightarrow> strip (cc_name res) \<notin> {[], not_found_course}"

definition stale_prefix :: "rat \<Rightarrow> ustr" where
  "stale_prefix age = [0x4EE5, 0x4E0B, 0x4E3A, 0x7EA6, 32] \<comment> \<open>below, about\<close> @ show_int (max 1 (floor (age / 60))) @
     [32, 0x5206, 0x949F, 0x524D, 0x7684, 0x67E5, 0x8BE2, 0x7ED3, 0x679C, 0xFF0C, 0x5F53, 0x524D, 0x670D, 0x52A1, 0x7E41, 0x5FD9, 47, 0x8D85, 0x65F6, 0xFF0C, 0x4FE1, 0x606F, 0x53EF, 0x80FD, 0x5DF2, 0x6709, 0x53D8, 0x5316, 0x3002, 10, 10] \<comment> \<open>minutes old, may have changed\<close>"

definition annotate_stale_order :: "order_report \<Rightarrow> rat \<Rightarrow> order_report" where
  "annotate_stale_order rep age = rep\<lparr>summary := strip (stale_prefix age @ summary rep)\<rparr>"

definition annotate_stale_course :: "course_result \<Rightarrow> rat \<Rightarrow> course_result" where
  "annotate_stale_course res age = res\<lparr>cc_summary := strip (stale_prefix age @ cc_summary res)\<rparr>"

text \<open>Updates of the session state: no entry when the result must not be kept.\<close>

definition session_updates_for_order :: "order_report \<Rightarrow> rat \<Rightarrow> order_report snapshot option" where
  "session_updates_for_order rep now =
     (if \<not> is_cacheable_order_report rep then None else Some \<lparr>sn_payload = rep, sn_cached_at = now\<rparr>)"

definition session_updates_for_course :: "course_result \<Rightarrow> ustr \<Rightarrow> rat \<Rightarrow> (course_result snapshot \<times> ustr) option" where
  "session_updates_for_course res resource_key now =
     (if \<not> is_cacheable_course_result res then None
      else Some (\<lparr>sn_payload = res, sn_cached_at = now\<rparr>, resource_key))"

definition cache_prefix :: ustr where
  "cache_prefix = (asc ''cs:tool:result:'')"

definition redis_key :: "ustr \<Rightarrow> ustr \<Rightarrow> ustr \<Rightarrow> ustr \<Rightarrow> ustr" where
  "redis_key tenant_id user_id tool resource_key =
     cache_prefix @ tenant_id @ (asc '':'') @ user_id @ (asc '':'') @ tool @ (asc '':'') @ replace_char 58 95 resource_key"

section \<open>Reading and writing\<close>

record 's result_ops =
  c_get :: "'s \<Rightarrow> rat \<Rightarrow> ustr \<Rightarrow> tool_blob option \<times> 's"
  c_set :: "'s \<Rightarrow> rat \<Rightarrow> ustr \<Rightarrow> tool_blob \<Rightarrow> int \<Rightarrow> 's"

definition or_time :: "rat \<Rightarrow> rat \<Rightarrow> rat" where
  "or_time x now = (if x = 0 then now else x)"

definition order_of_blob :: "tool_blob \<Rightarrow> rat \<Rightarrow> order_report cached_result option" where
  "order_of_blob b now = (case tb_payload b of
       OrderPayload rep \<Rightarrow> Some \<lparr>cr_payload = rep, cr_cached_at = or_time (tb_cached_at b) now, cr_source = FromStore\<rparr>
     | CoursePayload _ \<Rightarrow> None)"

definition course_of_blob :: "tool_blob \<Rightarrow> rat \<Rightarrow> course_result cached_result option" where
  "course_of_blob b now = (case tb_payload b of
       CoursePayload res \<Rightarrow> Some \<lparr>cr_payload = res, cr_cached_at = or_time (tb_cached_at b) now, cr_source = FromStore\<rparr>
     | OrderPayload _ \<Rightarrow> None)"

definition of_snapshot :: "'p snapshot \<Rightarrow> rat \<Rightarrow> 'p cached_result" where
  "of_snapshot sn now = \<lparr>cr_payload = sn_payload sn, cr_cached_at = or_time (sn_cached_at sn) now, cr_source = FromSession\<rparr>"

definition get_cached_order ::
  "'s result_ops \<Rightarrow> tool_settings \<Rightarrow> order_db \<Rightarrow> identity_ctx \<Rightarrow> session_tool_cache \<Rightarrow> 's \<Rightarrow> rat \<Rightarrow>
     ustr \<Rightarrow> ustr \<Rightarrow> ustr \<Rightarrow> order_report cached_result option \<times> 's" where
  "get_cached_order ops cfg db ctx session s now order_no tenant_id user_id =
     (let number = strip order_no in
      if \<not> tool_cache_enabled cfg \<or> number = [] then (None, s)
      else if \<not> fst (can_access_order db ctx number tenant_id (Some user_id) DIRECT_QUERY) then (None, s)
      else let hit = (case last_order_structured session of None \<Rightarrow> None
                 | Some sn \<Rightarrow> if strip (rep_order_no (sn_payload sn)) = number then Some (of_snapshot sn now) else None)
        in (case hit of
              Some r \<Rightarrow> (Some r, s)
            | None \<Rightarrow>
                (let (raw, s) = c_get ops s now (redis_key tenant_id user_id tool_order number)
                 in (Option.bind raw (\<lambda>b. order_of_blob b now), s))))"

definition put_cached_order ::
  "'s result_ops \<Rightarrow> tool_settings \<Rightarrow> 's \<Rightarrow> rat \<Rightarrow> order_report \<Rightarrow> ustr \<Rightarrow> ustr \<Rightarrow> 's" where
  "put_cached_order ops cfg s now rep tenant_id user_id =
     (let number = strip (rep_order_no rep); ttl = order_ttl_seconds cfg in
      if \<not> tool_cache_enabled cfg \<or> \<not> is_cacheable_order_report rep \<or> number = [] \<or> ttl \<le> 0 then s
      else c_set ops s now (redis_key tenant_id user_id tool_order number)
        \<lparr>tb_payload = OrderPayload rep, tb_cached_at = now\<rparr> ttl)"

definition get_cached_course ::
  "'s result_ops \<Rightarrow> tool_settings \<Rightarrow> session_tool_cache \<Rightarrow> 's \<Rightarrow> rat \<Rightarrow> ustr \<Rightarrow> ustr \<Rightarrow> ustr \<Rightarrow>
     course_result cached_result option \<times> 's" where
  "get_cached_course ops cfg session s now resource_key tenant_id user_id =
     (let key = strip resource_key in
      if \<not> tool_cache_enabled cfg \<or> key = [] then (None, s)
      else (case (last_course_structured session, last_course_structured_key session = Some key) of
              (Some sn, True) \<Rightarrow> (Some (of_snapshot sn now), s)
            | _ \<Rightarrow>
                (let (raw, s) = c_get ops s now (redis_key tenant_id user_id tool_course key)
                 in (Option.bind raw (\<lambda>b. course_of_blob b now), s))))"

definition put_cached_course ::
  "'s result_ops \<Rightarrow> tool_settings \<Rightarrow> 's \<Rightarrow> rat \<Rightarrow> course_result \<Rightarrow> ustr \<Rightarrow> ustr \<Rightarrow> ustr \<Rightarrow> 's" where
  "put_cached_course ops cfg s now res resource_key tenant_id user_id =
     (let key = strip resource_key; ttl = course_ttl_seconds cfg in
      if \<not> tool_cache_enabled cfg \<or> \<not> is_cacheable_course_result res \<or> key = [] \<or> ttl \<le> 0 then s
      else c_set ops s now (redis_key tenant_id user_id tool_course key)
        \<lparr>tb_payload = CoursePayload res, tb_cached_at = now\<rparr> ttl)"

section \<open>The two stores\<close>

text \<open>An expiry of zero means none.\<close>

type_synonym memory_tool_store = "(ustr, tool_blob \<times> rat) dict"

definition memory_tool_get :: "memory_tool_store \<Rightarrow> rat \<Rightarrow> ustr \<Rightarrow> tool_blob option \<times> memory_tool_store" where
  "memory_tool_get data now key =
     (case map_of data key of
        None \<Rightarrow> (None, data)
      | Some (value, expires) \<Rightarrow>
          if expires \<noteq> 0 \<and> now > expires then (None, AList.delete key data) else (Some value, data))"

definition memory_tool_set :: "memory_tool_store \<Rightarrow> rat \<Rightarrow> ustr \<Rightarrow> tool_blob \<Rightarrow> int \<Rightarrow> memory_tool_store" where
  "memory_tool_set data now key value ttl =
     AList.update key (value, if ttl > 0 then now + of_int ttl else 0) data"

definition memory_tool_ops :: "memory_tool_store result_ops" where
  "memory_tool_ops = \<lparr>c_get = memory_tool_get, c_set = memory_tool_set\<rparr>"

definition redis_tool_get :: "('r, tool_blob) kv_store \<Rightarrow> 'r \<Rightarrow> rat \<Rightarrow> ustr \<Rightarrow> tool_blob option \<times> 'r" where
  "redis_tool_get client r now key = (kv_get client r now key, r)"

definition redis_tool_set :: "('r, tool_blob) kv_store \<Rightarrow> 'r \<Rightarrow> rat \<Rightarrow> ustr \<Rightarrow> tool_blob \<Rightarrow> int \<Rightarrow> 'r" where
  "redis_tool_set client r now key value ttl =
     kv_set client r now key value (if ttl > 0 then Some (of_int ttl) else None)"

definition redis_tool_ops :: "('r, tool_blob) kv_store \<Rightarrow> 'r result_ops" where
  "redis_tool_ops client = \<lparr>c_get = redis_tool_get client, c_set = redis_tool_set client\<rparr>"

section \<open>The contract of a store\<close>

locale result_store =
  fixes ops :: "'s result_ops"
    and good :: "'s \<Rightarrow> bool"
  assumes good_get: "good s \<Longrightarrow> good (snd (c_get ops s now k))"
    and good_set: "good s \<Longrightarrow> good (c_set ops s now k v ttl)"
    and get_get: "good s \<Longrightarrow> now \<le> t \<Longrightarrow> fst (c_get ops (snd (c_get ops s now k)) t k') = fst (c_get ops s t k')"
    and get_set_other: "good s \<Longrightarrow> now \<le> t \<Longrightarrow> k' \<noteq> k \<Longrightarrow> fst (c_get ops (c_set ops s now k v ttl) t k') = fst (c_get ops s t k')"
    and get_set_hit: "good s \<Longrightarrow> 0 < now \<Longrightarrow> now \<le> t \<Longrightarrow> t < now + of_int ttl \<Longrightarrow> fst (c_get ops (c_set ops s now k v ttl) t k) = Some v"
    and get_set_late: "good s \<Longrightarrow> 0 < now \<Longrightarrow> 0 < ttl \<Longrightarrow> now + of_int ttl < t \<Longrightarrow> fst (c_get ops (c_set ops s now k v ttl) t k) = None"
    and get_set_only: "good s \<Longrightarrow> now \<le> t \<Longrightarrow> fst (c_get ops (c_set ops s now k v ttl) t k) \<in> {None, Some v}"

interpretation memory_tool: result_store memory_tool_ops "\<lambda>_. True"
  by unfold_locales (auto simp: memory_tool_ops_def memory_tool_get_def memory_tool_set_def split: option.splits prod.splits)

interpretation redis_tool: result_store "redis_tool_ops client" "\<lambda>_. kv_laws client"
  for client :: "('r, tool_blob) kv_store"
  by unfold_locales (auto simp: redis_tool_ops_def redis_tool_get_def redis_tool_set_def kv_rules until_def)

section \<open>Keys\<close>

lemma tool_names: "58 \<notin> set tool_order" "58 \<notin> set tool_course" "tool_order \<noteq> tool_course"
  by (simp_all add: tool_order_def tool_course_def) (simp_all add: asc_def)

lemma replace_colon: "58 \<notin> set (replace_char 58 95 s)"
  by (auto simp: replace_char_def)

lemma redis_key_inj:
  assumes e: "redis_key t u tool k = redis_key t' u' tool' k'"
    and n: "58 \<notin> set t" "58 \<notin> set t'" "58 \<notin> set tool" "58 \<notin> set tool'"
  shows "t = t' \<and> u = u' \<and> tool = tool' \<and> replace_char 58 95 k = replace_char 58 95 k'"
proof -
  have e: "t @ 58 # u @ 58 # tool @ 58 # replace_char 58 95 k = t' @ 58 # u' @ 58 # tool' @ 58 # replace_char 58 95 k'"
    using e by (simp add: redis_key_def) (simp add: asc_def)
  then have t: "t = t'" and r: "u @ 58 # tool @ 58 # replace_char 58 95 k = u' @ 58 # tool' @ 58 # replace_char 58 95 k'"
    using n by (simp_all add: split_at_sep)
  from r have "(u @ 58 # tool) @ 58 # replace_char 58 95 k = (u' @ 58 # tool') @ 58 # replace_char 58 95 k'" by simp
  from split_at_last_sep [OF replace_colon replace_colon this]
  have k: "replace_char 58 95 k = replace_char 58 95 k'" and s: "u @ 58 # tool = u' @ 58 # tool'" by auto
  from split_at_last_sep [OF n(3,4) s] t k show ?thesis by auto
qed

lemma replace_char_digits: "list_all is_digit s \<Longrightarrow> replace_char 58 95 k = replace_char 58 95 s \<Longrightarrow> k = s"
proof -
  have d: "\<not> is_digit 58" "\<not> is_digit 95" by (simp_all add: is_digit_def digit_starts_def)
  show "list_all is_digit s \<Longrightarrow> replace_char 58 95 k = replace_char 58 95 s \<Longrightarrow> k = s"
    by (induction s arbitrary: k) (use d in \<open>auto simp: replace_char_def split: if_splits\<close>)
qed

section \<open>Histories\<close>

datatype cache_event =
    PutOrder rat order_report ustr ustr
  | PutCourse rat course_result ustr ustr ustr
  | GetOrder rat ustr ustr ustr session_tool_cache
  | GetCourse rat ustr ustr ustr session_tool_cache

fun event_time :: "cache_event \<Rightarrow> rat" where
  "event_time (PutOrder t _ _ _) = t"
| "event_time (PutCourse t _ _ _ _) = t"
| "event_time (GetOrder t _ _ _ _) = t"
| "event_time (GetCourse t _ _ _ _) = t"

fun event_tenant :: "cache_event \<Rightarrow> ustr" where
  "event_tenant (PutOrder _ _ tn _) = tn"
| "event_tenant (PutCourse _ _ _ tn _) = tn"
| "event_tenant (GetOrder _ _ tn _ _) = tn"
| "event_tenant (GetCourse _ _ tn _ _) = tn"

fun cache_step :: "'s result_ops \<Rightarrow> tool_settings \<Rightarrow> order_db \<Rightarrow> identity_ctx \<Rightarrow> cache_event \<Rightarrow> 's \<Rightarrow> 's" where
  "cache_step ops cfg db ctx (PutOrder now rep tn u) s = put_cached_order ops cfg s now rep tn u"
| "cache_step ops cfg db ctx (PutCourse now res k tn u) s = put_cached_course ops cfg s now res k tn u"
| "cache_step ops cfg db ctx (GetOrder now no tn u session) s = snd (get_cached_order ops cfg db ctx session s now no tn u)"
| "cache_step ops cfg db ctx (GetCourse now k tn u session) s = snd (get_cached_course ops cfg session s now k tn u)"

definition cache_run :: "'s result_ops \<Rightarrow> tool_settings \<Rightarrow> order_db \<Rightarrow> identity_ctx \<Rightarrow> cache_event list \<Rightarrow> 's \<Rightarrow> 's" where
  "cache_run ops cfg db ctx evs s = fold (cache_step ops cfg db ctx) evs s"

text \<open>The value an event writes, the key it writes it at, and its time to live.\<close>

fun event_write :: "tool_settings \<Rightarrow> cache_event \<Rightarrow> (ustr \<times> tool_blob \<times> int) option" where
  "event_write cfg (PutOrder now rep tn u) =
     (if is_cacheable_order_report rep
      then Some (redis_key tn u tool_order (strip (rep_order_no rep)), \<lparr>tb_payload = OrderPayload rep, tb_cached_at = now\<rparr>, order_ttl_seconds cfg)
      else None)"
| "event_write cfg (PutCourse now res k tn u) =
     (if is_cacheable_course_result res
      then Some (redis_key tn u tool_course (strip k), \<lparr>tb_payload = CoursePayload res, tb_cached_at = now\<rparr>, course_ttl_seconds cfg)
      else None)"
| "event_write cfg (GetOrder _ _ _ _ _) = None"
| "event_write cfg (GetCourse _ _ _ _ _) = None"

text \<open>Whatever can be read from \<open>at\<close> on was written by an event of the history and has not expired.\<close>

definition explained :: "'s result_ops \<Rightarrow> tool_settings \<Rightarrow> cache_event list \<Rightarrow> rat \<Rightarrow> 's \<Rightarrow> bool" where
  "explained ops cfg evs tm s \<longleftrightarrow>
     (\<forall>t k v. tm \<le> t \<longrightarrow> fst (c_get ops s t k) = Some v \<longrightarrow>
        (\<exists>e ttl. e \<in> set evs \<and> event_write cfg e = Some (k, v, ttl) \<and> event_time e \<le> t \<and> t \<le> event_time e + of_int ttl))"

lemma explainedI:
  assumes "\<And>t k v. tm \<le> t \<Longrightarrow> fst (c_get ops s t k) = Some v \<Longrightarrow>
    \<exists>e ttl. e \<in> set evs \<and> event_write cfg e = Some (k, v, ttl) \<and> event_time e \<le> t \<and> t \<le> event_time e + of_int ttl"
  shows "explained ops cfg evs tm s"
  unfolding explained_def using assms by blast

lemma explainedD:
  "explained ops cfg evs tm s \<Longrightarrow> tm \<le> t \<Longrightarrow> fst (c_get ops s t k) = Some v \<Longrightarrow>
    \<exists>e ttl. e \<in> set evs \<and> event_write cfg e = Some (k, v, ttl) \<and> event_time e \<le> t \<and> t \<le> event_time e + of_int ttl"
  unfolding explained_def by blast

lemma explained_more:
  assumes x: "explained ops cfg evs tm s" and le: "tm \<le> tm'" "set evs \<subseteq> set evs'"
    and same: "\<And>t k. tm' \<le> t \<Longrightarrow> fst (c_get ops s' t k) = fst (c_get ops s t k)"
  shows "explained ops cfg evs' tm' s'"
proof (rule explainedI)
  fix t k v
  assume "tm' \<le> t" "fst (c_get ops s' t k) = Some v"
  then have "tm \<le> t" "fst (c_get ops s t k) = Some v" using le(1) same by auto
  from explainedD [OF x this] le(2) show "\<exists>e ttl. e \<in> set evs' \<and> event_write cfg e = Some (k, v, ttl) \<and>
      event_time e \<le> t \<and> t \<le> event_time e + of_int ttl" by blast
qed

lemma put_order_cases:
  "put_cached_order ops cfg s now rep tn u = s \<or>
   (\<exists>k v ttl. event_write cfg (PutOrder now rep tn u) = Some (k, v, ttl) \<and> 0 < ttl \<and>
      put_cached_order ops cfg s now rep tn u = c_set ops s now k v ttl)"
  by (simp add: put_cached_order_def Let_def)

lemma put_course_cases:
  "put_cached_course ops cfg s now res key tn u = s \<or>
   (\<exists>k v ttl. event_write cfg (PutCourse now res key tn u) = Some (k, v, ttl) \<and> 0 < ttl \<and>
      put_cached_course ops cfg s now res key tn u = c_set ops s now k v ttl)"
  by (simp add: put_cached_course_def Let_def)

lemma get_order_cases:
  "snd (get_cached_order ops cfg db ctx session s now no tn u) = s \<or>
   (\<exists>k. snd (get_cached_order ops cfg db ctx session s now no tn u) = snd (c_get ops s now k))"
  by (auto simp: get_cached_order_def Let_def case_prod_beta split: option.splits)

lemma get_course_cases:
  "snd (get_cached_course ops cfg session s now key tn u) = s \<or>
   (\<exists>k. snd (get_cached_course ops cfg session s now key tn u) = snd (c_get ops s now k))"
  by (auto simp: get_cached_course_def Let_def case_prod_beta split: option.splits bool.splits)

lemma cache_step_cases:
  "cache_step ops cfg db ctx e s = s \<or> (\<exists>k. cache_step ops cfg db ctx e s = snd (c_get ops s (event_time e) k)) \<or>
   (\<exists>k v ttl. event_write cfg e = Some (k, v, ttl) \<and> 0 < ttl \<and> cache_step ops cfg db ctx e s = c_set ops s (event_time e) k v ttl)"
proof (cases e)
  case (PutOrder now rep tn u)
  then show ?thesis using put_order_cases [of ops cfg s now rep tn u] by auto
next
  case (PutCourse now res key tn u)
  then show ?thesis using put_course_cases [of ops cfg s now res key tn u] by auto
next
  case (GetOrder now no tn u session)
  then show ?thesis using get_order_cases [of ops cfg db ctx session s now no tn u] by auto
next
  case (GetCourse now key tn u session)
  then show ?thesis using get_course_cases [of ops cfg session s now key tn u] by auto
qed

fun chronological :: "rat \<Rightarrow> cache_event list \<Rightarrow> bool" where
  "chronological tm [] = True"
| "chronological tm (e # es) = (0 < event_time e \<and> tm \<le> event_time e \<and> chronological (event_time e) es)"

fun last_time :: "rat \<Rightarrow> cache_event list \<Rightarrow> rat" where
  "last_time tm [] = tm"
| "last_time tm (e # es) = last_time (event_time e) es"

context result_store
begin

lemma good_step: "good s \<Longrightarrow> good (cache_step ops cfg db ctx e s)"
  using cache_step_cases [of ops cfg db ctx e s] good_get good_set by metis

lemma explained_step:
  assumes g: "good s" and x: "explained ops cfg evs tm s" and t: "tm \<le> event_time e" "0 < event_time e"
  shows "explained ops cfg (e # evs) (event_time e) (cache_step ops cfg db ctx e s)"
proof -
  consider (id) "cache_step ops cfg db ctx e s = s"
    | (get) k where "cache_step ops cfg db ctx e s = snd (c_get ops s (event_time e) k)"
    | (put) k v ttl where "event_write cfg e = Some (k, v, ttl)" "0 < ttl" "cache_step ops cfg db ctx e s = c_set ops s (event_time e) k v ttl"
    using cache_step_cases by metis
  then show ?thesis
  proof cases
    case id
    show ?thesis by (rule explained_more [OF x t(1)]) (auto simp: id)
  next
    case get
    show ?thesis by (rule explained_more [OF x t(1)]) (auto simp: get get_get [OF g])
  next
    case put
    show ?thesis
    proof (rule explainedI)
      fix t' k' v'
      assume le: "event_time e \<le> t'" and s: "fst (c_get ops (cache_step ops cfg db ctx e s) t' k') = Some v'"
      show "\<exists>e' ttl. e' \<in> set (e # evs) \<and> event_write cfg e' = Some (k', v', ttl) \<and> event_time e' \<le> t' \<and> t' \<le> event_time e' + of_int ttl"
      proof (cases "k' = k")
        case True
        then have "v' = v" using get_set_only [OF g le, of k v ttl] s by (simp add: put(3))
        moreover have "t' \<le> event_time e + of_int ttl"
          using get_set_late [OF g t(2) put(2), of t' k v] s True by (simp add: put(3)) (metis linorder_not_less option.distinct(1))
        ultimately show ?thesis using put(1) True le by auto
      next
        case False
        then have "fst (c_get ops s t' k') = Some v'" using s get_set_other [OF g le] by (simp add: put(3))
        from explainedD [OF x order_trans [OF t(1) le] this] show ?thesis by auto
      qed
    qed
  qed
qed

lemma explained_run:
  "good s \<Longrightarrow> explained ops cfg evs0 tm s \<Longrightarrow> chronological tm evs \<Longrightarrow>
     explained ops cfg (rev evs @ evs0) (last_time tm evs) (cache_run ops cfg db ctx evs s) \<and> good (cache_run ops cfg db ctx evs s)"
proof (induction evs arbitrary: s evs0 tm)
  case Nil
  then show ?case by (simp add: cache_run_def)
next
  case (Cons e es)
  then have "explained ops cfg (rev es @ e # evs0) (last_time (event_time e) es) (cache_run ops cfg db ctx es (cache_step ops cfg db ctx e s)) \<and>
      good (cache_run ops cfg db ctx es (cache_step ops cfg db ctx e s))"
    using explained_step [of s cfg evs0 tm e db ctx] good_step by simp
  then show ?case by (simp add: cache_run_def)
qed

text \<open>A report read from the store was put there for the same tenant, user and number.\<close>

lemma hit_is_owned:
  assumes g: "good s" and empty: "\<And>t k. fst (c_get ops s t k) = None"
    and c: "chronological tm evs" "last_time tm evs \<le> now" and tn: "\<forall>e \<in> set evs. tenant_re (event_tenant e)" "tenant_re tenant"
    and hit: "fst (get_cached_order ops cfg db ctx session (cache_run ops cfg db ctx evs s) now no tenant user) = Some r"
    and src: "cr_source r = FromStore"
  shows "\<exists>made. PutOrder made (cr_payload r) tenant user \<in> set evs \<and> strip (rep_order_no (cr_payload r)) = strip no \<and>
    cr_cached_at r = made \<and> made \<le> now \<and> now \<le> made + of_int (order_ttl_seconds cfg) \<and> is_cacheable_order_report (cr_payload r)"
proof -
  let ?s = "cache_run ops cfg db ctx evs s"
  have "explained ops cfg [] tm s" by (rule explainedI) (simp add: empty)
  from explained_run [OF g this c(1)] have x: "explained ops cfg (rev evs) (last_time tm evs) ?s" by auto
  from hit src obtain b where b: "fst (c_get ops ?s now (redis_key tenant user tool_order (strip no))) = Some b"
    "order_of_blob b now = Some r" and ok: "fst (can_access_order db ctx (strip no) tenant (Some user) DIRECT_QUERY)"
    by (auto simp: get_cached_order_def Let_def case_prod_beta of_snapshot_def bind_eq_Some_conv split: option.splits if_splits)
  from explainedD [OF x c(2) b(1)] obtain e ttl where e: "e \<in> set evs"
    "event_write cfg e = Some (redis_key tenant user tool_order (strip no), b, ttl)" "event_time e \<le> now" "now \<le> event_time e + of_int ttl"
    by auto
  have nc: "58 \<notin> set t" if "tenant_re t" for t using that by (auto simp: tenant_re_def list_all_iff dest: tenant_char_facts)
  have d: "list_all is_digit (strip no)" using ok
    by (auto simp: can_access_order_def authorize_def decide_access_def order_no_re_def Let_def case_prod_beta split: if_splits option.splits sum.splits)
  have pos: "0 < event_time e" using c(1) e(1) by (induction evs arbitrary: tm) auto
  show ?thesis
  proof (cases e)
    case (PutOrder made rep tn u)
    with e(2) have k: "redis_key tenant user tool_order (strip no) = redis_key tn u tool_order (strip (rep_order_no rep))"
      "b = \<lparr>tb_payload = OrderPayload rep, tb_cached_at = made\<rparr>" "ttl = order_ttl_seconds cfg" "is_cacheable_order_report rep"
      by (auto split: if_splits)
    have "tenant_re tn" using tn(1) e(1) PutOrder by fastforce
    from redis_key_inj [OF k(1) nc [OF tn(2)] nc [OF this] tool_names(1,1)]
    have "tenant = tn" "user = u" "replace_char 58 95 (strip (rep_order_no rep)) = replace_char 58 95 (strip no)" by auto
    with replace_char_digits [OF d] b(2) k(2-4) e PutOrder pos show ?thesis
      by (auto simp: order_of_blob_def or_time_def intro!: exI [of _ made])
  next
    case (PutCourse made res key tn u)
    with e(2) have k: "redis_key tenant user tool_order (strip no) = redis_key tn u tool_course (strip key)" by (auto split: if_splits)
    have "tenant_re tn" using tn(1) e(1) PutCourse by fastforce
    from redis_key_inj [OF k nc [OF tn(2)] nc [OF this] tool_names(1,2)] tool_names(3) show ?thesis by blast
  qed (use e(2) in auto)
qed

end

lemma order_of_blob_source: "order_of_blob b now = Some r \<Longrightarrow> cr_source r = FromStore"
  by (cases "tb_payload b") (auto simp: order_of_blob_def)

lemma session_hit:
  "fst (get_cached_order ops cfg db ctx session s now no tn u) = Some r \<Longrightarrow>
     fst (can_access_order db ctx (strip no) tn (Some u) DIRECT_QUERY) \<and>
     (cr_source r = FromSession \<longrightarrow> strip (rep_order_no (cr_payload r)) = strip no \<and>
        (\<exists>sn. last_order_structured session = Some sn \<and> cr_payload r = sn_payload sn))"
  by (auto simp: get_cached_order_def Let_def case_prod_beta of_snapshot_def bind_eq_Some_conv
      dest: order_of_blob_source split: option.splits if_splits)


definition demo_tool_settings :: tool_settings where
  "demo_tool_settings = \<lparr>tool_cache_enabled = True, order_ttl_seconds = 600, course_ttl_seconds = 1800,
     escalation_enabled = True, transient_threshold = 2\<rparr>"

definition empty_session :: session_tool_cache where
  "empty_session = \<lparr>last_order_structured = None, last_course_structured = None, last_course_structured_key = None\<rparr>"

definition demo_order_report :: order_report where
  "demo_order_report = \<lparr>rep_order_no = (asc ''20251114001''), product_name = (asc ''P''), rep_course_code = (asc ''C''), order_type = (asc ''T''), current_status = (asc ''S''),
     progress_percent = 50, amount = 1, steps = [], visualization = [], summary = (asc ''done''), oss_url = None\<rparr>"


end
