(* ===== verification/Escalation.thy ===== *)
theory Escalation
  imports Tool_Cache
begin

text \<open>
  Handing over to a person after failures: \<open>app/tool_escalation.py\<close>. The tracker of a
  node counts the transient failures of each tool and resource; outside every scope there is
  none. An exception is seen through what the code asks of it: its class name, its text,
  whether it is an \<open>OSError\<close> (as \<open>TimeoutError\<close> and \<open>ConnectionError\<close> are) and whether it
  is \<open>ToolPoolBusyError\<close>. A raised \<open>ToolEscalationError\<close> is the decision it carries.
\<close>

record exn =
  ex_class :: ustr
  ex_message :: ustr
  ex_os_error :: bool
  ex_pool_busy :: bool

datatype escalation_reason = Transient_Exhausted | React_Limit

record escalation_decision =
  escalate :: bool
  esc_reason :: "escalation_reason option"
  esc_message :: "ustr option"

type_synonym failure_tracker = "(ustr \<times> ustr, nat) dict"

definition is_transient_error :: "exn \<Rightarrow> bool" where
  "is_transient_error e \<longleftrightarrow> ex_os_error e \<or> occurs (asc ''timeout'') (lower (ex_class e)) \<or>
     occurs (asc ''timeout'') (lower (ex_message e)) \<or> occurs (asc ''connection'') (lower (ex_class e))"

definition is_transient_tool_failure :: "exn option \<Rightarrow> ustr option \<Rightarrow> bool" where
  "is_transient_tool_failure exc status \<longleftrightarrow>
     status = Some (asc ''busy'') \<or> (case exc of None \<Rightarrow> False | Some e \<Rightarrow> ex_pool_busy e \<or> is_transient_error e)"

definition failure_key :: "ustr \<Rightarrow> ustr \<Rightarrow> ustr \<times> ustr" where
  "failure_key tool resource_key = (tool, or_str (strip resource_key) (asc ''__default__''))"

definition failures :: "failure_tracker \<Rightarrow> ustr \<times> ustr \<Rightarrow> nat" where
  "failures tr k = (case map_of tr k of None \<Rightarrow> 0 | Some n \<Rightarrow> n)"

definition record_transient :: "failure_tracker \<Rightarrow> ustr \<Rightarrow> ustr \<Rightarrow> nat \<times> failure_tracker" where
  "record_transient tr tool resource_key =
     (let k = failure_key tool resource_key; n = failures tr k + 1 in (n, AList.update k n tr))"

definition should_escalate :: "tool_settings \<Rightarrow> failure_tracker \<Rightarrow> ustr \<Rightarrow> ustr \<Rightarrow> bool" where
  "should_escalate cfg tr tool resource_key \<longleftrightarrow>
     escalation_enabled cfg \<and> int (failures tr (failure_key tool resource_key)) \<ge> transient_threshold cfg"

definition build_handoff_answer :: "bool \<Rightarrow> escalation_reason option \<Rightarrow> ustr" where
  "build_handoff_answer auto_escalated reason =
     (if auto_escalated \<and> reason = Some Transient_Exhausted
      then ([0x591A, 0x6B21, 0x672A, 0x80FD, 0x83B7, 0x53D6, 0x6700, 0x65B0, 0x67E5, 0x8BE2, 0x7ED3, 0x679C, 0xFF0C, 0x5DF2, 0x4E3A, 0x60A8, 0x8F6C, 0x63A5, 0x4EBA, 0x5DE5, 0x5BA2, 0x670D, 0x3002, 0x5F53, 0x524D, 0x4E3A, 0x6F14, 0x793A, 0x73AF, 0x5883, 0xFF0C, 0x8BF7, 0x7A0D, 0x5019, 0xFF1B, 0x5DE5, 0x4F5C, 0x65F6, 0x95F4, 0xFF08] @ asc ''09:00-21:00'' @ [0xFF09, 0x5185, 0x4F1A, 0x6709, 0x4E13, 0x5458, 0x7EE7, 0x7EED, 0x8DDF, 0x8FDB, 0x3002]) \<comment> \<open>several lookups failed, you are handed over\<close>
      else if auto_escalated \<and> reason = Some React_Limit
      then ([0x5904, 0x7406, 0x6B65, 0x9AA4, 0x8F83, 0x591A, 0x4E14, 0x672A, 0x80FD, 0x5B8C, 0x6210, 0x81EA, 0x52A8, 0x67E5, 0x8BE2, 0xFF0C, 0x5DF2, 0x4E3A, 0x60A8, 0x8F6C, 0x63A5, 0x4EBA, 0x5DE5, 0x5BA2, 0x670D, 0x3002, 0x5F53, 0x524D, 0x4E3A, 0x6F14, 0x793A, 0x73AF, 0x5883, 0xFF0C, 0x8BF7, 0x7A0D, 0x5019, 0xFF1B, 0x5DE5, 0x4F5C, 0x65F6, 0x95F4, 0xFF08] @ asc ''09:00-21:00'' @ [0xFF09, 0x5185, 0x4F1A, 0x6709, 0x4E13, 0x5458, 0x7EE7, 0x7EED, 0x8DDF, 0x8FDB, 0x3002]) \<comment> \<open>too many steps, you are handed over\<close>
      else ([0x5DF2, 0x4E3A, 0x60A8, 0x8F6C, 0x63A5, 0x4EBA, 0x5DE5, 0x5BA2, 0x670D, 0x3002, 0x5F53, 0x524D, 0x4E3A, 0x6F14, 0x793A, 0x73AF, 0x5883, 0xFF0C, 0x8BF7, 0x7A0D, 0x5019, 0xFF1B, 0x5DE5, 0x4F5C, 0x65F6, 0x95F4, 0xFF08] @ asc ''09:00-21:00'' @ [0xFF09, 0x5185, 0x4F1A, 0x6709, 0x4E13, 0x5458, 0x7EE7, 0x7EED, 0x8DDF, 0x8FDB, 0x60A8, 0x7684, 0x95EE, 0x9898, 0x3002]) \<comment> \<open>you are handed over\<close>)
     @ [0x60A8, 0x4E5F, 0x53EF, 0x4EE5, 0x7EE7, 0x7EED, 0x63CF, 0x8FF0, 0x95EE, 0x9898, 0xFF0C, 0x6211, 0x4F1A, 0x5148, 0x8BB0, 0x5F55, 0x5728, 0x4F1A, 0x8BDD, 0x4E2D, 0x3002] \<comment> \<open>you may go on describing the problem\<close>"

definition escalation_for_transient ::
  "tool_settings \<Rightarrow> failure_tracker option \<Rightarrow> ustr \<Rightarrow> ustr \<Rightarrow> escalation_decision option \<times> failure_tracker option" where
  "escalation_for_transient cfg tracker tool resource_key =
     (case tracker of
        None \<Rightarrow> (None, None)
      | Some tr \<Rightarrow>
          (let (n, tr) = record_transient tr tool resource_key in
           if \<not> escalation_enabled cfg \<or> int n < transient_threshold cfg then (None, Some tr)
           else (Some \<lparr>escalate = True, esc_reason = Some Transient_Exhausted,
                   esc_message = Some (build_handoff_answer True (Some Transient_Exhausted))\<rparr>, Some tr)))"

definition escalation_for_react_limit :: escalation_decision where
  "escalation_for_react_limit = \<lparr>escalate = True, esc_reason = Some React_Limit,
     esc_message = Some (build_handoff_answer True (Some React_Limit))\<rparr>"

definition raise_if_escalated :: "escalation_decision option \<Rightarrow> escalation_decision option" where
  "raise_if_escalated d = (case d of Some x \<Rightarrow> if escalate x then Some x else None | None \<Rightarrow> None)"

section \<open>Counting\<close>

lemma failures_record:
  "failures (snd (record_transient tr tool r)) k = (if k = failure_key tool r then failures tr k + 1 else failures tr k)"
  "fst (record_transient tr tool r) = failures tr (failure_key tool r) + 1"
  by (auto simp: record_transient_def Let_def failures_def)

text \<open>A series of transient failures of one node, in order.\<close>

fun transient_run :: "tool_settings \<Rightarrow> (ustr \<times> ustr) list \<Rightarrow> failure_tracker option \<Rightarrow> escalation_decision option list" where
  "transient_run cfg [] tr = []"
| "transient_run cfg ((tool, r) # fs) tr =
     (let (d, tr) = escalation_for_transient cfg tr tool r in d # transient_run cfg fs tr)"

lemma transient_run_length: "length (transient_run cfg fs tr) = length fs"
  by (induction cfg fs tr rule: transient_run.induct) (auto simp: Let_def split: prod.splits)

lemma transient_run_nth:
  "i < length fs \<Longrightarrow>
     (transient_run cfg fs (Some tr) ! i \<noteq> None \<longleftrightarrow> escalation_enabled cfg \<and>
        transient_threshold cfg \<le> int (failures tr (case fs ! i of (tool, r) \<Rightarrow> failure_key tool r) +
          length (filter (\<lambda>(tool, r). failure_key tool r = (case fs ! i of (tool, r) \<Rightarrow> failure_key tool r)) (take (Suc i) fs))))"
proof (induction fs arbitrary: tr i)
  case Nil
  then show ?case by simp
next
  case (Cons f fs)
  obtain tool r where f: "f = (tool, r)" by (cases f)
  let ?tr = "snd (record_transient tr tool r)"
  have step: "snd (escalation_for_transient cfg (Some tr) tool r) = Some ?tr"
    by (simp add: escalation_for_transient_def case_prod_beta Let_def)
  show ?case
  proof (cases i)
    case 0
    then show ?thesis
      by (auto simp: f escalation_for_transient_def case_prod_beta Let_def failures_record)
  next
    case (Suc j)
    then have j: "j < length fs" using Cons(2) by simp
    obtain tool' r' where f': "fs ! j = (tool', r')" by (cases "fs ! j")
    show ?thesis using Cons(1) [OF j, of ?tr] step
      by (auto simp: f f' Suc case_prod_beta Let_def failures_record algebra_simps)
  qed
qed

end
