(* ===== verification/Order_Capability.thy ===== *)
theory Order_Capability
  imports Escalation Tool_Pool
begin

text \<open>
  Asking for an order, with every way it can fail: \<open>app/capabilities/order.py\<close>. What the
  thread pool did with the call is the argument \<open>pool\<close> (\<open>Ran\<close>, refused as busy, or timed out;
  after a timeout the code no longer sees the result). The object store, the clock, the text
  of a pydantic error and the identity are in the environment; the world is the tool cache,
  the failure tracker of the node and the metric events. The registration of the capability
  and its execution are in \<open>Capabilities\<close>.
\<close>

section \<open>Environment and world\<close>

record 's tool_env =
  te_ops :: "'s result_ops"
  te_cfg :: tool_settings
  te_db :: order_db
  te_ctx :: identity_ctx
  te_session :: session_tool_cache
  te_put_text :: "ustr \<Rightarrow> ustr \<Rightarrow> ustr \<Rightarrow> ustr"
  te_stamp :: ustr
  te_now :: rat
  te_invalid_text :: ustr

record 's tool_world =
  tw_store :: 's
  tw_tracker :: "failure_tracker option"
  tw_events :: "service_event list"

datatype tool_error = BadOrder service_error | QueryTimeout ustr | EscalatedTo escalation_decision

definition emit_event :: "service_event list \<Rightarrow> 's tool_world \<Rightarrow> 's tool_world" where
  "emit_event es w = w\<lparr>tw_events := tw_events w @ es\<rparr>"

definition busy_product :: ustr where
  "busy_product = [0x67E5, 0x5355, 0x670D, 0x52A1, 0x7E41, 0x5FD9] \<comment> \<open>order service busy\<close>"

definition missing_order_no :: ustr where
  "missing_order_no = [0x672A, 0x8BC6, 0x522B, 0x5230, 0x8BA2, 0x5355, 0x53F7] \<comment> \<open>no order number recognised\<close>"

definition format_order_answer :: "order_report \<Rightarrow> ustr" where
  "format_order_answer rep =
     (if visualization rep \<noteq> [] then summary rep @ [10, 10] @ visualization rep else summary rep)"

definition failed_status :: "ustr \<Rightarrow> bool" where
  "failed_status st \<longleftrightarrow> st \<in> {(asc ''busy''), (asc ''error''), (asc ''not_found'')}"

definition usable_product_name :: "order_report \<Rightarrow> ustr option" where
  "usable_product_name rep =
     (let name = strip (product_name rep) in
      if name = [] \<or> name = busy_product \<or> failed_status (current_status rep) then None else Some name)"

definition usable_course_code :: "order_report \<Rightarrow> ustr option" where
  "usable_course_code rep =
     (let code = strip (rep_course_code rep) in
      if code = [] \<or> failed_status (current_status rep) \<or> strip (product_name rep) = busy_product then None else Some code)"

definition busy_report :: "ustr option \<Rightarrow> ustr \<Rightarrow> order_report" where
  "busy_report order_no exc =
     \<lparr>rep_order_no = or_str (str_or_empty order_no) (asc ''unknown''), product_name = busy_product, rep_course_code = [],
      order_type = [], current_status = (asc ''busy''), progress_percent = 0, amount = 0, steps = [], visualization = [],
      summary = ([0x5F53, 0x524D, 0x67E5, 0x8BE2, 0x8BA2, 0x5355, 0x8BF7, 0x6C42, 0x8F83, 0x96C6, 0x4E2D, 0xFF0C, 0x5EFA, 0x8BAE] @ asc '' 1 '' @ [0x5206, 0x949F, 0x540E, 0x91CD, 0x8BD5, 0x3002, 0xFF08]) \<comment> \<open>many requests, try again in a minute (\<close> @ exc @ [0xFF09] \<comment> \<open>)\<close>,
      oss_url = None\<rparr>"

text \<open>\<open>json.dumps\<close> with \<open>ensure_ascii=False\<close>, on strings.\<close>

definition hex_digit :: "nat \<Rightarrow> nat" where
  "hex_digit d = (if d < 10 then 48 + d else 87 + d)"

definition json_char :: "nat \<Rightarrow> ustr" where
  "json_char c =
     (if c = 34 then [92, 34] else if c = 92 then [92, 92] else if c = 10 then [92, 110] else if c = 13 then [92, 114]
      else if c = 9 then [92, 116] else if c = 8 then [92, 98] else if c = 12 then [92, 102]
      else if c < 32 then [92, 117, 48, 48, hex_digit (c div 16), hex_digit (c mod 16)] else [c])"

definition json_string :: "ustr \<Rightarrow> ustr" where
  "json_string s = [34] @ concat (map json_char s) @ [34]"

definition tool_json :: "ustr \<Rightarrow> ustr \<Rightarrow> ustr" where
  "tool_json error hint =
     [123] @ json_string (asc ''error'') @ (asc '': '') @ json_string error @ (asc '', '') @ json_string (asc ''hint'') @ (asc '': '') @ json_string hint @ [125]"

section \<open>The query\<close>

definition explicit_number :: "ustr option \<Rightarrow> ustr option" where
  "explicit_number order_no =
     (let no = str_or_empty order_no in nonempty_opt (or_str (str_or_empty (extract_order_no no)) (strip no)))"

definition resolve_order_number ::
  "ustr \<Rightarrow> ustr option \<Rightarrow> ustr \<Rightarrow> ustr option \<Rightarrow> bool \<Rightarrow> service_error + ustr option" where
  "resolve_order_number query order_no user_id last_order_no require_explicit =
     (if require_explicit then Inr (explicit_number order_no)
      else (case resolve_query_order_no query order_no (Some user_id) last_order_no of Inl e \<Rightarrow> Inl e | Inr n \<Rightarrow> Inr (Some n)))"

definition handle_order_transient_failure ::
  "'s tool_env \<Rightarrow> 's tool_world \<Rightarrow> ustr option \<Rightarrow> ustr \<Rightarrow> ustr \<Rightarrow> ustr option \<Rightarrow>
     (tool_error + order_report) \<times> 's tool_world" where
  "handle_order_transient_failure env w order_no tenant_id user_id busy =
     (let number = or_str (strip (str_or_empty order_no)) (asc ''unknown'');
          (cached, store) = get_cached_order (te_ops env) (te_cfg env) (te_db env) (te_ctx env) (te_session env) (tw_store w) (te_now env)
             number tenant_id user_id;
          w = w\<lparr>tw_store := store\<rparr>
      in case cached of
           Some c \<Rightarrow> (Inr (annotate_stale_order (cr_payload c) (max 0 (te_now env - cr_cached_at c))), w)
         | None \<Rightarrow>
             (let (d, tracker) = escalation_for_transient (te_cfg env) (tw_tracker w) tool_order number; w = w\<lparr>tw_tracker := tracker\<rparr>
              in case raise_if_escalated d of
                   Some e \<Rightarrow> (Inl (EscalatedTo e), w)
                 | None \<Rightarrow>
                     (case busy of
                        Some exc \<Rightarrow> (Inr (busy_report order_no exc), emit_event [ToolCall tool_order (asc ''busy'') tenant_id] w)
                      | None \<Rightarrow> (Inl (QueryTimeout [0x8BA2, 0x5355, 0x67E5, 0x8BE2, 0x8D85, 0x65F6, 0xFF0C, 0x8BF7, 0x7A0D, 0x540E, 0x91CD, 0x8BD5] \<comment> \<open>order query timed out, try again\<close>),
                          emit_event [ToolCall tool_order (asc ''timeout'') tenant_id] w))))"

definition query_order_inner ::
  "'s tool_env \<Rightarrow> ustr \<Rightarrow> ustr option \<Rightarrow> ustr \<Rightarrow> ustr \<Rightarrow> ustr option \<Rightarrow> bool \<Rightarrow> bool \<Rightarrow>
     (service_error + order_report) \<times> service_event list" where
  "query_order_inner env query order_no tenant_id user_id last_order_no persist require_explicit =
     (case (if require_explicit
            then (case explicit_number order_no of
                    None \<Rightarrow> (Inl (Refused missing_order_no), [ToolCall tool_order (asc ''error'') tenant_id]) | Some n \<Rightarrow> (Inr n, []))
            else (resolve_query_order_no query order_no (Some user_id) last_order_no, [])) of
        (Inl e, evs) \<Rightarrow> (Inl e, evs)
      | (Inr number, evs) \<Rightarrow>
          (let (res, evs') = fetch_order_report (te_db env) (te_ctx env) number tenant_id (nonempty_opt query) (Some user_id)
           in (case res of
                 Inl e \<Rightarrow> Inl e
               | Inr rep \<Rightarrow> Inr (if persist then persist_order_report (te_put_text env) (te_stamp env) rep tenant_id else rep), evs @ evs')))"

definition persist_success_cache :: "'s tool_env \<Rightarrow> 's tool_world \<Rightarrow> order_report \<Rightarrow> ustr \<Rightarrow> ustr \<Rightarrow> 's tool_world" where
  "persist_success_cache env w rep tenant_id user_id =
     (if \<not> is_cacheable_order_report rep then w
      else w\<lparr>tw_store := put_cached_order (te_ops env) (te_cfg env) (tw_store w) (te_now env) rep tenant_id user_id\<rparr>)"

definition query_order ::
  "'s tool_env \<Rightarrow> unit pool_result \<Rightarrow> 's tool_world \<Rightarrow> ustr \<Rightarrow> ustr option \<Rightarrow> ustr \<Rightarrow> ustr \<Rightarrow> ustr option \<Rightarrow>
     bool \<Rightarrow> bool \<Rightarrow> bool \<Rightarrow> (tool_error + order_report) \<times> 's tool_world" where
  "query_order env pool w query order_no tenant_id user_id last_order_no persist require_explicit use_order_pool =
     (case resolve_order_number query order_no user_id last_order_no require_explicit of
        Inl e \<Rightarrow> (Inl (BadOrder e), w)
      | Inr resolved \<Rightarrow>
          (let failed = or_opt (or_opt resolved order_no) last_order_no in
           case (if use_order_pool then pool else Ran ()) of
             PoolBusy exc \<Rightarrow> handle_order_transient_failure env w failed tenant_id user_id (Some exc)
           | TimedOut \<Rightarrow> handle_order_transient_failure env w failed tenant_id user_id None
           | Ran _ \<Rightarrow>
               (let (res, evs) = query_order_inner env query order_no tenant_id user_id last_order_no persist require_explicit;
                    w = emit_event evs w
                in case res of
                     Inl e \<Rightarrow> (Inl (BadOrder e), w)
                   | Inr rep \<Rightarrow> (Inr rep, persist_success_cache env w rep tenant_id user_id))))"

definition cache_state_updates_for_order :: "order_report \<Rightarrow> rat \<Rightarrow> order_report snapshot option" where
  "cache_state_updates_for_order rep now = session_updates_for_order rep now"

text \<open>
  The text of an error. A failed validation is a \<open>ValueError\<close> of the library; the failed
  assertion is no \<open>ValueError\<close> and has an empty text.
\<close>

definition service_error_text :: "'s tool_env \<Rightarrow> service_error \<Rightarrow> ustr" where
  "service_error_text env e = (case e of Refused m \<Rightarrow> m | ValidationError \<Rightarrow> te_invalid_text env | MissingOrder \<Rightarrow> [])"

text \<open>What the language model sees of a call of the tool; \<open>Inl\<close>: the escalation is raised further.\<close>

definition order_to_tool_observation ::
  "'s tool_env \<Rightarrow> 's tool_world \<Rightarrow> ustr \<Rightarrow> ustr \<Rightarrow> ustr option \<Rightarrow> ustr option \<Rightarrow> (escalation_decision + ustr) \<times> 's tool_world" where
  "order_to_tool_observation env w order_no query tenant_id user_id =
     (let tenant = or_str (str_or_empty tenant_id) (current_tenant (te_ctx env));
          uid = or_str (str_or_empty user_id) (get_current_user (te_ctx env));
          (res, w) = query_order env (Ran ()) w query (Some order_no) tenant uid None False True False
      in case res of
           Inl (EscalatedTo d) \<Rightarrow> (Inl d, w)
         | Inl (BadOrder MissingOrder) \<Rightarrow>
             (Inr (tool_json [0x8BA2, 0x5355, 0x67E5, 0x8BE2, 0x5931, 0x8D25] \<comment> \<open>order query failed\<close> []), emit_event [ToolCall tool_order (asc ''error'') tenant] w)
         | Inl (BadOrder e) \<Rightarrow>
             (let message = service_error_text env e in
              if occurs missing_order_no message
              then (Inr (tool_json missing_order_no [0x8BF7, 0x5411, 0x7528, 0x6237, 0x786E, 0x8BA4, 0x5B8C, 0x6574, 0x8BA2, 0x5355, 0x7F16, 0x53F7, 0xFF0C, 0x4E0D, 0x8981, 0x7F16, 0x9020] \<comment> \<open>ask the user for the full number, invent nothing\<close>), w)
              else (Inr (tool_json message [0x8BF7, 0x6838, 0x5BF9, 0x8BA2, 0x5355, 0x7F16, 0x53F7, 0xFF0C, 0x4E0D, 0x8981, 0x7F16, 0x9020, 0x65B0, 0x5355, 0x53F7] \<comment> \<open>check the number, invent none\<close>), w))
         | Inl (QueryTimeout m) \<Rightarrow>
             (Inr (tool_json [0x8BA2, 0x5355, 0x67E5, 0x8BE2, 0x8D85, 0x65F6] \<comment> \<open>order query timed out\<close> [0x8BF7, 0x7A0D, 0x540E, 0x91CD, 0x8BD5, 0xFF0C, 0x4E0D, 0x8981, 0x8FDE, 0x7EED, 0x91CD, 0x590D, 0x8C03, 0x7528] \<comment> \<open>try again later, do not repeat the call\<close>), w)
         | Inr rep \<Rightarrow>
             if current_status rep = (asc ''busy'')
             then (Inr (tool_json [0x8BA2, 0x5355, 0x670D, 0x52A1, 0x7E41, 0x5FD9] \<comment> \<open>order service busy\<close> [0x8BF7, 0x6C42, 0x961F, 0x5217, 0x5DF2, 0x6EE1, 0xFF0C, 0x8BF7, 0x7A0D, 0x540E, 0x518D, 0x8BD5, 0xFF0C, 0x4E0D, 0x8981, 0x8FDE, 0x7EED, 0x91CD, 0x590D, 0x8C03, 0x7528] \<comment> \<open>queue full, try again later\<close>), w)
             else (Inr (format_order_answer rep), w))"


section \<open>Only readable orders are shown\<close>

lemma can_access_readable:
  assumes "unique_orders db" "tenant \<noteq> []" "user \<noteq> []"
  shows "fst (can_access_order db ctx no tenant (Some user) DIRECT_QUERY) \<longleftrightarrow>
    (\<exists>r \<in> set db. may_read tenant (normalize_user_id (Some user)) DIRECT_QUERY None no r)"
proof -
  have r: "request_tenant ctx (Some tenant) = tenant" "request_user ctx (Some user) = normalize_user_id (Some user)"
    using assms(2,3) by (simp_all add: request_tenant_def request_user_def or_str_def)
  have "fst (can_access_order db ctx no tenant (Some user) DIRECT_QUERY) \<longleftrightarrow>
      order (fst (authorize db ctx no DIRECT_QUERY (Some tenant) (Some user) None)) \<noteq> None"
    using authorize_shape [of db ctx no DIRECT_QUERY "Some tenant" "Some user" None]
    by (auto simp: can_access_order_def case_prod_beta)
  then show ?thesis using authorize_allowed [OF assms(1), of ctx no DIRECT_QUERY "Some tenant" "Some user" None] by (auto simp: r)
qed

text \<open>The number that a failed call is answered for.\<close>

definition failed_number :: "ustr option \<Rightarrow> ustr" where
  "failed_number no = or_str (strip (str_or_empty no)) (asc ''unknown'')"

lemma get_cached_order_access:
  "fst (get_cached_order ops cfg db ctx session s now no tn u) = Some c \<Longrightarrow> fst (can_access_order db ctx (strip no) tn (Some u) DIRECT_QUERY)"
  by (auto simp: get_cached_order_def Let_def split: if_splits)

lemma transient_cases:
  assumes "handle_order_transient_failure env w no tn u busy = (res, w')"
  shows "(\<exists>c. fst (get_cached_order (te_ops env) (te_cfg env) (te_db env) (te_ctx env) (te_session env) (tw_store w) (te_now env) (failed_number no) tn u) = Some c \<and>
      res = Inr (annotate_stale_order (cr_payload c) (max 0 (te_now env - cr_cached_at c))) \<and> tw_tracker w' = tw_tracker w) \<or>
    (\<exists>exc. busy = Some exc \<and> res = Inr (busy_report no exc)) \<or> (\<exists>m. res = Inl (QueryTimeout m)) \<or>
    (\<exists>d tr. res = Inl (EscalatedTo d) \<and> tw_tracker w = Some tr \<and> escalation_enabled (te_cfg env) \<and>
      esc_message d = Some (build_handoff_answer True (Some Transient_Exhausted)) \<and>
      transient_threshold (te_cfg env) \<le> int (failures tr (failure_key tool_order (failed_number no)) + 1))"
  using assms
  by (auto simp: handle_order_transient_failure_def failed_number_def [symmetric] case_prod_beta Let_def escalation_for_transient_def
      raise_if_escalated_def emit_event_def failures_record split: option.splits if_splits)

lemma inner_readable:
  assumes "unique_orders (te_db env)" "tenant \<noteq> []"
    and "query_order_inner env query no tenant user bound persist explicit = (Inr rep, evs)"
  shows "\<exists>n. \<exists>r \<in> set (te_db env). may_read tenant (normalize_user_id (Some user)) DIRECT_QUERY None n r \<and>
    rep_order_no rep = row_order_no r \<and> product_name rep = course_name (row_course r)"
proof -
  obtain n rep' evs' where f: "fetch_order_report (te_db env) (te_ctx env) n tenant (nonempty_opt query) (Some user) = (Inr rep', evs')"
    "rep = rep' \<or> rep = persist_order_report (te_put_text env) (te_stamp env) rep' tenant"
    using assms(3) by (auto simp: query_order_inner_def Let_def case_prod_beta split: option.splits sum.splits if_splits)
      (metis surj_pair prod.sel)+
  have "rep_order_no rep = rep_order_no rep'" "product_name rep = product_name rep'"
    using f(2) by (auto simp: persist_order_report_def Let_def)
  with fetched_report_readable [OF assms(1,2)] f(1) show ?thesis by metis
qed


text \<open>
  C20: Whatever the pool does with the call, an order query only shows data of an order the
  user may read. A report is the busy notice, which holds no order data, or it comes from an
  order of the user's tenant that the user may read at that moment: freshly, with that
  order's number and course, or after a failure of the pool from the cache, with the
  notice of its age in front. A query is handed over to a person only when escalation is
  enabled and this tool failed for this number as often in this node as the threshold says.
\<close>

theorem query_shows_readable_orders:
  assumes "unique_orders (te_db env)" and "tenant \<noteq> []" "user \<noteq> []"
    and "query_order env pool w query no tenant user bound persist explicit use_pool = (res, w')"
  shows "case res of
      Inr rep \<Rightarrow> (\<exists>exc. use_pool \<and> pool = PoolBusy exc \<and> (\<exists>asked. rep = busy_report asked exc)) \<or>
        (\<exists>n. \<exists>r \<in> set (te_db env). may_read tenant (normalize_user_id (Some user)) DIRECT_QUERY None n r \<and>
          (rep_order_no rep = row_order_no r \<and> product_name rep = course_name (row_course r) \<or>
           (\<exists>c. use_pool \<and> pool \<noteq> Ran () \<and>
             fst (get_cached_order (te_ops env) (te_cfg env) (te_db env) (te_ctx env) (te_session env) (tw_store w) (te_now env) n tenant user) = Some c \<and>
             rep = annotate_stale_order (cr_payload c) (max 0 (te_now env - cr_cached_at c)))))
    | Inl (EscalatedTo d) \<Rightarrow> (\<exists>tr n. tw_tracker w = Some tr \<and> escalation_enabled (te_cfg env) \<and>
        transient_threshold (te_cfg env) \<le> int (failures tr (failure_key tool_order n) + 1)) \<and>
        esc_message d = Some (build_handoff_answer True (Some Transient_Exhausted))
    | Inl _ \<Rightarrow> True"
proof -
  let ?resolved = "resolve_order_number query no user bound explicit"
  have failure: ?thesis if f: "handle_order_transient_failure env w asked tenant user busy = (res, w')"
    and u: "use_pool" "pool = (case busy of Some exc \<Rightarrow> PoolBusy exc | None \<Rightarrow> TimedOut)" for asked busy
    using transient_cases [OF f]
  proof (elim disjE exE conjE)
    fix c
    assume c: "fst (get_cached_order (te_ops env) (te_cfg env) (te_db env) (te_ctx env) (te_session env) (tw_store w) (te_now env)
        (failed_number asked) tenant user) = Some c"
      and r: "res = Inr (annotate_stale_order (cr_payload c) (max 0 (te_now env - cr_cached_at c)))"
    have s: "may_read t v DIRECT_QUERY None (strip n) r \<longleftrightarrow> may_read t v DIRECT_QUERY None n r" for t v n r
      by (simp add: may_read_def)
    from get_cached_order_access [OF c] can_access_readable [OF assms(1-3)]
    obtain r where "r \<in> set (te_db env)" "may_read tenant (normalize_user_id (Some user)) DIRECT_QUERY None (failed_number asked) r"
      by (auto simp: s)
    moreover have "pool \<noteq> Ran ()" using u(2) by (cases busy) auto
    ultimately show ?thesis unfolding r sum.case using c u(1) by blast
  qed (use u in auto)
  show ?thesis
  proof (cases ?resolved)
    case (Inl e)
    then show ?thesis using assms(4) by (auto simp: query_order_def)
  next
    case (Inr resolved)
    let ?asked = "or_opt (or_opt resolved no) bound"
    show ?thesis
    proof (cases "if use_pool then pool else Ran ()")
      case (PoolBusy exc)
      then have "use_pool" "pool = PoolBusy exc" by (auto split: if_splits)
      with assms(4) Inr show ?thesis by (intro failure [of ?asked "Some exc"]) (simp_all add: query_order_def)
    next
      case TimedOut
      then have "use_pool" "pool = TimedOut" by (auto split: if_splits)
      with assms(4) Inr show ?thesis by (intro failure [of ?asked None]) (simp_all add: query_order_def)
    next
      case (Ran x)
      obtain res' evs where i: "query_order_inner env query no tenant user bound persist explicit = (res', evs)" by fastforce
      with assms(4) Inr Ran have "res = (case res' of Inl e \<Rightarrow> Inl (BadOrder e) | Inr rep \<Rightarrow> Inr rep)"
        by (auto simp: query_order_def split: sum.splits)
      then show ?thesis
      proof (cases res')
        case (Inr rep)
        with inner_readable [OF assms(1,2) i [unfolded Inr]] \<open>res = _\<close> show ?thesis by (simp only: sum.case) blast
      qed simp
    qed
  qed
qed


definition demo_tool_env :: "memory_tool_store tool_env" where
  "demo_tool_env = \<lparr>te_ops = memory_tool_ops, te_cfg = demo_tool_settings, te_db = [demo_order], te_ctx = initial_ctx,
     te_session = empty_session, te_put_text = (\<lambda>_ _ _. []), te_stamp = [], te_now = 4000, te_invalid_text = []\<rparr>"

definition demo_tool_world :: "memory_tool_store tool_world" where
  "demo_tool_world = \<lparr>tw_store = [], tw_tracker = Some [], tw_events = []\<rparr>"

lemma demo_resolve:
  "resolve_order_number (asc ''20251114001'') None (asc ''u1'') None False = Inr (Some (asc ''20251114001''))"
  by (simp add: resolve_order_number_def resolve_query_order_no_def extract_order_no_run first_long_run.simps access_eval
      is_persistent_user_def ephemeral_users_def Let_def)

theorem query_shows_readable_orders_witness:
  "\<exists>rep w. query_order demo_tool_env (PoolBusy (asc ''full'')) demo_tool_world (asc ''20251114001'') None (asc ''demo'') (asc ''u1'') None True False True =
     (Inr rep, w) \<and> amount rep = 0"
proof -
  obtain res w where q: "query_order demo_tool_env (PoolBusy (asc ''full'')) demo_tool_world (asc ''20251114001'') None (asc ''demo'') (asc ''u1'') None True False True = (res, w)"
    by fastforce
  have r: "res = Inr (busy_report (Some (asc ''20251114001'')) (asc ''full''))"
    using q demo_resolve
    by (simp add: query_order_def handle_order_transient_failure_def demo_tool_env_def demo_tool_world_def get_cached_order_def
        demo_tool_settings_def empty_session_def memory_tool_ops_def memory_tool_get_def escalation_for_transient_def
        record_transient_def failures_def raise_if_escalated_def Let_def split: if_splits)
  have "unique_orders (te_db demo_tool_env)" "(asc ''demo'') \<noteq> []" "(asc ''u1'') \<noteq> []"
    by (simp_all add: demo_tool_env_def unique_orders_def)
  from query_shows_readable_orders [OF this q] have "amount (busy_report (Some (asc ''20251114001'')) (asc ''full'')) = 0"
    by (simp add: busy_report_def)
  with q r show ?thesis by blast
qed

text \<open>
  A stale answer forgets its age. The graph stores the report it shows as the session's
  report with the time of that turn, also when it is a stale report from the cache. If the
  order service then fails again, the report is announced with the minutes since the last
  turn instead of the minutes since it was made, and both notices stand in front of it.
\<close>

lemma stale_answer_forgets_age:
  assumes "last_order_structured (te_session env) = Some \<lparr>sn_payload = rep, sn_cached_at = made\<rparr>"
    and "tool_cache_enabled (te_cfg env)" "made \<noteq> 0" "made \<le> te_now env" "is_cacheable_order_report rep"
    and "resolve_order_number query no user bound False = Inr (Some (rep_order_no rep))"
    and "rep_order_no rep \<noteq> []" "stripped (rep_order_no rep)"
    and "fst (can_access_order (te_db env) (te_ctx env) (rep_order_no rep) tenant (Some user) DIRECT_QUERY)"
    and "te_now env \<noteq> 0" "te_now env \<le> later"
  shows "\<exists>shown w1. query_order env TimedOut w query no tenant user bound True False True = (Inr shown, w1) \<and>
    summary shown = strip (stale_prefix (te_now env - made) @ summary rep) \<and>
    (\<exists>shown2 w2. query_order (env\<lparr>te_now := later, te_session := (te_session env)\<lparr>last_order_structured :=
         cache_state_updates_for_order shown (te_now env)\<rparr>\<rparr>) TimedOut w1 query no tenant user bound True False True = (Inr shown2, w2) \<and>
       summary shown2 = strip (stale_prefix (later - te_now env) @ summary shown))"
proof -
  let ?shown = "annotate_stale_order rep (te_now env - made)"
  have n: "strip (rep_order_no rep) = rep_order_no rep" by (rule strip_id [OF assms(8)])
  have c: "is_cacheable_order_report ?shown" "rep_order_no ?shown = rep_order_no rep"
    using assms(5) by (simp_all add: annotate_stale_order_def is_cacheable_order_report_def)
  have 1: "query_order env TimedOut w query no tenant user bound True False True = (Inr ?shown, w\<lparr>tw_store := tw_store w\<rparr>)" for w
    using assms by (simp add: query_order_def handle_order_transient_failure_def get_cached_order_def n or_str_def Let_def
        of_snapshot_def or_time_def)
  have 2: "query_order (env\<lparr>te_now := later, te_session := (te_session env)\<lparr>last_order_structured :=
         cache_state_updates_for_order ?shown (te_now env)\<rparr>\<rparr>) TimedOut w1 query no tenant user bound True False True =
      (Inr (annotate_stale_order ?shown (later - te_now env)), w1\<lparr>tw_store := tw_store w1\<rparr>)" for w1
    using assms c by (simp add: query_order_def handle_order_transient_failure_def get_cached_order_def n or_str_def Let_def
        of_snapshot_def or_time_def cache_state_updates_for_order_def session_updates_for_order_def)
  from 1 2 show ?thesis by (auto simp: annotate_stale_order_def)
qed

end
