(* ===== verification/Routing.thy ===== *)
theory Routing
  imports Order_No
begin

text \<open>
  Routing: the decisions of \<open>app/schemas.py\<close> and the routing policy of
  \<open>app/agents/policy.py\<close> (guards on a recognised intent, the edges of the graph, the upgrade
  out of the course branch, the supervisor's plan). Intents, targets and reasons are the
  strings of the source; confidences are rationals.
\<close>

section \<open>Decisions\<close>

record route_decision =
  intent :: ustr
  target :: ustr
  confidence :: rat
  order_no :: "ustr option"
  course_query :: "ustr option"
  needs_clarification :: bool
  clarification_question :: "ustr option"
  reason :: ustr

definition intent_target :: "(ustr \<times> ustr) list" where
  "intent_target = [((asc ''course_consult''), (asc ''rag'')), ((asc ''order''), (asc ''tool'')), ((asc ''mixed''), (asc ''supervisor'')),
     ((asc ''ambiguous''), (asc ''supervisor'')), ((asc ''handoff''), (asc ''handoff'')), ((asc ''chitchat''), (asc ''chitchat''))]"

definition intent_to_target :: "ustr \<Rightarrow> ustr" where
  "intent_to_target i = (case map_of intent_target i of None \<Rightarrow> (asc ''chitchat'') | Some t \<Rightarrow> t)"

definition force_order_hints :: "ustr list" where
  "force_order_hints = [[0x8BA2, 0x5355] \<comment> \<open>order\<close>, [0x9000, 0x6B3E] \<comment> \<open>refund\<close>, [0x7269, 0x6D41] \<comment> \<open>shipping\<close>, [0x5355, 0x53F7] \<comment> \<open>order number\<close>, [0x67E5, 0x5355] \<comment> \<open>look up order\<close>]"

definition course_hints :: "ustr list" where
  "course_hints = [[0x8BFE, 0x7A0B] \<comment> \<open>course\<close>, [0x5927, 0x7EB2] \<comment> \<open>outline\<close>, [0x5305, 0x542B] \<comment> \<open>contains\<close>, [0x5B66, 0x4EC0, 0x4E48] \<comment> \<open>learn what\<close>, [0x6A21, 0x5757] \<comment> \<open>module\<close>,
     [0x5B66, 0x4E60, 0x8DEF, 0x5F84] \<comment> \<open>learning path\<close>, [0x5165, 0x95E8, 0x8BFE] \<comment> \<open>introductory course\<close>, [0x8BB2, 0x4EC0, 0x4E48] \<comment> \<open>teaches what\<close>, [0x65B0, 0x624B] \<comment> \<open>novice\<close>,
     [0x80FD, 0x5B66] \<comment> \<open>can learn\<close>, [0x9002, 0x5408] \<comment> \<open>suits\<close>, [0x96F6, 0x57FA, 0x7840] \<comment> \<open>no basis\<close>, [0x96BE, 0x5417] \<comment> \<open>is it hard\<close>, [0x552E, 0x524D] \<comment> \<open>pre-sales\<close>, [0x552E, 0x540E] \<comment> \<open>after-sales\<close>]"

definition explicit_course_hints :: "ustr list" where
  "explicit_course_hints = [[0x8BFE, 0x7A0B] \<comment> \<open>course\<close>, [0x5927, 0x7EB2] \<comment> \<open>outline\<close>, [0x6A21, 0x5757] \<comment> \<open>module\<close>, [0x5B66, 0x4E60, 0x8DEF, 0x5F84] \<comment> \<open>learning path\<close>,
     [0x5165, 0x95E8, 0x8BFE] \<comment> \<open>introductory course\<close>, [0x8BB2, 0x4EC0, 0x4E48] \<comment> \<open>teaches what\<close>, [0x5B66, 0x4EC0, 0x4E48] \<comment> \<open>learn what\<close>, [0x5305, 0x542B, 0x54EA, 0x4E9B] \<comment> \<open>contains which\<close>,
     [0x9002, 0x5408] \<comment> \<open>suits\<close>, [0x96F6, 0x57FA, 0x7840] \<comment> \<open>no basis\<close>, [0x96BE, 0x5417] \<comment> \<open>is it hard\<close>]"

definition order_signal_passthrough :: "ustr list" where
  "order_signal_passthrough = [(asc ''handoff''), (asc ''order''), (asc ''mixed''), (asc ''ambiguous'')]"

definition supervisor_intents :: "ustr list" where
  "supervisor_intents = [(asc ''mixed''), (asc ''order''), (asc ''course_consult'')]"

definition target_by_key :: "(ustr \<times> ustr) list" where
  "target_by_key = [((asc ''rag''), (asc ''rag'')), ((asc ''tool''), (asc ''tool'')), ((asc ''supervisor''), (asc ''supervisor'')), ((asc ''handoff''), (asc ''handoff'')),
     ((asc ''chitchat''), (asc ''chitchat'')), ((asc ''course_consult''), (asc ''rag'')), ((asc ''order''), (asc ''tool'')), ((asc ''order_query''), (asc ''tool'')),
     ((asc ''mixed''), (asc ''supervisor'')), ((asc ''ambiguous''), (asc ''supervisor''))]"

definition query_has_order_signal :: "ustr \<Rightarrow> bool" where
  "query_has_order_signal text \<longleftrightarrow> truthy (extract_query_order_no text) \<or> any_in force_order_hints text"

definition finalize_route :: "route_decision \<Rightarrow> route_decision" where
  "finalize_route d = d\<lparr>target := or_str (target d) (intent_to_target (intent d)),
     confidence := if confidence d \<le> 0 then 1 else confidence d\<rparr>"

definition mk_decision ::
  "ustr \<Rightarrow> ustr \<Rightarrow> rat \<Rightarrow> ustr option \<Rightarrow> ustr option \<Rightarrow> bool \<Rightarrow> ustr option \<Rightarrow> route_decision" where
  "mk_decision i why conf no cq needs question =
     finalize_route \<lparr>intent = i, target = intent_to_target i, confidence = conf, order_no = no, course_query = cq,
       needs_clarification = needs, clarification_question = question, reason = why\<rparr>"

definition looks_like_course :: "ustr \<Rightarrow> route_decision \<Rightarrow> bool" where
  "looks_like_course text d \<longleftrightarrow> intent d = (asc ''course_consult'') \<or> any_in course_hints text"

section \<open>The policy\<close>

record routing_policy =
  confidence_rag_min :: rat
  confidence_direct :: rat
  confidence_mixed :: rat
  confidence_ambiguous :: rat
  missing_order_clarify :: ustr

definition default_policy :: routing_policy where
  "default_policy = \<lparr>confidence_rag_min = 7/10, confidence_direct = 9/10, confidence_mixed = 65/100,
     confidence_ambiguous = 35/100,
     missing_order_clarify = [0x8BF7, 0x63D0, 0x4F9B, 0x5B8C, 0x6574, 0x8BA2, 0x5355, 0x7F16, 0x53F7, 0xFF0C, 0x6211, 0x518D, 0x5E2E, 0x60A8, 0x67E5, 0x8BE2, 0x9000, 0x6B3E, 0x6216, 0x8FDB, 0x5EA6, 0x3002] \<comment> \<open>give the full order number\<close>\<rparr>"

definition apply_order_signal :: "routing_policy \<Rightarrow> ustr \<Rightarrow> route_decision \<Rightarrow> route_decision" where
  "apply_order_signal pol text d =
     (if intent d \<in> set order_signal_passthrough
      then (if \<not> truthy (order_no d)
            then (let found = extract_query_order_no text in if truthy found then d\<lparr>order_no := found\<rparr> else d)
            else d)
      else if \<not> query_has_order_signal text then d
      else let no = or_opt (order_no d) (extract_query_order_no text) in
        if looks_like_course text d
        then mk_decision (asc ''mixed'') (asc ''order-signal-force'') (confidence_mixed pol) no (or_opt (course_query d) (Some text)) False None
        else mk_decision (asc ''order'') (asc ''order-signal-force'') (confidence_direct pol) no (course_query d) False None)"

definition apply_low_confidence :: "routing_policy \<Rightarrow> route_decision \<Rightarrow> route_decision" where
  "apply_low_confidence pol d =
     (if intent d \<noteq> (asc ''course_consult'') then d
      else if confidence d \<ge> confidence_rag_min pol then d
      else mk_decision (asc ''mixed'') (asc ''low-confidence-upgrade'') (confidence d) (order_no d) (course_query d) False None)"

definition downgrade_missing_order :: "routing_policy \<Rightarrow> route_decision \<Rightarrow> route_decision" where
  "downgrade_missing_order pol d =
     (if intent d \<noteq> (asc ''order'') \<or> truthy (order_no d) then d
      else mk_decision (asc ''ambiguous'') (asc ''missing-order-no'') (confidence_ambiguous pol) None (course_query d) True
        (Some (missing_order_clarify pol)))"

definition policy_finalize :: "routing_policy \<Rightarrow> ustr \<Rightarrow> route_decision \<Rightarrow> route_decision" where
  "policy_finalize pol text d =
     (let guarded = apply_low_confidence pol (apply_order_signal pol text d)
      in finalize_route (downgrade_missing_order pol guarded))"

definition next_after_router ::
  "routing_policy \<Rightarrow> bool \<Rightarrow> ustr option \<Rightarrow> ustr option \<Rightarrow> rat \<Rightarrow> ustr" where
  "next_after_router pol blocked tgt itn conf =
     (if blocked then (asc ''respond'')
      else let key = str_or_empty (or_opt (or_opt tgt itn) (Some (asc ''chitchat'')));
               dest = (case map_of target_by_key key of None \<Rightarrow> (asc ''chitchat'') | Some n \<Rightarrow> n)
           in if dest = (asc ''rag'') \<and> conf < confidence_rag_min pol then (asc ''supervisor'') else dest)"

definition next_after_rag :: "bool \<Rightarrow> ustr option \<Rightarrow> ustr" where
  "next_after_rag upgraded tgt = (if upgraded \<or> tgt = Some (asc ''supervisor'') then (asc ''supervisor'') else (asc ''respond''))"

record rag_upgrade =
  up_reason :: ustr
  up_intent :: ustr
  up_target :: ustr
  up_order_no :: "ustr option"
  up_course_query :: "ustr option"

definition decide_rag_upgrade :: "ustr \<Rightarrow> ustr option \<Rightarrow> ustr option \<Rightarrow> rag_upgrade option" where
  "decide_rag_upgrade query no cq =
     (if \<not> query_has_order_signal query then None
      else Some \<lparr>up_reason = (asc ''order_signal''), up_intent = (asc ''mixed''), up_target = (asc ''supervisor''),
        up_order_no = or_opt no (extract_query_order_no query), up_course_query = cq\<rparr>)"

section \<open>The supervisor's plan\<close>

datatype course_source = Bound | FromOrderProduct

record plan_step =
  step_capability :: ustr
  parallel_group :: nat
  course_source :: "course_source option"

record supervisor_plan =
  plan_action :: ustr
  final_intent :: ustr
  plan_question :: "ustr option"
  plan_steps :: "plan_step list"
  plan_reason :: ustr
  resolved_from_ambiguous :: bool
  bound_course_name :: "ustr option"

definition fallback_tool_name :: "(ustr \<times> ustr) list" where
  "fallback_tool_name = [((asc ''order_query''), (asc ''tool_order_query'')), ((asc ''course_retrieve''), (asc ''retrieve_course_knowledge''))]"

text \<open>The registry maps the id of each registered capability to its tool name.\<close>

definition tool_name_for :: "(ustr \<times> ustr) list \<Rightarrow> ustr \<Rightarrow> ustr" where
  "tool_name_for registry cid = (case map_of registry cid of Some t \<Rightarrow> t
     | None \<Rightarrow> (case map_of fallback_tool_name cid of Some t \<Rightarrow> t | None \<Rightarrow> cid))"

definition tools_to_call :: "(ustr \<times> ustr) list \<Rightarrow> supervisor_plan \<Rightarrow> ustr list" where
  "tools_to_call registry p = foldl (\<lambda>names s. let name = tool_name_for registry (step_capability s)
     in if name \<noteq> [] \<and> name \<notin> set names then names @ [name] else names) [] (plan_steps p)"

definition plan_parallel :: "supervisor_plan \<Rightarrow> bool" where
  "plan_parallel p \<longleftrightarrow> \<not> length (plan_steps p) < 2 \<and>
     (\<exists>g \<in> set (map parallel_group (plan_steps p)).
        length (filter (\<lambda>s. parallel_group s = g) (plan_steps p)) > 1)"

definition missing_course :: ustr where
  "missing_course = [0x672A, 0x627E, 0x5230, 0x8BFE, 0x7A0B] \<comment> \<open>course not found\<close>"

definition bound_course ::
  "ustr \<Rightarrow> ustr option \<Rightarrow> ustr option \<Rightarrow> ustr option \<Rightarrow> ustr option" where
  "bound_course query cquery last_course_name no =
     (let name = strip (str_or_empty last_course_name) in
      if name \<noteq> [] \<and> name \<noteq> missing_course then Some name
      else let cq = strip (str_or_empty cquery); q = strip query in
        if cq = [] then None
        else let has_order_ctx = (strip (str_or_empty no) \<noteq> [] \<or> truthy (extract_query_order_no q)) in
          if cq = q then
            (if has_order_ctx then None
             else if any_in explicit_course_hints cq \<and> length cq \<le> 40 then Some cq else None)
          else if length cq > 80 then None
          else if truthy (extract_query_order_no cq) \<and> length cq > 24 then None
          else Some cq)"

definition plan_supervisor ::
  "ustr option \<Rightarrow> bool \<Rightarrow> ustr option \<Rightarrow> ustr \<Rightarrow> ustr option \<Rightarrow> ustr option \<Rightarrow> ustr option \<Rightarrow> supervisor_plan" where
  "plan_supervisor itn needs question query no cquery last_course_name =
     (if needs \<and> truthy question
      then \<lparr>plan_action = (asc ''ask_user''), final_intent = (asc ''ambiguous''), plan_question = question, plan_steps = [],
        plan_reason = (asc ''needs-clarification''), resolved_from_ambiguous = False, bound_course_name = None\<rparr>
      else
        let fin = (if str_or_empty itn \<in> set supervisor_intents then str_or_empty itn else (asc ''mixed''));
            from_ambiguous = (itn = Some (asc ''ambiguous''));
            resolved = nonempty_opt (strip (str_or_empty no));
            bound = bound_course query cquery last_course_name resolved;
            order_step = \<lparr>step_capability = (asc ''order_query''), parallel_group = 0, course_source = None\<rparr>;
            base = \<lparr>plan_action = (asc ''execute''), final_intent = fin, plan_question = None, plan_steps = [],
              plan_reason = [], resolved_from_ambiguous = from_ambiguous, bound_course_name = None\<rparr>
        in if resolved \<noteq> None \<and> bound \<noteq> None
           then base\<lparr>plan_steps := [order_step,
               \<lparr>step_capability = (asc ''course_retrieve''), parallel_group = 0, course_source = Some Bound\<rparr>],
             plan_reason := (asc ''parallel-bound''), bound_course_name := bound\<rparr>
           else if resolved \<noteq> None \<and> fin = (asc ''mixed'')
           then base\<lparr>final_intent := (asc ''mixed''), plan_steps := [order_step,
               \<lparr>step_capability = (asc ''course_retrieve''), parallel_group = 1, course_source = Some FromOrderProduct\<rparr>],
             plan_reason := (asc ''serial-order-then-course'')\<rparr>
           else if resolved \<noteq> None \<and> fin = (asc ''order'')
           then base\<lparr>final_intent := (asc ''order''), plan_steps := [order_step], plan_reason := (asc ''order-only'')\<rparr>
           else if bound \<noteq> None \<and> resolved = None \<and> fin \<in> {(asc ''course_consult''), (asc ''mixed'')}
           then base\<lparr>final_intent := (asc ''course_consult''),
             plan_steps := [\<lparr>step_capability = (asc ''course_retrieve''), parallel_group = 0, course_source = Some Bound\<rparr>],
             plan_reason := (asc ''course-only''), bound_course_name := bound\<rparr>
           else base\<lparr>plan_action := (asc ''react''), plan_reason := (asc ''unbound-fallback''), bound_course_name := bound\<rparr>)"

section \<open>The supervisor's decision\<close>

record 'c supervisor_decision =
  sd_action :: ustr
  sd_final_intent :: ustr
  sd_tools :: "ustr list"
  sd_parallel :: bool
  sd_question :: "ustr option"
  sd_order_no :: "ustr option"
  sd_course_query :: "ustr option"
  sd_resolved_from_ambiguous :: bool
  sd_answer :: "ustr option"
  sd_reason :: "ustr option"
  sd_cache_updates :: "(ustr, 'c) dict"

definition to_supervisor_decision ::
  "(ustr \<times> ustr) list \<Rightarrow> supervisor_plan \<Rightarrow> ustr option \<Rightarrow> ustr option \<Rightarrow> ustr option \<Rightarrow> (ustr, 'c) dict \<Rightarrow> bool \<Rightarrow>
     ustr option \<Rightarrow> 'c supervisor_decision" where
  "to_supervisor_decision registry p answer no cquery cache_updates escalated escalation_reason =
     (let course = or_opt cquery (bound_course_name p);
          full = \<lparr>sd_action = plan_action p, sd_final_intent = final_intent p, sd_tools = tools_to_call registry p,
            sd_parallel = plan_parallel p, sd_question = None, sd_order_no = no, sd_course_query = course,
            sd_resolved_from_ambiguous = resolved_from_ambiguous p, sd_answer = answer,
            sd_reason = Some (plan_reason p), sd_cache_updates = cache_updates\<rparr>
      in if escalated
         then full\<lparr>sd_final_intent := (asc ''handoff''), sd_reason := or_opt escalation_reason (Some (asc ''tool-escalation''))\<rparr>
         else if plan_action p = (asc ''ask_user'')
         then full\<lparr>sd_action := (asc ''ask_user''), sd_tools := [], sd_parallel := False, sd_question := plan_question p,
           sd_answer := or_opt answer (Some (str_or_empty (plan_question p))), sd_resolved_from_ambiguous := False,
           sd_cache_updates := []\<rparr>
         else full)"

section \<open>Properties of the guards\<close>

definition valid_intents :: "ustr list" where
  "valid_intents = [(asc ''course_consult''), (asc ''order''), (asc ''mixed''), (asc ''ambiguous''), (asc ''chitchat''), (asc ''handoff'')]"

text \<open>A decision whose intent is one of the six and whose target is the one of its intent.\<close>

definition well_routed :: "route_decision \<Rightarrow> bool" where
  "well_routed d \<longleftrightarrow> intent d \<in> set valid_intents \<and> target d = intent_to_target (intent d)"

lemma intent_to_target_simps [simp]:
  "intent_to_target (asc ''course_consult'') = (asc ''rag'')" "intent_to_target (asc ''order'') = (asc ''tool'')"
  "intent_to_target (asc ''mixed'') = (asc ''supervisor'')" "intent_to_target (asc ''ambiguous'') = (asc ''supervisor'')"
  "intent_to_target (asc ''handoff'') = (asc ''handoff'')" "intent_to_target (asc ''chitchat'') = (asc ''chitchat'')"
  by (simp_all add: intent_to_target_def intent_target_def)

lemma intent_to_target_nonempty [simp]: "intent_to_target i \<noteq> []"
  by (auto simp: intent_to_target_def intent_target_def split: option.splits if_splits)

lemma finalize_fields [simp]:
  "intent (finalize_route d) = intent d" "order_no (finalize_route d) = order_no d"
  "course_query (finalize_route d) = course_query d" "0 < confidence (finalize_route d)"
  "needs_clarification (finalize_route d) = needs_clarification d"
  by (simp_all add: finalize_route_def)

lemma finalize_well_routed: "well_routed d \<Longrightarrow> well_routed (finalize_route d)"
  by (simp add: well_routed_def finalize_route_def or_str_def)

lemma finalize_confidence: "c \<le> confidence d \<Longrightarrow> c \<le> 1 \<Longrightarrow> c \<le> confidence (finalize_route d)"
  by (simp add: finalize_route_def)

lemma mk_decision_fields [simp]:
  "intent (mk_decision i why conf no cq nd qn) = i" "order_no (mk_decision i why conf no cq nd qn) = no"
  "course_query (mk_decision i why conf no cq nd qn) = cq"
  "target (mk_decision i why conf no cq nd qn) = intent_to_target i"
  by (simp_all add: mk_decision_def finalize_route_def or_str_def)

lemma mk_decision_well_routed [simp]:
  "well_routed (mk_decision i why conf no cq nd qn) \<longleftrightarrow> i \<in> set valid_intents"
  by (simp add: well_routed_def)

lemma guards_well_routed:
  "well_routed d \<Longrightarrow> well_routed (apply_order_signal pol text d)"
  "well_routed d \<Longrightarrow> well_routed (apply_low_confidence pol d)"
  "well_routed d \<Longrightarrow> well_routed (downgrade_missing_order pol d)"
  by (auto simp: apply_order_signal_def apply_low_confidence_def downgrade_missing_order_def Let_def valid_intents_def
      well_routed_def)

lemma order_signal_intent:
  "well_routed d \<Longrightarrow> query_has_order_signal text \<Longrightarrow>
     intent (apply_order_signal pol text d) \<in> set order_signal_passthrough"
  by (auto simp: apply_order_signal_def Let_def order_signal_passthrough_def)

lemma low_confidence_intent:
  "intent (apply_low_confidence pol d) = (asc ''course_consult'') \<Longrightarrow>
     apply_low_confidence pol d = d \<and> confidence_rag_min pol \<le> confidence d"
  by (auto simp: apply_low_confidence_def split: if_splits)

lemma low_confidence_keeps:
  "intent d \<noteq> (asc ''course_consult'') \<Longrightarrow> apply_low_confidence pol d = d"
  by (simp add: apply_low_confidence_def)

lemma downgrade_intent:
  "intent (downgrade_missing_order pol d) = (asc ''order'') \<Longrightarrow> truthy (order_no (downgrade_missing_order pol d))"
  "intent (downgrade_missing_order pol d) \<notin> {(asc ''order''), (asc ''ambiguous'')} \<Longrightarrow> downgrade_missing_order pol d = d"
  by (auto simp: downgrade_missing_order_def split: if_splits)

lemma default_thresholds: "0 < confidence_rag_min default_policy" "confidence_rag_min default_policy \<le> 1"
  by (simp_all add: default_policy_def)

text \<open>What every finalised decision satisfies.\<close>

definition route_safe :: "ustr \<Rightarrow> route_decision \<Rightarrow> bool" where
  "route_safe text r \<longleftrightarrow> well_routed r \<and> 0 < confidence r \<and>
     (query_has_order_signal text \<longrightarrow> intent r \<in> set order_signal_passthrough) \<and>
     (intent r = (asc ''course_consult'') \<longrightarrow> confidence_rag_min default_policy \<le> confidence r) \<and>
     (intent r = (asc ''order'') \<longrightarrow> truthy (order_no r))"

lemma policy_finalize_safe:
  assumes "well_routed d"
  shows "route_safe text (policy_finalize default_policy text d)"
proof -
  let ?a = "apply_order_signal default_policy text d"
  let ?b = "apply_low_confidence default_policy ?a"
  let ?c = "downgrade_missing_order default_policy ?b"
  have wa: "well_routed ?a" and wb: "well_routed ?b" and wc: "well_routed ?c"
    using assms by (blast intro: guards_well_routed)+
  have sig: "intent ?c \<in> set order_signal_passthrough" if q: "query_has_order_signal text"
  proof -
    have a: "intent ?a \<in> set order_signal_passthrough" by (rule order_signal_intent [OF assms q])
    then have "intent ?a \<noteq> (asc ''course_consult'')" by (auto simp: order_signal_passthrough_def)
    with a have "intent ?b \<in> set order_signal_passthrough" by (simp add: low_confidence_keeps)
    then show ?thesis by (auto simp: downgrade_missing_order_def order_signal_passthrough_def)
  qed
  have conf: "confidence_rag_min default_policy \<le> confidence ?c" if c: "intent ?c = (asc ''course_consult'')"
  proof -
    from c have eq: "?c = ?b" by (intro downgrade_intent(2)) auto
    with c low_confidence_intent [of default_policy ?a] show ?thesis by simp
  qed
  have ord: "truthy (order_no ?c)" if "intent ?c = (asc ''order'')" by (rule downgrade_intent(1) [OF that])
  have pos: "0 < confidence (finalize_route ?c)" by simp
  show ?thesis unfolding policy_finalize_def Let_def route_safe_def
    using finalize_well_routed [OF wc] sig conf ord pos finalize_confidence [OF _ default_thresholds(2), of ?c] by simp
qed

lemma next_after_safe:
  assumes "route_safe text r"
  shows "next_after_router default_policy False (Some (target r)) (Some (intent r)) (confidence r) = target r"
  using assms
  by (auto simp: route_safe_def well_routed_def valid_intents_def next_after_router_def target_by_key_def)

text \<open>
  The exit of intent recognition. Whatever was recognised, a question with an order
  signal is never answered as small talk or from the course branch, a course question only
  reaches the course branch with confidence of at least 0.7, and an order question only
  reaches the order tool with an order number; the decision's target is that of its intent,
  and the router's edge goes exactly there.
\<close>

lemma finalized_route_is_safe:
  assumes "intent d \<in> set valid_intents" and "target d = intent_to_target (intent d)"
  shows "(let r = policy_finalize default_policy text d in
     target r = intent_to_target (intent r) \<and> 0 < confidence r \<and>
     (query_has_order_signal text \<longrightarrow> intent r \<notin> {(asc ''course_consult''), (asc ''chitchat'')}) \<and>
     (intent r = (asc ''course_consult'') \<longrightarrow> 7/10 \<le> confidence r) \<and>
     (intent r = (asc ''order'') \<longrightarrow> truthy (order_no r)) \<and>
     next_after_router default_policy False (Some (target r)) (Some (intent r)) (confidence r) = target r)"
proof -
  have s: "route_safe text (policy_finalize default_policy text d)"
    by (rule policy_finalize_safe) (simp add: well_routed_def assms)
  have t: "confidence_rag_min default_policy = 7/10" by (simp add: default_policy_def)
  show ?thesis using s next_after_safe [OF s] unfolding Let_def route_safe_def well_routed_def t
    by (auto simp: order_signal_passthrough_def)
qed

definition course_decision :: route_decision where
  "course_decision = \<lparr>intent = (asc ''course_consult''), target = (asc ''rag''), confidence = 1/2, order_no = None,
     course_query = Some (asc ''Java''), needs_clarification = False, clarification_question = None, reason = (asc ''llm-intent'')\<rparr>"

section \<open>Properties of the plan\<close>

lemma bound_course_nonempty [simp]: "bound_course query cq lcn no \<noteq> Some []"
  by (auto simp: bound_course_def Let_def split: if_splits)

text \<open>A step that reads what another step provides runs in a later group.\<close>

definition plan_ok :: "ustr option \<Rightarrow> supervisor_plan \<Rightarrow> bool" where
  "plan_ok no p \<longleftrightarrow>
     (plan_action p = (asc ''execute'') \<longleftrightarrow> plan_steps p \<noteq> []) \<and>
     (\<forall>s \<in> set (plan_steps p).
        (step_capability s = (asc ''order_query'') \<longrightarrow> strip (str_or_empty no) \<noteq> []) \<and>
        (course_source s = Some Bound \<longrightarrow> truthy (bound_course_name p)) \<and>
        (course_source s = Some FromOrderProduct \<longrightarrow>
           (\<exists>o' \<in> set (plan_steps p). step_capability o' = (asc ''order_query'') \<and> parallel_group o' < parallel_group s)))"

text \<open>
  The supervisor's plan can be executed. It asks back only with a question; it executes
  only when it has steps; an order step always has an order number, a course step either has
  a bound course name or runs in a later group than the order step that provides it; and a
  sentence that is the whole question and mentions an order is never taken for a course name.
\<close>

lemma plan_is_executable:
  "plan_ok no (plan_supervisor itn needs question query no cq lcn) \<and>
   (plan_action (plan_supervisor itn needs question query no cq lcn) = (asc ''ask_user'') \<longleftrightarrow> needs \<and> truthy question) \<and>
   (bound_course_name (plan_supervisor itn needs question query no cq lcn) = Some c \<and>
      strip (str_or_empty lcn) \<in> {[], missing_course} \<and>
      (strip (str_or_empty no) \<noteq> [] \<or> truthy (extract_query_order_no (strip query))) \<longrightarrow> c \<noteq> strip query)"
proof (intro conjI)
  show "plan_ok no (plan_supervisor itn needs question query no cq lcn)"
    unfolding plan_ok_def plan_supervisor_def Let_def
    by (auto simp: nonempty_opt_def)
  show "plan_action (plan_supervisor itn needs question query no cq lcn) = (asc ''ask_user'') \<longleftrightarrow> needs \<and> truthy question"
    unfolding plan_supervisor_def Let_def by simp
  show "bound_course_name (plan_supervisor itn needs question query no cq lcn) = Some c \<and>
      strip (str_or_empty lcn) \<in> {[], missing_course} \<and>
      (strip (str_or_empty no) \<noteq> [] \<or> truthy (extract_query_order_no (strip query))) \<longrightarrow> c \<noteq> strip query"
  proof
    assume a: "bound_course_name (plan_supervisor itn needs question query no cq lcn) = Some c \<and>
      strip (str_or_empty lcn) \<in> {[], missing_course} \<and>
      (strip (str_or_empty no) \<noteq> [] \<or> truthy (extract_query_order_no (strip query)))"
    then have "bound_course query cq lcn (nonempty_opt (strip (str_or_empty no))) = Some c"
      unfolding plan_supervisor_def Let_def by (auto split: if_splits)
    with a show "c \<noteq> strip query"
      by (auto simp: bound_course_def Let_def nonempty_opt_def split: if_splits)
  qed
qed

end
