(* ===== verification/Window.thy ===== *)
theory Window
  imports Order_Service
begin

text \<open>
  \<open>app/context/window.py\<close>: which recent messages go into the prompt. Messages carry their
  role, text and checkpoint id. The tokenizer (tiktoken) is a parameter: the length of the
  encoding of a text, \<open>None\<close> when it is not available; the calibration and the byte
  approximation are the code's.
\<close>

section \<open>Messages\<close>

datatype role = Human | AI | System | OtherRole

record message =
  msg_role :: role
  msg_text :: ustr
  msg_id :: "ustr option"

definition human :: "ustr \<Rightarrow> message" where
  "human t = \<lparr>msg_role = Human, msg_text = t, msg_id = None\<rparr>"

definition ai :: "ustr \<Rightarrow> message" where
  "ai t = \<lparr>msg_role = AI, msg_text = t, msg_id = None\<rparr>"

definition is_human :: "message \<Rightarrow> bool" where
  "is_human m \<longleftrightarrow> msg_role m = Human"

definition is_ai :: "message \<Rightarrow> bool" where
  "is_ai m \<longleftrightarrow> msg_role m = AI"

section \<open>Tokens\<close>

record tokenizer =
  encoding_length :: "(ustr \<Rightarrow> nat) option"
  estimate_ratio :: rat

definition message_token_overhead :: int where
  "message_token_overhead = 4"

definition count_tokens :: "tokenizer \<Rightarrow> ustr \<Rightarrow> int" where
  "count_tokens tk text =
     (if text = [] then 0
      else let raw = (case encoding_length tk of
               Some enc \<Rightarrow> int (enc text)
             | None \<Rightarrow> max 1 ((int (length (utf8 text)) + 3) div 4));
             scaled = round_even (of_int raw * max (1/100) (estimate_ratio tk))
           in max 1 scaled)"

definition message_token_count :: "tokenizer \<Rightarrow> message \<Rightarrow> int" where
  "message_token_count tk m = count_tokens tk (msg_text m) + message_token_overhead"

definition prompt_summary_line :: "ustr option \<Rightarrow> ustr" where
  "prompt_summary_line s =
     (let text = strip (str_or_empty s) in if text = [] then [] else [0x66F4, 0x65E9, 0x5BF9, 0x8BDD, 0x6458, 0x8981, 0xFF1A] \<comment> \<open>earlier summary:\<close> @ text)"

definition prompt_summary_tokens :: "tokenizer \<Rightarrow> ustr option \<Rightarrow> int" where
  "prompt_summary_tokens tk s =
     (let line = prompt_summary_line s in if line \<noteq> [] then count_tokens tk line else 0)"

record history_settings =
  history_token_budget :: int
  history_min_messages :: int

definition history_limits :: "history_settings \<Rightarrow> int option \<Rightarrow> int option \<Rightarrow> int \<times> int" where
  "history_limits cfg token_budget min_keep =
     (let budget = (case token_budget of None \<Rightarrow> history_token_budget cfg | Some b \<Rightarrow> b);
          keep = (case min_keep of None \<Rightarrow> history_min_messages cfg | Some k \<Rightarrow> k)
      in (max 1 budget, max 1 keep))"

section \<open>Selecting the window\<close>

text \<open>The loop over the reversed messages; \<open>selected\<close> is newest first.\<close>

fun select_loop ::
  "tokenizer \<Rightarrow> int \<Rightarrow> int \<Rightarrow> message list \<Rightarrow> message list \<Rightarrow> int \<Rightarrow> message list" where
  "select_loop tk budget keep [] selected used = selected"
| "select_loop tk budget keep (m # ms) selected used =
     (let c = message_token_count tk m in
      if selected \<noteq> [] \<and> used + c > budget \<and> int (length selected) \<ge> keep then selected
      else select_loop tk budget keep ms (selected @ [m]) (used + c))"

definition select_messages_by_tokens ::
  "tokenizer \<Rightarrow> history_settings \<Rightarrow> message list \<Rightarrow> int option \<Rightarrow> int option \<Rightarrow> message list" where
  "select_messages_by_tokens tk cfg messages token_budget min_keep =
     (if messages = [] then []
      else let (budget, keep) = history_limits cfg token_budget min_keep
           in rev (select_loop tk budget keep (rev messages) [] 0))"

text \<open>\<open>selected[-limit:]\<close>; with \<open>limit = 0\<close> the slice \<open>[-0:]\<close> is the whole list.\<close>

definition recent_messages ::
  "tokenizer \<Rightarrow> history_settings \<Rightarrow> message list \<Rightarrow> int option \<Rightarrow> int option \<Rightarrow> int option \<Rightarrow> message list" where
  "recent_messages tk cfg messages limit token_budget min_keep =
     (let selected = select_messages_by_tokens tk cfg messages token_budget min_keep
      in (case limit of
            Some l \<Rightarrow> if l \<ge> 0 then (if l = 0 then selected else last_n (nat l) selected) else selected
          | None \<Rightarrow> selected))"

definition recent_human_texts :: "message list \<Rightarrow> bool \<Rightarrow> ustr list" where
  "recent_human_texts messages exclude_last =
     (let items = map msg_text (filter is_human messages);
          items = (if exclude_last \<and> items \<noteq> [] then butlast items else items)
      in rev items)"

definition order_no_from_history :: "message list \<Rightarrow> ustr option" where
  "order_no_from_history messages =
     (case filter truthy (map extract_order_no (recent_human_texts messages False)) of
        [] \<Rightarrow> None | x # _ \<Rightarrow> x)"

definition overflow_messages ::
  "tokenizer \<Rightarrow> history_settings \<Rightarrow> message list \<Rightarrow> int option \<Rightarrow> int option \<Rightarrow> message list" where
  "overflow_messages tk cfg messages token_budget min_keep =
     (let selected = select_messages_by_tokens tk cfg messages token_budget min_keep
      in if length selected \<ge> length messages then []
         else take (length messages - length selected) messages)"

definition format_line :: "message \<Rightarrow> ustr option" where
  "format_line m =
     (let text = strip (msg_text m);
          role = (if is_human m then Some [0x7528, 0x6237] \<comment> \<open>user\<close> else if is_ai m then Some [0x52A9, 0x624B] \<comment> \<open>assistant\<close> else None)
      in (case role of None \<Rightarrow> None | Some r \<Rightarrow> if text = [] then None else Some (r @ [0xFF1A] \<comment> \<open>:\<close> @ text)))"

definition format_history_for_prompt ::
  "tokenizer \<Rightarrow> history_settings \<Rightarrow> message list \<Rightarrow> int option \<Rightarrow> int option \<Rightarrow> ustr option \<Rightarrow> ustr" where
  "format_history_for_prompt tk cfg messages limit token_budget session_summary =
     (let line = prompt_summary_line session_summary;
          token_budget = (if line \<noteq> []
            then Some (max 1 (fst (history_limits cfg token_budget None) - prompt_summary_tokens tk session_summary))
            else token_budget);
          body = concat (map (\<lambda>m. case format_line m of None \<Rightarrow> [] | Some l \<Rightarrow> [l])
            (recent_messages tk cfg messages limit token_budget None))
      in join [10] ((if line \<noteq> [] then [line] else []) @ body))"

definition short_query_chars :: nat where
  "short_query_chars = 12"

definition expand_query :: "ustr \<Rightarrow> message list \<Rightarrow> ustr option \<Rightarrow> ustr option \<Rightarrow> ustr" where
  "expand_query query messages last_course_query last_course_name =
     (let text = strip query in
      if length text \<ge> short_query_chars then text
      else let course_hint = strip (str_or_empty (or_opt last_course_name last_course_query)) in
        if course_hint \<noteq> [] then (if text \<noteq> [] then strip (course_hint @ (asc '' '') @ text) else course_hint)
        else let priors = recent_human_texts messages True in
          if priors = [] then text
          else let context = join (asc '' '') (rev (take 2 priors))
               in if text \<noteq> [] then strip (context @ (asc '' '') @ text) else context)"

text \<open>The ids of the messages to remove from the checkpoint (\<open>RemoveMessage\<close>).\<close>

definition trim_message_updates ::
  "tokenizer \<Rightarrow> history_settings \<Rightarrow> message list \<Rightarrow> int option \<Rightarrow> int option \<Rightarrow> int option \<Rightarrow> ustr list" where
  "trim_message_updates tk cfg messages keep token_budget min_keep =
     (let overflow = overflow_messages tk cfg messages token_budget (case keep of Some k \<Rightarrow> Some k | None \<Rightarrow> min_keep)
      in concat (map (\<lambda>m. case msg_id m of Some i \<Rightarrow> if i \<noteq> [] then [i] else [] | None \<Rightarrow> []) overflow))"

section \<open>The window is the longest admissible suffix\<close>

definition cost :: "tokenizer \<Rightarrow> message list \<Rightarrow> int" where
  "cost tk ms = sum_list (map (message_token_count tk) ms)"

lemma message_token_count_pos: "4 \<le> message_token_count tk m"
proof -
  have "0 \<le> count_tokens tk (msg_text m)"
    unfolding count_tokens_def Let_def
    by (auto split: if_split intro: order.trans [OF zero_le_one max.cobounded1])
  then show ?thesis by (simp add: message_token_count_def message_token_overhead_def)
qed

lemma cost_append [simp]: "cost tk (xs @ ys) = cost tk xs + cost tk ys"
  by (simp add: cost_def)

lemma cost_Cons [simp]: "cost tk (x # xs) = message_token_count tk x + cost tk xs" "cost tk [] = 0"
  by (simp_all add: cost_def)

lemma cost_nonneg: "0 \<le> cost tk ms"
proof (induction ms)
  case (Cons m ms)
  with message_token_count_pos [of tk m] show ?case by simp
qed simp

lemma cost_rev [simp]: "cost tk (rev ms) = cost tk ms"
  by (induction ms) simp_all

text \<open>A list of messages that fits: within budget, or not longer than what must be kept.\<close>

definition fits :: "tokenizer \<Rightarrow> int \<Rightarrow> int \<Rightarrow> message list \<Rightarrow> bool" where
  "fits tk budget keep ms \<longleftrightarrow> cost tk ms \<le> budget \<or> int (length ms) \<le> keep \<or> length ms \<le> 1"

lemma select_loop_spec:
  "used = cost tk selected \<Longrightarrow> fits tk budget keep selected \<Longrightarrow> 1 \<le> keep \<Longrightarrow>
     \<exists>k \<le> length ms. select_loop tk budget keep ms selected used = selected @ take k ms \<and>
       fits tk budget keep (selected @ take k ms) \<and>
       (k < length ms \<longrightarrow> \<not> fits tk budget keep (selected @ take (Suc k) ms) )"
proof (induction ms arbitrary: selected used)
  case Nil
  then show ?case by simp
next
  case (Cons m ms)
  show ?case
  proof (cases "selected \<noteq> [] \<and> used + message_token_count tk m > budget \<and> int (length selected) \<ge> keep")
    case True
    with Cons.prems show ?thesis
      by (intro exI [of _ 0]) (auto simp: fits_def Let_def)
  next
    case False
    have "fits tk budget keep (selected @ [m])"
      using False Cons.prems(1) by (auto simp: fits_def)
    moreover have "used + message_token_count tk m = cost tk (selected @ [m])" using Cons.prems(1) by simp
    ultimately obtain k where k: "k \<le> length ms"
      "select_loop tk budget keep ms (selected @ [m]) (used + message_token_count tk m) = (selected @ [m]) @ take k ms"
      "fits tk budget keep ((selected @ [m]) @ take k ms)"
      "k < length ms \<longrightarrow> \<not> fits tk budget keep ((selected @ [m]) @ take (Suc k) ms)"
      using Cons.IH [of "used + message_token_count tk m" "selected @ [m]"] Cons.prems(3) by blast
    show ?thesis
    proof (intro exI [of _ "Suc k"] conjI)
      show "select_loop tk budget keep (m # ms) selected used = selected @ take (Suc k) (m # ms)"
        using False k(2) by (simp add: Let_def)
    qed (use k in auto)
  qed
qed

lemma take_rev_suffix: "rev (take k (rev ms)) = last_n k ms"
  by (simp add: last_n_def rev_take)

lemma last_n_split:
  assumes "k \<le> n" and "n \<le> length ms"
  shows "last_n n ms = take (n - k) (last_n n ms) @ last_n k ms"
proof -
  have "drop (n - k) (last_n n ms) = last_n k ms" using assms by (simp add: last_n_def)
  then show ?thesis by (metis append_take_drop_id)
qed

lemma fits_rev [simp]: "fits tk budget keep (rev ms) = fits tk budget keep ms"
  by (simp add: fits_def)

text \<open>
  C11: The prompt window is the longest suffix of the conversation that fits: the messages are
  the newest ones in their order, they stay within the token budget unless the guaranteed
  minimum (at least one message) alone exceeds it, one more message would not fit, and the
  overflow is exactly the rest, so no message is lost or counted twice.
\<close>

theorem window_is_longest_fitting_suffix:
  "(let sel = select_messages_by_tokens tk cfg ms tb mk;
        budget = fst (history_limits cfg tb mk); keep = snd (history_limits cfg tb mk)
    in sel = last_n (length sel) ms \<and> overflow_messages tk cfg ms tb mk @ sel = ms \<and>
       fits tk budget keep sel \<and>
       (\<forall>n. length sel < n \<and> n \<le> length ms \<longrightarrow> \<not> fits tk budget keep (last_n n ms)))"
proof -
  obtain budget keep where l: "history_limits cfg tb mk = (budget, keep)" by (metis surj_pair)
  then have k1: "1 \<le> keep" by (auto simp: history_limits_def Let_def)
  obtain k where k: "k \<le> length ms"
    "select_loop tk budget keep (rev ms) [] 0 = take k (rev ms)"
    "fits tk budget keep (take k (rev ms))"
    "k < length ms \<longrightarrow> \<not> fits tk budget keep (take (Suc k) (rev ms))"
    using select_loop_spec [of 0 tk "[]" budget keep "rev ms"] k1 by (auto simp: fits_def)
  have sel: "select_messages_by_tokens tk cfg ms tb mk = last_n k ms"
    using k(2) by (simp add: select_messages_by_tokens_def l take_rev_suffix) (simp add: last_n_def)
  have len: "length (last_n k ms) = k" using k(1) by (simp add: last_n_def)
  have over: "overflow_messages tk cfg ms tb mk @ last_n k ms = ms"
    using k(1) by (simp add: overflow_messages_def sel Let_def len) (simp add: last_n_def)
  have mono: "\<not> fits tk budget keep (last_n (Suc k) ms) \<Longrightarrow> k < n \<Longrightarrow> n \<le> length ms \<Longrightarrow> \<not> fits tk budget keep (last_n n ms)" for n
  proof -
    assume a: "\<not> fits tk budget keep (last_n (Suc k) ms)" "k < n" "n \<le> length ms"
    have "last_n n ms = take (n - Suc k) (last_n n ms) @ last_n (Suc k) ms"
      by (rule last_n_split) (use a in simp_all)
    then have "cost tk (last_n (Suc k) ms) \<le> cost tk (last_n n ms)"
      using cost_nonneg [of tk "take (n - Suc k) (last_n n ms)"] by (metis cost_append le_add_same_cancel2)
    moreover have "length (last_n (Suc k) ms) \<le> length (last_n n ms)" using a(2,3) by (simp add: last_n_def)
    ultimately have "cost tk (last_n (Suc k) ms) \<le> cost tk (last_n n ms)" "length (last_n (Suc k) ms) \<le> length (last_n n ms)" .
    with a(1) show ?thesis by (auto simp: fits_def)
  qed
  have "fits tk budget keep (last_n k ms)" using k(3) by (simp flip: take_rev_suffix)
  moreover have "k < length ms \<longrightarrow> \<not> fits tk budget keep (last_n (Suc k) ms)"
    using k(4) by (simp flip: take_rev_suffix)
  ultimately have "\<forall>n. k < n \<and> n \<le> length ms \<longrightarrow> \<not> fits tk budget keep (last_n n ms)"
    by (metis mono order.strict_trans2)
  with \<open>fits tk budget keep (last_n k ms)\<close> over show ?thesis
    unfolding Let_def sel l len fst_conv snd_conv by blast
qed

definition demo_tokenizer :: tokenizer where
  "demo_tokenizer = \<lparr>encoding_length = Some length, estimate_ratio = 1\<rparr>"

definition demo_turns :: "message list" where
  "demo_turns = [human (asc ''aaaaaaaaaa''), ai (asc ''bb''), human (asc ''c'')]"

definition demo_history_settings :: history_settings where
  "demo_history_settings = \<lparr>history_token_budget = 12, history_min_messages = 1\<rparr>"

theorem window_witness:
  "select_messages_by_tokens demo_tokenizer demo_history_settings demo_turns None None
     = [ai (asc ''bb''), human (asc ''c'')] \<and>
   \<not> fits demo_tokenizer 12 1 (last_n 3 demo_turns)"
proof -
  have sel: "select_messages_by_tokens demo_tokenizer demo_history_settings demo_turns None None
      = [ai (asc ''bb''), human (asc ''c'')]" by code_simp
  have l: "history_limits demo_history_settings None None = (12, 1)" "length demo_turns = 3" by code_simp+
  from window_is_longest_fitting_suffix [of demo_tokenizer demo_history_settings demo_turns None None]
  show ?thesis by (simp add: sel l Let_def)
qed

end
