(* ===== verification/Capabilities.thy ===== *)
theory Capabilities
  imports Order_Capability Routing Window
begin

text \<open>
  The capability registry (\<open>app/capabilities/types.py\<close>, \<open>registry.py\<close>), the two registered
  capabilities (\<open>OrderCapability\<close> of \<open>order.py\<close>, \<open>course.py\<close>) and the supervisor that runs a
  plan of \<open>Routing\<close> over them (\<open>app/agents/supervisor.py\<close>). The retrieval behind
  \<open>consult_course\<close> is the argument \<open>consult\<close>: any function from the request to a result or an
  exception. Steps of one group run concurrently in the code; here they run in plan order,
  each from the observations before the group, which is what each of them sees. They share
  only the tool cache, in which they touch different keys, and the failure tracker, in which
  they count under different tools.
\<close>

section \<open>Types\<close>

record capability_spec =
  cs_id :: ustr
  cs_tool_name :: ustr
  cs_description :: ustr
  cs_accepts :: "ustr list"
  cs_provides :: "ustr list"

record exec_context =
  ec_query :: ustr
  ec_tenant :: ustr
  ec_user :: ustr
  ec_history :: "message list option"
  ec_summary :: "ustr option"
  ec_order_no :: "ustr option"
  ec_last_order_no :: "ustr option"
  ec_course_query :: "ustr option"
  ec_last_course_query :: "ustr option"
  ec_last_course_name :: "ustr option"
  ec_bound_course_name :: "ustr option"
  ec_persist :: bool

text \<open>Updates of the session state, keyed by the field of the graph state.\<close>

datatype cache_value = CacheOrder "order_report snapshot" | CacheCourse "course_result snapshot" | CacheKey ustr

type_synonym cache_updates = "(ustr, cache_value) dict"

text \<open>The observations of a run: \<open>None\<close> where the dictionary has no such key.\<close>

record observations =
  ob_product_name :: "ustr option"
  ob_course_code :: "ustr option"
  ob_order_no :: "ustr option"
  ob_course_name :: "ustr option"
  ob_cache :: "cache_updates option"

definition no_observations :: observations where
  "no_observations = \<lparr>ob_product_name = None, ob_course_code = None, ob_order_no = None, ob_course_name = None, ob_cache = None\<rparr>"

record capability_result =
  ca_id :: ustr
  ca_ok :: bool
  ca_text :: "ustr option"
  ca_data :: "tool_payload option"
  ca_observations :: observations
  ca_error :: "ustr option"
  ca_escalated :: bool

text \<open>The keyword arguments that \<open>bind\<close> hands to \<open>ainvoke\<close>.\<close>

record kwargs =
  kw_query :: "ustr option"
  kw_order_no :: "ustr option"
  kw_last_order_no :: "ustr option"
  kw_persist :: bool
  kw_last_course_query :: "ustr option"
  kw_last_course_name :: "ustr option"
  kw_course_code :: "ustr option"

record course_request =
  rq_query :: ustr
  rq_tenant :: ustr
  rq_history :: "message list option"
  rq_last_course_query :: "ustr option"
  rq_last_course_name :: "ustr option"
  rq_summary :: "ustr option"
  rq_course_code :: "ustr option"

text \<open>A row of the course table: tenant, code, name; \<open>None\<close>: the table cannot be read.\<close>

type_synonym course_catalog = "(ustr \<times> ustr \<times> ustr) list option"

record 's cap_env =
  ce_tools :: "'s tool_env"
  ce_pool :: "unit pool_result"
  ce_consult :: "course_request \<Rightarrow> exn + course_result"
  ce_catalog :: course_catalog

record 's cap_world =
  cw_tools :: "'s tool_world"
  cw_requests :: "course_request list"

text \<open>What a capability raises.\<close>

datatype cap_error = CourseFailed exn | AssertionFailed | UnknownCapability ustr

record 's capability =
  cap_spec :: capability_spec
  cap_bind :: "'s cap_env \<Rightarrow> plan_step \<Rightarrow> exec_context \<Rightarrow> observations \<Rightarrow> kwargs option"
  cap_invoke :: "'s cap_env \<Rightarrow> 's cap_world \<Rightarrow> exec_context \<Rightarrow> kwargs \<Rightarrow> (cap_error + capability_result) \<times> 's cap_world"

section \<open>Registry\<close>

type_synonym 's registry = "(ustr, 's capability) dict"

text \<open>\<open>None\<close>: an empty id raises.\<close>

definition register :: "'s capability \<Rightarrow> 's registry \<Rightarrow> 's registry option" where
  "register c reg = (if cs_id (cap_spec c) = [] then None else Some (AList.update (cs_id (cap_spec c)) c reg))"

definition get_capability :: "'s registry \<Rightarrow> ustr \<Rightarrow> cap_error + 's capability" where
  "get_capability reg cid = (case map_of reg cid of None \<Rightarrow> Inl (UnknownCapability cid) | Some c \<Rightarrow> Inr c)"

definition list_capabilities :: "'s registry \<Rightarrow> 's capability list" where
  "list_capabilities reg = map snd reg"

definition spec_for :: "'s registry \<Rightarrow> ustr \<Rightarrow> capability_spec option" where
  "spec_for reg cid = map_option cap_spec (map_of reg cid)"

definition unregister :: "ustr \<Rightarrow> 's registry \<Rightarrow> 's registry" where
  "unregister cid reg = AList.delete cid reg"

text \<open>The tool names that \<open>tool_name_for\<close> of \<open>Routing\<close> looks up.\<close>

definition tool_names_of :: "'s registry \<Rightarrow> (ustr \<times> ustr) list" where
  "tool_names_of reg = map (\<lambda>(cid, c). (cid, cs_tool_name (cap_spec c))) reg"

section \<open>The answer of a course lookup\<close>

definition evidence_line :: "evidence_section \<Rightarrow> ustr" where
  "evidence_line e =
     (let label = or_str (es_module_name e) (or_str (es_section_path e) (es_source e))
      in (asc ''- '') @ es_source e @ [32, 0xB7, 32] \<comment> \<open>dot\<close> @ label @ [0xFF1A] \<comment> \<open>:\<close> @ es_excerpt e)"

definition module_lines :: "nat \<Rightarrow> course_module \<Rightarrow> ustr list" where
  "module_lines i m =
     (let topics = (if cm_topics m \<noteq> [] then join [0x3001] \<comment> \<open>comma\<close> (cm_topics m) else [0x89C1, 0x5927, 0x7EB2] \<comment> \<open>see the outline\<close>);
          extra = (if cm_duration_hours m \<noteq> 0 then [0xFF08, 0x7EA6, 32] \<comment> \<open>(about\<close> @ format_g (cm_duration_hours m) @ [32, 0x5C0F, 0x65F6, 0xFF09] \<comment> \<open>hours)\<close> else [])
      in [show_nat i @ (asc ''. **'') @ cm_name m @ (asc ''**'') @ extra @ [0xFF1A] \<comment> \<open>:\<close> @ topics] @
         (if cm_outcome m \<noteq> [] then [(asc ''   - '' @ [0x5B66, 0x4E60, 0x76EE, 0x6807, 0xFF1A]) \<comment> \<open>goal\<close> @ cm_outcome m] else []))"

definition stage_line :: "learning_stage \<Rightarrow> ustr" where
  "stage_line st = (asc ''- **'') @ ls_stage st @ [42, 42, 0xFF1A] \<comment> \<open>:\<close> @ join [32, 0x2192, 32] \<comment> \<open>arrow\<close> (ls_modules st) @ [0x3002, 0x76EE, 0x6807, 0xFF1A] \<comment> \<open>. goal\<close> @ ls_goal st"

definition format_course_answer :: "course_result \<Rightarrow> ustr" where
  "format_course_answer res =
     (if cc_modules res = []
      then (if cc_evidence res \<noteq> []
            then join [10] ([cc_summary res, [], (asc ''### '' @ [0x53C2, 0x8003, 0x4F9D, 0x636E]) \<comment> \<open>evidence\<close>] @ map evidence_line (cc_evidence res))
            else cc_summary res)
      else join [10]
        ([(asc ''## '') @ cc_name res, cc_summary res, [], (asc ''### '' @ [0x8BFE, 0x7A0B, 0x6A21, 0x5757]) \<comment> \<open>modules\<close>] @
         concat (map (\<lambda>i. module_lines (i + 1) (cc_modules res ! i)) [0..<length (cc_modules res)]) @
         (if cc_path res \<noteq> [] then ([10] @ asc ''### '' @ [0x5B66, 0x4E60, 0x8DEF, 0x5F84]) \<comment> \<open>path\<close> # map stage_line (cc_path res) else []) @
         (if cc_prerequisites res \<noteq> [] then ([10] @ asc ''### '' @ [0x524D, 0x7F6E, 0x8981, 0x6C42]) \<comment> \<open>prerequisites\<close> # map (\<lambda>p. (asc ''- '') @ p) (cc_prerequisites res) else []) @
         (if cc_evidence res \<noteq> [] then ([10] @ asc ''### '' @ [0x53C2, 0x8003, 0x4F9D, 0x636E]) \<comment> \<open>evidence\<close> # map evidence_line (cc_evidence res) else [])))"

section \<open>The order capability\<close>

definition order_spec :: capability_spec where
  "order_spec = \<lparr>cs_id = tool_order, cs_tool_name = (asc ''tool_order_query''),
     cs_description = [0x6309, 0x8BA2, 0x5355, 0x53F7, 0x67E5, 0x8BE2, 0x652F, 0x4ED8, 47, 0x5F00, 0x901A, 47, 0x9000, 0x6B3E, 0x8FDB, 0x5EA6, 0xFF0C, 0x5E76, 0x751F, 0x6210, 0x53EF, 0x89C6, 0x5316, 0x62A5, 0x544A, 0x3002] \<comment> \<open>look up the progress of an order by its number\<close>,
     cs_accepts = [(asc ''order_no'')], cs_provides = [(asc ''product_name''), (asc ''order_no''), (asc ''course_code'')]\<rparr>"

definition order_bind :: "plan_step \<Rightarrow> exec_context \<Rightarrow> observations \<Rightarrow> kwargs option" where
  "order_bind step ctx obs =
     Some \<lparr>kw_query = Some (ec_query ctx), kw_order_no = ec_order_no ctx,
       kw_last_order_no = or_opt (ec_last_order_no ctx) (ec_order_no ctx), kw_persist = ec_persist ctx,
       kw_last_course_query = None, kw_last_course_name = None, kw_course_code = None\<rparr>"

definition order_cache_dict :: "order_report snapshot option \<Rightarrow> cache_updates" where
  "order_cache_dict u = (case u of None \<Rightarrow> [] | Some sn \<Rightarrow> [((asc ''last_order_structured''), CacheOrder sn)])"

definition failed_result :: "ustr \<Rightarrow> ustr option \<Rightarrow> ustr \<Rightarrow> bool \<Rightarrow> capability_result" where
  "failed_result cid shown error escalated =
     \<lparr>ca_id = cid, ca_ok = False, ca_text = shown, ca_data = None, ca_observations = no_observations,
       ca_error = Some error, ca_escalated = escalated\<rparr>"

definition order_result :: "'s tool_env \<Rightarrow> order_report \<Rightarrow> capability_result" where
  "order_result env rep =
     \<lparr>ca_id = tool_order, ca_ok = (\<not> failed_status (current_status rep)), ca_text = Some (format_order_answer rep),
       ca_data = Some (OrderPayload rep),
       ca_observations = no_observations\<lparr>ob_product_name := usable_product_name rep, ob_course_code := usable_course_code rep,
         ob_order_no := nonempty_opt (rep_order_no rep),
         ob_cache := Some (order_cache_dict (session_updates_for_order rep (te_now env)))\<rparr>,
       ca_error = None, ca_escalated = False\<rparr>"

definition order_invoke ::
  "'s cap_env \<Rightarrow> 's cap_world \<Rightarrow> exec_context \<Rightarrow> kwargs \<Rightarrow> (cap_error + capability_result) \<times> 's cap_world" where
  "order_invoke env w ctx kw =
     (let (res, tools) = query_order (ce_tools env) (ce_pool env) (cw_tools w) (str_or_empty (or_opt (kw_query kw) (Some (ec_query ctx))))
            (or_opt (kw_order_no kw) (ec_order_no ctx)) (ec_tenant ctx) (ec_user ctx)
            (or_opt (kw_last_order_no kw) (or_opt (ec_last_order_no ctx) (ec_order_no ctx))) (kw_persist kw) False True;
          w = w\<lparr>cw_tools := tools\<rparr>
      in (case res of
            Inl (EscalatedTo d) \<Rightarrow> Inr (failed_result tool_order (esc_message d) (asc ''escalated'') True)
          | Inl (BadOrder MissingOrder) \<Rightarrow> Inl AssertionFailed
          | Inl (BadOrder e) \<Rightarrow> Inr (let m = service_error_text (ce_tools env) e in failed_result tool_order (Some m) m False)
          | Inl (QueryTimeout m) \<Rightarrow> Inr (failed_result tool_order (Some m) m False)
          | Inr rep \<Rightarrow> Inr (order_result (ce_tools env) rep), w))"

definition order_capability :: "'s capability" where
  "order_capability = \<lparr>cap_spec = order_spec, cap_bind = (\<lambda>_. order_bind), cap_invoke = order_invoke\<rparr>"


section \<open>The course capability\<close>

datatype course_error = CourseRaised exn | CourseEscalated escalation_decision

text \<open>\<open>load_course_catalog\<close> reads the rows of a tenant; a row that repeats a code replaces the name.\<close>

definition load_course_catalog :: "course_catalog \<Rightarrow> ustr \<Rightarrow> (ustr \<times> ustr, ustr) dict" where
  "load_course_catalog rows tenant_id =
     (case rows of None \<Rightarrow> []
      | Some rs \<Rightarrow> foldl (\<lambda>d (tn, code, name). AList.update (tn, code) name d) []
          (filter (\<lambda>(tn, _). tenant_id \<noteq> [] \<longrightarrow> tn = tenant_id) rs))"

definition resolve_course_code :: "course_catalog \<Rightarrow> ustr \<Rightarrow> ustr option \<Rightarrow> ustr option \<Rightarrow> ustr option" where
  "resolve_course_code rows tenant_id code name =
     (let c = strip (str_or_empty code); n = strip (str_or_empty name) in
      if c \<noteq> [] then Some c
      else if n = [] then None
      else (case filter (\<lambda>((tn, _), x). tn = tenant_id \<and> x = n) (load_course_catalog rows tenant_id) of
              [] \<Rightarrow> None | ((_, code'), _) # _ \<Rightarrow> Some code'))"

definition retrieve_course ::
  "'s cap_env \<Rightarrow> 's cap_world \<Rightarrow> course_request \<Rightarrow> ustr \<Rightarrow> (course_error + course_result) \<times> 's cap_world" where
  "retrieve_course env w req user_id =
     (let te = ce_tools env; tw = cw_tools w; tenant = rq_tenant req;
          key = normalize_course_cache_key (Some (rq_query req)) (rq_course_code req);
          w = w\<lparr>cw_requests := cw_requests w @ [req]\<rparr>
      in case ce_consult env req of
           Inl exc \<Rightarrow>
             (let (cached, store) = get_cached_course (te_ops te) (te_cfg te) (te_session te) (tw_store tw) (te_now te) key tenant user_id;
                  tw = tw\<lparr>tw_store := store\<rparr>
              in case cached of
                   Some c \<Rightarrow> (Inr (annotate_stale_course (cr_payload c) (max 0 (te_now te - cr_cached_at c))), w\<lparr>cw_tools := tw\<rparr>)
                 | None \<Rightarrow>
                     (let (d, tracker) = escalation_for_transient (te_cfg te) (tw_tracker tw) tool_course key;
                          w = w\<lparr>cw_tools := tw\<lparr>tw_tracker := tracker\<rparr>\<rparr>
                      in case raise_if_escalated d of Some e \<Rightarrow> (Inl (CourseEscalated e), w) | None \<Rightarrow> (Inl (CourseRaised exc), w)))
         | Inr res \<Rightarrow>
             (Inr res, if is_cacheable_course_result res
                then w\<lparr>cw_tools := tw\<lparr>tw_store := put_cached_course (te_ops te) (te_cfg te) (tw_store tw) (te_now te) res key tenant user_id\<rparr>\<rparr>
                else w))"

definition course_search_query :: "plan_step \<Rightarrow> exec_context \<Rightarrow> observations \<Rightarrow> ustr option" where
  "course_search_query step ctx obs =
     (if course_source step = Some FromOrderProduct
      then (let name = strip (str_or_empty (ob_product_name obs)); code = strip (str_or_empty (ob_course_code obs))
            in nonempty_opt (or_str name code))
      else let q = or_opt (ec_bound_course_name ctx) (or_opt (ec_last_course_name ctx) (or_opt (ec_course_query ctx) (Some (ec_query ctx))))
        in if truthy q then q else None)"

definition bound_course_code :: "course_catalog \<Rightarrow> exec_context \<Rightarrow> observations \<Rightarrow> plan_step \<Rightarrow> ustr" where
  "bound_course_code rows ctx obs step =
     (let code = strip (str_or_empty (ob_course_code obs)) in
      if code \<noteq> [] then code
      else if course_source step \<noteq> Some FromOrderProduct then []
      else str_or_empty (resolve_course_code rows (ec_tenant ctx) None (ob_product_name obs)))"

definition course_spec :: capability_spec where
  "course_spec = \<lparr>cs_id = tool_course, cs_tool_name = (asc ''retrieve_course_knowledge''),
     cs_description = [0x68C0, 0x7D22, 0x8BFE, 0x7A0B, 0x5927, 0x7EB2, 0xFF0C, 0x8FD4, 0x56DE, 0x6A21, 0x5757, 0x4E0E, 0x5B66, 0x4E60, 0x8DEF, 0x5F84, 0x3002] \<comment> \<open>look up a course outline\<close>,
     cs_accepts = [(asc ''course_query''), (asc ''product_name''), (asc ''course_code'')], cs_provides = [(asc ''course_name'')]\<rparr>"

definition course_bind :: "'s cap_env \<Rightarrow> plan_step \<Rightarrow> exec_context \<Rightarrow> observations \<Rightarrow> kwargs option" where
  "course_bind env step ctx obs =
     (let q = course_search_query step ctx obs; code = bound_course_code (ce_catalog env) ctx obs step;
          bound = (\<lambda>search. Some \<lparr>kw_query = search, kw_order_no = None, kw_last_order_no = None, kw_persist = False,
            kw_last_course_query = or_opt (ec_course_query ctx) (ec_bound_course_name ctx),
            kw_last_course_name = or_opt (ec_last_course_name ctx) (or_opt (ec_bound_course_name ctx) (ob_product_name obs)),
            kw_course_code = nonempty_opt code\<rparr>)
      in if course_source step = Some FromOrderProduct
         then (if \<not> truthy q \<and> code = [] then None else bound (or_opt q (Some code)))
         else if \<not> truthy q then None else bound q)"

definition course_cache_dict :: "(course_result snapshot \<times> ustr) option \<Rightarrow> cache_updates" where
  "course_cache_dict u = (case u of None \<Rightarrow> []
     | Some (sn, key) \<Rightarrow> [((asc ''last_course_structured''), CacheCourse sn), ((asc ''last_course_structured_key''), CacheKey key)])"

definition course_invoke ::
  "'s cap_env \<Rightarrow> 's cap_world \<Rightarrow> exec_context \<Rightarrow> kwargs \<Rightarrow> (cap_error + capability_result) \<times> 's cap_world" where
  "course_invoke env w ctx kw =
     (let search = str_or_empty (kw_query kw);
          key = normalize_course_cache_key (Some search) (kw_course_code kw);
          req = \<lparr>rq_query = search, rq_tenant = ec_tenant ctx, rq_history = ec_history ctx,
            rq_last_course_query = kw_last_course_query kw, rq_last_course_name = kw_last_course_name kw,
            rq_summary = ec_summary ctx, rq_course_code = kw_course_code kw\<rparr>;
          (res, w) = retrieve_course env w req (ec_user ctx)
      in (case res of
            Inl (CourseEscalated d) \<Rightarrow> Inr (failed_result tool_course (esc_message d) (asc ''escalated'') True)
          | Inl (CourseRaised e) \<Rightarrow> Inl (CourseFailed e)
          | Inr course \<Rightarrow> Inr
              (if cc_name course = not_found_course
               then \<lparr>ca_id = tool_course, ca_ok = False, ca_text = None, ca_data = Some (CoursePayload course),
                 ca_observations = no_observations\<lparr>ob_course_name := Some search\<rparr>, ca_error = None, ca_escalated = False\<rparr>
               else \<lparr>ca_id = tool_course, ca_ok = True, ca_text = Some (format_course_answer course), ca_data = Some (CoursePayload course),
                 ca_observations = no_observations\<lparr>ob_course_name := Some (or_str (cc_name course) search),
                   ob_cache := Some (course_cache_dict (session_updates_for_course course key (te_now (ce_tools env))))\<rparr>,
                 ca_error = None, ca_escalated = False\<rparr>), w))"

definition course_capability :: "'s capability" where
  "course_capability = \<lparr>cap_spec = course_spec, cap_bind = course_bind, cap_invoke = course_invoke\<rparr>"

text \<open>The registry after both modules are imported.\<close>

definition builtin_registry :: "'s registry" where
  "builtin_registry = [(tool_order, order_capability), (tool_course, course_capability)]"

lemma builtin_registered:
  "Option.bind (register order_capability []) (register course_capability) = Some builtin_registry"
  by (simp add: register_def order_capability_def course_capability_def order_spec_def course_spec_def builtin_registry_def
      tool_order_def tool_course_def)

section \<open>The supervisor\<close>

definition pick :: "'a option \<Rightarrow> 'a option \<Rightarrow> 'a option" where
  "pick new old = (case new of None \<Rightarrow> old | Some _ \<Rightarrow> new)"

text \<open>\<open>{**old, **new}\<close>, which is also \<open>old.update(new)\<close>.\<close>

definition merge_observations :: "observations \<Rightarrow> observations \<Rightarrow> observations" where
  "merge_observations old new =
     \<lparr>ob_product_name = pick (ob_product_name new) (ob_product_name old), ob_course_code = pick (ob_course_code new) (ob_course_code old),
      ob_order_no = pick (ob_order_no new) (ob_order_no old), ob_course_name = pick (ob_course_name new) (ob_course_name old),
      ob_cache = pick (ob_cache new) (ob_cache old)\<rparr>"

definition extract_cache_updates :: "observations \<Rightarrow> cache_updates" where
  "extract_cache_updates obs = (case ob_cache obs of None \<Rightarrow> [] | Some d \<Rightarrow> d)"

definition dict_update :: "('k, 'v) dict \<Rightarrow> ('k, 'v) dict \<Rightarrow> ('k, 'v) dict" where
  "dict_update d new = foldl (\<lambda>d (k, v). AList.update k v d) d new"

type_synonym step_outcome = "cap_error + (ustr option \<times> observations \<times> bool)"

definition run_step ::
  "'s registry \<Rightarrow> 's cap_env \<Rightarrow> 's cap_world \<Rightarrow> plan_step \<Rightarrow> exec_context \<Rightarrow> observations \<Rightarrow> step_outcome \<times> 's cap_world" where
  "run_step reg env w step ctx obs =
     (case get_capability reg (step_capability step) of
        Inl e \<Rightarrow> (Inl e, w)
      | Inr cap \<Rightarrow>
          (case cap_bind cap env step ctx obs of
             None \<Rightarrow> (Inr (None, obs, False), w)
           | Some kw \<Rightarrow>
               (let (res, w) = cap_invoke cap env w ctx kw
                in (case res of Inl e \<Rightarrow> Inl e
                    | Inr r \<Rightarrow> Inr (ca_text r, merge_observations obs (ca_observations r), ca_escalated r), w))))"

text \<open>The steps of one group; an exception of one ends the group.\<close>

fun run_group ::
  "'s registry \<Rightarrow> 's cap_env \<Rightarrow> 's cap_world \<Rightarrow> plan_step list \<Rightarrow> exec_context \<Rightarrow> observations \<Rightarrow>
     (cap_error + (ustr option \<times> observations \<times> bool) list) \<times> 's cap_world" where
  "run_group reg env w [] ctx obs = (Inr [], w)"
| "run_group reg env w (st # sts) ctx obs =
     (case run_step reg env w st ctx obs of
        (Inl e, w) \<Rightarrow> (Inl e, w)
      | (Inr r, w) \<Rightarrow> (case run_group reg env w sts ctx obs of (Inl e, w) \<Rightarrow> (Inl e, w) | (Inr rs, w) \<Rightarrow> (Inr (r # rs), w)))"

text \<open>What the run has gathered; an escalation ends it with its answer.\<close>

record gathered =
  ga_parts :: "ustr list"
  ga_observations :: observations
  ga_cache :: cache_updates
  ga_course :: "ustr option"

fun gather :: "gathered \<Rightarrow> (ustr option \<times> observations \<times> bool) list \<Rightarrow> (ustr \<times> gathered) + gathered" where
  "gather g [] = Inr g"
| "gather g ((shown, obs, escalated) # rs) =
     (let g = g\<lparr>ga_observations := merge_observations (ga_observations g) obs,
                ga_cache := dict_update (ga_cache g) (extract_cache_updates obs)\<rparr>
      in if escalated then Inl (str_or_empty (or_opt shown (Some (build_handoff_answer True None))), g)
         else gather (if truthy shown then g\<lparr>ga_parts := ga_parts g @ [the shown]\<rparr> else g) rs)"

definition execution_context ::
  "ustr \<Rightarrow> ustr \<Rightarrow> ustr \<Rightarrow> message list option \<Rightarrow> ustr option \<Rightarrow> ustr option \<Rightarrow> ustr option \<Rightarrow> ustr option \<Rightarrow> ustr option \<Rightarrow> exec_context" where
  "execution_context query user_id tenant_id history no cquery last_course_name session_summary bound_name =
     \<lparr>ec_query = query, ec_tenant = tenant_id, ec_user = user_id, ec_history = history, ec_summary = session_summary,
      ec_order_no = no, ec_last_order_no = no, ec_course_query = cquery, ec_last_course_query = cquery,
      ec_last_course_name = or_opt last_course_name bound_name, ec_bound_course_name = bound_name, ec_persist = True\<rparr>"

record turn_args =
  ta_query :: ustr
  ta_user :: ustr
  ta_tenant :: ustr
  ta_history :: "message list option"
  ta_order_no :: "ustr option"
  ta_course_query :: "ustr option"
  ta_last_course_name :: "ustr option"
  ta_summary :: "ustr option"
  ta_intent :: "ustr option"
  ta_needs_clarification :: bool
  ta_question :: "ustr option"

fun run_groups ::
  "'s registry \<Rightarrow> 's cap_env \<Rightarrow> turn_args \<Rightarrow> plan_step list \<Rightarrow> 's cap_world \<Rightarrow> gathered \<Rightarrow> nat list \<Rightarrow>
     (cap_error + ((ustr \<times> gathered) + gathered)) \<times> 's cap_world" where
  "run_groups reg env a psteps w g [] = (Inr (Inr g), w)"
| "run_groups reg env a psteps w g (gid # gids) =
     (let ctx = execution_context (ta_query a) (ta_user a) (ta_tenant a) (ta_history a) (ta_order_no a) (ta_course_query a)
            (or_opt (ta_last_course_name a) (ga_course g)) (ta_summary a) (ga_course g)
      in case run_group reg env w (filter (\<lambda>st. parallel_group st = gid) psteps) ctx (ga_observations g) of
           (Inl e, w) \<Rightarrow> (Inl e, w)
         | (Inr rs, w) \<Rightarrow>
             (case gather g rs of
                Inl stopped \<Rightarrow> (Inr (Inl stopped), w)
              | Inr g \<Rightarrow> run_groups reg env a psteps w
                  (g\<lparr>ga_course := or_opt (ob_course_name (ga_observations g)) (ga_course g)\<rparr>) gids))"

definition execute_plan ::
  "'s registry \<Rightarrow> 's cap_env \<Rightarrow> turn_args \<Rightarrow> 's cap_world \<Rightarrow> supervisor_plan \<Rightarrow>
     (cap_error + (ustr \<times> ustr option \<times> cache_updates \<times> bool)) \<times> 's cap_world" where
  "execute_plan reg env a w p =
     (let g = \<lparr>ga_parts = [], ga_observations = no_observations, ga_cache = [], ga_course = bound_course_name p\<rparr>
      in case run_groups reg env a (plan_steps p) w g (sorted_list_of_set (set (map parallel_group (plan_steps p)))) of
           (Inl e, w) \<Rightarrow> (Inl e, w)
         | (Inr (Inl (answer, g)), w) \<Rightarrow> (Inr (answer, ga_course g, ga_cache g, True), w)
         | (Inr (Inr g), w) \<Rightarrow>
             (Inr (or_str (join [10, 10] (ga_parts g)) [0x6682, 0x65F6, 0x65E0, 0x6CD5, 0x5904, 0x7406, 0x8BE5, 0x95EE, 0x9898, 0x3002] \<comment> \<open>cannot handle this now\<close>, ga_course g, ga_cache g, False), w))"

definition is_auto_handoff_answer :: "ustr option \<Rightarrow> bool" where
  "is_auto_handoff_answer answer \<longleftrightarrow>
     (let t = strip (str_or_empty answer) in occurs [0x8F6C, 0x63A5, 0x4EBA, 0x5DE5, 0x5BA2, 0x670D] \<comment> \<open>handed over to a person\<close> t \<and> occurs [0x6F14, 0x793A, 0x73AF, 0x5883] \<comment> \<open>demo environment\<close> t)"

text \<open>\<open>react\<close> is the answer of the ReACT agent; it may also raise.\<close>

definition run_supervisor ::
  "'s registry \<Rightarrow> 's cap_env \<Rightarrow> (turn_args \<Rightarrow> cap_error + ustr) \<Rightarrow> turn_args \<Rightarrow> 's cap_world \<Rightarrow>
     (cap_error + cache_value supervisor_decision) \<times> 's cap_world" where
  "run_supervisor reg env react a w =
     (let p = plan_supervisor (ta_intent a) (ta_needs_clarification a) (ta_question a) (ta_query a) (ta_order_no a)
            (ta_course_query a) (ta_last_course_name a);
          names = tool_names_of reg; course = or_opt (ta_course_query a) (bound_course_name p)
      in if plan_action p = (asc ''ask_user'')
         then (Inr (to_supervisor_decision names p None (ta_order_no a) course [] False None), w)
         else if plan_action p = (asc ''react'')
         then (case react a of
                 Inl e \<Rightarrow> (Inl e, w)
               | Inr answer \<Rightarrow>
                   (Inr (if is_auto_handoff_answer (Some answer)
                         then to_supervisor_decision names p (Some answer) (ta_order_no a) course [] True (Some (asc ''react_limit''))
                         else to_supervisor_decision names p (Some answer) (ta_order_no a) course [] False None), w))
         else (case execute_plan reg env a w p of
                 (Inl e, w) \<Rightarrow> (Inl e, w)
               | (Inr (answer, bound, cache, escalated), w) \<Rightarrow>
                   (Inr (to_supervisor_decision names p (Some answer) (ta_order_no a) (or_opt bound course) cache escalated
                      (if escalated then Some (asc ''transient_exhausted'') else None)), w)))"


section \<open>What the supervisor looks up\<close>

lemma tool_names_differ: "tool_order \<noteq> tool_course" "tool_course \<noteq> tool_order"
  by (simp_all add: tool_order_def tool_course_def)

lemma builtin_get [simp]:
  "get_capability builtin_registry tool_order = Inr order_capability"
  "get_capability builtin_registry tool_course = Inr course_capability"
  by (simp_all add: get_capability_def builtin_registry_def tool_names_differ)

lemma pick_None [simp]: "pick x None = x" "pick None y = y" "pick (Some z) y = Some z"
  by (auto simp: pick_def split: option.splits)

lemma or_opt_self [simp]: "or_opt x x = x"
  by (cases x) (auto simp: or_opt_def)

text \<open>The order query that the supervisor makes for the arguments of a turn.\<close>

definition supervisor_order_query ::
  "'s cap_env \<Rightarrow> turn_args \<Rightarrow> 's cap_world \<Rightarrow> (tool_error + order_report) \<times> 's tool_world" where
  "supervisor_order_query env a w = query_order (ce_tools env) (ce_pool env) (cw_tools w) (ta_query a) (ta_order_no a)
     (ta_tenant a) (ta_user a) (ta_order_no a) True False True"

lemma order_step_run:
  assumes "step_capability st = tool_order" and "ec_query ctx = ta_query a" "ec_tenant ctx = ta_tenant a" "ec_user ctx = ta_user a"
    "ec_order_no ctx = ta_order_no a" "ec_last_order_no ctx = ta_order_no a" "ec_persist ctx"
  shows "cw_requests (snd (run_step builtin_registry env w st ctx no_observations)) = cw_requests w"
    and "fst (run_step builtin_registry env w st ctx no_observations) = Inr (shown, obs, esc) \<Longrightarrow>
      (case fst (supervisor_order_query env a w) of
         Inr rep \<Rightarrow> \<not> esc \<and> ob_product_name obs = usable_product_name rep \<and> ob_course_code obs = usable_course_code rep
       | Inl e \<Rightarrow> ob_product_name obs = None \<and> ob_course_code obs = None) \<and> ob_course_name obs = None"
    and "fst (run_step builtin_registry env w st ctx no_observations) = Inl e \<Longrightarrow> e = AssertionFailed"
  using assms
  by (auto simp: run_step_def order_capability_def order_bind_def order_invoke_def supervisor_order_query_def case_prod_beta Let_def
      merge_observations_def failed_result_def order_result_def no_observations_def
      split: sum.splits tool_error.splits service_error.splits)

lemma retrieve_course_requests: "cw_requests (snd (retrieve_course env w req u)) = cw_requests w @ [req]"
  by (auto simp: retrieve_course_def Let_def case_prod_beta split: sum.splits option.splits)

lemma course_step_run:
  assumes "step_capability st = tool_course"
  shows "case course_bind env st ctx obs of
      None \<Rightarrow> run_step builtin_registry env w st ctx obs = (Inr (None, obs, False), w)
    | Some kw \<Rightarrow> cw_requests (snd (run_step builtin_registry env w st ctx obs)) = cw_requests w @
        [\<lparr>rq_query = str_or_empty (kw_query kw), rq_tenant = ec_tenant ctx, rq_history = ec_history ctx,
          rq_last_course_query = kw_last_course_query kw, rq_last_course_name = kw_last_course_name kw,
          rq_summary = ec_summary ctx, rq_course_code = kw_course_code kw\<rparr>]"
  using assms
  by (auto simp: run_step_def course_capability_def course_invoke_def case_prod_beta Let_def retrieve_course_requests split: option.splits)

lemma course_step_error:
  "step_capability st = tool_course \<Longrightarrow> fst (run_step builtin_registry env w st ctx obs) = Inl e \<Longrightarrow> \<exists>x. e = CourseFailed x"
  by (auto simp: run_step_def course_capability_def course_invoke_def case_prod_beta Let_def split: option.splits sum.splits course_error.splits)


definition order_plan_step :: plan_step where
  "order_plan_step = \<lparr>step_capability = tool_order, parallel_group = 0, course_source = None\<rparr>"

definition course_plan_step :: "nat \<Rightarrow> course_source \<Rightarrow> plan_step" where
  "course_plan_step g src = \<lparr>step_capability = tool_course, parallel_group = g, course_source = Some src\<rparr>"

lemma plan_forms:
  "p = plan_supervisor itn needs question query no cq lcn \<Longrightarrow> plan_action p = (asc ''execute'') \<Longrightarrow>
     (plan_steps p = [order_plan_step, course_plan_step 0 Bound] \<and> truthy (bound_course_name p)) \<or>
     (plan_steps p = [order_plan_step, course_plan_step 1 FromOrderProduct] \<and> bound_course_name p = None) \<or>
     (plan_steps p = [order_plan_step] \<and> bound_course_name p = None) \<or>
     (plan_steps p = [course_plan_step 0 Bound] \<and> truthy (bound_course_name p))"
  using bound_course_nonempty [of query cq lcn]
  by (auto simp: plan_supervisor_def Let_def order_plan_step_def course_plan_step_def tool_order_def tool_course_def truthy_iff
      split: if_splits)

lemma plan_reasons:
  "final_intent (plan_supervisor itn needs question query no cq lcn) \<noteq> (asc ''handoff'')"
  "plan_reason (plan_supervisor itn needs question query no cq lcn) \<notin> {(asc ''transient_exhausted''), (asc ''react_limit'')}"
  "plan_action (plan_supervisor itn needs question query no cq lcn) \<in> {(asc ''ask_user''), (asc ''execute''), (asc ''react'')}"
  by (auto simp: plan_supervisor_def Let_def supervisor_intents_def)

lemma decision_not_escalated:
  assumes "p = plan_supervisor itn needs question query no cq lcn"
  shows "sd_final_intent (to_supervisor_decision names p answer n c cache False None) \<noteq> (asc ''handoff'')"
    and "sd_reason (to_supervisor_decision names p answer n c cache False None) \<notin> {Some (asc ''transient_exhausted''), Some (asc ''react_limit'')}"
  using plan_reasons [of itn needs question query no cq lcn]
  by (auto simp: to_supervisor_decision_def Let_def assms)

lemma decision_escalated:
  "sd_final_intent (to_supervisor_decision names p answer n c cache True (Some r)) = (asc ''handoff'')"
  "r \<noteq> [] \<Longrightarrow> sd_reason (to_supervisor_decision names p answer n c cache True (Some r)) = Some r"
  by (auto simp: to_supervisor_decision_def Let_def)

text \<open>A course request that a run of a plan may make.\<close>

definition expected_request :: "'s cap_env \<Rightarrow> turn_args \<Rightarrow> 's cap_world \<Rightarrow> ustr option \<Rightarrow> course_request \<Rightarrow> bool" where
  "expected_request env a w bound r \<longleftrightarrow> rq_tenant r = ta_tenant a \<and>
     (case bound of
        Some name \<Rightarrow> rq_query r = name
      | None \<Rightarrow> (\<exists>rep. fst (supervisor_order_query env a w) = Inr rep \<and>
          or_opt (usable_product_name rep) (usable_course_code rep) = Some (rq_query r)))"

lemma usable_stripped:
  "strip (str_or_empty (usable_product_name rep)) = str_or_empty (usable_product_name rep)"
  "strip (str_or_empty (usable_course_code rep)) = str_or_empty (usable_course_code rep)"
  "usable_product_name rep \<noteq> Some []" "usable_course_code rep \<noteq> Some []"
  by (auto simp: usable_product_name_def usable_course_code_def Let_def)

lemma bound_step_request:
  assumes "course_source st = Some Bound" "step_capability st = tool_course" "ec_bound_course_name ctx = Some name" "name \<noteq> []"
    "ec_tenant ctx = ta_tenant a"
  shows "\<exists>r. cw_requests (snd (run_step builtin_registry env w st ctx obs)) = cw_requests w @ [r] \<and>
    rq_tenant r = ta_tenant a \<and> rq_query r = name"
  using course_step_run [OF assms(2), of env w ctx obs] assms
  by (auto simp: course_bind_def course_search_query_def Let_def)

lemma product_step_request:
  assumes "course_source st = Some FromOrderProduct" "step_capability st = tool_course" "ec_tenant ctx = ta_tenant a"
    and obs: "case fst (supervisor_order_query env a w0) of
        Inr rep \<Rightarrow> ob_product_name obs = usable_product_name rep \<and> ob_course_code obs = usable_course_code rep
      | Inl e \<Rightarrow> ob_product_name obs = None \<and> ob_course_code obs = None"
  shows "\<exists>rs. cw_requests (snd (run_step builtin_registry env w st ctx obs)) = cw_requests w @ rs \<and> length rs \<le> 1 \<and>
    (\<forall>r \<in> set rs. expected_request env a w0 None r)"
proof (cases "course_bind env st ctx obs")
  case None
  then show ?thesis using course_step_run [OF assms(2), of env w ctx obs] by simp
next
  case (Some kw)
  then have q: "truthy (nonempty_opt (or_str (strip (str_or_empty (ob_product_name obs))) (strip (str_or_empty (ob_course_code obs)))))"
    and kw: "kw_query kw = nonempty_opt (or_str (strip (str_or_empty (ob_product_name obs))) (strip (str_or_empty (ob_course_code obs))))"
    using assms(1) by (auto simp: course_bind_def course_search_query_def bound_course_code_def resolve_course_code_def Let_def or_str_def
        nonempty_opt_def split: if_splits)
  from q obs obtain rep where rep: "fst (supervisor_order_query env a w0) = Inr rep"
    "ob_product_name obs = usable_product_name rep" "ob_course_code obs = usable_course_code rep"
    by (auto simp: or_str_def nonempty_opt_def split: sum.splits)
  have "or_opt (usable_product_name rep) (usable_course_code rep) = Some (str_or_empty (kw_query kw))"
    using q kw usable_stripped [of rep] unfolding rep(2,3)
    by (cases "usable_product_name rep"; cases "usable_course_code rep") (auto simp: or_str_def nonempty_opt_def or_opt_def split: if_splits)
  then show ?thesis using course_step_run [OF assms(2), of env w ctx obs] Some assms(3) rep(1)
    by (auto simp: expected_request_def)
qed


abbreviation turn_context :: "turn_args \<Rightarrow> ustr option \<Rightarrow> exec_context" where
  "turn_context a bound \<equiv> execution_context (ta_query a) (ta_user a) (ta_tenant a) (ta_history a) (ta_order_no a) (ta_course_query a)
     (or_opt (ta_last_course_name a) bound) (ta_summary a) bound"

lemma context_fields:
  "ec_query (turn_context a b) = ta_query a" "ec_tenant (turn_context a b) = ta_tenant a" "ec_user (turn_context a b) = ta_user a"
  "ec_order_no (turn_context a b) = ta_order_no a" "ec_last_order_no (turn_context a b) = ta_order_no a"
  "ec_persist (turn_context a b)" "ec_bound_course_name (turn_context a b) = b"
  by (simp_all add: execution_context_def)

lemma step_capabilities [simp]:
  "step_capability order_plan_step = tool_order" "step_capability (course_plan_step g src) = tool_course"
  "course_source (course_plan_step g src) = Some src" "parallel_group order_plan_step = 0"
  "parallel_group (course_plan_step g src) = g"
  by (simp_all add: order_plan_step_def course_plan_step_def)

lemmas order_first = order_step_run [OF step_capabilities(1) context_fields(1-6)]

text \<open>The run of a whole plan, as the runs of its steps.\<close>

definition start_gathered :: "ustr option \<Rightarrow> gathered" where
  "start_gathered b = \<lparr>ga_parts = [], ga_observations = no_observations, ga_cache = [], ga_course = b\<rparr>"

lemma merge_no_observations [simp]: "merge_observations no_observations obs = obs" "merge_observations obs no_observations = obs"
  by (simp_all add: merge_observations_def no_observations_def)

lemma order_only_run:
  "cw_requests (snd (run_groups builtin_registry env a [order_plan_step] w (start_gathered b) [0])) = cw_requests w"
  using order_first [of env w a b]
  by (auto simp: start_gathered_def Let_def split: sum.splits prod.splits)

lemma course_only_run:
  "name \<noteq> [] \<Longrightarrow> \<exists>r. cw_requests (snd (run_groups builtin_registry env a [course_plan_step 0 Bound] w (start_gathered (Some name)) [0])) =
     cw_requests w @ [r] \<and> rq_tenant r = ta_tenant a \<and> rq_query r = name"
  using bound_step_request [of "course_plan_step 0 Bound" "turn_context a (Some name)" name a env w no_observations]
  by (auto simp: start_gathered_def Let_def context_fields split: sum.splits prod.splits)

lemma parallel_run:
  assumes "name \<noteq> []"
  shows "\<exists>rs. cw_requests (snd (run_groups builtin_registry env a [order_plan_step, course_plan_step 0 Bound] w (start_gathered (Some name)) [0])) =
     cw_requests w @ rs \<and> length rs \<le> 1 \<and> (\<forall>r \<in> set rs. rq_tenant r = ta_tenant a \<and> rq_query r = name)"
proof -
  let ?ctx = "turn_context a (Some name)"
  obtain o1 w1 where o: "run_step builtin_registry env w order_plan_step ?ctx no_observations = (o1, w1)" by fastforce
  have w1: "cw_requests w1 = cw_requests w" using order_first(1) [of env w a "Some name"] o by simp
  from bound_step_request [of "course_plan_step 0 Bound" ?ctx name a env w1 no_observations] assms
  obtain r where "cw_requests (snd (run_step builtin_registry env w1 (course_plan_step 0 Bound) ?ctx no_observations)) = cw_requests w @ [r]"
    "rq_tenant r = ta_tenant a" "rq_query r = name" by (auto simp: context_fields w1)
  then show ?thesis using o w1
    by (cases o1) (auto simp: start_gathered_def Let_def split: sum.splits prod.splits intro: exI [of _ "[r]"] exI [of _ "[]"])
qed

lemma serial_run:
  "\<exists>rs. cw_requests (snd (run_groups builtin_registry env a [order_plan_step, course_plan_step 1 FromOrderProduct] w (start_gathered None) [0, 1])) =
     cw_requests w @ rs \<and> length rs \<le> 1 \<and> (\<forall>r \<in> set rs. expected_request env a w None r)"
proof -
  let ?ctx = "turn_context a None"
  obtain o1 w1 where o: "run_step builtin_registry env w order_plan_step ?ctx no_observations = (o1, w1)" by fastforce
  have w1: "cw_requests w1 = cw_requests w" using order_first(1) [of env w a None] o by simp
  show ?thesis
  proof (cases o1)
    case (Inl e)
    with o w1 show ?thesis by (simp add: start_gathered_def Let_def)
  next
    case (Inr res)
    obtain shown obs esc where res: "res = (shown, obs, esc)" by (metis surj_pair)
    have f: "fst (run_step builtin_registry env w order_plan_step ?ctx no_observations) = Inr (shown, obs, esc)"
      using o Inr res by simp
    note obs = order_first(2) [OF f]
    have cn: "ob_course_name obs = None" using obs by simp
    obtain rs where rs: "cw_requests (snd (run_step builtin_registry env w1 (course_plan_step 1 FromOrderProduct) ?ctx obs)) = cw_requests w @ rs"
      "length rs \<le> 1" "\<forall>r \<in> set rs. expected_request env a w None r"
      using product_step_request [of "course_plan_step 1 FromOrderProduct" ?ctx a obs env w w1] obs
      by (auto simp: context_fields w1 split: sum.splits)
    have "snd (run_groups builtin_registry env a [order_plan_step, course_plan_step 1 FromOrderProduct] w (start_gathered None) [0, 1]) =
        (if esc then w1 else snd (run_step builtin_registry env w1 (course_plan_step 1 FromOrderProduct) ?ctx obs))"
      using o Inr res cn
      by (cases esc) (auto simp: start_gathered_def Let_def split: sum.splits prod.splits)
    then show ?thesis using rs w1 by (cases esc) auto
  qed
qed


lemma group_known:
  "set psteps \<subseteq> {order_plan_step, course_plan_step 0 Bound, course_plan_step 1 FromOrderProduct} \<Longrightarrow>
     fst (run_group builtin_registry env w psteps ctx obs) \<noteq> Inl (UnknownCapability c)"
proof (induction psteps arbitrary: w)
  case Nil
  then show ?case by simp
next
  case (Cons st psteps)
  have "fst (run_step builtin_registry env w st ctx obs) \<noteq> Inl (UnknownCapability c)"
    using Cons(2) course_step_error [of st env w ctx obs "UnknownCapability c"]
    by (auto simp: run_step_def order_capability_def order_bind_def order_invoke_def case_prod_beta Let_def
        split: sum.splits tool_error.splits service_error.splits)
  with Cons show ?case by (auto split: prod.splits sum.splits) (metis fst_conv)+
qed

lemma groups_known:
  "set psteps \<subseteq> {order_plan_step, course_plan_step 0 Bound, course_plan_step 1 FromOrderProduct} \<Longrightarrow>
     fst (run_groups builtin_registry env a psteps w g gids) \<noteq> Inl (UnknownCapability c)"
proof (induction gids arbitrary: w g)
  case Nil
  then show ?case by simp
next
  case (Cons gid gids)
  have "fst (run_group builtin_registry env w (filter (\<lambda>st. parallel_group st = gid) psteps) ctx obs) \<noteq> Inl (UnknownCapability c)" for ctx obs
    using Cons(2) by (intro group_known) auto
  with Cons show ?case by (auto simp: Let_def split: prod.splits sum.splits) (metis fst_conv)+
qed

lemma execute_plan_spec:
  fixes env :: "'s cap_env"
  assumes p: "p = plan_supervisor itn needs question query no cq lcn" "plan_action p = (asc ''execute'')"
  shows "\<exists>rs. cw_requests (snd (execute_plan builtin_registry env a w p)) = cw_requests w @ rs \<and> length rs \<le> 1 \<and>
      (\<forall>r \<in> set rs. expected_request env a w (bound_course_name p) r)"
    and "fst (execute_plan builtin_registry env a w p) \<noteq> Inl (UnknownCapability c)"
proof -
  let ?gids = "sorted_list_of_set (set (map parallel_group (plan_steps p)))"
  let ?run = "run_groups builtin_registry env a (plan_steps p) w (start_gathered (bound_course_name p)) ?gids"
  have ex: "snd (execute_plan builtin_registry env a w p) = snd ?run"
    "fst (execute_plan builtin_registry env a w p) = Inl (UnknownCapability c) \<longleftrightarrow> fst ?run = Inl (UnknownCapability c)"
    by (auto simp: execute_plan_def start_gathered_def Let_def split: prod.splits sum.splits)
  have gids: "sorted_list_of_set {0::nat} = [0]" "sorted_list_of_set {0, 1::nat} = [0, 1]" by simp_all
  consider (par) name where "plan_steps p = [order_plan_step, course_plan_step 0 Bound]" "bound_course_name p = Some name" "name \<noteq> []"
    | (ser) "plan_steps p = [order_plan_step, course_plan_step 1 FromOrderProduct]" "bound_course_name p = None"
    | (ord) "plan_steps p = [order_plan_step]" "bound_course_name p = None"
    | (crs) name where "plan_steps p = [course_plan_step 0 Bound]" "bound_course_name p = Some name" "name \<noteq> []"
    using plan_forms [OF p] by (auto simp: truthy_iff)
  then show "\<exists>rs. cw_requests (snd (execute_plan builtin_registry env a w p)) = cw_requests w @ rs \<and> length rs \<le> 1 \<and>
      (\<forall>r \<in> set rs. expected_request env a w (bound_course_name p) r)"
  proof cases
    case par
    then show ?thesis unfolding ex using parallel_run [OF par(3), of env a w] gids(1) by (simp add: expected_request_def)
  next
    case ser
    then show ?thesis unfolding ex using serial_run [of env a w] gids(2) by simp
  next
    case ord
    then show ?thesis unfolding ex using order_only_run [of env a w "bound_course_name p"] gids(1) by simp
  next
    case crs
    then show ?thesis unfolding ex using course_only_run [OF crs(3), of env a w] gids(1) by (auto simp: expected_request_def)
  qed
  have "set (plan_steps p) \<subseteq> {order_plan_step, course_plan_step 0 Bound, course_plan_step 1 FromOrderProduct}"
    using plan_forms [OF p] by auto
  from groups_known [OF this] ex(2) show "fst (execute_plan builtin_registry env a w p) \<noteq> Inl (UnknownCapability c)" by metis
qed



definition demo_turn :: turn_args where
  "demo_turn = \<lparr>ta_query = (asc ''20251114001''), ta_user = (asc ''u1''), ta_tenant = (asc ''demo''), ta_history = None, ta_order_no = Some (asc ''20251114001''),
     ta_course_query = None, ta_last_course_name = None, ta_summary = None, ta_intent = Some (asc ''mixed''),
     ta_needs_clarification = False, ta_question = None\<rparr>"

definition demo_cap_env :: "memory_tool_store cap_env" where
  "demo_cap_env = \<lparr>ce_tools = demo_tool_env, ce_pool = PoolBusy (asc ''full''), ce_consult = (\<lambda>_. Inl \<lparr>ex_class = [], ex_message = [], ex_os_error = False,
     ex_pool_busy = False\<rparr>), ce_catalog = None\<rparr>"

definition demo_cap_world :: "memory_tool_store cap_world" where
  "demo_cap_world = \<lparr>cw_tools = demo_tool_world, cw_requests = []\<rparr>"


end
