(* ===== verification/Filters.thy ===== *)
theory Filters
  imports Order_No Text
begin

text \<open>
  \<open>app/security/filters.py\<close>: what happens to every message before it is routed (length,
  injection patterns, masking of personal data) and to every answer before it is sent. The
  patterns are run by the matcher of \<open>Regex\<close>; \<open>re_sub\<close> is \<open>pattern.sub\<close> with a constant.
\<close>

section \<open>Substitution\<close>

function re_sub :: "re \<Rightarrow> ustr \<Rightarrow> ustr \<Rightarrow> ustr \<Rightarrow> ustr" where
  "re_sub a repl pre [] = []"
| "re_sub a repl pre (c # cs) =
     (case matches a pre (c # cs) of
        [] \<Rightarrow> c # re_sub a repl (c # pre) cs
      | (_, _, rest) # _ \<Rightarrow>
          (let n = max 1 (length (c # cs) - length rest)
           in repl @ re_sub a repl (rev (take n (c # cs)) @ pre) (drop n (c # cs))))"
  by pat_completeness auto
termination
  by (relation "measure (\<lambda>(a, repl, pre, rest). length rest)") auto

declare re_sub.simps(2) [simp del]

section \<open>Patterns\<close>

text \<open>A letter under \<open>re.IGNORECASE\<close>, with the other characters Python treats as its case.\<close>

definition icase :: "nat \<Rightarrow> nat \<Rightarrow> bool" where
  "icase c x \<longleftrightarrow> x = c \<or> (97 \<le> c \<and> c \<le> 122 \<and> x + 32 = c) \<or> (c = 0x69 \<and> (x = 0x130 \<or> x = 0x131)) \<or>
     (c = 0x73 \<and> x = 0x17F) \<or> (c = 0x6B \<and> x = 0x212A)"

definition ilit :: "ustr \<Rightarrow> re" where
  "ilit s = foldr (\<lambda>c r. Cat (Cls (icase c)) r) s Eps"

definition spaces :: re where
  "spaces = Many is_space 1 None"

fun cats :: "re list \<Rightarrow> re" where
  "cats [] = Eps" | "cats [a] = a" | "cats (a # b # rs) = Cat a (cats (b # rs))"

fun alts :: "re list \<Rightarrow> re" where
  "alts [] = NotAhead (\<lambda>_. True)" | "alts [a] = a" | "alts (a # b # rs) = Alt a (alts (b # rs))"

definition injection_patterns :: "re list" where
  "injection_patterns =
     [cats [ilit (asc ''ignore''), spaces, opt (cats [ilit (asc ''all''), spaces]),
        alts [ilit (asc ''previous''), ilit (asc ''above''), ilit (asc ''prior'')], spaces, ilit (asc ''instructions'')],
      cats [ilit (asc ''you''), spaces, ilit (asc ''are''), spaces, ilit (asc ''now'')],
      cats [ilit (asc ''developer''), spaces, ilit (asc ''mode'')],
      ilit (asc ''jailbreak''),
      cats [ilit (asc ''system''), spaces, ilit (asc ''prompt'')],
      cats [lit [0x5FFD, 0x7565] \<comment> \<open>ignore\<close>, words [[0x4EE5, 0x4E0A] \<comment> \<open>above\<close>, [0x4E4B, 0x524D] \<comment> \<open>before\<close>, [0x5148, 0x524D] \<comment> \<open>earlier\<close>, [0x524D, 0x9762] \<comment> \<open>in front\<close>], opt (lit [0x7684] \<comment> \<open>of\<close>),
        opt (lit [0x6240, 0x6709] \<comment> \<open>all\<close>), words [[0x6307, 0x4EE4] \<comment> \<open>instructions\<close>, [0x63D0, 0x793A] \<comment> \<open>prompt\<close>, [0x89C4, 0x5219] \<comment> \<open>rules\<close>]],
      cats [lit [0x65E0, 0x89C6] \<comment> \<open>disregard\<close>, opt (lit [0x6240, 0x6709] \<comment> \<open>all\<close>), words [[0x6307, 0x4EE4] \<comment> \<open>instructions\<close>, [0x89C4, 0x5219] \<comment> \<open>rules\<close>, [0x9650, 0x5236] \<comment> \<open>limits\<close>]],
      lit [0x8D8A, 0x72F1] \<comment> \<open>jailbreak\<close>,
      cats [lit [0x626E, 0x6F14] \<comment> \<open>play the role\<close>, Many (\<lambda>c. c \<noteq> 10) 0 None, lit [0x4E0D, 0x53D7, 0x9650, 0x5236] \<comment> \<open>without limits\<close>]]"

definition id_card_re :: re where
  "id_card_re = cats [NotBehind is_digit, Many is_digit 17 (Some 17), Cls (\<lambda>c. is_digit c \<or> c = 88 \<or> c = 120), NotAhead is_digit]"

definition bank_card_re :: re where
  "bank_card_re = cats [NotBehind is_digit, Many is_digit 13 (Some 19), NotAhead is_digit]"

definition phone_re :: re where
  "phone_re = cats [NotBehind is_digit, Cls ((=) 49), Cls (\<lambda>c. 51 \<le> c \<and> c \<le> 57), Many is_digit 9 (Some 9), NotAhead is_digit]"

definition is_alnum :: "nat \<Rightarrow> bool" where
  "is_alnum c \<longleftrightarrow> (65 \<le> c \<and> c \<le> 90) \<or> (97 \<le> c \<and> c \<le> 122) \<or> (48 \<le> c \<and> c \<le> 57)"

definition email_re :: re where
  "email_re = cats [Many (\<lambda>c. is_alnum c \<or> c \<in> {46, 95, 37, 43, 45}) 1 None, Cls ((=) 64),
     Many (\<lambda>c. is_alnum c \<or> c \<in> {46, 45}) 1 None, Cls ((=) 46),
     Many (\<lambda>c. (65 \<le> c \<and> c \<le> 90) \<or> (97 \<le> c \<and> c \<le> 122)) 2 None]"

definition pii_patterns :: "(ustr \<times> re \<times> ustr) list" where
  "pii_patterns = [((asc ''id_card''), id_card_re, (asc ''[ID_CARD_MASKED]'')), ((asc ''bank_card''), bank_card_re, (asc ''[BANK_CARD_MASKED]'')),
     ((asc ''phone''), phone_re, (asc ''[PHONE_MASKED]'')), ((asc ''email''), email_re, (asc ''[EMAIL_MASKED]''))]"

definition max_input_chars :: nat where
  "max_input_chars = 4000"

section \<open>The filters\<close>

record security_verdict =
  verdict_allowed :: bool
  verdict_reason :: ustr
  sanitized_text :: ustr
  pii_findings :: "ustr list"

definition contains_injection :: "ustr \<Rightarrow> bool" where
  "contains_injection text \<longleftrightarrow> (\<exists>p \<in> set injection_patterns. search p [] (lower text) \<noteq> None)"

definition mask_step :: "ustr \<times> ustr list \<Rightarrow> ustr \<times> re \<times> ustr \<Rightarrow> ustr \<times> ustr list" where
  "mask_step = (\<lambda>(masked, found) (label, pattern, repl).
     if search pattern [] masked \<noteq> None then (re_sub pattern repl [] masked, found @ [label]) else (masked, found))"

definition mask_pii :: "ustr \<Rightarrow> ustr \<times> ustr list" where
  "mask_pii text = foldl mask_step (text, []) pii_patterns"

definition inspect_input :: "ustr \<Rightarrow> security_verdict" where
  "inspect_input text =
     (let raw = strip text in
      if raw = [] then \<lparr>verdict_allowed = False, verdict_reason = [0x8F93, 0x5165, 0x4E3A, 0x7A7A] \<comment> \<open>empty input\<close>, sanitized_text = [], pii_findings = []\<rparr>
      else if length raw > max_input_chars
      then \<lparr>verdict_allowed = False, verdict_reason = ([0x8F93, 0x5165, 0x8D85, 0x8FC7] @ asc '' 4000 '' @ [0x5B57, 0x7B26, 0x9650, 0x5236]) \<comment> \<open>over the character limit\<close>,
        sanitized_text = take max_input_chars raw, pii_findings = []\<rparr>
      else if contains_injection raw
      then \<lparr>verdict_allowed = False, verdict_reason = [0x68C0, 0x6D4B, 0x5230, 0x63D0, 0x793A, 0x6CE8, 0x5165, 0x98CE, 0x9669] \<comment> \<open>prompt injection\<close>, sanitized_text = raw,
        pii_findings = [(asc ''prompt_injection'')]\<rparr>
      else let (sanitized, found) = mask_pii raw
        in \<lparr>verdict_allowed = True, verdict_reason = [], sanitized_text = sanitized, pii_findings = found\<rparr>)"

definition inspect_output :: "ustr \<Rightarrow> ustr" where
  "inspect_output text = fst (mask_pii text)"

section \<open>Runs of digits\<close>

function digit_runs :: "ustr \<Rightarrow> ustr list" where
  "digit_runs [] = []"
| "digit_runs (c # cs) =
     (if is_digit c then takeWhile is_digit (c # cs) # digit_runs (dropWhile is_digit cs) else digit_runs cs)"
  by pat_completeness auto
termination
  by (relation "measure length") (auto simp: less_Suc_eq_le length_dropWhile_le)

definition starts_digit :: "ustr \<Rightarrow> bool" where
  "starts_digit s \<longleftrightarrow> s \<noteq> [] \<and> is_digit (hd s)"

lemma digit_runs_nondigits: "\<forall>c \<in> set u. \<not> is_digit c \<Longrightarrow> digit_runs (u @ s) = digit_runs s"
  by (induction u) simp_all

lemma takeWhile_run: "\<forall>c \<in> set r. is_digit c \<Longrightarrow> \<not> starts_digit s \<Longrightarrow> takeWhile is_digit (r @ s) = r"
  by (cases s) (simp_all add: starts_digit_def)

lemma dropWhile_run: "\<forall>c \<in> set r. is_digit c \<Longrightarrow> \<not> starts_digit s \<Longrightarrow> dropWhile is_digit (r @ s) = s"
  by (cases s) (simp_all add: starts_digit_def)

lemma digit_runs_run:
  "r \<noteq> [] \<Longrightarrow> \<forall>c \<in> set r. is_digit c \<Longrightarrow> \<not> starts_digit s \<Longrightarrow> digit_runs (r @ s) = r # digit_runs s"
  using takeWhile_run [of r s] dropWhile_run [of "tl r" s] by (cases r) auto

lemma span_run:
  assumes "is_digit c"
  obtains r s where "c # cs = r @ s" "r \<noteq> []" "\<forall>x \<in> set r. is_digit x" "\<not> starts_digit s"
proof
  show "c # cs = takeWhile is_digit (c # cs) @ dropWhile is_digit (c # cs)" by simp
  show "takeWhile is_digit (c # cs) \<noteq> []" using assms by simp
  show "\<forall>x \<in> set (takeWhile is_digit (c # cs)). is_digit x" by (auto dest: set_takeWhileD)
  show "\<not> starts_digit (dropWhile is_digit (c # cs))"
    using hd_dropWhile [of is_digit "c # cs"] unfolding starts_digit_def by blast
qed

text \<open>
  A pattern that only matches at the start of a maximal run of digits, and consumes the whole
  run with at most some non-digits after it.
\<close>

definition run_pattern :: "re \<Rightarrow> bool" where
  "run_pattern a \<longleftrightarrow>
     (\<forall>pre s. starts_digit pre \<or> \<not> starts_digit s \<longrightarrow> matches a pre s = []) \<and>
     (\<forall>pre r s. r \<noteq> [] \<longrightarrow> (\<forall>c \<in> set r. is_digit c) \<longrightarrow> \<not> starts_digit s \<longrightarrow> \<not> starts_digit pre \<longrightarrow>
        matches a pre (r @ s) \<noteq> [] \<longrightarrow>
        (\<exists>g p v w ms. matches a pre (r @ s) = (g, p, w) # ms \<and> s = v @ w \<and> (\<forall>c \<in> set v. \<not> is_digit c) \<and>
           (v \<noteq> [] \<longrightarrow> \<not> starts_digit w)))"

lemma run_patternD:
  "run_pattern a \<Longrightarrow> starts_digit pre \<or> \<not> starts_digit s \<Longrightarrow> matches a pre s = []"
  unfolding run_pattern_def by blast

lemma re_sub_no_match: "matches a pre (c # cs) = [] \<Longrightarrow> re_sub a M pre (c # cs) = c # re_sub a M (c # pre) cs"
  by (simp add: re_sub.simps(2))

lemma re_sub_match:
  assumes "matches a pre (u @ w) = (g, p, w) # ms" and "u \<noteq> []"
  shows "re_sub a M pre (u @ w) = M @ re_sub a M (rev u @ pre) w"
proof -
  obtain c cs where u: "u = c # cs" using assms(2) by (cases u) auto
  have n: "max 1 (length (c # cs @ w) - length w) = length u" by (simp add: u)
  show ?thesis using assms(1) unfolding u append_Cons re_sub.simps(2) by (simp add: Let_def)
qed

lemma re_sub_nondigit:
  "run_pattern a \<Longrightarrow> \<not> is_digit c \<Longrightarrow> re_sub a M pre (c # cs) = c # re_sub a M (c # pre) cs"
  by (rule re_sub_no_match, rule run_patternD) (simp_all add: starts_digit_def)

lemma re_sub_in_run:
  "run_pattern a \<Longrightarrow> \<forall>c \<in> set r. is_digit c \<Longrightarrow> starts_digit pre \<Longrightarrow> re_sub a M pre (r @ s) = r @ re_sub a M (rev r @ pre) s"
proof (induction r arbitrary: pre)
  case (Cons c r)
  then have "matches a pre (c # r @ s) = []" by (intro run_patternD) auto
  with Cons show ?case by (simp add: re_sub_no_match starts_digit_def)
qed simp

lemma not_starts_digit_sub: "run_pattern a \<Longrightarrow> \<not> starts_digit s \<Longrightarrow> \<not> starts_digit (re_sub a M pre s)"
  by (cases s) (simp_all add: re_sub_nondigit starts_digit_def)

text \<open>The runs after a substitution are runs of the text at which the pattern does not match.\<close>

lemma digit_runs_sub:
  assumes "run_pattern a" and "\<forall>c \<in> set M. \<not> is_digit c"
  shows "\<not> (starts_digit pre \<and> starts_digit s) \<Longrightarrow> x \<in> set (digit_runs (re_sub a M pre s)) \<Longrightarrow>
    x \<in> set (digit_runs s) \<and> (\<exists>p t. \<not> starts_digit p \<and> \<not> starts_digit t \<and> matches a p (x @ t) = [])"
proof (induction "length s" arbitrary: pre s rule: less_induct)
  case less
  show ?case
  proof (cases s)
    case Nil
    with less.prems show ?thesis by simp
  next
    case (Cons c cs)
    show ?thesis
    proof (cases "is_digit c")
      case False
      with less.prems Cons assms(1) have "x \<in> set (digit_runs (re_sub a M (c # pre) cs))"
        by (simp add: re_sub_nondigit)
      moreover have "\<not> (starts_digit (c # pre) \<and> starts_digit cs)" using False by (simp add: starts_digit_def)
      ultimately show ?thesis using less.hyps [of cs "c # pre"] Cons False by simp
    next
      case True
      then obtain r t where rt: "c # cs = r @ t" "r \<noteq> []" "\<forall>x \<in> set r. is_digit x" "\<not> starts_digit t"
        by (rule span_run)
      have pre: "\<not> starts_digit pre" using less.prems(1) Cons True by (simp add: starts_digit_def)
      have runs: "digit_runs s = r # digit_runs t" using digit_runs_run [OF rt(2-4)] Cons rt(1) by simp
      have len: "length t < length s" using Cons rt(1,2) by (metis length_append length_greater_0_conv less_add_same_cancel2)
      show ?thesis
      proof (cases "matches a pre (r @ t) = []")
        case True
        have c: "r = c # tl r" using rt(1,2) by (cases r) auto
        have "re_sub a M pre s = c # re_sub a M (c # pre) (tl r @ t)"
          using True rt(1) Cons c re_sub_no_match [of a pre c "tl r @ t" M] by (metis append_Cons)
        also have "re_sub a M (c # pre) (tl r @ t) = tl r @ re_sub a M (rev (tl r) @ c # pre) t"
          by (rule re_sub_in_run [OF assms(1)]) (use rt(2,3) \<open>is_digit c\<close> in \<open>auto simp: starts_digit_def dest: list.set_sel(2)\<close>)
        finally have s: "re_sub a M pre s = r @ re_sub a M (rev (tl r) @ c # pre) t" using c by (metis append_Cons)
        have "digit_runs (re_sub a M pre s) = r # digit_runs (re_sub a M (rev (tl r) @ c # pre) t)"
          unfolding s by (rule digit_runs_run [OF rt(2,3) not_starts_digit_sub [OF assms(1) rt(4)]])
        with less.prems(2) consider "x = r" | "x \<in> set (digit_runs (re_sub a M (rev (tl r) @ c # pre) t))" by auto
        then show ?thesis
        proof cases
          case 1
          with True rt(4) pre runs show ?thesis by auto
        next
          case 2
          with less.hyps [OF len, of "rev (tl r) @ c # pre"] rt(4) runs show ?thesis by auto
        qed
      next
        case False
        then obtain g p v w ms where m: "matches a pre (r @ t) = (g, p, w) # ms" "t = v @ w"
          "\<forall>c \<in> set v. \<not> is_digit c" "v \<noteq> [] \<longrightarrow> \<not> starts_digit w"
          using assms(1) rt(2-4) pre unfolding run_pattern_def by blast
        have w: "\<not> starts_digit w" using m(2,4) rt(4) by (cases v) auto
        have "re_sub a M pre s = M @ re_sub a M (rev (r @ v) @ pre) w"
          using re_sub_match [of a pre "r @ v" w g p ms M] m(1,2) rt(1,2) Cons by simp
        then have "digit_runs (re_sub a M pre s) = digit_runs (re_sub a M (rev (r @ v) @ pre) w)"
          using digit_runs_nondigits [OF assms(2)] by simp
        moreover have "length w < length s" using len m(2) by simp
        ultimately have "x \<in> set (digit_runs w) \<and> (\<exists>p t. \<not> starts_digit p \<and> \<not> starts_digit t \<and> matches a p (x @ t) = [])"
          using less.hyps [of w "rev (r @ v) @ pre"] less.prems(2) w by simp
        then show ?thesis using runs m(2,3) digit_runs_nondigits by simp
      qed
    qed
  qed
qed

section \<open>The number patterns match whole runs\<close>

lemma matches_behind: "matches (NotBehind is_digit) pre s = (if starts_digit pre then [] else [(None, pre, s)])"
  by (cases pre) (simp_all add: starts_digit_def)

lemma matches_ahead: "matches (NotAhead is_digit) pre s = (if starts_digit s then [] else [(None, pre, s)])"
  by (cases s) (simp_all add: starts_digit_def)

lemma starts_digit_drop:
  "\<forall>c \<in> set r. is_digit c \<Longrightarrow> \<not> starts_digit s \<Longrightarrow> i \<le> length r \<Longrightarrow> starts_digit (drop i (r @ s)) \<longleftrightarrow> i < length r"
  by (cases "i < length r") (auto simp: starts_digit_def hd_append hd_drop_conv_nth)

lemma concat_single:
  "(\<And>i. i \<in> set is \<Longrightarrow> i \<noteq> n \<Longrightarrow> f i = []) \<Longrightarrow> distinct is \<Longrightarrow> concat (map f is) = (if n \<in> set is then f n else [])"
  by (induction "is") auto

lemma captures_kept: "map (\<lambda>(g', p, r). (if g' = None then None else g', p, r)) xs = xs"
  by (rule map_idI) auto

lemma matches_Cat_behind:
  "matches (Cat (NotBehind is_digit) b) pre s = (if starts_digit pre then [] else matches b pre s)"
  by (simp add: matches_behind captures_kept del: matches.simps(6))

lemma matches_Cat_Cls:
  "matches (Cat (Cls p) b) pre s = (case s of [] \<Rightarrow> [] | c # cs \<Rightarrow> if p c then matches b (c # pre) cs else [])"
  by (cases s) (simp_all add: captures_kept)

lemma matches_Cat_Many:
  "matches (Cat (Many p n (Some n)) b) pre s =
     (if n \<le> length (takeWhile p s) then matches b (rev (take n s) @ pre) (drop n s) else [])"
  by (simp add: Let_def captures_kept)

lemma matches_Cat_Many_range:
  "matches (Cat (Many p lo (Some hi)) b) pre s =
     concat (map (\<lambda>i. matches b (rev (take i s) @ pre) (drop i s)) (counts_down (min hi (length (takeWhile p s))) lo))"
  by (simp add: Let_def comp_def captures_kept)

lemma matches_many_ahead:
  assumes "\<forall>c \<in> set r. is_digit c" and "\<not> starts_digit s"
  shows "matches (Cat (Many is_digit lo (Some hi)) (NotAhead is_digit)) pre (r @ s) =
    (if lo \<le> length r \<and> length r \<le> hi then [(None, rev r @ pre, s)] else [])"
proof -
  let ?n = "length r"
  let ?f = "\<lambda>i. if starts_digit (drop i (r @ s)) then [] else [(None, rev (take i (r @ s)) @ pre, drop i (r @ s))]"
  have "matches (Cat (Many is_digit lo (Some hi)) (NotAhead is_digit)) pre (r @ s) =
      concat (map (\<lambda>i. ?f i) (rev [lo..<Suc (min hi ?n)]))"
    unfolding matches_Cat_Many_range takeWhile_run [OF assms] counts_down.simps matches_ahead ..
  also have "\<dots> = (if ?n \<in> set (rev [lo..<Suc (min hi ?n)]) then ?f ?n else [])"
    by (rule concat_single) (use starts_digit_drop [OF assms] in auto)
  also have "\<dots> = (if lo \<le> ?n \<and> ?n \<le> hi then [(None, rev r @ pre, s)] else [])"
    using starts_digit_drop [OF assms, of ?n] by auto
  finally show ?thesis .
qed

lemmas run_simps = matches_Cat_behind matches_Cat_Cls matches_Cat_Many matches_ahead

lemma bank_run:
  assumes "\<forall>c \<in> set r. is_digit c" and "\<not> starts_digit s" and "\<not> starts_digit pre"
  shows "matches bank_card_re pre (r @ s) = (if 13 \<le> length r \<and> length r \<le> 19 then [(None, rev r @ pre, s)] else [])"
  using matches_many_ahead [OF assms(1,2), of 13 19 pre] assms(3)
  by (simp add: bank_card_re_def matches_Cat_behind del: matches.simps)

lemma ascii_digit: "48 \<le> c \<Longrightarrow> c \<le> 57 \<Longrightarrow> is_digit c"
  by (simp add: is_digit_def digit_starts_def)

lemma phone_run:
  assumes "\<forall>c \<in> set r. is_digit c" and "\<not> starts_digit s" and "\<not> starts_digit pre" and "r \<noteq> []"
  shows "matches phone_re pre (r @ s) =
    (if length r = 11 \<and> hd r = 49 \<and> 51 \<le> r ! 1 \<and> r ! 1 \<le> 57 then [(None, rev r @ pre, s)] else [])"
proof (cases "\<exists>x y q. r = x # y # q")
  case True
  then obtain x y q where r: "r = x # y # q" by blast
  have q: "matches (Cat (Many is_digit 9 (Some 9)) (NotAhead is_digit)) p (q @ s) = (if length q = 9 then [(None, rev q @ p, s)] else [])"
    for p using matches_many_ahead [of q s 9 9 p] assms(1,2) r by auto
  have "matches phone_re pre (r @ s) = (if x = 49 \<and> 51 \<le> y \<and> y \<le> 57
      then matches (Cat (Many is_digit 9 (Some 9)) (NotAhead is_digit)) (y # x # pre) (q @ s) else [])"
    using assms(3) by (simp add: phone_re_def r matches_Cat_behind matches_Cat_Cls del: matches.simps)
  then show ?thesis unfolding q r by simp
next
  case False
  then obtain x where r: "r = [x]" using assms(4) by (metis list.exhaust)
  have "\<not> (51 \<le> hd s \<and> hd s \<le> 57)" if "s \<noteq> []"
    using assms(2) that ascii_digit [of "hd s"] by (auto simp: starts_digit_def)
  then show ?thesis using assms(3)
    by (cases s) (auto simp add: phone_re_def r matches_Cat_behind matches_Cat_Cls simp del: matches.simps)
qed

lemma id_card_run:
  assumes "\<forall>c \<in> set r. is_digit c" and "\<not> starts_digit s" and "\<not> starts_digit pre"
  shows "matches id_card_re pre (r @ s) =
    (if length r = 18 then [(None, rev r @ pre, s)]
     else if length r = 17 \<and> s \<noteq> [] \<and> (hd s = 88 \<or> hd s = 120) \<and> \<not> starts_digit (tl s) then [(None, hd s # rev r @ pre, tl s)] else [])"
proof (cases "17 \<le> length r")
  case False
  then show ?thesis using takeWhile_run [OF assms(1,2)] assms(3)
    by (simp add: id_card_re_def run_simps del: matches.simps)
next
  case True
  have t: "length (takeWhile is_digit (r @ s)) = length r" by (simp add: takeWhile_run [OF assms(1,2)])
  have m: "matches id_card_re pre (r @ s) =
      (case drop 17 r @ s of [] \<Rightarrow> [] | c # cs \<Rightarrow> if is_digit c \<or> c = 88 \<or> c = 120 then
         (if starts_digit cs then [] else [(None, c # rev (take 17 r) @ pre, cs)]) else [])"
    using assms(3) True
    by (cases "drop 17 r @ s") (simp_all add: id_card_re_def run_simps t del: matches.simps)
  show ?thesis
  proof (cases "drop 17 r")
    case Nil
    then have "length r = 17" using True by simp
    with Nil m assms(2) show ?thesis by (cases s) (auto simp: starts_digit_def)
  next
    case (Cons y q)
    have len: "length r = 17 + Suc (length q)" using arg_cong [OF Cons, of length] by simp
    have r: "r = take 17 r @ y # q" using Cons by (metis append_take_drop_id)
    have y: "is_digit y" and q: "\<forall>c \<in> set q. is_digit c" using assms(1) r by (metis in_set_conv_decomp) (metis assms(1) in_set_dropD local.Cons list.set_intros(2))
    show ?thesis
    proof (cases q)
      case Nil
      have rv: "rev r = y # rev (take 17 r)" using r Nil by (metis rev.simps(1) rev_append append_Nil rev.simps(2) append_Cons)
      show ?thesis using Nil len m Cons y assms(2) by (simp add: rv [symmetric])
    next
      case (Cons z q')
      then show ?thesis using len m y q \<open>drop 17 r = y # q\<close> by (simp add: starts_digit_def)
    qed
  qed
qed

lemma is_digit_49: "is_digit 49"
  by (simp add: ascii_digit)

lemma run_patterns: "run_pattern id_card_re" "run_pattern bank_card_re" "run_pattern phone_re"
proof -
  have start: "matches id_card_re pre s = [] \<and> matches bank_card_re pre s = [] \<and> matches phone_re pre s = []"
    if "starts_digit pre \<or> \<not> starts_digit s" for pre s
  proof (cases "starts_digit pre")
    case True
    then show ?thesis by (simp add: id_card_re_def bank_card_re_def phone_re_def matches_Cat_behind del: matches.simps)
  next
    case False
    with that have s: "\<not> starts_digit s" by blast
    have "matches phone_re pre s = []"
      using s False is_digit_49
      by (cases s) (auto simp add: phone_re_def matches_Cat_behind matches_Cat_Cls starts_digit_def simp del: matches.simps)
    then show ?thesis using id_card_run [of "[]" s pre] bank_run [of "[]" s pre] s False by simp
  qed
  show "run_pattern id_card_re"
    unfolding run_pattern_def
  proof (intro conjI allI impI)
    fix pre r s :: ustr
    assume a: "r \<noteq> []" "\<forall>c \<in> set r. is_digit c" "\<not> starts_digit s" "\<not> starts_digit pre" "matches id_card_re pre (r @ s) \<noteq> []"
    then consider "matches id_card_re pre (r @ s) = [(None, rev r @ pre, s)]"
      | "s \<noteq> []" "\<not> starts_digit (tl s)" "matches id_card_re pre (r @ s) = [(None, hd s # rev r @ pre, tl s)]"
      by (auto simp: id_card_run split: if_splits)
    then show "\<exists>g p v w ms. matches id_card_re pre (r @ s) = (g, p, w) # ms \<and> s = v @ w \<and>
        (\<forall>c \<in> set v. \<not> is_digit c) \<and> (v \<noteq> [] \<longrightarrow> \<not> starts_digit w)"
    proof cases
      case 1
      then show ?thesis by (metis append_Nil empty_iff empty_set)
    next
      case 2
      then have "s = [hd s] @ tl s" "\<forall>c \<in> set [hd s]. \<not> is_digit c" using a(3) by (simp_all add: starts_digit_def)
      with 2 show ?thesis by blast
    qed
  qed (use start in blast)
  have whole: "run_pattern a" if m: "\<And>pre r s. r \<noteq> [] \<Longrightarrow> \<forall>c \<in> set r. is_digit c \<Longrightarrow> \<not> starts_digit s \<Longrightarrow> \<not> starts_digit pre \<Longrightarrow>
      matches a pre (r @ s) = [] \<or> matches a pre (r @ s) = [(None, rev r @ pre, s)]"
    and st: "\<And>pre s. starts_digit pre \<or> \<not> starts_digit s \<Longrightarrow> matches a pre s = []" for a
    unfolding run_pattern_def using st m by (metis append_Nil empty_iff empty_set)
  show "run_pattern bank_card_re" by (rule whole) (use start in \<open>auto simp: bank_run\<close>)
  show "run_pattern phone_re" by (rule whole) (use start in \<open>auto simp: phone_run\<close>)
qed

section \<open>What masking leaves\<close>

lemma search_None_sub: "search a pre s = None \<Longrightarrow> re_sub a M pre s = s"
  by (induction s arbitrary: pre) (auto simp: re_sub.simps(2) split: list.splits)

definition mask_numbers :: "ustr \<Rightarrow> ustr" where
  "mask_numbers text = re_sub phone_re (asc ''[PHONE_MASKED]'') [] (re_sub bank_card_re (asc ''[BANK_CARD_MASKED]'') []
     (re_sub id_card_re (asc ''[ID_CARD_MASKED]'') [] text))"

lemma mask_step_text: "fst (mask_step (t, found) (label, a, M)) = re_sub a M [] t"
  by (cases "search a [] t = None") (simp_all add: mask_step_def search_None_sub)

lemma mask_pii_text: "fst (mask_pii text) = re_sub email_re (asc ''[EMAIL_MASKED]'') [] (mask_numbers text)"
proof -
  have "fst (mask_step x (label, a, M)) = re_sub a M [] (fst x)" for x label a M
    using mask_step_text by (cases x) simp
  then show ?thesis by (simp add: mask_pii_def pii_patterns_def mask_numbers_def)
qed

text \<open>A maximal run of digits that looks like a card, an identity number or a mobile phone.\<close>

definition personal_number :: "ustr \<Rightarrow> bool" where
  "personal_number r \<longleftrightarrow> (13 \<le> length r \<and> length r \<le> 19) \<or>
     (length r = 11 \<and> hd r = 49 \<and> 51 \<le> r ! 1 \<and> r ! 1 \<le> 57)"

lemma digit_runs_digits: "r \<in> set (digit_runs s) \<Longrightarrow> r \<noteq> [] \<and> (\<forall>c \<in> set r. is_digit c)"
proof (induction s rule: digit_runs.induct)
  case (2 c cs)
  have "takeWhile is_digit (c # cs) \<noteq> [] \<and> (\<forall>x \<in> set (takeWhile is_digit (c # cs)). is_digit x)" if "is_digit c"
    using that set_takeWhileD [of _ is_digit "c # cs"] by (metis list.distinct(1) takeWhile.simps(2))
  with 2 show ?case by (metis digit_runs.simps(2) set_ConsD)
qed simp

lemma ascii_nondigit: "c < 48 \<or> (57 < c \<and> c < 0x660) \<Longrightarrow> \<not> is_digit c"
proof -
  have "\<forall>z \<in> set digit_starts. z = 48 \<or> 0x660 \<le> z" by (simp add: digit_starts_def)
  then show "c < 48 \<or> (57 < c \<and> c < 0x660) \<Longrightarrow> \<not> is_digit c" by (fastforce simp: is_digit_def)
qed

lemma no_digit_masks:
  "\<forall>c \<in> set (asc ''[PHONE_MASKED]''). \<not> is_digit c" "\<forall>c \<in> set (asc ''[BANK_CARD_MASKED]''). \<not> is_digit c"
  "\<forall>c \<in> set (asc ''[ID_CARD_MASKED]''). \<not> is_digit c"
  by (simp_all add: asc_def ascii_nondigit)

lemma mask_numbers_runs:
  assumes "r \<in> set (digit_runs (mask_numbers text))"
  shows "r \<in> set (digit_runs text) \<and> \<not> personal_number r"
proof -
  have e: "\<not> (starts_digit [] \<and> starts_digit s)" for s by (simp add: starts_digit_def)
  note d = digit_runs_digits [OF assms]
  let ?i = "re_sub id_card_re (asc ''[ID_CARD_MASKED]'') [] text"
  let ?b = "re_sub bank_card_re (asc ''[BANK_CARD_MASKED]'') [] ?i"
  have p: "r \<in> set (digit_runs ?b)" "\<exists>p t. \<not> starts_digit p \<and> \<not> starts_digit t \<and> matches phone_re p (r @ t) = []"
    using digit_runs_sub [OF run_patterns(3) no_digit_masks(1) e assms [unfolded mask_numbers_def]] by blast+
  have b: "r \<in> set (digit_runs ?i)" "\<exists>p t. \<not> starts_digit p \<and> \<not> starts_digit t \<and> matches bank_card_re p (r @ t) = []"
    using digit_runs_sub [OF run_patterns(2) no_digit_masks(2) e p(1)] by blast+
  have i: "r \<in> set (digit_runs text)"
    using digit_runs_sub [OF run_patterns(1) no_digit_masks(3) e b(1)] by blast
  have "\<not> (13 \<le> length r \<and> length r \<le> 19)" using b(2) d by (auto simp: bank_run)
  moreover have "\<not> (length r = 11 \<and> hd r = 49 \<and> 51 \<le> r ! 1 \<and> r ! 1 \<le> 57)" using p(2) d by (auto simp: phone_run)
  ultimately show ?thesis using i by (simp add: personal_number_def)
qed



section \<open>Order numbers that look like cards\<close>

lemma first_long_run_runs:
  "first_long_run s = (case filter (\<lambda>r. 8 \<le> length r) (digit_runs s) of [] \<Rightarrow> None | r # _ \<Rightarrow> Some r)"
proof (induction s rule: digit_runs.induct)
  case (2 c cs)
  show ?case
  proof (cases "is_digit c")
    case True
    have "drop (length (takeWhile is_digit (c # cs))) (c # cs) = dropWhile is_digit cs"
      using True by (simp add: dropWhile_eq_drop)
    with True 2 show ?thesis by (simp add: first_long_run.simps(2) Let_def)
  next
    case False
    with 2 show ?thesis by (simp add: first_long_run.simps(2))
  qed
qed simp

lemma set_re_sub: "c \<in> set (re_sub a M pre s) \<Longrightarrow> c \<in> set s \<or> c \<in> set M"
proof (induction a M pre s rule: re_sub.induct)
  case (2 a M pre c' cs)
  show ?case
  proof (cases "matches a pre (c' # cs)")
    case Nil
    with 2 show ?thesis by (auto simp: re_sub.simps(2))
  next
    case (Cons m ms)
    obtain g p rest where m: "m = (g, p, rest)" by (cases m)
    let ?n = "max 1 (length (c' # cs) - length rest)"
    have ih: "c \<in> set (re_sub a M (rev (take ?n (c' # cs)) @ pre) (drop ?n (c' # cs))) \<Longrightarrow>
        c \<in> set (drop ?n (c' # cs)) \<or> c \<in> set M"
      using "2.IH"(2) Cons m by blast
    have "c \<in> set M \<or> c \<in> set (re_sub a M (rev (take ?n (c' # cs)) @ pre) (drop ?n (c' # cs)))"
      using "2.prems" Cons m by (simp add: re_sub.simps(2) Let_def)
    with ih show ?thesis by (meson in_set_dropD)
  qed
qed simp

lemma matches_needs_char:
  assumes "x \<notin> set s"
  shows "matches (Cat a (Cat (Cls ((=) x)) b)) pre s = []"
proof -
  have "matches (Cat (Cls ((=) x)) b) p r = []" if m: "(g, p, r) \<in> set (matches a pre s)" for g p r
  proof -
    from matches_split [OF m] assms have "x \<notin> set r" by auto
    then show ?thesis by (cases r) (auto simp only: matches_Cat_Cls list.case list.set_intros if_False split: if_splits)
  qed
  then show ?thesis by (subst matches.simps(3)) auto
qed

lemma email_needs_at: "64 \<notin> set s \<Longrightarrow> re_sub email_re M pre s = s"
proof (induction s arbitrary: pre)
  case (Cons c cs)
  have "matches email_re pre (c # cs) = []"
    unfolding email_re_def cats.simps by (rule matches_needs_char [OF Cons.prems])
  with Cons show ?case by (simp add: re_sub_no_match)
qed simp

text \<open>
  An order number of 13 to 19 digits cannot be asked for. The pattern for order numbers
  finds it in the question, but the input filter has replaced it as a bank card before the
  question is routed, so no order number is left in what the router sees.
\<close>

lemma long_order_number_redacted:
  assumes "\<forall>c \<in> set n. 48 \<le> c \<and> c \<le> 57" and "13 \<le> length n" and "length n \<le> 19"
    and "verdict_allowed (inspect_input ([0x8BA2, 0x5355] \<comment> \<open>order\<close> @ n))"
  shows "extract_query_order_no ([0x8BA2, 0x5355] \<comment> \<open>order\<close> @ n) = Some n \<and>
    extract_query_order_no (sanitized_text (inspect_input ([0x8BA2, 0x5355] \<comment> \<open>order\<close> @ n))) = None"
proof -
  let ?t = "[0x8BA2, 0x5355] \<comment> \<open>order\<close> @ n"
  have d: "\<forall>c \<in> set n. is_digit c" using assms(1) ascii_digit by blast
  have ne: "n \<noteq> []" using assms(2) by auto
  have nd: "\<forall>c \<in> set [0x8BA2, 0x5355] \<comment> \<open>order\<close>. \<not> is_digit c" by (simp add: is_digit_def digit_starts_def)
  have "digit_runs (n @ []) = n # digit_runs []" by (rule digit_runs_run [OF ne d]) (simp add: starts_digit_def)
  then have runs: "digit_runs ?t = [n]" using digit_runs_nondigits [OF nd, of n] by simp
  have "\<not> is_space c" if "c \<in> set ?t" for c using that assms(1) by (auto simp: is_space_def)
  then have "stripped ?t" using ne by (auto simp: stripped_def)
  then have "sanitized_text (inspect_input ?t) = fst (mask_pii ?t)"
    using assms(4) by (auto simp: inspect_input_def Let_def strip_id split: if_splits prod.splits)
  moreover have "64 \<notin> set (mask_numbers ?t)"
    using assms(1) by (fastforce simp: mask_numbers_def asc_def dest!: set_re_sub)
  ultimately have san: "sanitized_text (inspect_input ?t) = mask_numbers ?t"
    by (simp add: mask_pii_text email_needs_at)
  have "r \<in> set (digit_runs (mask_numbers ?t)) \<Longrightarrow> False" for r
    using mask_numbers_runs [of r ?t] assms(2,3) unfolding runs by (auto simp: personal_number_def)
  then have "digit_runs (mask_numbers ?t) = []" by (metis list.set_intros(1) neq_Nil_conv)
  then show ?thesis
    unfolding san extract_query_order_no_run first_long_run_runs runs using assms(2) by simp
qed

end
