(* ===== verification/Rag_Query.thy ===== *)
theory Rag_Query
  imports Capabilities Filters
begin

text \<open>
  From a question to the text that is searched: the rewriting of \<open>app/rag/rewrite.py\<close>, the
  course aliases of \<open>app/rag/catalog.py\<close>, the decomposition of \<open>app/rag/llm_rewrite.py\<close>, the
  retrieval plan of \<open>app/rag/retrieval_plan.py\<close> and \<open>_prepare_search_query\<close> of
  \<open>app/agents/rag.py\<close>. The model's reply, \<open>json.loads\<close> and \<open>str.casefold\<close> are arguments.
\<close>

section \<open>Splitting at a pattern\<close>

text \<open>\<open>re.split\<close> for a pattern that consumes at least one character; \<open>acc\<close> is the reversed current part.\<close>

function re_split :: "re \<Rightarrow> ustr \<Rightarrow> ustr \<Rightarrow> ustr \<Rightarrow> ustr list" where
  "re_split a acc pre [] = [rev acc]"
| "re_split a acc pre (c # cs) =
     (case matches a pre (c # cs) of
        [] \<Rightarrow> re_split a (c # acc) (c # pre) cs
      | (_, _, rest) # _ \<Rightarrow>
          (let n = max 1 (length (c # cs) - length rest)
           in rev acc # re_split a [] (rev (take n (c # cs)) @ pre) (drop n (c # cs))))"
  by pat_completeness auto
termination
  by (relation "measure (\<lambda>(a, acc, pre, rest). length rest)") auto

declare re_split.simps(2) [simp del]

section \<open>Rewriting\<close>

definition anaphora_hints :: "ustr list" where
  "anaphora_hints = [[0x8FD9, 0x4E2A] \<comment> \<open>this\<close>, [0x90A3, 0x4E2A] \<comment> \<open>that\<close>, [0x5B83] \<comment> \<open>it\<close>, [0x8FD9, 0x95E8] \<comment> \<open>this one\<close>, [0x90A3, 0x95E8] \<comment> \<open>that one\<close>, [0x8FD9, 0x95E8, 0x8BFE] \<comment> \<open>this course\<close>, [0x90A3, 0x95E8, 0x8BFE] \<comment> \<open>that course\<close>]"

definition abstract_patterns :: "(ustr list \<times> ustr) list" where
  "abstract_patterns =
     [([[0x96BE, 0x4E0D, 0x96BE] \<comment> \<open>hard or not\<close>, [0x96BE, 0x5417] \<comment> \<open>hard?\<close>, [0x597D, 0x4E0D, 0x597D, 0x5B66] \<comment> \<open>easy to learn or not\<close>, [0x597D, 0x5B66, 0x5417] \<comment> \<open>easy to learn?\<close>], [0x8BFE, 0x7A0B, 0x96BE, 0x5EA6, 32, 0x5B66, 0x4E60, 0x8981, 0x6C42] \<comment> \<open>difficulty, requirements\<close>),
      ([[0x9002, 0x5408, 0x8C01] \<comment> \<open>for whom\<close>, [0x9002, 0x5408, 0x4EC0, 0x4E48, 0x4EBA] \<comment> \<open>for which people\<close>, [0x4EC0, 0x4E48, 0x4EBA, 0x9002, 0x5408] \<comment> \<open>which people\<close>, [0x96F6, 0x57FA, 0x7840] \<comment> \<open>beginner\<close>], [0x9002, 0x5408, 0x4EBA, 0x7FA4, 32, 0x524D, 0x7F6E, 0x8981, 0x6C42] \<comment> \<open>audience, prerequisites\<close>),
      ([[0x5B66, 0x5230, 0x4EC0, 0x4E48] \<comment> \<open>learn what\<close>, [0x80FD, 0x5B66, 0x5230, 0x4EC0, 0x4E48] \<comment> \<open>can learn what\<close>, [0x5B66, 0x4EC0, 0x4E48] \<comment> \<open>study what\<close>, [0x6709, 0x4EC0, 0x4E48, 0x7528] \<comment> \<open>what use\<close>, [0x6536, 0x83B7] \<comment> \<open>gain\<close>], [0x8BFE, 0x7A0B, 0x6A21, 0x5757, 32, 0x5B66, 0x4E60, 0x76EE, 0x6807] \<comment> \<open>modules, goals\<close>)]"

definition rewrite_short_chars :: nat where
  "rewrite_short_chars = 12"

record rewrite_result =
  rw_query :: ustr
  rw_rewritten :: bool
  rw_reason :: ustr

definition unchanged :: "ustr \<Rightarrow> rewrite_result" where
  "unchanged text = \<lparr>rw_query = text, rw_rewritten = False, rw_reason = (asc ''none'')\<rparr>"

text \<open>The abstract patterns are tried in order; the first that is found decides.\<close>

fun rewrite_abstract :: "(ustr list \<times> ustr) list \<Rightarrow> ustr \<Rightarrow> rewrite_result" where
  "rewrite_abstract [] text = unchanged text"
| "rewrite_abstract ((hints, keywords) # ps) text =
     (if any_in hints text
      then (if occurs keywords text then unchanged text
        else \<lparr>rw_query = strip (text @ (asc '' '') @ keywords), rw_rewritten = True, rw_reason = (asc ''abstract'')\<rparr>)
      else rewrite_abstract ps text)"

definition maybe_rewrite_query :: "ustr \<Rightarrow> ustr \<Rightarrow> ustr option \<Rightarrow> ustr option \<Rightarrow> rewrite_result" where
  "maybe_rewrite_query query original_query last_course_name last_course_query =
     (let text = strip query; original = strip original_query;
          course_hint = strip (str_or_empty (or_opt (or_opt last_course_name last_course_query) (Some [])))
      in if text = [] then unchanged text
         else if length original < rewrite_short_chars \<and> any_in anaphora_hints original \<and> course_hint \<noteq> [] \<and> \<not> occurs course_hint text
         then \<lparr>rw_query = strip (course_hint @ (asc '' '') @ text), rw_rewritten = True, rw_reason = (asc ''followup'')\<rparr>
         else rewrite_abstract abstract_patterns text)"

section \<open>Course aliases\<close>

definition extra_aliases :: "(ustr \<times> ustr list) list" where
  "extra_aliases =
     [((asc ''python-intro''), [(asc ''Python'' @ [0x5165, 0x95E8]) \<comment> \<open>Python introduction\<close>, (asc ''python'' @ [0x5165, 0x95E8]) \<comment> \<open>python introduction\<close>, [112, 121, 0x5165, 0x95E8] \<comment> \<open>py introduction\<close>, (asc ''Python'' @ [0x96F6, 0x57FA, 0x7840]) \<comment> \<open>Python for beginners\<close>]),
      ((asc ''ml-basics''), [[0x673A, 0x5668, 0x5B66, 0x4E60, 0x57FA, 0x7840, 0x8BFE] \<comment> \<open>machine learning basics\<close>, [0x673A, 0x5668, 0x5B66, 0x4E60, 0x5BFC, 0x8BBA] \<comment> \<open>introduction to machine learning\<close>, [77, 76, 0x5165, 0x95E8] \<comment> \<open>ML introduction\<close>, [0x673A, 0x5668, 0x5B66, 0x4E60, 0x8BFE] \<comment> \<open>machine learning course\<close>]),
      ((asc ''data-analysis''), [[0x6570, 0x636E, 0x5206, 0x6790, 0x8BFE] \<comment> \<open>data analysis course\<close>, (asc ''Pandas'' @ [0x8BFE]) \<comment> \<open>Pandas course\<close>, (asc ''pandas'' @ [0x8BFE, 0x7A0B]) \<comment> \<open>pandas lessons\<close>, (asc ''NumPy'' @ [0x8BFE]) \<comment> \<open>NumPy course\<close>]),
      ((asc ''acme-onboarding''), [(asc ''Acme'' @ [0x5165, 0x804C]) \<comment> \<open>joining Acme\<close>, [0x5165, 0x804C, 0x57F9, 0x8BAD, 0x8BFE] \<comment> \<open>onboarding training\<close>])]"

definition aliases_for_course_code :: "ustr \<Rightarrow> ustr list" where
  "aliases_for_course_code code = (case map_of extra_aliases code of None \<Rightarrow> [] | Some xs \<Rightarrow> xs)"

definition normalize_alias :: "ustr \<Rightarrow> ustr" where
  "normalize_alias text = lower (re_sub spaces [] [] text)"

definition load_course_aliases :: "course_catalog \<Rightarrow> ustr \<Rightarrow> (ustr, ustr) dict" where
  "load_course_aliases rows tenant_id =
     foldl (\<lambda>d ((tn, code), name).
        if tn \<noteq> tenant_id \<or> name = [] then d
        else foldl (\<lambda>d key. AList.update (normalize_alias key) name d) d ([name, code] @ aliases_for_course_code code))
      [] (load_course_catalog rows tenant_id)"

definition enrich_query_with_course_aliases :: "course_catalog \<Rightarrow> ustr \<Rightarrow> ustr \<Rightarrow> ustr" where
  "enrich_query_with_course_aliases rows query tenant_id =
     (let text = strip query; normalized = normalize_alias text in
      if text = [] then text
      else case find (\<lambda>(key, name). key \<noteq> [] \<and> occurs key normalized \<and> \<not> occurs name text)
             (sort_key (\<lambda>(key, _). - int (length key)) (load_course_aliases rows tenant_id)) of
          None \<Rightarrow> text | Some (_, name) \<Rightarrow> strip (name @ (asc '' '') @ text))"

section \<open>Decomposition\<close>

definition split_pattern :: re where
  "split_pattern = alts [Cls (\<lambda>c. c \<in> {0xFF0C, 44, 0x3001, 0xFF1B, 59}), lit [0x4EE5, 0x53CA] \<comment> \<open>and\<close>, lit [0x8FD8, 0x6709] \<comment> \<open>also\<close>, lit [0x540C, 0x65F6] \<comment> \<open>at the same time\<close>, lit [0x548C] \<comment> \<open>and\<close>, lit [0x4E0E] \<comment> \<open>and\<close>]"

definition decompose_hints :: "ustr list" where
  "decompose_hints = [[0x6A21, 0x5757] \<comment> \<open>module\<close>, [0x5927, 0x7EB2] \<comment> \<open>outline\<close>, [0x8DEF, 0x5F84] \<comment> \<open>path\<close>, [0x5BF9, 0x6BD4] \<comment> \<open>compare\<close>, [0x533A, 0x522B] \<comment> \<open>difference\<close>, [0x5305, 0x542B] \<comment> \<open>contain\<close>, [0x5B66, 0x4E60] \<comment> \<open>learn\<close>, [0x5185, 0x5BB9] \<comment> \<open>content\<close>, [0x8BB2, 0x4EC0, 0x4E48] \<comment> \<open>about what\<close>, [0x54EA, 0x4E9B] \<comment> \<open>which\<close>]"

record query_settings =
  qs_rewrite_enabled :: bool
  qs_llm_rewrite_enabled :: bool
  qs_llm_enabled :: bool
  qs_max_queries :: int
  qs_casefold :: "ustr \<Rightarrow> ustr"
  qs_ask :: "ustr \<Rightarrow> ustr option"
  qs_json :: "ustr \<Rightarrow> ustr list option"

fun dedup_parts :: "(ustr \<Rightarrow> ustr) \<Rightarrow> ustr set \<Rightarrow> ustr list \<Rightarrow> ustr list" where
  "dedup_parts fold_case seen [] = []"
| "dedup_parts fold_case seen (p # ps) =
     (if fold_case p \<in> seen then dedup_parts fold_case seen ps else p # dedup_parts fold_case (insert (fold_case p) seen) ps)"

text \<open>\<open>xs[:n]\<close>: a negative bound drops from the end.\<close>

definition take_int :: "int \<Rightarrow> 'a list \<Rightarrow> 'a list" where
  "take_int n xs = (if n < 0 then take (length xs - nat (- n)) xs else take (nat n) xs)"

definition rule_decompose :: "query_settings \<Rightarrow> ustr \<Rightarrow> ustr list" where
  "rule_decompose cfg query =
     (let text = strip query in
      if text = [] then []
      else if length text < 16 \<or> \<not> any_in decompose_hints text then [text]
      else let parts = filter (\<lambda>p. p \<noteq> []) (map strip (re_split split_pattern [] [] text)) in
        if length parts < 2 then [text]
        else let deduped = dedup_parts (qs_casefold cfg) {} (take_int (qs_max_queries cfg) parts)
          in if deduped = [] then [text] else deduped)"

text \<open>
  \<open>qs_ask\<close> is the content of the model's reply, \<open>None\<close> when the call raises; \<open>qs_json\<close> the
  items of a JSON array as strings, \<open>None\<close> for text that is no JSON.
\<close>

definition parse_query_list :: "query_settings \<Rightarrow> ustr \<Rightarrow> ustr list" where
  "parse_query_list cfg raw =
     (let text = strip raw in
      if starts_with (asc ''['') text
      then (case qs_json cfg text of None \<Rightarrow> [] | Some items \<Rightarrow> filter (\<lambda>x. x \<noteq> []) (map strip items))
      else if text \<noteq> [] then [text] else [])"

definition llm_decompose :: "query_settings \<Rightarrow> ustr \<Rightarrow> ustr list option" where
  "llm_decompose cfg query = (case qs_ask cfg query of None \<Rightarrow> None
     | Some content \<Rightarrow> (let items = parse_query_list cfg content in
         Some (if length items < 2 then [] else take_int (qs_max_queries cfg) items)))"

definition decompose_retrieval_queries :: "query_settings \<Rightarrow> ustr \<Rightarrow> ustr list" where
  "decompose_retrieval_queries cfg query =
     (let text = strip query in
      if text = [] then []
      else case (if qs_llm_rewrite_enabled cfg \<and> qs_llm_enabled cfg then llm_decompose cfg text else None) of
          Some qs \<Rightarrow> if 2 \<le> length qs then qs else rule_decompose cfg text
        | None \<Rightarrow> rule_decompose cfg text)"

section \<open>The plan of a retrieval\<close>

definition plan_followup_hints :: "ustr list" where
  "plan_followup_hints = [[0x8FD9, 0x4E2A] \<comment> \<open>this\<close>, [0x90A3, 0x4E2A] \<comment> \<open>that\<close>, [0x96BE, 0x5417] \<comment> \<open>hard?\<close>, [0x600E, 0x4E48, 0x6837] \<comment> \<open>how is it\<close>, [0x5982, 0x4F55] \<comment> \<open>how\<close>, [0x53EF, 0x4EE5, 0x5417] \<comment> \<open>may I\<close>]"

definition plan_complex_hints :: "ustr list" where
  "plan_complex_hints = [[0x54EA, 0x4E9B] \<comment> \<open>which\<close>, [0x5305, 0x542B] \<comment> \<open>contain\<close>, [0x533A, 0x522B] \<comment> \<open>difference\<close>, [0x5BF9, 0x6BD4] \<comment> \<open>compare\<close>, [0x9002, 0x5408] \<comment> \<open>suit\<close>, [0x8DEF, 0x5F84] \<comment> \<open>path\<close>, [0x6A21, 0x5757] \<comment> \<open>module\<close>, [0x5927, 0x7EB2] \<comment> \<open>outline\<close>, [0x5B66, 0x4E60] \<comment> \<open>learn\<close>, [0x5185, 0x5BB9] \<comment> \<open>content\<close>]"

record retrieval_plan =
  rp_fetch_k :: int
  rp_result_k :: int
  rp_profile :: ustr

definition clamp :: "int \<Rightarrow> int \<Rightarrow> int \<Rightarrow> int" where
  "clamp v low high = max low (min high v)"

definition resolve_retrieval_plan :: "int \<Rightarrow> int \<Rightarrow> ustr \<Rightarrow> int \<Rightarrow> ustr option \<Rightarrow> retrieval_plan" where
  "resolve_retrieval_plan k_min k_max query result_k code =
     (let text = strip query in
      if truthy code
      then \<lparr>rp_fetch_k = clamp (max (result_k * 2) k_min) k_min k_max, rp_result_k = result_k, rp_profile = (asc ''explicit_course'')\<rparr>
      else if length text < 8 \<or> any_in plan_followup_hints text
      then \<lparr>rp_fetch_k = clamp (max (result_k * 3) k_min) k_min k_max, rp_result_k = result_k, rp_profile = (asc ''followup'')\<rparr>
      else if 16 \<le> length text \<or> any_in plan_complex_hints text
      then \<lparr>rp_fetch_k = k_max, rp_result_k = result_k, rp_profile = (asc ''complex'')\<rparr>
      else \<lparr>rp_fetch_k = clamp (max (result_k * 3) k_min) k_min k_max, rp_result_k = result_k, rp_profile = (asc ''default'')\<rparr>)"

section \<open>The search query\<close>

record search_context =
  sq_original :: ustr
  sq_search :: ustr
  sq_applied :: bool
  sq_reason :: ustr
  sq_queries :: "ustr list"

definition prepare_search_query ::
  "query_settings \<Rightarrow> course_catalog \<Rightarrow> ustr \<Rightarrow> message list \<Rightarrow> ustr \<Rightarrow> ustr option \<Rightarrow> ustr option \<Rightarrow> search_context" where
  "prepare_search_query cfg rows query history tenant_id last_course_query last_course_name =
     (let expanded = expand_query query history last_course_query last_course_name;
          rewrite = (if qs_rewrite_enabled cfg then maybe_rewrite_query expanded query last_course_name last_course_query else unchanged expanded);
          final = enrich_query_with_course_aliases rows (rw_query rewrite) tenant_id
      in \<lparr>sq_original = query, sq_search = final, sq_applied = rw_rewritten rewrite, sq_reason = rw_reason rewrite,
          sq_queries = decompose_retrieval_queries cfg final\<rparr>)"

section \<open>The question stays in what is searched\<close>

lemma occurs_refl [simp]: "occurs s s"
  by (auto simp: occurs_iff intro: exI [of _ "[]"])

lemma occurs_trans: "occurs a b \<Longrightarrow> occurs b c \<Longrightarrow> occurs a c"
  by (auto simp: occurs_iff) (metis append.assoc)

lemma occurs_append: "occurs b (a @ b)" "occurs a (a @ b)"
  by (auto simp: occurs_iff intro: exI [of _ "[]"])

lemma dropWhile_keeps:
  assumes "t \<noteq> []" "\<not> is_space (hd t)"
  obtains a' where "dropWhile is_space (a @ t @ b) = a' @ t @ b"
proof (cases "\<forall>c \<in> set a. is_space c")
  case True
  then have "dropWhile is_space (a @ t @ b) = [] @ t @ b" using assms by (cases t) (auto simp: dropWhile_append2)
  then show ?thesis by (rule that)
next
  case False
  then have "dropWhile is_space (a @ t @ b) = dropWhile is_space a @ t @ b" by (auto simp: dropWhile_append1)
  then show ?thesis by (rule that)
qed

lemma strip_keeps: "stripped t \<Longrightarrow> occurs t (strip (a @ t @ b))"
proof (cases "t = []")
  case False
  assume t: "stripped t"
  from False t have ends: "\<not> is_space (hd t)" "\<not> is_space (hd (rev t))" by (auto simp: stripped_def hd_rev)
  obtain a' where a: "dropWhile is_space (a @ t @ b) = a' @ t @ b" by (rule dropWhile_keeps [OF False ends(1)])
  obtain b' where b: "dropWhile is_space (rev b @ rev t @ rev a') = b' @ rev t @ rev a'"
    by (rule dropWhile_keeps [of "rev t" "rev b" "rev a'"]) (use False ends(2) in auto)
  have "strip (a @ t @ b) = a' @ t @ rev b'" by (simp add: strip_def a b)
  then show ?thesis by (auto simp: occurs_iff)
qed (auto simp: occurs_iff)

lemma rewrite_abstract_keeps: "stripped t \<Longrightarrow> occurs t (rw_query (rewrite_abstract ps t))"
  by (induction ps t rule: rewrite_abstract.induct) (auto simp: unchanged_def strip_keeps [where a = "[]", simplified])

lemma rewrite_keeps: "occurs (strip query) (rw_query (maybe_rewrite_query query original name cquery))"
  using strip_keeps [of "strip query" "h @ (asc '' '')" "[]" for h]
  by (auto simp: maybe_rewrite_query_def Let_def unchanged_def rewrite_abstract_keeps)

lemma enrich_keeps: "occurs (strip query) (enrich_query_with_course_aliases rows query tenant)"
  using strip_keeps [of "strip query" "h @ (asc '' '')" "[]" for h]
  by (auto simp: enrich_query_with_course_aliases_def Let_def split: option.split)

lemma rewrite_stripped: "strip (rw_query (maybe_rewrite_query query original name cquery)) = rw_query (maybe_rewrite_query query original name cquery)"
proof -
  have "strip (rw_query (rewrite_abstract ps t)) = rw_query (rewrite_abstract ps t)" if "strip t = t" for ps t
    using that by (induction ps t rule: rewrite_abstract.induct) (auto simp: unchanged_def)
  then show ?thesis by (auto simp: maybe_rewrite_query_def Let_def unchanged_def)
qed

lemma decompose_nonempty: "strip query \<noteq> [] \<Longrightarrow> decompose_retrieval_queries cfg query \<noteq> []"
  by (auto simp: decompose_retrieval_queries_def rule_decompose_def Let_def split: option.split)

lemma plan_bounded: "k_min \<le> k_max \<Longrightarrow> rp_fetch_k (resolve_retrieval_plan k_min k_max query k code) \<in> {k_min..k_max}"
  by (auto simp: resolve_retrieval_plan_def clamp_def Let_def)

text \<open>
  The question stays in what is searched. Rewriting and alias completion only add words
  around the expanded question, which stays in the search text in one piece; a question that
  is not blank is searched with at least one query, whatever the model answers to the request
  to split it; without rewriting and without an alias the search text is the question.
\<close>

lemma search_keeps_question:
  fixes cfg :: query_settings and rows :: course_catalog and query :: ustr and history :: "message list" and tenant :: ustr
    and last_query :: "ustr option" and last_name :: "ustr option"
  defines "ctx \<equiv> prepare_search_query cfg rows query history tenant last_query last_name"
    and "q \<equiv> strip (expand_query query history last_query last_name)"
  shows "occurs q (sq_search ctx) \<and> (q \<noteq> [] \<longrightarrow> sq_queries ctx \<noteq> []) \<and> sq_original ctx = query \<and>
    (\<not> sq_applied ctx \<and> load_course_aliases rows tenant = [] \<longrightarrow> sq_search ctx = q)"
proof -
  let ?e = "expand_query query history last_query last_name"
  let ?r = "if qs_rewrite_enabled cfg then maybe_rewrite_query ?e query last_name last_query else unchanged ?e"
  have s: "sq_search ctx = enrich_query_with_course_aliases rows (rw_query ?r) tenant" "sq_applied ctx = rw_rewritten ?r"
    "sq_queries ctx = decompose_retrieval_queries cfg (sq_search ctx)" "sq_original ctx = query"
    by (simp_all add: ctx_def prepare_search_query_def Let_def)
  have r: "occurs q (strip (rw_query ?r))"
    using rewrite_keeps [of ?e] by (simp add: q_def unchanged_def rewrite_stripped)
  have keep: "occurs q (sq_search ctx)" unfolding s(1) by (rule occurs_trans [OF r enrich_keeps])
  have "strip (sq_search ctx) \<noteq> []" if "q \<noteq> []"
  proof -
    from keep obtain a b where "sq_search ctx = a @ q @ b" by (auto simp: occurs_iff)
    then have "occurs q (strip (sq_search ctx))" using strip_keeps [of q a b] by (simp add: q_def)
    with that show ?thesis by (auto simp: occurs_iff)
  qed
  then have "q \<noteq> [] \<longrightarrow> sq_queries ctx \<noteq> []" using decompose_nonempty s(3) by metis
  moreover have "sq_search ctx = q" if "\<not> sq_applied ctx" "load_course_aliases rows tenant = []"
  proof -
    have "rw_query (rewrite_abstract ps t) = t" if "\<not> rw_rewritten (rewrite_abstract ps t)" for ps t
      using that by (induction ps t rule: rewrite_abstract.induct) (auto simp: unchanged_def split: if_splits)
    then have "strip (rw_query ?r) = q" using that(1) s(2)
      by (auto simp: q_def maybe_rewrite_query_def unchanged_def Let_def split: if_splits)
    with that(2) show ?thesis unfolding s(1) by (simp add: enrich_query_with_course_aliases_def Let_def)
  qed
  ultimately show ?thesis using keep s(4) by blast
qed

definition demo_query_settings :: query_settings where
  "demo_query_settings = \<lparr>qs_rewrite_enabled = True, qs_llm_rewrite_enabled = False, qs_llm_enabled = False, qs_max_queries = 3,
     qs_casefold = lower, qs_ask = (\<lambda>_. None), qs_json = (\<lambda>_. None)\<rparr>"

end
