(* ===== verification/Rag_Index.thy ===== *)
theory Rag_Index
  imports Rag_Query "HOL-Library.List_Lexorder" "HOL-Library.Product_Lexorder"
begin

text \<open>
  The knowledge base: chunking (\<open>app/rag/chunking.py\<close>) and the indexes of
  \<open>app/rag/vectorstore.py\<close>, their files, their cache in a worker and the incremental ingest.
  The splitters, the digest and the reading of files are arguments; a FAISS store is the list
  of its documents in the order they were added, deleted ones included.
\<close>

section \<open>Documents\<close>

text \<open>
  A chunk with its metadata; a missing key is \<open>None\<close>. \<open>doc_type\<close> and \<open>chunk_kind\<close> are written
  by the code but never read, and left out.
\<close>

record document =
  d_content :: ustr
  d_source :: "ustr option"
  d_course_file :: "ustr option"
  d_code :: "ustr option"
  d_tenant :: "ustr option"
  d_hash :: "ustr option"
  d_deleted :: bool
  d_chunk :: "int option"
  d_role :: "ustr option"
  d_parent :: "ustr option"
  d_section_path :: "ustr option"
  d_module :: "ustr option"
  d_title :: "ustr option"
  d_section :: "ustr option"
  d_subsection :: "ustr option"
  d_course_name :: "ustr option"
  d_aliases :: "ustr option"

abbreviation source_of :: "document \<Rightarrow> ustr" where
  "source_of d \<equiv> str_or_empty (d_source d)"

abbreviation hash_of :: "document \<Rightarrow> ustr" where
  "hash_of d \<equiv> str_or_empty (d_hash d)"

text \<open>What the code raises; \<open>AttributeMissing\<close>: an attribute that the object does not have.\<close>

datatype rag_error = AttributeMissing | IndexUnavailable | IndexMismatch | EmptyKnowledge

text \<open>
  \<open>document_course_code\<close>. Its last branch calls \<open>removesuffix\<close> on a \<open>Path\<close>, which has no
  such method.
\<close>

definition document_course_code :: "document \<Rightarrow> rag_error + ustr" where
  "document_course_code d =
     (let code = str_or_empty (or_opt (d_code d) (or_opt (d_course_file d) (Some []))) in
      if code \<noteq> [] then Inr code
      else if starts_with (rev (asc ''.md'')) (rev (source_of d)) then Inl AttributeMissing
      else Inr [])"

definition matches_course :: "ustr option \<Rightarrow> document \<Rightarrow> rag_error + bool" where
  "matches_course code d =
     (if \<not> truthy code then Inr True
      else case document_course_code d of Inl e \<Rightarrow> Inl e | Inr c \<Rightarrow> Inr (Some c = code))"

text \<open>A comprehension whose condition may raise.\<close>

fun filter_or_raise :: "('a \<Rightarrow> 'e + bool) \<Rightarrow> 'a list \<Rightarrow> 'e + 'a list" where
  "filter_or_raise P [] = Inr []"
| "filter_or_raise P (x # xs) =
     (case P x of Inl e \<Rightarrow> Inl e
      | Inr keep \<Rightarrow> (case filter_or_raise P xs of Inl e \<Rightarrow> Inl e | Inr ys \<Rightarrow> Inr (if keep then x # ys else ys)))"

definition is_retrieval_chunk :: "document \<Rightarrow> bool" where
  "is_retrieval_chunk d \<longleftrightarrow> or_opt (d_role d) (Some (asc ''child'')) \<noteq> Some (asc ''parent'')"

section \<open>Chunking\<close>

record section_part =
  pt_body :: ustr
  pt_title :: "ustr option"
  pt_section :: "ustr option"
  pt_subsection :: "ustr option"

record knowledge_file =
  kf_name :: ustr
  kf_stem :: ustr
  kf_text :: ustr

record splitters =
  split_headers :: "ustr \<Rightarrow> section_part list"
  split_fallback :: "ustr \<Rightarrow> ustr list"
  split_children :: "ustr \<Rightarrow> ustr list"
  file_digest :: "ustr \<Rightarrow> ustr"

definition section_path :: "section_part \<Rightarrow> ustr" where
  "section_path p = join (asc '' / '') (filter (\<lambda>x. x \<noteq> []) (map (\<lambda>x. strip (str_or_empty x)) [pt_title p, pt_section p, pt_subsection p]))"

definition parent_id :: "ustr \<Rightarrow> ustr \<Rightarrow> ustr" where
  "parent_id source section_name = source @ (asc ''::'') @ or_str (re_sub spaces (asc ''_'') [] (strip section_name)) (asc ''root'')"

definition with_prefix :: "section_part \<Rightarrow> ustr \<Rightarrow> ustr" where
  "with_prefix p body =
     (let prefix = section_path p; body = strip body in
      if prefix \<noteq> [] \<and> body \<noteq> [] then prefix @ [10] @ body else or_str prefix body)"

definition rstrip :: "ustr \<Rightarrow> ustr" where
  "rstrip s = rev (dropWhile is_space (rev s))"

definition blank_line :: re where
  "blank_line = cats [Cls ((=) 10), Many is_space 0 None, Cls ((=) 10)]"

definition summary_max_chars :: nat where
  "summary_max_chars = 280"

definition first_paragraph :: "ustr \<Rightarrow> ustr" where
  "first_paragraph body =
     (let t = strip body; cut = (\<lambda>x. if length x > summary_max_chars then rstrip (take summary_max_chars x) @ [0x2026] \<comment> \<open>ellipsis\<close> else x) in
      if t = [] then []
      else case find (\<lambda>x. x \<noteq> []) (map strip (re_split blank_line [] [] t)) of
          Some paragraph \<Rightarrow> cut paragraph
        | None \<Rightarrow> rstrip (take summary_max_chars t) @ (if length t > summary_max_chars then [0x2026] \<comment> \<open>ellipsis\<close> else []))"

definition build_section_summary :: "ustr \<Rightarrow> ustr \<Rightarrow> ustr" where
  "build_section_summary path parent_body =
     (let intro = first_paragraph parent_body in
      if path \<noteq> [] \<and> intro \<noteq> [] then path @ [10] @ intro else or_str path intro)"

text \<open>A chunk with the metadata that every chunk of a file has.\<close>

definition base_document :: "splitters \<Rightarrow> knowledge_file \<Rightarrow> ustr \<Rightarrow> document" where
  "base_document sp f tenant =
     \<lparr>d_content = [], d_source = Some (kf_name f), d_course_file = Some (kf_stem f), d_code = Some (kf_stem f), d_tenant = Some tenant,
      d_hash = Some (file_digest sp (kf_text f)), d_deleted = False, d_chunk = None, d_role = None, d_parent = None, d_section_path = None,
      d_module = None, d_title = None, d_section = None, d_subsection = None, d_course_name = None, d_aliases = None\<rparr>"

definition child_document :: "document \<Rightarrow> section_part \<Rightarrow> ustr \<Rightarrow> nat \<Rightarrow> ustr \<Rightarrow> document" where
  "child_document parent p pid i body = parent\<lparr>d_content := body, d_chunk := Some (int i), d_role := Some (asc ''child''), d_parent := Some pid,
     d_title := pt_title p, d_section := pt_section p, d_subsection := pt_subsection p\<rparr>"

fun chunk_sections :: "splitters \<Rightarrow> knowledge_file \<Rightarrow> ustr \<Rightarrow> nat \<Rightarrow> nat \<Rightarrow> section_part list \<Rightarrow> document list" where
  "chunk_sections sp f tenant i child_index [] = []"
| "chunk_sections sp f tenant i child_index (p # ps) =
     (let name = str_or_empty (or_opt (pt_section p) (or_opt (pt_title p) (Some ((asc ''part-'') @ show_nat i))));
          pid = parent_id (kf_name f) name; path = section_path p; parent_body = with_prefix p (pt_body p);
          base = (base_document sp f tenant)\<lparr>d_section_path := Some path, d_module := Some name\<rparr>;
          parent = base\<lparr>d_content := parent_body, d_chunk := Some (- (int i + 1)), d_role := Some (asc ''parent''), d_parent := Some pid\<rparr>;
          summary_body = build_section_summary path parent_body;
          summaries = (if summary_body \<noteq> [] then [child_document base p pid child_index summary_body] else []);
          first = child_index + length summaries;
          bodies = (let cs = split_children sp parent_body in if cs = [] then [parent_body] else cs);
          children = map (\<lambda>(j, body). child_document base p pid j body) (enumerate first bodies)
      in [parent] @ summaries @ children @ chunk_sections sp f tenant (Suc i) (first + length bodies) ps)"

definition build_parent_child_documents :: "splitters \<Rightarrow> knowledge_file \<Rightarrow> ustr \<Rightarrow> document list" where
  "build_parent_child_documents sp f tenant =
     (let parts = split_headers sp (kf_text f);
          parts = (if parts = [] then map (\<lambda>t. \<lparr>pt_body = t, pt_title = None, pt_section = None, pt_subsection = None\<rparr>) (split_fallback sp (kf_text f))
            else parts)
      in chunk_sections sp f tenant 0 0 parts)"

section \<open>Loading the knowledge base\<close>

text \<open>The Markdown files of the root and of its directories, each list sorted by name.\<close>

record knowledge_dir =
  kd_root :: "knowledge_file list"
  kd_dirs :: "(ustr \<times> knowledge_file list) list"

definition tenant_of :: "ustr \<Rightarrow> document \<Rightarrow> ustr" where
  "tenant_of default_tenant d = or_str (str_or_empty (d_tenant d)) default_tenant"

definition stamp_document :: "(ustr \<times> ustr, ustr) dict \<Rightarrow> ustr \<Rightarrow> document \<Rightarrow> rag_error + document" where
  "stamp_document catalog default_tenant d =
     (case document_course_code d of
        Inl e \<Rightarrow> Inl e
      | Inr code \<Rightarrow>
          (case (if code = [] then None else map_of catalog (tenant_of default_tenant d, code)) of
             None \<Rightarrow> Inr d
           | Some name \<Rightarrow>
               if name = [] then Inr d
               else let extras = aliases_for_course_code code; d = d\<lparr>d_code := Some code, d_course_name := Some name\<rparr>
                 in Inr (if extras = [] then d else d\<lparr>d_aliases := Some (join (asc '','') extras)\<rparr>)))"

fun map_or_raise :: "('a \<Rightarrow> 'e + 'b) \<Rightarrow> 'a list \<Rightarrow> 'e + 'b list" where
  "map_or_raise f [] = Inr []"
| "map_or_raise f (x # xs) = (case f x of Inl e \<Rightarrow> Inl e | Inr y \<Rightarrow> (case map_or_raise f xs of Inl e \<Rightarrow> Inl e | Inr ys \<Rightarrow> Inr (y # ys)))"

definition stamp_catalog :: "course_catalog \<Rightarrow> ustr \<Rightarrow> document list \<Rightarrow> rag_error + document list" where
  "stamp_catalog rows default_tenant docs =
     (let catalog = load_course_catalog rows [] in
      if docs = [] \<or> catalog = [] then Inr docs else map_or_raise (stamp_document catalog default_tenant) docs)"

definition load_knowledge_documents :: "splitters \<Rightarrow> course_catalog \<Rightarrow> ustr \<Rightarrow> knowledge_dir \<Rightarrow> rag_error + document list" where
  "load_knowledge_documents sp rows default_tenant kd =
     stamp_catalog rows default_tenant
       (concat (map (\<lambda>f. build_parent_child_documents sp f default_tenant) (kd_root kd)) @
        concat (map (\<lambda>(tenant, fs). concat (map (\<lambda>f. build_parent_child_documents sp f tenant) fs)) (kd_dirs kd)))"

type_synonym store = "document list"
type_synonym stores = "(ustr, store) dict"

text \<open>\<open>setdefault(key, []).append(x)\<close>\<close>

definition append_at :: "'k \<Rightarrow> 'v \<Rightarrow> ('k, 'v list) dict \<Rightarrow> ('k, 'v list) dict" where
  "append_at k x d = AList.update k ((case map_of d k of None \<Rightarrow> [] | Some xs \<Rightarrow> xs) @ [x]) d"

definition group_documents :: "ustr \<Rightarrow> document list \<Rightarrow> stores" where
  "group_documents default_tenant docs = foldl (\<lambda>g d. append_at (tenant_of default_tenant d) d g) [] docs"

definition stores_from_groups :: "stores \<Rightarrow> stores" where
  "stores_from_groups g = filter (\<lambda>(_, docs). docs \<noteq> []) g"

definition live_documents :: "store \<Rightarrow> document list" where
  "live_documents s = filter (\<lambda>d. \<not> d_deleted d) s"

definition partition_store :: "ustr \<Rightarrow> store \<Rightarrow> stores" where
  "partition_store default_tenant s = stores_from_groups (group_documents default_tenant (live_documents s))"

section \<open>Files of the indexes\<close>

record embedding_spec =
  es_backend :: ustr
  es_model :: ustr
  es_dim :: int

text \<open>\<open>embedding.json\<close>: missing, unreadable, or what it says.\<close>

datatype meta_file = NoMeta | BadMeta | Meta embedding_spec

text \<open>\<open>generation.json\<close>: missing, no JSON, or the stripped id of the object.\<close>

datatype generation_file = NoGeneration | BadGeneration | Generation ustr

text \<open>
  The index directory. \<open>dk_dim\<close> is the dimension of the first index file, the mtimes are the
  texts of the modification times.
\<close>

record index_disk =
  dk_dirs :: stores
  dk_legacy :: "store option"
  dk_meta :: meta_file
  dk_meta_mtime :: ustr
  dk_generation :: generation_file
  dk_generation_mtime :: ustr
  dk_dim :: "int option"

definition normalize_backend :: "ustr option \<Rightarrow> ustr" where
  "normalize_backend raw =
     (let backend = lower (strip (or_str (str_or_empty raw) (asc ''huggingface''))) in
      if backend \<in> {(asc ''hf''), (asc ''bge'')} then (asc ''huggingface'') else if backend \<in> {(asc ''hash'')} then (asc ''ngram'') else backend)"

definition load_embedding_meta :: "index_disk \<Rightarrow> embedding_spec option" where
  "load_embedding_meta dk = (case dk_meta dk of Meta spec \<Rightarrow> Some spec | _ \<Rightarrow> None)"

definition assert_embedding_compatible :: "embedding_spec \<Rightarrow> index_disk \<Rightarrow> rag_error option" where
  "assert_embedding_compatible current dk =
     (if dk_dirs dk = [] \<and> dk_legacy dk = None then None
      else case load_embedding_meta dk of
          None \<Rightarrow> (case dk_dim dk of None \<Rightarrow> None
            | Some n \<Rightarrow> if n \<noteq> es_dim current \<or> es_backend current \<noteq> (asc ''ngram'') then Some IndexMismatch else None)
        | Some stored \<Rightarrow> if stored \<noteq> current then Some IndexMismatch else None)"

definition disk_index_revision :: "index_disk \<Rightarrow> ustr" where
  "disk_index_revision dk =
     (case dk_generation dk of
        Generation ident \<Rightarrow> if ident \<noteq> [] then ident else (asc ''mtime:'') @ dk_generation_mtime dk
      | BadGeneration \<Rightarrow> (asc ''mtime:'') @ dk_generation_mtime dk
      | NoGeneration \<Rightarrow> (if dk_meta dk \<noteq> NoMeta then (asc ''mtime:'') @ dk_meta_mtime dk else (asc ''0'')))"

text \<open>\<open>ident\<close> and \<open>mtime\<close> stand for \<open>time_ns\<close> and the times of the files when they are written.\<close>

definition persist_indexes :: "embedding_spec \<Rightarrow> ustr \<Rightarrow> ustr \<Rightarrow> stores \<Rightarrow> index_disk \<Rightarrow> index_disk" where
  "persist_indexes spec ident mtime ss dk =
     dk\<lparr>dk_dirs := sort_key fst ss, dk_legacy := None, dk_meta := Meta spec, dk_meta_mtime := mtime,
       dk_generation := Generation ident, dk_generation_mtime := mtime, dk_dim := (if ss = [] then None else Some (es_dim spec))\<rparr>"

definition read_indexes :: "embedding_spec \<Rightarrow> ustr \<Rightarrow> index_disk \<Rightarrow> rag_error + stores option" where
  "read_indexes current default_tenant dk =
     (if dk_dirs dk = [] \<and> dk_legacy dk = None then Inr None
      else case assert_embedding_compatible current dk of
          Some e \<Rightarrow> Inl e
        | None \<Rightarrow> if dk_dirs dk \<noteq> [] then Inr (Some (dk_dirs dk))
            else Inr (map_option (partition_store default_tenant) (dk_legacy dk)))"

definition faiss_index_status :: "embedding_spec \<Rightarrow> index_disk \<Rightarrow> ustr" where
  "faiss_index_status current dk =
     (if dk_legacy dk = None \<and> dk_dirs dk = [] then (asc ''missing'')
      else if assert_embedding_compatible current dk \<noteq> None then (asc ''mismatch'') else (asc ''ok''))"

definition faiss_index_ready :: "embedding_spec \<Rightarrow> index_disk \<Rightarrow> bool" where
  "faiss_index_ready current dk \<longleftrightarrow> faiss_index_status current dk = (asc ''ok'')"

definition require_index_for_serve :: "embedding_spec \<Rightarrow> index_disk \<Rightarrow> rag_error option" where
  "require_index_for_serve current dk = (if faiss_index_status current dk = (asc ''ok'') then None else Some IndexUnavailable)"

section \<open>The indexes in a worker\<close>

text \<open>
  The module variables \<open>_indexes\<close>, \<open>_indexes_revision\<close>, \<open>_indexes_pinned\<close> and \<open>_lexical\<close>; the
  last holds the corpora of the word indexes built so far.
\<close>

record index_cache =
  ic_indexes :: "stores option"
  ic_revision :: "ustr option"
  ic_pinned :: bool
  ic_lexical :: "(ustr, document list option) dict"

definition install_indexes :: "stores option \<Rightarrow> bool \<Rightarrow> ustr option \<Rightarrow> index_cache \<Rightarrow> index_cache" where
  "install_indexes ss pinned revision c =
     c\<lparr>ic_indexes := ss, ic_pinned := pinned \<and> ss \<noteq> None, ic_revision := revision, ic_lexical := []\<rparr>"

definition reset_indexes :: "index_cache \<Rightarrow> index_cache" where
  "reset_indexes = install_indexes None False None"

definition set_indexes :: "stores option \<Rightarrow> index_cache \<Rightarrow> index_cache" where
  "set_indexes ss = install_indexes ss (ss \<noteq> None) None"

definition replace_index_cache :: "stores option \<Rightarrow> ustr option \<Rightarrow> bool \<Rightarrow> index_cache \<Rightarrow> index_cache" where
  "replace_index_cache ss revision pinned = install_indexes ss pinned revision"

definition get_indexes :: "embedding_spec \<Rightarrow> ustr \<Rightarrow> index_disk \<Rightarrow> index_cache \<Rightarrow> (rag_error + stores) \<times> index_cache" where
  "get_indexes current default_tenant dk c =
     (case ic_indexes c of
        Some ss \<Rightarrow> if ic_pinned c \<or> ic_revision c = Some (disk_index_revision dk) then (Inr ss, c)
          else (case read_indexes current default_tenant dk of
              Inr (Some loaded) \<Rightarrow> (Inr loaded, install_indexes (Some loaded) False (Some (disk_index_revision dk)) c)
            | _ \<Rightarrow> (Inl IndexUnavailable, c))
      | None \<Rightarrow> (case read_indexes current default_tenant dk of
            Inr (Some loaded) \<Rightarrow> (Inr loaded, install_indexes (Some loaded) False (Some (disk_index_revision dk)) c)
          | _ \<Rightarrow> (Inl IndexUnavailable, c)))"

definition platform_tenant :: ustr where
  "platform_tenant = (asc ''platform'')"

definition search_scopes :: "stores \<Rightarrow> ustr \<Rightarrow> ustr option \<Rightarrow> ustr list" where
  "search_scopes ss tenant_id code =
     (if truthy code then (if map_of ss tenant_id \<noteq> None then [tenant_id] else [])
      else filter (\<lambda>sc. map_of ss sc \<noteq> None)
        (tenant_id # (if map_of ss platform_tenant \<noteq> None \<and> tenant_id \<noteq> platform_tenant then [platform_tenant] else [])))"

definition iter_tenant_documents :: "stores \<Rightarrow> ustr \<Rightarrow> ustr option \<Rightarrow> rag_error + document list" where
  "iter_tenant_documents ss tenant_id code =
     (let docs = concat (map (\<lambda>sc. live_documents (the (map_of ss sc))) (search_scopes ss tenant_id code))
      in if truthy code then filter_or_raise (matches_course code) docs else Inr docs)"

section \<open>Ingest\<close>

definition live_source_hashes :: "store \<Rightarrow> (ustr, ustr) dict" where
  "live_source_hashes s = foldl (\<lambda>h d. if source_of d \<noteq> [] then AList.update (source_of d) (hash_of d) h else h) [] (live_documents s)"

definition stale :: "ustr list \<Rightarrow> (ustr, ustr) dict \<Rightarrow> document \<Rightarrow> bool" where
  "stale sources keep_hash d \<longleftrightarrow> source_of d \<in> set sources \<and> \<not> d_deleted d \<and>
     \<not> (truthy (map_of keep_hash (source_of d)) \<and> Some (hash_of d) = map_of keep_hash (source_of d))"

definition soft_delete_stale :: "store \<Rightarrow> ustr list \<Rightarrow> (ustr, ustr) dict \<Rightarrow> store \<times> nat" where
  "soft_delete_stale s sources keep_hash =
     (map (\<lambda>d. if stale sources keep_hash d then d\<lparr>d_deleted := True\<rparr> else d) s, length (filter (stale sources keep_hash) s))"

definition wanted_by_source :: "document list \<Rightarrow> (ustr, document list) dict" where
  "wanted_by_source docs = foldl (\<lambda>g d. append_at (source_of d) d g) [] docs"

definition wanted_hash :: "document list \<Rightarrow> (ustr, ustr) dict" where
  "wanted_hash docs = foldl (\<lambda>h d. AList.update (source_of d) (hash_of d) h) [] docs"

definition changed_sources :: "(ustr, ustr) dict \<Rightarrow> (ustr, ustr) dict \<Rightarrow> ustr list" where
  "changed_sources live_hash hashes = map fst (filter (\<lambda>(src, digest). \<not> (digest \<noteq> [] \<and> map_of live_hash src = Some digest)) hashes)"

definition new_chunks :: "document list \<Rightarrow> ustr list \<Rightarrow> document list" where
  "new_chunks wanted sources = concat (map (\<lambda>src. the (map_of (wanted_by_source wanted) src)) sources)"

definition retired_sources :: "(ustr, ustr) dict \<Rightarrow> (ustr, ustr) dict \<Rightarrow> ustr list" where
  "retired_sources live_hash hashes =
     filter (\<lambda>src. map_of live_hash src \<noteq> None) (changed_sources live_hash hashes) @ filter (\<lambda>src. map_of hashes src = None) (map fst live_hash)"

text \<open>The body of the loop over the tenants: the store afterwards, chunks added and retired.\<close>

definition ingest_tenant :: "document list \<Rightarrow> store option \<Rightarrow> store option \<times> nat \<times> nat" where
  "ingest_tenant wanted s =
     (let live_hash = (case s of None \<Rightarrow> [] | Some st \<Rightarrow> live_source_hashes st);
          hashes = wanted_hash wanted;
          new_docs = new_chunks wanted (changed_sources live_hash hashes);
          retire = retired_sources live_hash hashes
      in if new_docs = [] \<and> retire = [] then (s, 0, 0)
         else case s of
             None \<Rightarrow> (Some new_docs, length new_docs, 0)
           | Some st \<Rightarrow>
               (let (st, retired) = (if retire = [] then (st @ new_docs, 0) else soft_delete_stale (st @ new_docs) retire hashes)
                in (Some st, length new_docs, retired)))"

fun ingest_tenants :: "stores \<Rightarrow> ustr list \<Rightarrow> stores \<times> nat \<times> nat \<Rightarrow> stores \<times> nat \<times> nat" where
  "ingest_tenants grouped [] acc = acc"
| "ingest_tenants grouped (t # ts) (working, added, retired) =
     (let wanted = (case map_of grouped t of None \<Rightarrow> [] | Some docs \<Rightarrow> docs);
          (s, a, r) = ingest_tenant wanted (map_of working t)
      in ingest_tenants grouped ts ((case s of None \<Rightarrow> working | Some st \<Rightarrow> AList.update t st working), added + a, retired + r))"

record rag_env =
  re_splitters :: splitters
  re_catalog :: course_catalog
  re_default_tenant :: ustr
  re_spec :: embedding_spec

definition build_faiss_index ::
  "rag_env \<Rightarrow> ustr \<Rightarrow> ustr \<Rightarrow> bool \<Rightarrow> knowledge_dir \<Rightarrow> index_disk \<Rightarrow> index_cache \<Rightarrow> (rag_error + stores) \<times> index_disk \<times> index_cache" where
  "build_faiss_index env ident mtime persist kd dk c =
     (case load_knowledge_documents (re_splitters env) (re_catalog env) (re_default_tenant env) kd of
        Inl e \<Rightarrow> (Inl e, dk, c)
      | Inr docs \<Rightarrow>
          if docs = [] then (Inl EmptyKnowledge, dk, c)
          else let ss = stores_from_groups (group_documents (re_default_tenant env) docs)
            in if persist
               then let dk = persist_indexes (re_spec env) ident mtime ss dk
                 in (Inr ss, dk, install_indexes (Some ss) False (Some (disk_index_revision dk)) c)
               else (Inr ss, dk, install_indexes (Some ss) True (Some ((asc ''memory:'') @ ident)) c))"

definition ingest_indexes ::
  "rag_env \<Rightarrow> ustr \<Rightarrow> ustr \<Rightarrow> bool \<Rightarrow> bool \<Rightarrow> knowledge_dir \<Rightarrow> index_disk \<Rightarrow> index_cache \<Rightarrow> (rag_error + stores) \<times> index_disk \<times> index_cache" where
  "ingest_indexes env ident mtime persist rebuild kd dk c =
     (let existing = (case ic_indexes c of Some ss \<Rightarrow> Some ss
          | None \<Rightarrow> (case read_indexes (re_spec env) (re_default_tenant env) dk of Inr found \<Rightarrow> found | Inl _ \<Rightarrow> None))
      in if rebuild \<or> existing = None \<or> existing = Some [] then build_faiss_index env ident mtime persist kd dk c
         else case load_knowledge_documents (re_splitters env) (re_catalog env) (re_default_tenant env) kd of
             Inl e \<Rightarrow> (Inl e, dk, c)
           | Inr fresh \<Rightarrow>
               if fresh = [] then (Inl EmptyKnowledge, dk, c)
               else let grouped = group_documents (re_default_tenant env) fresh; working = the existing;
                        tenants = sorted_list_of_set (set (map fst working) \<union> set (map fst grouped));
                        (ss, added, retired) = ingest_tenants grouped tenants (working, 0, 0)
                 in if persist \<and> (added \<noteq> 0 \<or> retired \<noteq> 0)
                    then let dk = persist_indexes (re_spec env) ident mtime ss dk
                      in (Inr ss, dk, install_indexes (Some ss) False (Some (disk_index_revision dk)) c)
                    else if persist then (Inr ss, dk, install_indexes (Some ss) False (Some (disk_index_revision dk)) c)
                    else (Inr ss, dk, install_indexes (Some ss) True (Some ((asc ''memory:'') @ ident)) c))"

section \<open>An incremental ingest gives what a rebuild gives\<close>

definition of_source :: "ustr \<Rightarrow> document list \<Rightarrow> document list" where
  "of_source src ds = filter (\<lambda>d. source_of d = src) ds"

text \<open>Every chunk names its file and the digest of the file, one digest per file.\<close>

definition well_hashed :: "document list \<Rightarrow> bool" where
  "well_hashed ds \<longleftrightarrow> (\<forall>d \<in> set ds. source_of d \<noteq> [] \<and> hash_of d \<noteq> []) \<and>
     (\<forall>d \<in> set ds. \<forall>e \<in> set ds. source_of d = source_of e \<longrightarrow> hash_of d = hash_of e)"

lemma of_source_append [simp]: "of_source src (xs @ ys) = of_source src xs @ of_source src ys"
  by (simp add: of_source_def)

lemma live_append [simp]: "live_documents (xs @ ys) = live_documents xs @ live_documents ys"
  by (simp add: live_documents_def)

lemma foldl_update_sound:
  "map_of (foldl (\<lambda>h d. if P d then AList.update (k d) (v d) h else h) [] ds) x = Some y \<Longrightarrow> \<exists>d \<in> set ds. P d \<and> k d = x \<and> v d = y"
proof (induction ds rule: rev_induct)
  case (snoc d ds)
  then show ?case by (cases "P d"; cases "k d = x") auto
qed simp

lemma foldl_update_defined:
  "d \<in> set ds \<Longrightarrow> P d \<Longrightarrow> \<exists>y. map_of (foldl (\<lambda>h d. if P d then AList.update (k d) (v d) h else h) [] ds) (k d) = Some y"
proof (induction ds rule: rev_induct)
  case (snoc e ds)
  then show ?case by (cases "P e"; cases "k e = k d") auto
qed simp

lemma dict_ok_foldl_update: "dict_ok h0 \<Longrightarrow> dict_ok (foldl (\<lambda>h d. if P d then AList.update (k d) (v d) h else h) h0 ds)"
  by (induction ds arbitrary: h0) auto

lemma hash_table_iff:
  assumes "well_hashed ds"
  shows "map_of (foldl (\<lambda>h d. if source_of d \<noteq> [] then AList.update (source_of d) (hash_of d) h else h) [] ds) src = Some h \<longleftrightarrow>
    (\<exists>d \<in> set ds. source_of d = src \<and> hash_of d = h)" (is "map_of ?t src = _ \<longleftrightarrow> _")
proof
  assume "map_of ?t src = Some h"
  from foldl_update_sound [OF this] show "\<exists>d \<in> set ds. source_of d = src \<and> hash_of d = h" by blast
next
  assume "\<exists>d \<in> set ds. source_of d = src \<and> hash_of d = h"
  then obtain d where d: "d \<in> set ds" "source_of d = src" "hash_of d = h" by blast
  have "source_of d \<noteq> []" using assms d(1) unfolding well_hashed_def by blast
  from foldl_update_defined [where P = "\<lambda>d. source_of d \<noteq> []" and k = source_of and v = hash_of, OF d(1) this]
  obtain y where y: "map_of ?t src = Some y" using d(2) by auto
  from foldl_update_sound [OF this] obtain e where "e \<in> set ds" "source_of e = src" "hash_of e = y" by blast
  with assms d have "y = h" unfolding well_hashed_def by metis
  with y show "map_of ?t src = Some h" by simp
qed

lemma live_hash_iff:
  "well_hashed (live_documents s) \<Longrightarrow>
     map_of (live_source_hashes s) src = Some h \<longleftrightarrow> (\<exists>d \<in> set (live_documents s). source_of d = src \<and> hash_of d = h)"
  unfolding live_source_hashes_def by (rule hash_table_iff)

lemma wanted_hash_iff:
  assumes "well_hashed ds"
  shows "map_of (wanted_hash ds) src = Some h \<longleftrightarrow> (\<exists>d \<in> set ds. source_of d = src \<and> hash_of d = h)"
proof -
  have n: "\<forall>d \<in> set ds. source_of d \<noteq> []" using assms unfolding well_hashed_def by blast
  have w: "wanted_hash ds = foldl (\<lambda>h d. if source_of d \<noteq> [] then AList.update (source_of d) (hash_of d) h else h) [] ds"
    unfolding wanted_hash_def by (rule foldl_cong) (simp_all add: n)
  show ?thesis unfolding w by (rule hash_table_iff [OF assms])
qed

lemma map_of_append_at: "map_of (append_at k x d) j = (if j = k then Some ((case map_of d k of None \<Rightarrow> [] | Some xs \<Rightarrow> xs) @ [x]) else map_of d j)"
  by (simp add: append_at_def)

lemma map_of_grouping:
  "map_of (foldl (\<lambda>g d. append_at (k d) d g) [] ds) x = (let xs = filter (\<lambda>d. k d = x) ds in if xs = [] then None else Some xs)"
proof (induction ds rule: rev_induct)
  case (snoc d ds)
  then show ?case by (auto simp: map_of_append_at Let_def)
qed simp

lemma wanted_by_source_iff: "map_of (wanted_by_source ds) src = (if of_source src ds = [] then None else Some (of_source src ds))"
  by (simp add: wanted_by_source_def map_of_grouping of_source_def Let_def)

lemma of_source_concat:
  assumes "distinct ks" "\<forall>k \<in> set ks. \<forall>d \<in> set (f k). source_of d = k"
  shows "of_source src (concat (map f ks)) = (if src \<in> set ks then f src else [])"
  using assms
proof (induction ks)
  case (Cons k ks)
  have "of_source src (f k) = (if src = k then f k else [])"
    using Cons.prems(2) by (auto simp: of_source_def filter_id_conv filter_empty_conv)
  with Cons show ?case by (auto simp: of_source_def)
qed (simp add: of_source_def)

lemma live_soft_delete: "live_documents (fst (soft_delete_stale s sources keep)) = filter (\<lambda>d. \<not> stale sources keep d) (live_documents s)"
  by (induction s) (auto simp: soft_delete_stale_def live_documents_def stale_def)

definition source_hash :: "document list \<Rightarrow> ustr \<Rightarrow> ustr option" where
  "source_hash ds src = (case of_source src ds of [] \<Rightarrow> None | d # _ \<Rightarrow> Some (hash_of d))"

lemma source_hash_iff:
  assumes "well_hashed ds"
  shows "source_hash ds src = Some h \<longleftrightarrow> (\<exists>d \<in> set ds. source_of d = src \<and> hash_of d = h)"
proof (cases "of_source src ds")
  case Nil
  then show ?thesis by (auto simp: source_hash_def of_source_def filter_empty_conv)
next
  case (Cons e es)
  then have "e \<in> set (of_source src ds)" by simp
  then have "e \<in> set ds" "source_of e = src" by (auto simp: of_source_def)
  moreover have "source_hash ds src = Some (hash_of e)" by (simp add: source_hash_def Cons)
  moreover have "hash_of d = hash_of e" if "d \<in> set ds" "source_of d = src" for d
    using assms that calculation(1,2) unfolding well_hashed_def by metis
  ultimately show ?thesis by (metis option.inject)
qed

lemma option_eqI: "(\<And>y. a = Some y \<longleftrightarrow> b = Some y) \<Longrightarrow> a = b"
  by (metis option.exhaust)

lemma live_hash_eq: "well_hashed (live_documents s) \<Longrightarrow> map_of (live_source_hashes s) = source_hash (live_documents s)"
  by (intro ext option_eqI) (simp add: live_hash_iff source_hash_iff)

lemma wanted_hash_eq: "well_hashed ds \<Longrightarrow> map_of (wanted_hash ds) = source_hash ds"
  by (intro ext option_eqI) (simp add: wanted_hash_iff source_hash_iff)

lemma dict_ok_wanted: "dict_ok (wanted_hash ds)"
  using dict_ok_foldl_update [of "[]" "\<lambda>_. True" source_of hash_of ds] by (simp add: wanted_hash_def)

lemma in_keys: "x \<in> fst ` set d \<longleftrightarrow> (\<exists>y. map_of d x = Some y)"
  by (metis domD domI dom_map_of_conv_image_fst)

lemma of_source_hash: "d \<in> set (of_source src ds) \<Longrightarrow> well_hashed ds \<Longrightarrow> source_hash ds src = Some (hash_of d)"
  by (auto simp: source_hash_iff of_source_def)

lemma changed_sources_iff:
  assumes "well_hashed wanted"
  shows "src \<in> set (changed_sources lv (wanted_hash wanted)) \<longleftrightarrow> of_source src wanted \<noteq> [] \<and> map_of lv src \<noteq> source_hash wanted src"
    and "distinct (changed_sources lv (wanted_hash wanted))"
proof -
  have e: "(s, h) \<in> set (wanted_hash wanted) \<longleftrightarrow> source_hash wanted s = Some h" for s h
    using dict_ok_wanted [of wanted] wanted_hash_eq [OF assms] by (metis dict_ok_def map_of_is_SomeI map_of_SomeD)
  have n: "h \<noteq> []" if "source_hash wanted s = Some h" for s h
    using that assms unfolding source_hash_iff [OF assms] well_hashed_def by blast
  have "of_source src wanted \<noteq> [] \<longleftrightarrow> (\<exists>h. source_hash wanted src = Some h)"
    by (cases "of_source src wanted") (auto simp: source_hash_def)
  then show "src \<in> set (changed_sources lv (wanted_hash wanted)) \<longleftrightarrow> of_source src wanted \<noteq> [] \<and> map_of lv src \<noteq> source_hash wanted src"
    using n by (auto simp: e image_iff changed_sources_def)
  show "distinct (changed_sources lv (wanted_hash wanted))"
    using dict_ok_wanted [of wanted] by (auto simp: changed_sources_def dict_ok_def intro: distinct_map_filter)
qed

definition live_of :: "store option \<Rightarrow> document list" where
  "live_of s = (case s of None \<Rightarrow> [] | Some st \<Rightarrow> live_documents st)"

text \<open>A file whose digest has not changed was chunked into the same chunks.\<close>

definition same_chunks :: "document list \<Rightarrow> document list \<Rightarrow> bool" where
  "same_chunks old new \<longleftrightarrow> (\<forall>src. source_hash old src \<noteq> None \<and> source_hash old src = source_hash new src \<longrightarrow> of_source src old = of_source src new)"

lemma no_source_hash: "source_hash ds src = None \<longleftrightarrow> of_source src ds = []"
  by (auto simp: source_hash_def split: list.splits)

lemma new_chunks_source:
  assumes "well_hashed wanted"
  shows "new_chunks wanted (changed_sources lv (wanted_hash wanted)) = concat (map (\<lambda>src. of_source src wanted) (changed_sources lv (wanted_hash wanted)))"
    and "of_source src (new_chunks wanted (changed_sources lv (wanted_hash wanted))) =
      (if map_of lv src \<noteq> source_hash wanted src then of_source src wanted else [])"
proof -
  let ?ch = "changed_sources lv (wanted_hash wanted)"
  show n: "new_chunks wanted ?ch = concat (map (\<lambda>src. of_source src wanted) ?ch)"
    unfolding new_chunks_def
    by (intro arg_cong [where f = concat] map_cong refl) (simp add: changed_sources_iff [OF assms] wanted_by_source_iff)
  show "of_source src (new_chunks wanted ?ch) = (if map_of lv src \<noteq> source_hash wanted src then of_source src wanted else [])"
    unfolding n by (subst of_source_concat [OF changed_sources_iff(2) [OF assms]]) (auto simp: of_source_def changed_sources_iff [OF assms])
qed

lemma retired_sources_iff:
  assumes "well_hashed wanted"
  shows "src \<in> set (retired_sources lv (wanted_hash wanted)) \<longleftrightarrow> map_of lv src \<noteq> None \<and> map_of lv src \<noteq> source_hash wanted src"
  using changed_sources_iff(1) [OF assms, of src lv] in_keys [of src lv] wanted_hash_eq [OF assms] no_source_hash [of wanted src]
  by (auto simp: retired_sources_def)

lemma not_stale_new:
  assumes "well_hashed wanted" "d \<in> set wanted"
  shows "\<not> stale sources (wanted_hash wanted) d"
proof -
  have "source_hash wanted (source_of d) = Some (hash_of d)" "hash_of d \<noteq> []"
    using assms unfolding source_hash_iff [OF assms(1)] well_hashed_def by blast+
  then show ?thesis by (simp add: stale_def wanted_hash_eq [OF assms(1)])
qed

text \<open>What is left of the old chunks of a file.\<close>

lemma old_chunks_left:
  assumes wl: "well_hashed (live_documents st)" and ww: "well_hashed wanted"
  shows "of_source src (filter (\<lambda>d. \<not> stale (retired_sources (live_source_hashes st) (wanted_hash wanted)) (wanted_hash wanted) d) (live_documents st)) =
    (if source_hash (live_documents st) src \<noteq> source_hash wanted src then [] else of_source src (live_documents st))"
proof -
  let ?rt = "retired_sources (live_source_hashes st) (wanted_hash wanted)"
  have rt: "src \<in> set ?rt \<longleftrightarrow> source_hash (live_documents st) src \<noteq> None \<and> source_hash (live_documents st) src \<noteq> source_hash wanted src"
    using retired_sources_iff [OF ww, of src "live_source_hashes st"] by (simp add: live_hash_eq [OF wl])
  have st: "stale ?rt (wanted_hash wanted) d \<longleftrightarrow> source_hash (live_documents st) src \<noteq> source_hash wanted src"
    if d: "d \<in> set (live_documents st)" "source_of d = src" for d
  proof -
    have h: "source_hash (live_documents st) src = Some (hash_of d)" using d by (auto simp: source_hash_iff [OF wl])
    have "\<not> d_deleted d" using d(1) by (simp add: live_documents_def)
    moreover have "hash_of d \<noteq> []" using wl d(1) unfolding well_hashed_def by blast
    ultimately show ?thesis using rt h d(2) by (auto simp: stale_def wanted_hash_eq [OF ww])
  qed
  have "of_source src (filter (\<lambda>d. \<not> stale ?rt (wanted_hash wanted) d) (live_documents st)) =
      filter (\<lambda>d. \<not> stale ?rt (wanted_hash wanted) d) (of_source src (live_documents st))"
    by (simp add: of_source_def conj_commute)
  also have "\<dots> = filter (\<lambda>d. source_hash (live_documents st) src = source_hash wanted src) (of_source src (live_documents st))"
    by (rule filter_cong) (use st in \<open>auto simp: of_source_def\<close>)
  finally show ?thesis by simp
qed

lemma ingest_tenant_result:
  assumes wl: "well_hashed (live_of s)" and ww: "well_hashed wanted" and nd: "\<forall>d \<in> set wanted. \<not> d_deleted d"
    and same: "same_chunks (live_of s) wanted"
  shows "of_source src (live_of (fst (ingest_tenant wanted s))) = of_source src wanted"
proof -
  define lv where "lv = (case s of None \<Rightarrow> [] | Some st \<Rightarrow> live_source_hashes st)"
  define new where "new = new_chunks wanted (changed_sources lv (wanted_hash wanted))"
  define ret where "ret = retired_sources lv (wanted_hash wanted)"
  have lv: "map_of lv = source_hash (live_of s)"
    using wl live_hash_eq by (cases s) (auto simp: live_of_def lv_def source_hash_def of_source_def)
  have news: "of_source src new = (if source_hash (live_of s) src \<noteq> source_hash wanted src then of_source src wanted else [])"
    unfolding new_def new_chunks_source(2) [OF ww] lv ..
  have wanted_new: "d \<in> set wanted" if "d \<in> set new" for d
    using that unfolding new_def new_chunks_source(1) [OF ww] by (auto simp: of_source_def)
  have livenew: "live_documents new = new" using nd wanted_new unfolding live_documents_def by (auto intro!: filter_True)
  have same_src: "source_hash (live_of s) src = source_hash wanted src \<Longrightarrow> of_source src (live_of s) = of_source src wanted"
    using same no_source_hash [of "live_of s" src] no_source_hash [of wanted src] unfolding same_chunks_def by metis
  have def_s: "ingest_tenant wanted s = (if new = [] \<and> ret = [] then (s, 0, 0)
      else case s of None \<Rightarrow> (Some new, length new, 0)
        | Some st \<Rightarrow> (let (st, retired) = (if ret = [] then (st @ new, 0) else soft_delete_stale (st @ new) ret (wanted_hash wanted)) in (Some st, length new, retired)))"
    by (simp only: ingest_tenant_def Let_def new_def ret_def lv_def)
  have noret: "source_hash (live_of s) src \<noteq> source_hash wanted src \<Longrightarrow> of_source src (live_of s) = []" if "ret = []"
    using that retired_sources_iff [OF ww, of src lv] no_source_hash [of "live_of s" src] unfolding ret_def lv by auto
  show ?thesis
  proof (cases s)
    case None
    then have "live_of s = []" by (simp add: live_of_def)
    moreover have "live_of (fst (ingest_tenant wanted s)) = new" unfolding def_s by (auto simp: None live_of_def livenew)
    ultimately show ?thesis using news same_src by (auto simp: of_source_def)
  next
    case (Some st)
    have lst: "live_of s = live_documents st" by (simp add: Some live_of_def)
    have "of_source src (live_of (fst (ingest_tenant wanted s))) =
        (if source_hash (live_of s) src \<noteq> source_hash wanted src then [] else of_source src (live_of s)) @ of_source src new"
    proof (cases "ret = []")
      case True
      then have "live_of (fst (ingest_tenant wanted s)) = live_documents st @ new"
        unfolding def_s by (cases "new = []") (simp_all add: Some live_of_def livenew live_documents_def [of "[]"])
      with noret [OF True] show ?thesis by (simp add: lst)
    next
      case False
      have "filter (\<lambda>d. \<not> stale ret (wanted_hash wanted) d) new = new" using not_stale_new [OF ww wanted_new] by simp
      then have "live_of (fst (ingest_tenant wanted s)) = filter (\<lambda>d. \<not> stale ret (wanted_hash wanted) d) (live_documents st) @ new"
        using False unfolding def_s by (simp add: Some live_of_def case_prod_beta live_soft_delete livenew)
      moreover have "ret = retired_sources (live_source_hashes st) (wanted_hash wanted)" by (simp add: ret_def lv_def Some)
      ultimately show ?thesis using old_chunks_left [OF _ ww, of st src] wl by (simp add: lst)
    qed
    with news same_src show ?thesis by auto
  qed
qed

definition docs_of :: "('k, document list) dict \<Rightarrow> 'k \<Rightarrow> document list" where
  "docs_of g t = (case map_of g t of None \<Rightarrow> [] | Some docs \<Rightarrow> docs)"

lemma ingest_tenant_keeps: "fst (ingest_tenant wanted s) = None \<Longrightarrow> s = None"
  by (cases s) (auto simp: ingest_tenant_def Let_def case_prod_beta split: if_splits)

lemma ingest_tenants_result:
  "distinct ts \<Longrightarrow> map_of (fst (ingest_tenants grouped ts (w, a, r))) t =
     (if t \<in> set ts then fst (ingest_tenant (docs_of grouped t) (map_of w t)) else map_of w t)"
proof (induction ts arbitrary: w a r)
  case (Cons u ts)
  obtain s a' r' where i: "ingest_tenant (docs_of grouped u) (map_of w u) = (s, a', r')" by (cases "ingest_tenant (docs_of grouped u) (map_of w u)")
  let ?w = "case s of None \<Rightarrow> w | Some st \<Rightarrow> AList.update u st w"
  have step: "ingest_tenants grouped (u # ts) (w, a, r) = ingest_tenants grouped ts (?w, a + a', r + r')"
    using i by (simp add: docs_of_def Let_def)
  have w: "map_of ?w v = (if v = u then s else map_of w v)" for v
    using ingest_tenant_keeps [of "docs_of grouped u" "map_of w u"] i by (cases s) auto
  show ?case unfolding step using Cons.IH [of ?w "a + a'" "r + r'"] Cons.prems i by (auto simp: w)
qed simp

lemma docs_of_group: "docs_of (group_documents tn docs) t = filter (\<lambda>d. tenant_of tn d = t) docs"
  by (auto simp: docs_of_def group_documents_def map_of_grouping Let_def)

lemma docs_of_groups: "live_of (map_of (stores_from_groups g) t) = live_documents (docs_of (stores_from_groups g) t)"
  by (auto simp: live_of_def docs_of_def live_documents_def split: option.split)

lemma stores_from_groups_docs: "docs_of (stores_from_groups (group_documents tn docs)) t = filter (\<lambda>d. tenant_of tn d = t) docs"
proof -
  have "dict_ok (foldl (\<lambda>g d. append_at (tenant_of tn d) d g) g0 ds)" if "dict_ok g0" for g0 and ds :: "document list"
    using that by (induction ds arbitrary: g0) (auto simp: append_at_def)
  then have ok: "dict_ok (group_documents tn docs)" by (simp add: group_documents_def)
  have "map_of (filter (\<lambda>(_, ds). ds \<noteq> []) g) t = (case map_of g t of None \<Rightarrow> None | Some ds \<Rightarrow> if ds = [] then None else Some ds)"
    if "dict_ok g" for g :: stores
    using map_of_filter [OF that, of "\<lambda>_ ds. ds \<noteq> []" t] by (simp add: dict_filter_def split: option.split)
  from this [OF ok] show ?thesis
    using docs_of_group [of tn docs t] by (auto simp: docs_of_def stores_from_groups_def split: option.splits)
qed

section \<open>What the chunks of a file carry\<close>

definition chunk_of :: "splitters \<Rightarrow> ustr \<Rightarrow> knowledge_file \<Rightarrow> document \<Rightarrow> bool" where
  "chunk_of sp tenant f d \<longleftrightarrow> d_source d = Some (kf_name f) \<and> d_hash d = Some (file_digest sp (kf_text f)) \<and> d_tenant d = Some tenant \<and> \<not> d_deleted d"

lemma chunk_sections_of: "d \<in> set (chunk_sections sp f tenant i j ps) \<Longrightarrow> chunk_of sp tenant f d"
proof (induction ps arbitrary: i j)
  case (Cons p ps)
  then show ?case by (auto simp: Let_def chunk_of_def child_document_def base_document_def split: if_splits)
qed simp

definition files_of :: "ustr \<Rightarrow> knowledge_dir \<Rightarrow> (ustr \<times> knowledge_file) list" where
  "files_of default_tenant kd = map (\<lambda>f. (default_tenant, f)) (kd_root kd) @ concat (map (\<lambda>(t, fs). map (\<lambda>f. (t, f)) fs) (kd_dirs kd))"

lemma stamp_chunk: "stamp_document cat tn d = Inr d' \<Longrightarrow> chunk_of sp t f d' = chunk_of sp t f d"
  by (auto simp: stamp_document_def chunk_of_def Let_def split: sum.splits option.splits if_splits)

lemma map_or_raise_mem: "map_or_raise f xs = Inr ys \<Longrightarrow> y \<in> set ys \<Longrightarrow> \<exists>x \<in> set xs. f x = Inr y"
  by (induction xs arbitrary: ys) (auto split: sum.splits)

lemma loaded_chunk:
  assumes "load_knowledge_documents sp rows tn kd = Inr docs" "d \<in> set docs"
  shows "\<exists>(t, f) \<in> set (files_of tn kd). chunk_of sp t f d"
proof -
  let ?all = "concat (map (\<lambda>f. build_parent_child_documents sp f tn) (kd_root kd)) @
      concat (map (\<lambda>(tenant, fs). concat (map (\<lambda>f. build_parent_child_documents sp f tenant) fs)) (kd_dirs kd))"
  have all: "\<exists>(t, f) \<in> set (files_of tn kd). chunk_of sp t f e" if "e \<in> set ?all" for e
    using that chunk_sections_of by (fastforce simp: files_of_def build_parent_child_documents_def Let_def)
  have "docs = ?all \<or> map_or_raise (stamp_document (load_course_catalog rows []) tn) ?all = Inr docs"
    using assms(1) by (auto simp: load_knowledge_documents_def stamp_catalog_def Let_def split: if_splits)
  then show ?thesis
  proof
    assume "map_or_raise (stamp_document (load_course_catalog rows []) tn) ?all = Inr docs"
    from map_or_raise_mem [OF this assms(2)] obtain e where "e \<in> set ?all" "stamp_document (load_course_catalog rows []) tn e = Inr d" by blast
    with all [of e] show ?thesis using stamp_chunk by blast
  qed (use all assms(2) in blast)
qed

text \<open>One text per tenant and file name; names, tenants and digests are not empty.\<close>

definition knowledge_ok :: "splitters \<Rightarrow> ustr \<Rightarrow> knowledge_dir \<Rightarrow> bool" where
  "knowledge_ok sp tn kd \<longleftrightarrow> (\<forall>(t, f) \<in> set (files_of tn kd). t \<noteq> [] \<and> kf_name f \<noteq> [] \<and> file_digest sp (kf_text f) \<noteq> []) \<and>
     (\<forall>(t, f) \<in> set (files_of tn kd). \<forall>(u, g) \<in> set (files_of tn kd). t = u \<and> kf_name f = kf_name g \<longrightarrow> kf_text f = kf_text g)"

lemma loaded_well_hashed:
  assumes "load_knowledge_documents sp rows tn kd = Inr docs" "knowledge_ok sp tn kd"
  shows "well_hashed (filter (\<lambda>d. tenant_of tn d = t) docs)" and "\<forall>d \<in> set docs. \<not> d_deleted d"
proof -
  have c: "\<exists>t f. (t, f) \<in> set (files_of tn kd) \<and> chunk_of sp t f d" if "d \<in> set docs" for d
    using loaded_chunk [OF assms(1) that] by blast
  then show "\<forall>d \<in> set docs. \<not> d_deleted d" by (auto simp: chunk_of_def)
  have ne: "source_of d \<noteq> [] \<and> hash_of d \<noteq> []" if "d \<in> set docs" for d
    using c [OF that] assms(2) by (auto simp: chunk_of_def knowledge_ok_def)
  have same: "hash_of d = hash_of e" if d: "d \<in> set docs" "e \<in> set docs" "tenant_of tn d = tenant_of tn e" "source_of d = source_of e" for d e
  proof -
    from c [OF d(1)] c [OF d(2)] obtain t f u g where f: "(t, f) \<in> set (files_of tn kd)" "chunk_of sp t f d" "(u, g) \<in> set (files_of tn kd)" "chunk_of sp u g e"
      by blast
    then have "t \<noteq> []" "u \<noteq> []" using assms(2) by (auto simp: knowledge_ok_def)
    with f d(3,4) have "t = u" "kf_name f = kf_name g" by (auto simp: chunk_of_def tenant_of_def or_str_def)
    with f assms(2) have "kf_text f = kf_text g" unfolding knowledge_ok_def by blast
    with f show ?thesis by (simp add: chunk_of_def)
  qed
  show "well_hashed (filter (\<lambda>d. tenant_of tn d = t) docs)" unfolding well_hashed_def
  proof (intro conjI ballI impI)
    fix d e
    assume "d \<in> set (filter (\<lambda>d. tenant_of tn d = t) docs)" "e \<in> set (filter (\<lambda>d. tenant_of tn d = t) docs)" "source_of d = source_of e"
    then show "hash_of d = hash_of e" by (intro same) auto
  qed (use ne in auto)
qed

section \<open>Ingesting again\<close>

lemma of_source_live: "\<forall>d \<in> set ds. \<not> d_deleted d \<Longrightarrow> live_documents ds = ds"
  by (simp add: live_documents_def)

lemma same_sources_mem: "(\<And>src. of_source src ds = of_source src es) \<Longrightarrow> set ds = set es"
proof -
  assume h: "\<And>src. of_source src ds = of_source src es"
  have m: "d \<in> set xs \<longleftrightarrow> d \<in> set (of_source (source_of d) xs)" for d xs by (auto simp: of_source_def)
  show ?thesis
  proof (rule set_eqI)
    show "d \<in> set ds \<longleftrightarrow> d \<in> set es" for d
      unfolding m [of d ds] m [of d es] h ..
  qed
qed

lemma well_hashed_cong: "set ds = set es \<Longrightarrow> well_hashed ds = well_hashed es"
  by (simp only: well_hashed_def)

lemma ingest_incremental:
  assumes "ic_indexes c = Some working" "working \<noteq> []"
    and "load_knowledge_documents (re_splitters env) (re_catalog env) (re_default_tenant env) kd = Inr fresh" "fresh \<noteq> []"
    and "ingest_indexes env ident mtime persist False kd dk c = (Inr ss, dk', c')"
  shows "map_of ss t = fst (ingest_tenant (filter (\<lambda>d. tenant_of (re_default_tenant env) d = t) fresh) (map_of working t)) \<and>
    ic_indexes c' = Some ss \<and> (dk' = dk \<or> dk' = persist_indexes (re_spec env) ident mtime ss dk)"
proof -
  let ?g = "group_documents (re_default_tenant env) fresh"
  let ?ts = "sorted_list_of_set (set (map fst working) \<union> set (map fst ?g))"
  have ss: "ss = fst (ingest_tenants ?g ?ts (working, 0, 0))" "ic_indexes c' = Some ss"
    "dk' = dk \<or> dk' = persist_indexes (re_spec env) ident mtime ss dk"
    using assms by (auto simp: ingest_indexes_def Let_def case_prod_beta install_indexes_def split: if_splits)
  have "map_of ss t = (if t \<in> set ?ts then fst (ingest_tenant (docs_of ?g t) (map_of working t)) else map_of working t)"
    unfolding ss(1) by (rule ingest_tenants_result) simp
  moreover have "t \<in> set ?ts \<or> map_of working t = None \<and> map_of ?g t = None"
    using in_keys [of t working] in_keys [of t ?g] by auto
  moreover have "fst (ingest_tenant [] None) = None"
    by (simp add: ingest_tenant_def wanted_hash_def new_chunks_def changed_sources_def retired_sources_def)
  ultimately show ?thesis using ss docs_of_group [of "re_default_tenant env" fresh t] by (auto simp: docs_of_def)
qed


definition demo_rag_env :: rag_env where
  "demo_rag_env = \<lparr>re_splitters = \<lparr>split_headers = (\<lambda>t. [\<lparr>pt_body = t, pt_title = None, pt_section = None, pt_subsection = None\<rparr>]),
      split_fallback = (\<lambda>_. []), split_children = (\<lambda>t. [t]), file_digest = (\<lambda>t. 35 # t)\<rparr>,
     re_catalog = None, re_default_tenant = (asc ''demo''), re_spec = \<lparr>es_backend = (asc ''ngram''), es_model = (asc ''ngram''), es_dim = 384\<rparr>\<rparr>"

definition demo_knowledge :: knowledge_dir where
  "demo_knowledge = \<lparr>kd_root = [\<lparr>kf_name = (asc ''a.md''), kf_stem = (asc ''a''), kf_text = (asc ''course'')\<rparr>], kd_dirs = []\<rparr>"

definition demo_index_cache :: index_cache where
  "demo_index_cache = \<lparr>ic_indexes = Some [((asc ''demo''), [])], ic_revision = None, ic_pinned = True, ic_lexical = []\<rparr>"

definition demo_index_disk :: index_disk where
  "demo_index_disk = \<lparr>dk_dirs = [], dk_legacy = None, dk_meta = NoMeta, dk_meta_mtime = [], dk_generation = NoGeneration,
     dk_generation_mtime = [], dk_dim = None\<rparr>"


end
