(* ===== verification/Rag_Search.thy ===== *)
theory Rag_Search
  imports Rag_Index "HOL-Library.Multiset"
begin

text \<open>
  Searching the indexes: the word index and the rank fusion of \<open>app/rag/lexical.py\<close>, the
  re-ranking of \<open>app/rag/reranker.py\<close> and the search, expansion and trimming of
  \<open>app/rag/vectorstore.py\<close>. The segmenter, the BM25 engine, the FAISS search and the
  cross-encoder are arguments; scores are rationals. One search sees one version of the
  indexes.
\<close>

section \<open>Settings and engines\<close>

record search_env =
  se_cut :: "ustr \<Rightarrow> ustr list"
  se_word_char :: "nat \<Rightarrow> bool"
  se_bm25 :: "ustr list list \<Rightarrow> ustr list \<Rightarrow> rat list"
  se_similar :: "ustr \<Rightarrow> store \<Rightarrow> int \<Rightarrow> (document \<times> rat) list"
  se_cross :: "ustr \<Rightarrow> ustr list \<Rightarrow> rat list option"
  se_hybrid :: bool
  se_rrf_k :: int
  se_dynamic_k :: bool
  se_fetch_min :: int
  se_fetch_max :: int
  se_rerank :: bool
  se_rerank_fetch :: int
  se_rerank_top :: int
  se_min_score :: rat
  se_neighbor :: int
  se_budget :: int
  se_tokenizer :: tokenizer

section \<open>Words\<close>

text \<open>\<open>tokenize\<close>: a segment without a word character (the underscore does not count) or of one letter is dropped.\<close>

definition is_ascii :: "ustr \<Rightarrow> bool" where
  "is_ascii s \<longleftrightarrow> list_all (\<lambda>c. c < 128) s"

definition keep_token :: "search_env \<Rightarrow> ustr \<Rightarrow> bool" where
  "keep_token env t \<longleftrightarrow> t \<noteq> [] \<and> \<not> list_all (\<lambda>c. \<not> se_word_char env c \<or> c = 95) t \<and>
     \<not> (is_ascii t \<and> list_all is_alnum t \<and> length t < 2) \<and> \<not> (\<not> is_ascii t \<and> length t < 2)"

definition tokenize :: "search_env \<Rightarrow> ustr \<Rightarrow> ustr list" where
  "tokenize env text = (let raw = strip text in
     if raw = [] then [] else filter (keep_token env) (map (\<lambda>p. lower (strip p)) (se_cut env raw)))"

definition document_key :: "document \<Rightarrow> ustr \<times> ustr" where
  "document_key d = (case d_source d of None \<Rightarrow> (asc ''None'') | Some s \<Rightarrow> s, d_content d)"

section \<open>Rank fusion\<close>

text \<open>The two dictionaries of the code, documents and scores, have the same keys and are one here.\<close>

type_synonym fused = "(ustr \<times> ustr, document \<times> rat) dict"

definition rrf_add :: "int \<Rightarrow> fused \<Rightarrow> nat \<times> document \<Rightarrow> fused" where
  "rrf_add rrf_k t rd = (let (r, d) = rd; key = document_key d in
     AList.update key (d, (case map_of t key of None \<Rightarrow> 0 | Some (_, sc) \<Rightarrow> sc) + 1 / of_int (rrf_k + int r)) t)"

definition rrf_table :: "int \<Rightarrow> document list list \<Rightarrow> fused" where
  "rrf_table rrf_k rankings = foldl (rrf_add rrf_k) [] (concat (map (enumerate 1) rankings))"

definition reciprocal_rank_fusion :: "document list list \<Rightarrow> int \<Rightarrow> int \<Rightarrow> (document \<times> rat) list" where
  "reciprocal_rank_fusion rankings rrf_k limit = map snd (take_int limit (sort_key (\<lambda>(_, _, sc). - sc) (rrf_table rrf_k rankings)))"

definition bm25_search :: "search_env \<Rightarrow> document list \<Rightarrow> ustr \<Rightarrow> int \<Rightarrow> (document \<times> rat) list" where
  "bm25_search env corpus query k =
     (let tokens = tokenize env query in
      if tokens = [] \<or> k \<le> 0 then []
      else let scores = se_bm25 env (map (\<lambda>d. let ts = tokenize env (d_content d) in if ts = [] then [[]] else ts) corpus) tokens
        in take_int k (sort_key (\<lambda>(_, sc). - sc) (filter (\<lambda>(_, sc). 0 < sc) (zip corpus scores))))"

section \<open>The two searches\<close>

record search_hit =
  sh_document :: document
  sh_score :: rat
  sh_vector :: rat
  sh_bm25 :: rat
  sh_low :: bool

definition passes_min_score :: "rat \<Rightarrow> search_hit \<Rightarrow> bool" where
  "passes_min_score min_score h \<longleftrightarrow> min_score \<le> 0 \<or> min_score \<le> sh_vector h \<or> 0 < sh_bm25 h"

definition l2_to_similarity :: "rat \<Rightarrow> rat" where
  "l2_to_similarity far = max 0 (1 - far / 2)"

definition default_fetch_k :: "int \<Rightarrow> int" where
  "default_fetch_k k = max (k * 3) 12"

definition vector_inner_k :: "int \<Rightarrow> ustr option \<Rightarrow> int \<Rightarrow> int" where
  "vector_inner_k fetch_k code ntotal = min ntotal (max (fetch_k * (if truthy code then 8 else 4)) (if truthy code then 32 else 16))"

fun vector_loop :: "ustr option \<Rightarrow> int \<Rightarrow> (document \<times> rat) list \<Rightarrow> (document \<times> rat) list \<Rightarrow> rag_error + (document \<times> rat) list" where
  "vector_loop code fetch_k acc [] = Inr acc"
| "vector_loop code fetch_k acc ((d, far) # rest) =
     (if d_deleted d then vector_loop code fetch_k acc rest
      else case matches_course code d of
          Inl e \<Rightarrow> Inl e
        | Inr m \<Rightarrow>
            if \<not> m \<or> \<not> is_retrieval_chunk d \<or> document_key d \<in> set (map (document_key \<circ> fst) acc) then vector_loop code fetch_k acc rest
            else let acc = acc @ [(d, l2_to_similarity far)]
              in if fetch_k \<le> int (length acc) then Inr acc else vector_loop code fetch_k acc rest)"

definition search_vector :: "search_env \<Rightarrow> stores \<Rightarrow> ustr \<Rightarrow> ustr \<Rightarrow> int \<Rightarrow> ustr option \<Rightarrow> rag_error + (document \<times> rat) list" where
  "search_vector env ss query tenant_id fetch_k code =
     vector_loop code fetch_k []
       (sort_key snd (concat (map (\<lambda>sc. let st = the (map_of ss sc) in
          if st = [] then [] else se_similar env query st (vector_inner_k fetch_k code (int (length st))))
          (search_scopes ss tenant_id code))))"

type_synonym lexical = "(ustr, document list option) dict"

definition bm25_index :: "stores \<Rightarrow> lexical \<Rightarrow> ustr \<Rightarrow> document list option \<times> lexical" where
  "bm25_index ss wix sc =
     (case map_of wix sc of
        Some v \<Rightarrow> (v, wix)
      | None \<Rightarrow> (let built = (case map_of ss sc of None \<Rightarrow> None
             | Some st \<Rightarrow> (let docs = filter is_retrieval_chunk (live_documents st) in if docs = [] then None else Some docs))
          in (built, AList.update sc built wix)))"

type_synonym best = "(ustr \<times> ustr, document \<times> rat) dict"

fun bm25_collect :: "ustr option \<Rightarrow> best \<Rightarrow> (document \<times> rat) list \<Rightarrow> rag_error + best" where
  "bm25_collect code best [] = Inr best"
| "bm25_collect code best ((d, sc) # rest) =
     (case matches_course code d of
        Inl e \<Rightarrow> Inl e
      | Inr m \<Rightarrow>
          (let key = document_key d; better = (case map_of best key of None \<Rightarrow> True | Some (_, old) \<Rightarrow> old < sc)
           in bm25_collect code (if m \<and> better then AList.update key (d, sc) best else best) rest))"

fun bm25_scopes :: "search_env \<Rightarrow> stores \<Rightarrow> ustr \<Rightarrow> int \<Rightarrow> ustr option \<Rightarrow> lexical \<Rightarrow> best \<Rightarrow> ustr list \<Rightarrow> (rag_error + best) \<times> lexical" where
  "bm25_scopes env ss query n code wix best [] = (Inr best, wix)"
| "bm25_scopes env ss query n code wix best (sc # scs) =
     (let (corpus, wix) = bm25_index ss wix sc
      in case corpus of
          None \<Rightarrow> bm25_scopes env ss query n code wix best scs
        | Some docs \<Rightarrow> (case bm25_collect code best (bm25_search env docs query n) of
              Inl e \<Rightarrow> (Inl e, wix)
            | Inr best \<Rightarrow> bm25_scopes env ss query n code wix best scs))"

definition search_bm25 ::
  "search_env \<Rightarrow> stores \<Rightarrow> lexical \<Rightarrow> ustr \<Rightarrow> ustr \<Rightarrow> int \<Rightarrow> ustr option \<Rightarrow> (rag_error + (document \<times> rat) list) \<times> lexical" where
  "search_bm25 env ss wix query tenant_id fetch_k code =
     (case bm25_scopes env ss query (if truthy code then max (fetch_k * 4) 16 else fetch_k) code wix [] (search_scopes ss tenant_id code) of
        (Inl e, wix) \<Rightarrow> (Inl e, wix)
      | (Inr best, wix) \<Rightarrow> (Inr (take_int fetch_k (sort_key (\<lambda>(_, sc). - sc) (map snd best))), wix))"

section \<open>Fusing\<close>

definition score_map :: "(document \<times> rat) list \<Rightarrow> (ustr \<times> ustr, rat) dict" where
  "score_map xs = foldl (\<lambda>m (d, sc). AList.update (document_key d) sc m) [] xs"

definition score_of :: "(ustr \<times> ustr, rat) dict \<Rightarrow> document \<Rightarrow> rat" where
  "score_of m d = (case map_of m (document_key d) of None \<Rightarrow> 0 | Some sc \<Rightarrow> sc)"

definition fuse_hits :: "(document \<times> rat) list \<Rightarrow> (document \<times> rat) list \<Rightarrow> int \<Rightarrow> int \<Rightarrow> search_hit list" where
  "fuse_hits vector_ranked bm25_ranked rrf_k limit =
     map (\<lambda>(d, rrf). \<lparr>sh_document = d, sh_score = rrf, sh_vector = score_of (score_map vector_ranked) d,
            sh_bm25 = score_of (score_map bm25_ranked) d, sh_low = False\<rparr>)
       (reciprocal_rank_fusion [map fst vector_ranked, map fst bm25_ranked] rrf_k limit)"

definition merge_max :: "(ustr \<times> ustr, rat) dict list \<Rightarrow> (ustr \<times> ustr, rat) dict" where
  "merge_max maps = foldl (\<lambda>m (key, v). AList.update key (max (case map_of m key of None \<Rightarrow> 0 | Some x \<Rightarrow> x) v) m) [] (concat maps)"

definition hits_from_ranked_lists ::
  "document list list \<Rightarrow> (ustr \<times> ustr, rat) dict list \<Rightarrow> (ustr \<times> ustr, rat) dict list \<Rightarrow> int \<Rightarrow> int \<Rightarrow> search_hit list" where
  "hits_from_ranked_lists ranked_lists vector_maps bm25_maps rrf_k limit =
     map (\<lambda>(d, rrf). \<lparr>sh_document = d, sh_score = rrf, sh_vector = score_of (merge_max vector_maps) d,
            sh_bm25 = score_of (merge_max bm25_maps) d, sh_low = False\<rparr>)
       (reciprocal_rank_fusion ranked_lists rrf_k limit)"

definition vector_hits :: "(document \<times> rat) list \<Rightarrow> search_hit list" where
  "vector_hits xs = map (\<lambda>(d, sim). \<lparr>sh_document = d, sh_score = sim, sh_vector = sim, sh_bm25 = 0, sh_low = False\<rparr>) xs"

text \<open>Both searches for one query.\<close>

definition ranked_for ::
  "search_env \<Rightarrow> stores \<Rightarrow> lexical \<Rightarrow> ustr \<Rightarrow> ustr \<Rightarrow> int \<Rightarrow> ustr option \<Rightarrow>
     (rag_error + (document \<times> rat) list \<times> (document \<times> rat) list) \<times> lexical" where
  "ranked_for env ss wix query tenant_id fetch_k code =
     (case search_vector env ss query tenant_id fetch_k code of
        Inl e \<Rightarrow> (Inl e, wix)
      | Inr vs \<Rightarrow> if \<not> se_hybrid env then (Inr (vs, []), wix)
          else (case search_bm25 env ss wix query tenant_id fetch_k code of
              (Inl e, wix) \<Rightarrow> (Inl e, wix) | (Inr bs, wix) \<Rightarrow> (Inr (vs, bs), wix)))"

type_synonym query_hits = "search_hit list \<times> (document \<times> rat) list \<times> (document \<times> rat) list"

definition single_query_hits ::
  "search_env \<Rightarrow> stores \<Rightarrow> lexical \<Rightarrow> ustr \<Rightarrow> ustr \<Rightarrow> int \<Rightarrow> int \<Rightarrow> ustr option \<Rightarrow> (rag_error + query_hits) \<times> lexical" where
  "single_query_hits env ss wix query tenant_id fetch_k fuse_limit code =
     (case ranked_for env ss wix query tenant_id fetch_k code of
        (Inl e, wix) \<Rightarrow> (Inl e, wix)
      | (Inr (vs, bs), wix) \<Rightarrow>
          (Inr (if \<not> se_hybrid env then vector_hits (take_int fuse_limit vs) else fuse_hits vs bs (se_rrf_k env) fuse_limit, vs, bs), wix))"

record query_lists =
  ql_ranked :: "document list list"
  ql_vector :: "(ustr \<times> ustr, rat) dict list"
  ql_bm25 :: "(ustr \<times> ustr, rat) dict list"
  ql_last :: "(document \<times> rat) list \<times> (document \<times> rat) list"

fun query_loop ::
  "search_env \<Rightarrow> stores \<Rightarrow> ustr \<Rightarrow> int \<Rightarrow> int \<Rightarrow> ustr option \<Rightarrow> lexical \<Rightarrow> query_lists \<Rightarrow> ustr list \<Rightarrow> (rag_error + query_lists) \<times> lexical" where
  "query_loop env ss tenant_id fetch_k fuse_limit code wix q [] = (Inr q, wix)"
| "query_loop env ss tenant_id fetch_k fuse_limit code wix q (query # qs) =
     (case ranked_for env ss wix query tenant_id fetch_k code of
        (Inl e, wix) \<Rightarrow> (Inl e, wix)
      | (Inr (vs, bs), wix) \<Rightarrow>
          query_loop env ss tenant_id fetch_k fuse_limit code wix
            \<lparr>ql_ranked = ql_ranked q @ [if se_hybrid env then map sh_document (fuse_hits vs bs (se_rrf_k env) fuse_limit)
                else map fst (take_int fuse_limit vs)],
             ql_vector = ql_vector q @ [score_map vs], ql_bm25 = ql_bm25 q @ [score_map bs], ql_last = (vs, bs)\<rparr> qs)"

definition multi_query_hits ::
  "search_env \<Rightarrow> stores \<Rightarrow> lexical \<Rightarrow> ustr list \<Rightarrow> ustr \<Rightarrow> int \<Rightarrow> int \<Rightarrow> ustr option \<Rightarrow> (rag_error + query_hits) \<times> lexical" where
  "multi_query_hits env ss wix queries tenant_id fetch_k fuse_limit code =
     (case query_loop env ss tenant_id fetch_k fuse_limit code wix \<lparr>ql_ranked = [], ql_vector = [], ql_bm25 = [], ql_last = ([], [])\<rparr> queries of
        (Inl e, wix) \<Rightarrow> (Inl e, wix)
      | (Inr q, wix) \<Rightarrow> (Inr (hits_from_ranked_lists (ql_ranked q) (ql_vector q) (ql_bm25 q) (se_rrf_k env) fuse_limit, ql_last q), wix))"

definition rerank_hits :: "search_env \<Rightarrow> ustr \<Rightarrow> search_hit list \<Rightarrow> int \<Rightarrow> search_hit list" where
  "rerank_hits env query hits top_k =
     (if hits = [] \<or> top_k \<le> 0 then []
      else if length hits = 1 then hits
      else case se_cross env query (map (d_content \<circ> sh_document) hits) of
          None \<Rightarrow> take_int top_k hits
        | Some scores \<Rightarrow> if length scores \<noteq> length hits then take_int top_k hits
            else map (\<lambda>(h, sc). h\<lparr>sh_score := sc\<rparr>) (take_int top_k (sort_key (\<lambda>(_, sc). - sc) (zip hits scores))))"

record tenant_search_result =
  tr_hits :: "search_hit list"
  tr_fetch_k :: int
  tr_profile :: ustr
  tr_fused :: nat
  tr_rerank :: bool
  tr_top_k :: int
  tr_fallback :: bool
  tr_queries :: "ustr list"

definition search_tenant_documents ::
  "search_env \<Rightarrow> stores \<Rightarrow> lexical \<Rightarrow> ustr \<Rightarrow> ustr \<Rightarrow> int \<Rightarrow> ustr option \<Rightarrow> ustr list option \<Rightarrow>
     (rag_error + tenant_search_result) \<times> lexical" where
  "search_tenant_documents env ss wix query tenant_id k code retrieval_queries =
     (let plan = resolve_retrieval_plan (se_fetch_min env) (se_fetch_max env) query k code;
          fetch_k = (if se_dynamic_k env then rp_fetch_k plan else default_fetch_k k);
          fuse_limit = (if se_rerank env then max fetch_k (se_rerank_fetch env) else fetch_k);
          given = (case retrieval_queries of None \<Rightarrow> [query] | Some qs \<Rightarrow> if qs = [] then [query] else qs);
          queries = filter (\<lambda>q. q \<noteq> []) (map strip given); queries = (if queries = [] then [query] else queries)
      in case (if 1 < length queries then multi_query_hits env ss wix queries tenant_id fetch_k fuse_limit code
               else single_query_hits env ss wix query tenant_id fetch_k fuse_limit code) of
           (Inl e, wix) \<Rightarrow> (Inl e, wix)
         | (Inr (hits, vs, bs), wix) \<Rightarrow>
             (let rerank = se_rerank env \<and> hits \<noteq> [];
                  top_k = (if rerank then min (se_rerank_top env) k else 0);
                  found = (if rerank then rerank_hits env query hits top_k else take_int k hits);
                  relaxed = (if truthy code \<and> found = []
                    then (if se_hybrid env then fuse_hits vs bs (se_rrf_k env) k else vector_hits (take_int k vs)) else []);
                  final = (if relaxed \<noteq> [] then map (\<lambda>h. h\<lparr>sh_low := True\<rparr>) relaxed else found)
              in (Inr \<lparr>tr_hits = take_int k final, tr_fetch_k = fetch_k, tr_profile = rp_profile plan, tr_fused = length hits,
                    tr_rerank = rerank, tr_top_k = top_k, tr_fallback = (relaxed \<noteq> []), tr_queries = queries\<rparr>, wix)))"

section \<open>The context of a hit\<close>

definition section_key :: "document \<Rightarrow> (ustr \<times> ustr) option" where
  "section_key d = (let sec = strip (str_or_empty (d_section d)) in
     if source_of d = [] \<or> sec = [] then None else Some (source_of d, sec))"

definition format_rag_context_chunk :: "document \<Rightarrow> ustr" where
  "format_rag_context_chunk d = [0x6765, 0x6E90, 58] \<comment> \<open>source\<close> @ (case d_source d of None \<Rightarrow> (asc ''None'') | Some s \<Rightarrow> s) @ [10] @ d_content d"

record context_item =
  ci_document :: document
  ci_hit :: nat
  ci_tier :: nat
  ci_distance :: nat

definition item_key :: "context_item \<Rightarrow> nat \<times> nat \<times> nat" where
  "item_key i = (ci_hit i, ci_tier i, ci_distance i)"

definition better_item :: "context_item option \<Rightarrow> context_item \<Rightarrow> bool" where
  "better_item cur cand = (case cur of None \<Rightarrow> True | Some c \<Rightarrow> item_key cand < item_key c)"

definition parent_lookup :: "document list \<Rightarrow> (ustr, document) dict" where
  "parent_lookup corpus = foldl (\<lambda>ps d.
     if d_role d = Some (asc ''parent'') \<and> truthy (d_parent d) then AList.update (str_or_empty (d_parent d)) d ps else ps) [] corpus"

definition context_document :: "(ustr, document) dict \<Rightarrow> document \<Rightarrow> document" where
  "context_document parents hit =
     (if d_role hit \<noteq> Some (asc ''child'') then hit
      else let pid = str_or_empty (d_parent hit) in
        if pid \<noteq> [] then (case map_of parents pid of Some p \<Rightarrow> p | None \<Rightarrow> hit) else hit)"

definition by_source_chunk :: "document list \<Rightarrow> (ustr \<times> int, document) dict" where
  "by_source_chunk corpus = foldl (\<lambda>m d. case d_chunk d of
       Some i \<Rightarrow> if is_retrieval_chunk d \<and> source_of d \<noteq> [] then AList.update (source_of d, i) d m else m | None \<Rightarrow> m) [] corpus"

definition by_section :: "document list \<Rightarrow> (ustr \<times> ustr, document list) dict" where
  "by_section corpus = foldl (\<lambda>m d. case section_key d of
       Some key \<Rightarrow> if is_retrieval_chunk d then append_at key d m else m | None \<Rightarrow> m) [] corpus"

type_synonym selection = "(ustr \<times> ustr, context_item) dict"

definition consider_item :: "selection \<Rightarrow> context_item \<Rightarrow> selection" where
  "consider_item sel item = (let key = document_key (ci_document item) in
     if better_item (map_of sel key) item then AList.update key item sel else sel)"

text \<open>
  The items that one hit contributes, in the order in which they are considered. A chunk of the
  section that is the hit itself could not displace it and is not left out here.
\<close>

definition hit_items ::
  "int \<Rightarrow> (ustr, document) dict \<Rightarrow> (ustr \<times> int, document) dict \<Rightarrow> (ustr \<times> ustr, document list) dict \<Rightarrow> nat \<times> document \<Rightarrow> context_item list" where
  "hit_items window parents chunks sections rh =
     (let (r, hit) = rh;
          own = \<lparr>ci_document = context_document parents hit, ci_hit = r, ci_tier = 0, ci_distance = 0\<rparr>;
          same = (case (section_key hit, d_chunk hit) of
              (Some key, Some i) \<Rightarrow> map (\<lambda>d. \<lparr>ci_document = context_document parents d, ci_hit = r, ci_tier = 1,
                ci_distance = (case d_chunk d of None \<Rightarrow> 0 | Some j \<Rightarrow> nat \<bar>j - i\<bar>)\<rparr>) (docs_of sections key)
            | _ \<Rightarrow> []);
          near = (case d_chunk hit of
              Some i \<Rightarrow> if source_of hit \<noteq> [] \<and> 0 \<le> i
                then concat (map (\<lambda>offset. if offset = 0 then [] else case map_of chunks (source_of hit, i + offset) of
                    None \<Rightarrow> [] | Some d \<Rightarrow> [\<lparr>ci_document = context_document parents d, ci_hit = r, ci_tier = 2, ci_distance = nat \<bar>offset\<bar>\<rparr>])
                  [-window..window]) else []
            | None \<Rightarrow> [])
      in own # same @ near)"

definition expand_hit_documents_scored :: "document list \<Rightarrow> document list \<Rightarrow> int \<Rightarrow> context_item list" where
  "expand_hit_documents_scored hits corpus neighbor =
     sort_key item_key (map snd (foldl consider_item []
       (concat (map (hit_items (max 0 neighbor) (parent_lookup corpus) (by_source_chunk corpus) (by_section corpus)) (enumerate 0 hits)))))"

definition sort_rag_documents :: "document list \<Rightarrow> document list" where
  "sort_rag_documents ds = sort_key (\<lambda>d. (source_of d, case d_chunk d of Some i \<Rightarrow> i | None \<Rightarrow> 1000000000)) ds"

definition item_cost :: "search_env \<Rightarrow> context_item \<Rightarrow> int" where
  "item_cost env i = count_tokens (se_tokenizer env) (format_rag_context_chunk (ci_document i))"

fun trim_loop :: "search_env \<Rightarrow> int \<Rightarrow> context_item list \<Rightarrow> int \<Rightarrow> context_item list \<Rightarrow> context_item list \<times> int" where
  "trim_loop env budget kept used [] = (kept, used)"
| "trim_loop env budget kept used (i # is) =
     (if kept \<noteq> [] \<and> budget < used + item_cost env i then trim_loop env budget kept used is
      else trim_loop env budget (kept @ [i]) (used + item_cost env i) is)"

record trim_stats =
  st_tokens :: int
  st_trimmed :: nat
  st_exceeded :: bool

definition trim_rag_context_by_budget :: "search_env \<Rightarrow> context_item list \<Rightarrow> int \<Rightarrow> document list \<times> trim_stats" where
  "trim_rag_context_by_budget env items budget =
     (if items = [] then ([], \<lparr>st_tokens = 0, st_trimmed = 0, st_exceeded = False\<rparr>)
      else let ordered = sort_key item_key items in
        if budget \<le> 0
        then let docs = sort_rag_documents (map ci_document ordered) in
          (docs, \<lparr>st_tokens = (\<Sum>d \<leftarrow> docs. count_tokens (se_tokenizer env) (format_rag_context_chunk d)), st_trimmed = 0, st_exceeded = False\<rparr>)
        else let (kept, used) = trim_loop env budget [] 0 ordered;
                 top = find (\<lambda>i. ci_tier i = 0 \<and> ci_hit i = 0) ordered;
                 (kept, used, exceeded) = (case top of
                   Some t \<Rightarrow> if t \<notin> set kept then ([t], item_cost env t, budget < item_cost env t) else (kept, used, budget < used)
                 | None \<Rightarrow> (kept, used, False))
          in (sort_rag_documents (map ci_document kept),
              \<lparr>st_tokens = used, st_trimmed = length ordered - length kept, st_exceeded = exceeded\<rparr>))"

definition expand_hit_documents :: "document list \<Rightarrow> document list \<Rightarrow> int \<Rightarrow> document list" where
  "expand_hit_documents hits corpus neighbor = sort_rag_documents (map ci_document (expand_hit_documents_scored hits corpus neighbor))"

section \<open>What a search may find\<close>

definition in_scope :: "stores \<Rightarrow> ustr \<Rightarrow> ustr option \<Rightarrow> document \<Rightarrow> bool" where
  "in_scope ss tenant_id code d \<longleftrightarrow> (\<exists>sc \<in> set (search_scopes ss tenant_id code). d \<in> set (live_documents (docs_of ss sc))) \<and>
     matches_course code d = Inr True"

text \<open>FAISS returns documents of the store it searches; the corpus of a word index is the one of its store.\<close>

definition similar_ok :: "search_env \<Rightarrow> bool" where
  "similar_ok env \<longleftrightarrow> (\<forall>q st k. set (map fst (se_similar env q st k)) \<subseteq> set st)"

definition lexical_ok :: "stores \<Rightarrow> lexical \<Rightarrow> bool" where
  "lexical_ok ss wix \<longleftrightarrow> (\<forall>sc docs. map_of wix sc = Some (Some docs) \<longrightarrow> set docs \<subseteq> set (live_documents (docs_of ss sc)))"

lemma set_take_int: "set (take_int n xs) \<subseteq> set xs"
  by (auto simp: take_int_def dest: in_set_takeD)

lemma scope_store: "sc \<in> set (search_scopes ss tenant_id code) \<Longrightarrow> map_of ss sc = Some (docs_of ss sc)"
  by (auto simp: search_scopes_def docs_of_def split: if_splits)

lemma vector_loop_docs:
  "vector_loop code n acc xs = Inr ys \<Longrightarrow> set (map fst ys) \<subseteq> set (map fst acc) \<union> {d \<in> set (map fst xs). \<not> d_deleted d \<and> matches_course code d = Inr True}"
proof (induction code n acc xs rule: vector_loop.induct)
  case (2 code n acc d far rest)
  then show ?case
    by (auto simp: Let_def split: if_splits sum.splits)
qed auto

lemma search_vector_scope:
  assumes "similar_ok env" "search_vector env ss query tenant_id n code = Inr ys" "d \<in> set (map fst ys)"
  shows "in_scope ss tenant_id code d"
proof -
  let ?found = "\<lambda>sc. let st = the (map_of ss sc) in if st = [] then [] else se_similar env query st (vector_inner_k n code (int (length st)))"
  from vector_loop_docs [OF assms(2) [unfolded search_vector_def]] assms(3)
  have d: "\<not> d_deleted d" "matches_course code d = Inr True" and "d \<in> set (map fst (concat (map ?found (search_scopes ss tenant_id code))))"
    by auto
  then obtain sc where sc: "sc \<in> set (search_scopes ss tenant_id code)" "d \<in> set (map fst (?found sc))" by auto
  moreover have "set (map fst (?found sc)) \<subseteq> set (the (map_of ss sc))" using assms(1) by (auto simp: similar_ok_def Let_def)
  ultimately have "d \<in> set (docs_of ss sc)" using scope_store [OF sc(1)] by auto
  with d sc(1) show ?thesis by (auto simp: in_scope_def live_documents_def)
qed

lemma bm25_search_docs: "set (map fst (bm25_search env corpus query k)) \<subseteq> set corpus"
  by (auto simp: bm25_search_def Let_def dest!: subsetD [OF set_take_int] set_zip_leftD)

lemma bm25_index_ok:
  assumes "lexical_ok ss wix" "bm25_index ss wix sc = (corpus, wix')"
  shows "lexical_ok ss wix'" and "corpus = Some docs \<Longrightarrow> set docs \<subseteq> set (live_documents (docs_of ss sc))"
proof -
  have c: "set docs \<subseteq> set (live_documents (docs_of ss sc))" if "corpus = Some docs" for docs
  proof -
    have "map_of wix sc = Some (Some docs) \<or> (\<exists>st. map_of ss sc = Some st \<and> docs = filter is_retrieval_chunk (live_documents st))"
      using assms(2) that by (auto simp: bm25_index_def Let_def split: option.splits if_splits)
    then show ?thesis
    proof
      assume "map_of wix sc = Some (Some docs)"
      with assms(1) show ?thesis unfolding lexical_ok_def by blast
    qed (auto simp: docs_of_def)
  qed
  then show "corpus = Some docs \<Longrightarrow> set docs \<subseteq> set (live_documents (docs_of ss sc))" .
  from assms(2) have "wix' = wix \<or> wix' = AList.update sc corpus wix" by (auto simp: bm25_index_def Let_def split: option.splits)
  then show "lexical_ok ss wix'"
  proof
    assume w: "wix' = AList.update sc corpus wix"
    show ?thesis unfolding lexical_ok_def w map_of_update
    proof (intro allI impI)
      fix v docs
      assume "((map_of wix)(sc \<mapsto> corpus)) v = Some (Some docs)"
      then show "set docs \<subseteq> set (live_documents (docs_of ss v))"
        using c assms(1) unfolding lexical_ok_def by (cases "v = sc") auto
    qed
  qed (use assms(1) in simp)
qed

definition best_docs :: "best \<Rightarrow> document set" where
  "best_docs b = {d. \<exists>key sc. map_of b key = Some (d, sc)}"

lemma bm25_collect_docs:
  "bm25_collect code b xs = Inr b' \<Longrightarrow> best_docs b' \<subseteq> best_docs b \<union> {d \<in> set (map fst xs). matches_course code d = Inr True}"
proof (induction code b xs arbitrary: b' rule: bm25_collect.induct)
  case (2 code b d sc rest)
  obtain m where m: "matches_course code d = Inr m" using 2(2) by (auto split: sum.splits)
  let ?better = "case map_of b (document_key d) of None \<Rightarrow> True | Some (_, old) \<Rightarrow> old < sc"
  let ?b = "if m \<and> ?better then AList.update (document_key d) (d, sc) b else b"
  have "best_docs ?b \<subseteq> best_docs b \<union> {d}" by (auto simp: best_docs_def split: if_splits)
  moreover have "best_docs ?b \<subseteq> best_docs b" if "\<not> m" using that by (simp add: best_docs_def)
  moreover have "best_docs b' \<subseteq> best_docs ?b \<union> {d \<in> set (map fst rest). matches_course code d = Inr True}"
    using 2(1) [OF m refl refl] 2(2) m by (simp add: Let_def)
  ultimately show ?case using m by (cases m) auto
qed simp

lemma bm25_scopes_docs:
  assumes "lexical_ok ss wix" "bm25_scopes env ss query n code wix b scs = (res, wix')"
  shows "lexical_ok ss wix'" and "res = Inr b' \<Longrightarrow> best_docs b' \<subseteq> best_docs b \<union> {d. matches_course code d = Inr True \<and> (\<exists>sc \<in> set scs. d \<in> set (live_documents (docs_of ss sc)))}"
proof -
  have "lexical_ok ss wix' \<and> (\<forall>b'. res = Inr b' \<longrightarrow> best_docs b' \<subseteq> best_docs b \<union> {d. matches_course code d = Inr True \<and> (\<exists>sc \<in> set scs. d \<in> set (live_documents (docs_of ss sc)))})"
    using assms
  proof (induction scs arbitrary: wix b)
    case (Cons sc scs)
    obtain corpus wix1 where i: "bm25_index ss wix sc = (corpus, wix1)" by (cases "bm25_index ss wix sc")
    note ok = bm25_index_ok [OF Cons.prems(1) i]
    show ?case
    proof (cases corpus)
      case None
      with Cons.IH [OF ok(1), of b] Cons.prems(2) i show ?thesis by auto
    next
      case (Some docs)
      show ?thesis
      proof (cases "bm25_collect code b (bm25_search env docs query n)")
        case (Inl e)
        with Some Cons.prems(2) i ok(1) show ?thesis by auto
      next
        case (Inr b1)
        have "best_docs b1 \<subseteq> best_docs b \<union> {d. matches_course code d = Inr True \<and> d \<in> set (live_documents (docs_of ss sc))}"
          using bm25_collect_docs [OF Inr] bm25_search_docs [of env docs query n] ok(2) [OF Some] by blast
        with Inr Some Cons.IH [OF ok(1), of b1] Cons.prems(2) i show ?thesis by auto
      qed
    qed
  qed auto
  then show "lexical_ok ss wix'" "res = Inr b' \<Longrightarrow> best_docs b' \<subseteq> best_docs b \<union> {d. matches_course code d = Inr True \<and> (\<exists>sc \<in> set scs. d \<in> set (live_documents (docs_of ss sc)))}"
    by blast+
qed

lemma mem_sort_take: "x \<in> set (take_int n (sort_key f xs)) \<Longrightarrow> x \<in> set xs"
  using set_take_int [of n "sort_key f xs"] by auto

lemma map_of_update_values: "(k, v) \<in> set (AList.update key x d) \<Longrightarrow> v = x \<or> (k, v) \<in> set d"
  by (induction d) (auto split: if_splits)

lemma search_bm25_scope:
  assumes "lexical_ok ss wix" "search_bm25 env ss wix query tenant_id n code = (res, wix')"
  shows "lexical_ok ss wix'" and "res = Inr ys \<Longrightarrow> d \<in> set (map fst ys) \<Longrightarrow> in_scope ss tenant_id code d"
proof -
  let ?n = "if truthy code then max (n * 4) 16 else n"
  obtain r w where s: "bm25_scopes env ss query ?n code wix [] (search_scopes ss tenant_id code) = (r, w)"
    by (cases "bm25_scopes env ss query ?n code wix [] (search_scopes ss tenant_id code)")
  note sc = bm25_scopes_docs [OF assms(1) s]
  have "wix' = w" using assms(2) s by (auto simp: search_bm25_def split: sum.splits)
  with sc(1) show "lexical_ok ss wix'" by simp
  assume res: "res = Inr ys" and d: "d \<in> set (map fst ys)"
  then obtain best where r: "r = Inr best" "ys = take_int n (sort_key (\<lambda>(_, sc). - sc) (map snd best))"
    using assms(2) s by (auto simp: search_bm25_def split: sum.splits)
  have ok: "dict_ok b'" if "bm25_collect c b xs = Inr b'" "dict_ok b" for c b b' xs
    using that by (induction c b xs rule: bm25_collect.induct) (auto simp: Let_def split: sum.splits if_splits)
  have ok2: "dict_ok b'" if "bm25_scopes env ss query m code wx b scs = (Inr b', wx')" "dict_ok b" for m wx wx' b b' scs
    using that
  proof (induction scs arbitrary: wx b)
    case (Cons sc scs)
    then show ?case by (auto simp: case_prod_beta split: option.splits sum.splits dest: ok)
  qed simp
  have "dict_ok best" using ok2 [of ?n wix "[]" "search_scopes ss tenant_id code" best w] s r(1) by simp
  from d r(2) obtain score where "(d, score) \<in> set (map snd best)" using mem_sort_take by fastforce
  then obtain key where "(key, d, score) \<in> set best" by auto
  then have "map_of best key = Some (d, score)" using \<open>dict_ok best\<close> by (simp add: dict_ok_def)
  then have "d \<in> best_docs best" unfolding best_docs_def by blast
  moreover have "best_docs [] = {}" by (simp add: best_docs_def)
  ultimately show "in_scope ss tenant_id code d" using sc(2) [OF r(1)] unfolding in_scope_def by blast
qed

lemma rrf_table_docs: "(key, d, sc) \<in> set (rrf_table k rankings) \<Longrightarrow> \<exists>r \<in> set rankings. d \<in> set r"
proof -
  have step: "d \<in> snd ` set xs \<or> (\<exists>key sc. (key, d, sc) \<in> set t)" if "(key, d, sc) \<in> set (foldl (rrf_add k) t xs)" for t xs and key :: "ustr \<times> ustr" and sc :: rat
    using that
  proof (induction xs arbitrary: t)
    case (Cons x xs)
    obtain r e where x: "x = (r, e)" by (cases x)
    from Cons.IH [of "rrf_add k t x"] Cons.prems show ?case
      by (auto simp: x rrf_add_def Let_def simp del: split_paired_Ex dest: map_of_update_values)
  next
    case Nil
    then have "(key, d, sc) \<in> set t" by simp
    then show ?case by blast
  qed
  assume "(key, d, sc) \<in> set (rrf_table k rankings)"
  from step [OF this [unfolded rrf_table_def]] obtain r where r: "r \<in> set rankings" "d \<in> snd ` set (enumerate 1 r)" by force
  from r(2) have "d \<in> set (map snd (enumerate 1 r))" unfolding set_map .
  with r(1) show ?thesis unfolding map_snd_enumerate by blast
qed

lemma rrf_docs: "d \<in> set (map fst (reciprocal_rank_fusion rankings k limit)) \<Longrightarrow> \<exists>r \<in> set rankings. d \<in> set r"
  unfolding reciprocal_rank_fusion_def by (auto dest!: mem_sort_take dest: rrf_table_docs)

lemma fuse_hits_docs: "h \<in> set (fuse_hits vs bs k limit) \<Longrightarrow> sh_document h \<in> set (map fst vs) \<union> set (map fst bs)"
  unfolding fuse_hits_def using rrf_docs [of "sh_document h" "[map fst vs, map fst bs]" k limit] by force

lemma ranked_for_scope:
  assumes "similar_ok env" "lexical_ok ss wix" "ranked_for env ss wix query tenant_id n code = (res, wix')"
  shows "lexical_ok ss wix'" and "res = Inr (vs, bs) \<Longrightarrow> d \<in> set (map fst vs) \<union> set (map fst bs) \<Longrightarrow> in_scope ss tenant_id code d"
proof -
  obtain r w where b: "search_bm25 env ss wix query tenant_id n code = (r, w)" by (cases "search_bm25 env ss wix query tenant_id n code")
  note ok = search_bm25_scope [OF assms(2) b]
  show "lexical_ok ss wix'" using assms(2,3) b ok(1) by (auto simp: ranked_for_def split: sum.splits if_splits)
  assume "res = Inr (vs, bs)" and d: "d \<in> set (map fst vs) \<union> set (map fst bs)"
  then have vs: "search_vector env ss query tenant_id n code = Inr vs" and bs: "bs = [] \<or> r = Inr bs"
    using assms(3) b by (auto simp: ranked_for_def split: sum.splits if_splits)
  from d show "in_scope ss tenant_id code d"
  proof
    assume "d \<in> set (map fst bs)"
    with bs have "r = Inr bs" by auto
    then show ?thesis using \<open>d \<in> set (map fst bs)\<close> by (rule ok(2))
  qed (rule search_vector_scope [OF assms(1) vs])
qed

lemma vector_hits_docs: "h \<in> set (vector_hits xs) \<Longrightarrow> sh_document h \<in> set (map fst xs)"
  by (force simp: vector_hits_def)

lemma take_fst: "d \<in> set (map fst (take_int n xs)) \<Longrightarrow> d \<in> set (map fst xs)"
  using set_take_int [of n xs] by auto

lemma single_query_scope:
  assumes "similar_ok env" "lexical_ok ss wix" "single_query_hits env ss wix query tenant_id n limit code = (res, wix')"
  shows "lexical_ok ss wix'" and "res = Inr (hits, vs, bs) \<Longrightarrow>
    d \<in> sh_document ` set hits \<union> set (map fst vs) \<union> set (map fst bs) \<Longrightarrow> in_scope ss tenant_id code d"
proof -
  obtain r w where b: "ranked_for env ss wix query tenant_id n code = (r, w)" by (cases "ranked_for env ss wix query tenant_id n code")
  note ok = ranked_for_scope [OF assms(1,2) b]
  show "lexical_ok ss wix'" using assms(3) b ok(1) by (auto simp: single_query_hits_def split: sum.splits prod.splits)
  assume "res = Inr (hits, vs, bs)" and d: "d \<in> sh_document ` set hits \<union> set (map fst vs) \<union> set (map fst bs)"
  then have r: "r = Inr (vs, bs)" and h: "hits = (if \<not> se_hybrid env then vector_hits (take_int limit vs) else fuse_hits vs bs (se_rrf_k env) limit)"
    using assms(3) b by (auto simp: single_query_hits_def split: sum.splits prod.splits)
  have "sh_document x \<in> set (map fst vs) \<union> set (map fst bs)" if "x \<in> set hits" for x
  proof (cases "se_hybrid env")
    case True
    with that h show ?thesis using fuse_hits_docs [of x vs bs] by simp
  next
    case False
    with that h show ?thesis using vector_hits_docs [of x "take_int limit vs"] take_fst [of "sh_document x" limit vs] by auto
  qed
  with d ok(2) [OF r] show "in_scope ss tenant_id code d" by blast
qed

definition lists_in_scope :: "stores \<Rightarrow> ustr \<Rightarrow> ustr option \<Rightarrow> query_lists \<Rightarrow> bool" where
  "lists_in_scope ss tenant_id code q \<longleftrightarrow>
     (\<forall>d \<in> \<Union>(set ` set (ql_ranked q)) \<union> set (map fst (fst (ql_last q))) \<union> set (map fst (snd (ql_last q))). in_scope ss tenant_id code d)"

lemma query_loop_scope:
  assumes "similar_ok env" "lexical_ok ss wix" "lists_in_scope ss tenant_id code q"
    and "query_loop env ss tenant_id n limit code wix q queries = (res, wix')"
  shows "lexical_ok ss wix' \<and> (\<forall>q'. res = Inr q' \<longrightarrow> lists_in_scope ss tenant_id code q')"
  using assms(2-4)
proof (induction queries arbitrary: wix q)
  case (Cons query queries)
  obtain r w where b: "ranked_for env ss wix query tenant_id n code = (r, w)" by (cases "ranked_for env ss wix query tenant_id n code")
  note ok = ranked_for_scope [OF assms(1) Cons.prems(1) b]
  show ?case
  proof (cases r)
    case (Inl e)
    with Cons.prems(3) b ok(1) show ?thesis by auto
  next
    case (Inr vb)
    obtain vs bs where vb: "vb = (vs, bs)" by (cases vb)
    let ?new = "if se_hybrid env then map sh_document (fuse_hits vs bs (se_rrf_k env) limit) else map fst (take_int limit vs)"
    let ?q = "\<lparr>ql_ranked = ql_ranked q @ [?new], ql_vector = ql_vector q @ [score_map vs], ql_bm25 = ql_bm25 q @ [score_map bs], ql_last = (vs, bs)\<rparr>"
    have r: "r = Inr (vs, bs)" by (simp add: Inr vb)
    have "d \<in> set (map fst vs) \<union> set (map fst bs)" if "d \<in> set ?new" for d
      using that fuse_hits_docs [of _ vs bs "se_rrf_k env" limit] take_fst [of d limit vs] by (auto split: if_splits)
    then have "lists_in_scope ss tenant_id code ?q"
      using ok(2) [OF r] Cons.prems(2) unfolding lists_in_scope_def by (auto simp del: set_map)
    from Cons.IH [OF ok(1) this] Cons.prems(3) b r show ?thesis by simp
  qed
qed auto

lemma multi_query_scope:
  assumes "similar_ok env" "lexical_ok ss wix" "multi_query_hits env ss wix queries tenant_id n limit code = (res, wix')"
  shows "lexical_ok ss wix'" and "res = Inr (hits, vs, bs) \<Longrightarrow>
    d \<in> sh_document ` set hits \<union> set (map fst vs) \<union> set (map fst bs) \<Longrightarrow> in_scope ss tenant_id code d"
proof -
  let ?q0 = "\<lparr>ql_ranked = [], ql_vector = [], ql_bm25 = [], ql_last = ([], [])\<rparr>"
  obtain r w where b: "query_loop env ss tenant_id n limit code wix ?q0 queries = (r, w)"
    by (cases "query_loop env ss tenant_id n limit code wix ?q0 queries")
  have "lists_in_scope ss tenant_id code ?q0" by (simp add: lists_in_scope_def)
  note ok = query_loop_scope [OF assms(1,2) this b]
  show "lexical_ok ss wix'" using assms(3) b ok by (auto simp: multi_query_hits_def split: sum.splits)
  assume "res = Inr (hits, vs, bs)" and d: "d \<in> sh_document ` set hits \<union> set (map fst vs) \<union> set (map fst bs)"
  then obtain q where r: "r = Inr q" and h: "hits = hits_from_ranked_lists (ql_ranked q) (ql_vector q) (ql_bm25 q) (se_rrf_k env) limit" "ql_last q = (vs, bs)"
    using assms(3) b by (auto simp: multi_query_hits_def split: sum.splits)
  have q: "lists_in_scope ss tenant_id code q" using ok r by blast
  have "\<exists>l \<in> set (ql_ranked q). sh_document x \<in> set l" if "x \<in> set hits" for x
    using that rrf_docs [of "sh_document x" "ql_ranked q" "se_rrf_k env" limit] unfolding h(1) hits_from_ranked_lists_def by force
  with d q h(2) show "in_scope ss tenant_id code d" unfolding lists_in_scope_def by auto
qed

lemma zip_scored: "(a, b) \<in> set (zip hits scores) \<Longrightarrow> sh_document a \<in> sh_document ` set hits"
  by (auto dest: set_zip_leftD)

lemma rerank_docs: "h \<in> set (rerank_hits env query hits k) \<Longrightarrow> sh_document h \<in> sh_document ` set hits"
  by (auto simp: rerank_hits_def split: if_splits option.splits dest!: mem_sort_take subsetD [OF set_take_int] intro: zip_scored)

lemma search_tenant_scope:
  assumes "similar_ok env" "lexical_ok ss wix" "search_tenant_documents env ss wix query tenant_id k code retrieval_queries = (res, wix')"
  shows "lexical_ok ss wix'" and "res = Inr r \<Longrightarrow> h \<in> set (tr_hits r) \<Longrightarrow> in_scope ss tenant_id code (sh_document h)"
proof -
  let ?plan = "resolve_retrieval_plan (se_fetch_min env) (se_fetch_max env) query k code"
  let ?n = "if se_dynamic_k env then rp_fetch_k ?plan else default_fetch_k k"
  let ?limit = "if se_rerank env then max ?n (se_rerank_fetch env) else ?n"
  let ?given = "case retrieval_queries of None \<Rightarrow> [query] | Some qs \<Rightarrow> if qs = [] then [query] else qs"
  let ?stripped = "filter (\<lambda>q. q \<noteq> []) (map strip ?given)"
  let ?queries = "if ?stripped = [] then [query] else ?stripped"
  let ?run = "if 1 < length ?queries then multi_query_hits env ss wix ?queries tenant_id ?n ?limit code
    else single_query_hits env ss wix query tenant_id ?n ?limit code"
  obtain r0 w where run: "?run = (r0, w)" using surj_pair [of ?run] by blast
  have scope: "lexical_ok ss w \<and> (\<forall>hits vs bs d. r0 = Inr (hits, vs, bs) \<longrightarrow>
    d \<in> sh_document ` set hits \<union> set (map fst vs) \<union> set (map fst bs) \<longrightarrow> in_scope ss tenant_id code d)"
  proof (cases "1 < length ?queries")
    case True
    with run have "multi_query_hits env ss wix ?queries tenant_id ?n ?limit code = (r0, w)" by (simp only: if_True)
    from multi_query_scope [OF assms(1,2) this] show ?thesis by blast
  next
    case False
    with run have "single_query_hits env ss wix query tenant_id ?n ?limit code = (r0, w)" by (simp only: if_False)
    from single_query_scope [OF assms(1,2) this] show ?thesis by blast
  qed
  note eq = assms(3) [unfolded search_tenant_documents_def Let_def run]
  show "lexical_ok ss wix'" using eq scope by (cases r0) auto
  assume res: "res = Inr r" and h: "h \<in> set (tr_hits r)"
  then obtain hits vs bs where r0: "r0 = Inr (hits, vs, bs)" using eq by (cases r0) auto
  let ?found = "if se_rerank env \<and> hits \<noteq> [] then rerank_hits env query hits (if se_rerank env \<and> hits \<noteq> [] then min (se_rerank_top env) k else 0) else take_int k hits"
  let ?relaxed = "if truthy code \<and> ?found = [] then (if se_hybrid env then fuse_hits vs bs (se_rrf_k env) k else vector_hits (take_int k vs)) else []"
  have "tr_hits r = take_int k (if ?relaxed \<noteq> [] then map (\<lambda>h. h\<lparr>sh_low := True\<rparr>) ?relaxed else ?found)"
    using eq unfolding r0 res by (auto simp del: not_None_eq)
  with h have "h \<in> set (if ?relaxed \<noteq> [] then map (\<lambda>h. h\<lparr>sh_low := True\<rparr>) ?relaxed else ?found)" using set_take_int by fastforce
  then consider (relaxed) h' where "h' \<in> set ?relaxed" "sh_document h = sh_document h'" | (found) "h \<in> set ?found"
    by (cases "?relaxed \<noteq> []") auto
  then have "sh_document h \<in> sh_document ` set hits \<union> set (map fst vs) \<union> set (map fst bs)"
  proof cases
    case relaxed
    then have "h' \<in> set (fuse_hits vs bs (se_rrf_k env) k) \<or> h' \<in> set (vector_hits (take_int k vs))" by (auto split: if_splits)
    then show ?thesis using fuse_hits_docs [of h' vs bs "se_rrf_k env" k] vector_hits_docs [of h' "take_int k vs"]
        take_fst [of "sh_document h'" k vs] relaxed(2) by auto
  next
    case found
    then show ?thesis using rerank_docs [of h env query hits] set_take_int [of k hits] by (auto split: if_splits)
  qed
  with scope r0 show "in_scope ss tenant_id code (sh_document h)" by blast
qed

section \<open>A search for no particular course does not raise\<close>

lemma matches_any: "\<not> truthy code \<Longrightarrow> matches_course code d = Inr True"
  by (simp add: matches_course_def)

lemma vector_loop_total: "\<not> truthy code \<Longrightarrow> \<exists>ys. vector_loop code n acc xs = Inr ys"
  by (induction code n acc xs rule: vector_loop.induct) (auto simp: matches_any Let_def)

lemma bm25_collect_total: "\<not> truthy code \<Longrightarrow> \<exists>b'. bm25_collect code b xs = Inr b'"
  by (induction code b xs rule: bm25_collect.induct) (auto simp: matches_any Let_def)

lemma bm25_scopes_total: "\<not> truthy code \<Longrightarrow> \<exists>b' wix'. bm25_scopes env ss query n code wix b scs = (Inr b', wix')"
proof (induction scs arbitrary: wix b)
  case (Cons sc scs)
  obtain corpus wix1 where i: "bm25_index ss wix sc = (corpus, wix1)" by (cases "bm25_index ss wix sc")
  show ?case
  proof (cases corpus)
    case None
    with i Cons show ?thesis by simp
  next
    case (Some docs)
    obtain b1 where "bm25_collect code b (bm25_search env docs query n) = Inr b1" using bm25_collect_total [OF Cons.prems] by blast
    with i Some Cons show ?thesis by simp
  qed
qed simp

lemma ranked_for_total:
  assumes "\<not> truthy code"
  shows "\<exists>vs bs wix'. ranked_for env ss wix query tenant n code = (Inr (vs, bs), wix')"
proof -
  obtain vs where "search_vector env ss query tenant n code = Inr vs" using vector_loop_total [OF assms] unfolding search_vector_def by blast
  moreover obtain bs wix' where "search_bm25 env ss wix query tenant n code = (Inr bs, wix')"
    using bm25_scopes_total [OF assms, of env ss query "if truthy code then max (n * 4) 16 else n" wix "[]" "search_scopes ss tenant code"]
    by (auto simp: search_bm25_def)
  ultimately show ?thesis by (simp add: ranked_for_def)
qed

lemma query_loop_total: "\<not> truthy code \<Longrightarrow> \<exists>q' wix'. query_loop env ss tenant n limit code wix q qs = (Inr q', wix')"
proof (induction qs arbitrary: wix q)
  case (Cons query qs)
  obtain vs bs wix' where "ranked_for env ss wix query tenant n code = (Inr (vs, bs), wix')" using ranked_for_total [OF Cons.prems] by blast
  with Cons show ?case by simp
qed simp

lemma search_tenant_total:
  assumes "\<not> truthy code"
  shows "\<exists>r wix'. search_tenant_documents env ss wix query tenant k code queries = (Inr r, wix')"
proof -
  have m: "\<exists>r wix'. multi_query_hits env ss wix qs tenant n limit code = (Inr r, wix')" for qs n limit
    using query_loop_total [OF assms, of env ss tenant n limit wix "\<lparr>ql_ranked = [], ql_vector = [], ql_bm25 = [], ql_last = ([], [])\<rparr>" qs]
    by (auto simp: multi_query_hits_def)
  have s: "\<exists>r wix'. single_query_hits env ss wix query tenant n limit code = (Inr r, wix')" for n limit
    using ranked_for_total [OF assms, of env ss wix query tenant n] by (auto simp: single_query_hits_def)
  let ?plan = "resolve_retrieval_plan (se_fetch_min env) (se_fetch_max env) query k code"
  let ?n = "if se_dynamic_k env then rp_fetch_k ?plan else default_fetch_k k"
  let ?limit = "if se_rerank env then max ?n (se_rerank_fetch env) else ?n"
  let ?given = "case queries of None \<Rightarrow> [query] | Some qs \<Rightarrow> if qs = [] then [query] else qs"
  let ?stripped = "filter (\<lambda>q. q \<noteq> []) (map strip ?given)"
  let ?queries = "if ?stripped = [] then [query] else ?stripped"
  let ?run = "if 1 < length ?queries then multi_query_hits env ss wix ?queries tenant ?n ?limit code
    else single_query_hits env ss wix query tenant ?n ?limit code"
  have "\<exists>r wix'. ?run = (Inr r, wix')"
  proof (cases "1 < length ?queries")
    case True
    show ?thesis unfolding if_P [OF True] by (rule m)
  next
    case False
    show ?thesis unfolding if_not_P [OF False] by (rule s)
  qed
  then obtain r w where "?run = (Inr r, w)" by (elim exE)
  moreover obtain hits vs bs where "r = (hits, vs, bs)" by (cases r)
  ultimately have run: "?run = (Inr (hits, vs, bs), w)" by (simp only:)
  show ?thesis unfolding search_tenant_documents_def Let_def run by simp
qed

section \<open>What a search may raise\<close>

lemma matches_course_raises: "matches_course code d = Inl e \<Longrightarrow> e = AttributeMissing"
  by (auto simp: matches_course_def document_course_code_def Let_def split: if_splits sum.splits)

lemma vector_loop_raises: "vector_loop code n acc xs = Inl e \<Longrightarrow> e = AttributeMissing"
  by (induction code n acc xs rule: vector_loop.induct) (auto simp: Let_def split: if_splits sum.splits dest: matches_course_raises)

lemma bm25_collect_raises: "bm25_collect code b xs = Inl e \<Longrightarrow> e = AttributeMissing"
  by (induction code b xs rule: bm25_collect.induct) (auto simp: Let_def split: sum.splits dest: matches_course_raises)

lemma bm25_scopes_raises: "bm25_scopes env ss query n code wix b scs = (Inl e, wix') \<Longrightarrow> e = AttributeMissing"
proof (induction scs arbitrary: wix b)
  case (Cons sc scs)
  then show ?case by (auto simp: case_prod_beta split: option.splits sum.splits dest: bm25_collect_raises)
qed simp

lemma ranked_for_raises: "ranked_for env ss wix query tenant n code = (Inl e, wix') \<Longrightarrow> e = AttributeMissing"
  by (auto simp: ranked_for_def search_vector_def search_bm25_def split: sum.splits prod.splits if_splits dest: vector_loop_raises bm25_scopes_raises)

lemma query_loop_raises: "query_loop env ss tenant n limit code wix q qs = (Inl e, wix') \<Longrightarrow> e = AttributeMissing"
proof (induction qs arbitrary: wix q)
  case (Cons query qs)
  then show ?case by (auto split: sum.splits prod.splits dest: ranked_for_raises)
qed simp

lemma search_tenant_raises:
  "search_tenant_documents env ss wix query tenant k code queries = (Inl e, wix') \<Longrightarrow> e = AttributeMissing"
  by (auto simp: search_tenant_documents_def multi_query_hits_def single_query_hits_def Let_def
      split: sum.splits prod.splits if_split_asm dest: ranked_for_raises query_loop_raises)

section \<open>What the context holds\<close>

lemma foldl_keeps: "P a \<Longrightarrow> (\<And>x b. x \<in> set xs \<Longrightarrow> P b \<Longrightarrow> P (f b x)) \<Longrightarrow> P (foldl f a xs)"
  by (induction xs arbitrary: a) auto

definition values_in :: "'v set \<Rightarrow> ('k, 'v) dict \<Rightarrow> bool" where
  "values_in V m \<longleftrightarrow> (\<forall>k v. map_of m k = Some v \<longrightarrow> v \<in> V)"

lemma values_in_update: "values_in V m \<Longrightarrow> v \<in> V \<Longrightarrow> values_in V (AList.update k v m)"
  unfolding values_in_def by auto

lemma values_inD: "values_in V m \<Longrightarrow> map_of m k = Some v \<Longrightarrow> v \<in> V"
  unfolding values_in_def by blast

lemma values_in_mono: "values_in V m \<Longrightarrow> V \<subseteq> W \<Longrightarrow> values_in W m"
  unfolding values_in_def by blast

lemma values_in_nil [simp]: "values_in V []"
  by (simp add: values_in_def)

lemma parent_lookup_docs: "values_in (set corpus) (parent_lookup corpus)"
  unfolding parent_lookup_def by (rule foldl_keeps) (auto intro: values_in_update)

lemma by_source_chunk_docs: "values_in (set corpus) (by_source_chunk corpus)"
  unfolding by_source_chunk_def by (rule foldl_keeps) (auto intro: values_in_update split: option.splits)

lemma by_section_docs: "values_in {ds. set ds \<subseteq> set corpus} (by_section corpus)"
proof -
  have "values_in {ds. set ds \<subseteq> set corpus} (append_at k d m)"
    if "d \<in> set corpus" "values_in {ds. set ds \<subseteq> set corpus} m" for k d and m :: "(ustr \<times> ustr, document list) dict"
    unfolding append_at_def
    by (rule values_in_update [OF that(2)]) (use that(1) values_inD [OF that(2), of k] in \<open>cases "map_of m k"; simp\<close>)
  then show ?thesis unfolding by_section_def by - (rule foldl_keeps, auto split: option.split)
qed

lemma context_document_docs: "values_in V parents \<Longrightarrow> d \<in> V \<Longrightarrow> context_document parents d \<in> V"
  by (auto simp: context_document_def Let_def values_in_def split: option.splits)

lemma hit_items_docs:
  assumes "values_in V parents" "values_in V chunks" "values_in {ds. set ds \<subseteq> V} sections" "snd rh \<in> V" "i \<in> set (hit_items w parents chunks sections rh)"
  shows "ci_document i \<in> V"
proof -
  obtain r hit where rh: "rh = (r, hit)" by (cases rh)
  note here = context_document_docs [OF assms(1)]
  have "d \<in> V" if "d \<in> set (docs_of sections key)" for d key
    using that values_inD [OF assms(3), of key] by (cases "map_of sections key") (auto simp: docs_of_def)
  moreover have "d \<in> V" if "map_of chunks key = Some d" for d key using values_inD [OF assms(2) that] .
  ultimately show ?thesis using assms(4,5) here unfolding rh hit_items_def Let_def
    by (auto split: option.splits if_splits)
qed

definition chosen_in :: "context_item set \<Rightarrow> selection \<Rightarrow> bool" where
  "chosen_in I sel \<longleftrightarrow> set (map snd sel) \<subseteq> I"

lemma consider_item_chosen: "chosen_in I sel \<Longrightarrow> i \<in> I \<Longrightarrow> chosen_in I (consider_item sel i)"
  by (fastforce simp: chosen_in_def consider_item_def Let_def dest: map_of_update_values)

lemma expand_docs:
  assumes "i \<in> set (expand_hit_documents_scored hits corpus n)"
  shows "ci_document i \<in> set hits \<union> set corpus"
proof -
  let ?V = "set hits \<union> set corpus"
  let ?items = "concat (map (hit_items (max 0 n) (parent_lookup corpus) (by_source_chunk corpus) (by_section corpus)) (enumerate 0 hits))"
  have hit: "snd rh \<in> ?V" if "rh \<in> set (enumerate 0 hits)" for rh
  proof -
    from that have "snd rh \<in> set (map snd (enumerate 0 hits))" unfolding set_map by blast
    then show ?thesis unfolding map_snd_enumerate by blast
  qed
  have ps: "values_in ?V (parent_lookup corpus)" and cs: "values_in ?V (by_source_chunk corpus)"
    and ss: "values_in {ds. set ds \<subseteq> ?V} (by_section corpus)"
    by (rule values_in_mono [OF parent_lookup_docs] values_in_mono [OF by_source_chunk_docs] values_in_mono [OF by_section_docs]; blast)+
  have items: "ci_document j \<in> ?V" if "j \<in> set ?items" for j
  proof -
    from that obtain rh where "rh \<in> set (enumerate 0 hits)"
      "j \<in> set (hit_items (max 0 n) (parent_lookup corpus) (by_source_chunk corpus) (by_section corpus) rh)" by auto
    then show ?thesis using hit_items_docs [OF ps cs ss hit] by blast
  qed
  have "chosen_in (set ?items) (foldl consider_item [] ?items)"
    by (rule foldl_keeps) (simp_all only: consider_item_chosen, simp add: chosen_in_def)
  then have "i \<in> set ?items" using assms unfolding expand_hit_documents_scored_def chosen_in_def set_sort by blast
  then show ?thesis by (rule items)
qed

section \<open>The budget\<close>

lemma count_tokens_nonneg: "0 \<le> count_tokens tk text"
  unfolding count_tokens_def Let_def by (auto split: if_split intro: order.trans [OF zero_le_one max.cobounded1])

lemma item_cost_nonneg: "0 \<le> item_cost env i"
  by (simp add: item_cost_def count_tokens_nonneg)

lemma trim_loop_kept:
  "trim_loop env b kept used xs = (kept', used') \<Longrightarrow>
     (\<exists>ys. kept' = kept @ ys \<and> set ys \<subseteq> set xs \<and> length ys \<le> length xs \<and> used' = used + (\<Sum>i \<leftarrow> ys. item_cost env i))"
proof (induction env b kept used xs rule: trim_loop.induct)
  case (2 env b kept used i xs)
  show ?case
  proof (cases "kept \<noteq> [] \<and> b < used + item_cost env i")
    case True
    with 2(1) 2(3) show ?thesis by fastforce
  next
    case False
    with 2(2) 2(3) obtain ys where "kept' = (kept @ [i]) @ ys" "set ys \<subseteq> set xs" "length ys \<le> length xs"
      "used' = used + item_cost env i + (\<Sum>i \<leftarrow> ys. item_cost env i)" by auto
    then show ?thesis by (intro exI [of _ "i # ys"]) auto
  qed
qed simp

lemma trim_loop_budget: "trim_loop env b kept used xs = (kept', used') \<Longrightarrow> used \<le> b \<Longrightarrow> kept \<noteq> [] \<Longrightarrow> used' \<le> b"
  by (induction env b kept used xs rule: trim_loop.induct) (auto split: if_splits)

lemma trim_loop_over: "trim_loop env b kept used xs = (kept', used') \<Longrightarrow> b < used \<Longrightarrow> kept \<noteq> [] \<Longrightarrow> kept' = kept \<and> used' = used"
proof (induction env b kept used xs rule: trim_loop.induct)
  case (2 env b kept used i xs)
  then show ?case using item_cost_nonneg [of env i] by auto
qed auto

lemma trim_loop_start:
  assumes "trim_loop env b [] 0 (i # xs) = (kept, used)"
  shows "\<exists>ys. kept = i # ys \<and> set ys \<subseteq> set xs \<and> length ys \<le> length xs \<and> used = (\<Sum>j \<leftarrow> kept. item_cost env j) \<and> (used \<le> b \<or> ys = [])"
proof -
  have loop: "trim_loop env b [i] (item_cost env i) xs = (kept, used)" using assms by simp
  from trim_loop_kept [OF loop] obtain ys where ys: "kept = [i] @ ys" "set ys \<subseteq> set xs" "length ys \<le> length xs"
    "used = item_cost env i + (\<Sum>j \<leftarrow> ys. item_cost env j)" by blast
  have "used \<le> b \<or> ys = []"
  proof (cases "item_cost env i \<le> b")
    case True
    then show ?thesis using trim_loop_budget [OF loop] by simp
  next
    case False
    then show ?thesis using trim_loop_over [OF loop] ys(1) by simp
  qed
  with ys show ?thesis by auto
qed

lemma sum_list_sort_key: "(\<Sum>x \<leftarrow> sort_key f xs. g x) = (\<Sum>x \<leftarrow> xs. g x)" for g :: "'a \<Rightarrow> int"
  by (metis mset_map mset_sort sum_mset_sum_list)

lemma sort_rag_documents_keeps [simp]:
  "set (sort_rag_documents ds) = set ds" "length (sort_rag_documents ds) = length ds"
  "(\<Sum>d \<leftarrow> sort_rag_documents ds. g d) = (\<Sum>d \<leftarrow> ds. g d)" for g :: "document \<Rightarrow> int"
  by (simp_all add: sort_rag_documents_def sum_list_sort_key)

lemma item_cost_sum: "(\<Sum>i \<leftarrow> xs. item_cost env i) = (\<Sum>d \<leftarrow> map ci_document xs. count_tokens (se_tokenizer env) (format_rag_context_chunk d))"
  by (simp add: item_cost_def comp_def)

text \<open>With a budget, the loop's selection is what is kept: the best item comes first and is never dropped.\<close>

lemma trim_with_budget:
  assumes "sort_key item_key items = i # xs" "0 < budget" "trim_rag_context_by_budget env items budget = (docs, st)"
  shows "\<exists>kept. trim_loop env budget [] 0 (i # xs) = (kept, st_tokens st) \<and> docs = sort_rag_documents (map ci_document kept) \<and>
    st_trimmed st = length (i # xs) - length kept"
proof -
  obtain kept used where loop: "trim_loop env budget [] 0 (i # xs) = (kept, used)" by (cases "trim_loop env budget [] 0 (i # xs)")
  have sorted: "sorted (map item_key (i # xs))" using sorted_sort_key [of item_key items] unfolding assms(1) .
  have top: "t = i" if t: "find (\<lambda>i. ci_tier i = 0 \<and> ci_hit i = 0) (i # xs) = Some t" for t
  proof -
    from t have "ci_tier t = 0" "ci_hit t = 0" "t \<in> set (i # xs)" by (auto simp: find_Some_iff split: if_splits)
    moreover have "item_key i \<le> item_key t" using sorted \<open>t \<in> set (i # xs)\<close> by auto
    ultimately have "ci_tier i = 0" "ci_hit i = 0" by (auto simp: item_key_def less_eq_prod_def)
    with t show ?thesis by simp
  qed
  have "items \<noteq> []" using assms(1) by auto
  moreover have "i \<in> set kept" using trim_loop_start [OF loop] by auto
  ultimately show ?thesis
    using assms(2,3) loop top unfolding trim_rag_context_by_budget_def assms(1) Let_def loop
    by (auto split: if_splits option.splits)
qed

lemma trim_summary:
  assumes "trim_rag_context_by_budget env items budget = (docs, st)"
  shows "set docs \<subseteq> ci_document ` set items
    \<and> st_tokens st = (\<Sum>d \<leftarrow> docs. count_tokens (se_tokenizer env) (format_rag_context_chunk d))
    \<and> st_trimmed st + length docs = length items
    \<and> (0 < budget \<longrightarrow> st_tokens st \<le> budget \<or> length docs = 1)
    \<and> (items \<noteq> [] \<longrightarrow> (\<exists>i \<in> set items. (\<forall>j \<in> set items. item_key i \<le> item_key j) \<and> ci_document i \<in> set docs))"
proof (cases "sort_key item_key items")
  case Nil
  then have "items = []" by (metis set_sort set_empty)
  with assms show ?thesis by (auto simp: trim_rag_context_by_budget_def)
next
  case (Cons i xs)
  have sorted: "sorted (map item_key (i # xs))" using sorted_sort_key [of item_key items] unfolding Cons .
  have items: "set items = set (i # xs)" "length items = length (i # xs)" using set_sort [of item_key items] length_sort [of item_key items] unfolding Cons by simp_all
  have best: "i \<in> set items \<and> (\<forall>j \<in> set items. item_key i \<le> item_key j)" using sorted unfolding items by auto
  have ne: "items \<noteq> []" using items(2) by auto
  show ?thesis
  proof (cases "0 < budget")
    case True
    obtain kept where k: "trim_loop env budget [] 0 (i # xs) = (kept, st_tokens st)" "docs = sort_rag_documents (map ci_document kept)"
      "st_trimmed st = length (i # xs) - length kept" using trim_with_budget [OF Cons True assms] by blast
    from trim_loop_start [OF k(1)] obtain ys where ys: "kept = i # ys" "set ys \<subseteq> set xs" "length ys \<le> length xs"
      "st_tokens st = (\<Sum>j \<leftarrow> kept. item_cost env j)" "st_tokens st \<le> budget \<or> ys = []" by blast
    have "set docs \<subseteq> ci_document ` set items" using ys(1,2) unfolding k(2) items by auto
    moreover have "ci_document i \<in> set docs" unfolding k(2) ys(1) by simp
    ultimately show ?thesis using k(2,3) ys(1,3,4,5) items(2) best unfolding item_cost_sum by auto
  next
    case False
    with assms ne have d: "docs = sort_rag_documents (map ci_document (i # xs))" "st_trimmed st = 0"
      "st_tokens st = (\<Sum>d \<leftarrow> docs. count_tokens (se_tokenizer env) (format_rag_context_chunk d))"
      by (auto simp: trim_rag_context_by_budget_def Cons Let_def)
    show ?thesis using False best items unfolding d by auto
  qed
qed

text \<open>
  C30: Cutting the retrieved context to its token budget keeps documents of the expansion only, keeps
  the best hit's context, reports the tokens that the kept documents take and the number of documents
  dropped, and stays within a positive budget unless the single document that is left exceeds it.
\<close>

theorem context_keeps_budget:
  assumes "trim_rag_context_by_budget env items budget = (docs, st)"
  shows "set docs \<subseteq> ci_document ` set items
    \<and> st_tokens st = (\<Sum>d \<leftarrow> docs. count_tokens (se_tokenizer env) (format_rag_context_chunk d))
    \<and> st_trimmed st + length docs = length items
    \<and> (0 < budget \<longrightarrow> st_tokens st \<le> budget \<or> length docs = 1)
    \<and> (items \<noteq> [] \<longrightarrow> (\<exists>i \<in> set items. (\<forall>j \<in> set items. item_key i \<le> item_key j) \<and> ci_document i \<in> set docs))"
  using trim_summary [OF assms] .

definition demo_search_env :: search_env where
  "demo_search_env = \<lparr>se_cut = (\<lambda>t. [t]), se_word_char = (\<lambda>_. True), se_bm25 = (\<lambda>corpus _. map (\<lambda>_. 1) corpus),
     se_similar = (\<lambda>_ st k. map (\<lambda>d. (d, 1/2)) (take (nat k) st)), se_cross = (\<lambda>_ _. None), se_hybrid = False, se_rrf_k = 60,
     se_dynamic_k = False, se_fetch_min = 4, se_fetch_max = 24, se_rerank = False, se_rerank_fetch = 12, se_rerank_top = 8,
     se_min_score = 0, se_neighbor = 1, se_budget = 10, se_tokenizer = \<lparr>encoding_length = Some length, estimate_ratio = 1\<rparr>\<rparr>"

definition demo_document :: "ustr \<Rightarrow> ustr \<Rightarrow> bool \<Rightarrow> document" where
  "demo_document content source deleted = \<lparr>d_content = content, d_source = Some source, d_course_file = None, d_code = Some (asc ''py''), d_tenant = None,
     d_hash = None, d_deleted = deleted, d_chunk = Some 0, d_role = None, d_parent = None, d_section_path = None, d_module = None, d_title = None,
     d_section = None, d_subsection = None, d_course_name = None, d_aliases = None\<rparr>"

lemma demo_similar_ok: "similar_ok demo_search_env"
  by (auto simp: similar_ok_def demo_search_env_def dest: in_set_takeD)

theorem context_keeps_budget_witness:
  "let items = [\<lparr>ci_document = demo_document (asc ''a'') (asc ''s'') False, ci_hit = 1, ci_tier = 0, ci_distance = 0\<rparr>,
      \<lparr>ci_document = demo_document (asc ''best'') (asc ''s'') False, ci_hit = 0, ci_tier = 0, ci_distance = 0\<rparr>]
   in fst (trim_rag_context_by_budget demo_search_env items 8) = [demo_document (asc ''best'') (asc ''s'') False] \<and>
      st_trimmed (snd (trim_rag_context_by_budget demo_search_env items 8)) + 1 = 2"
proof -
  let ?a = "\<lparr>ci_document = demo_document (asc ''a'') (asc ''s'') False, ci_hit = 1, ci_tier = 0, ci_distance = 0\<rparr>"
  let ?b = "\<lparr>ci_document = demo_document (asc ''best'') (asc ''s'') False, ci_hit = 0, ci_tier = 0, ci_distance = 0\<rparr>"
  have t: "fst (trim_rag_context_by_budget demo_search_env [?a, ?b] 8) = [demo_document (asc ''best'') (asc ''s'') False]"
    by (simp add: trim_rag_context_by_budget_def item_key_def item_cost_def count_tokens_def format_rag_context_chunk_def sort_rag_documents_def
        demo_search_env_def demo_document_def asc_def Let_def round_even_def)
  obtain docs st where r: "trim_rag_context_by_budget demo_search_env [?a, ?b] 8 = (docs, st)" by (cases "trim_rag_context_by_budget demo_search_env [?a, ?b] 8")
  have "docs = [demo_document (asc ''best'') (asc ''s'') False]" using t unfolding r by simp
  then show ?thesis using context_keeps_budget [OF r] unfolding Let_def r by simp
qed

end
