(* ===== verification/Intent.thy ===== *)
theory Intent
  imports Routing Window
begin

text \<open>
  Intent recognition (\<open>app/agents/intent.py\<close>) and the session slots that carry a topic
  from turn to turn (\<open>app/context/slots.py\<close>). The language model behind the structured
  route is a parameter: the answer it gives to a user content.
\<close>

section \<open>Session slots\<close>

record session_slots =
  last_intent :: "ustr option"
  last_order_no :: "ustr option"
  last_course_query :: "ustr option"
  last_course_name :: "ustr option"
  handoff_pending :: bool

definition no_slots :: session_slots where
  "no_slots = \<lparr>last_intent = None, last_order_no = None, last_course_query = None, last_course_name = None,
     handoff_pending = False\<rparr>"

definition business_intents :: "ustr list" where
  "business_intents = [(asc ''course_consult''), (asc ''order''), (asc ''mixed''), (asc ''handoff'')]"

definition continue_hints :: "ustr list" where
  "continue_hints = [[0x7EE7, 0x7EED] \<comment> \<open>continue\<close>, [0x8FD8, 0x6709] \<comment> \<open>and also\<close>, [0x7136, 0x540E, 0x5462] \<comment> \<open>and then\<close>, [0x63A5, 0x7740] \<comment> \<open>next\<close>, [0x518D, 0x95EE] \<comment> \<open>ask again\<close>, [0x8865, 0x5145, 0x4E00, 0x4E0B] \<comment> \<open>to add\<close>]"

definition deictic_hints :: "ustr list" where
  "deictic_hints = [[0x8FD9] \<comment> \<open>this\<close>, [0x90A3] \<comment> \<open>that\<close>, [0x5B83] \<comment> \<open>it\<close>, [0x8BE5] \<comment> \<open>the said\<close>, [0x6B64] \<comment> \<open>this\<close>]"

definition order_followup_hints :: "ustr list" where
  "order_followup_hints = [[0x8FDB, 0x5EA6] \<comment> \<open>progress\<close>, [0x9000, 0x6B3E] \<comment> \<open>refund\<close>, [0x5230, 0x54EA] \<comment> \<open>where to\<close>, [0x600E, 0x4E48, 0x6837] \<comment> \<open>how about\<close>, [0x4F55, 0x65F6] \<comment> \<open>when\<close>,
     [0x4EC0, 0x4E48, 0x65F6, 0x5019] \<comment> \<open>what time\<close>, [0x5F00, 0x8BFE] \<comment> \<open>course start\<close>]"

definition course_followup_hints :: "ustr list" where
  "course_followup_hints = [[0x96BE] \<comment> \<open>hard\<close>, [0x9002, 0x5408] \<comment> \<open>suits\<close>, [0x591A, 0x5C11, 0x94B1] \<comment> \<open>how much\<close>, [0x5185, 0x5BB9] \<comment> \<open>content\<close>, [0x5927, 0x7EB2] \<comment> \<open>outline\<close>,
     [0x6A21, 0x5757] \<comment> \<open>module\<close>, [0x80FD, 0x5B66] \<comment> \<open>can learn\<close>]"

definition missing_course_names :: "ustr list" where
  "missing_course_names = [[], [0x672A, 0x627E, 0x5230, 0x8BFE, 0x7A0B] \<comment> \<open>course not found\<close>]"

definition is_followup :: "ustr \<Rightarrow> bool" where
  "is_followup text =
     (let query = strip text in
      if query = [] then False
      else if any_in continue_hints query then True
      else if length query \<le> 20 \<and> any_in deictic_hints query then True
      else if length query \<le> 10 \<and> any_in order_followup_hints query then True
      else if length query \<le> 10 \<and> any_in course_followup_hints query then True
      else False)"

definition apply_session_slots :: "ustr \<Rightarrow> route_decision \<Rightarrow> session_slots \<Rightarrow> route_decision" where
  "apply_session_slots text d slots =
     (let last = str_or_empty (last_intent slots);
          follow = (intent d \<in> {(asc ''chitchat''), (asc ''ambiguous'')} \<and> is_followup text \<and> last \<in> set business_intents);
          itn = (if follow then last else intent d);
          why = (if follow then (asc ''slot-followup'') else reason d);
          conf = (if follow then max (confidence d) (85/100) else confidence d);
          needs = (if follow then False else needs_clarification d);
          question = (if follow then None else clarification_question d);
          cquery = (if follow \<and> itn \<in> {(asc ''course_consult''), (asc ''mixed'')} \<and> \<not> truthy (course_query d)
                    then or_opt (last_course_name slots) (last_course_query slots) else course_query d);
          no = (if itn \<in> {(asc ''order''), (asc ''mixed'')} \<and> \<not> truthy (order_no d) then last_order_no slots else order_no d);
          cquery = (if itn \<in> {(asc ''course_consult''), (asc ''mixed'')}
                    then (let short = length (strip text) < short_query_chars in
                      if short \<or> \<not> truthy cquery
                      then or_opt (or_opt (or_opt cquery (last_course_name slots)) (last_course_query slots)) (Some text)
                      else cquery)
                    else cquery)
      in \<lparr>intent = itn, target = intent_to_target itn, confidence = conf, order_no = no, course_query = cquery,
          needs_clarification = needs, clarification_question = question, reason = why\<rparr>)"

text \<open>The dictionary of updates: an absent key is \<open>None\<close>.\<close>

record slot_updates =
  up_handoff_pending :: bool
  up_last_intent :: "ustr option"
  up_last_order_no :: "ustr option"
  up_last_course_query :: "ustr option"
  up_last_course_name :: "ustr option"

definition slot_updates_after_turn ::
  "ustr \<Rightarrow> ustr option \<Rightarrow> ustr option \<Rightarrow> ustr option \<Rightarrow> slot_updates" where
  "slot_updates_after_turn itn no cquery cname =
     (let name = strip (str_or_empty cname) in
      \<lparr>up_handoff_pending = (itn = (asc ''handoff'')),
       up_last_intent = (if itn \<in> set business_intents then Some itn else None),
       up_last_order_no = (if truthy no then no else None),
       up_last_course_query = (if truthy cquery then cquery else None),
       up_last_course_name = (if name \<noteq> [] \<and> name \<notin> set missing_course_names then Some name else None)\<rparr>)"

section \<open>Keyword recognition\<close>

definition handoff_hints :: "ustr list" where
  "handoff_hints = [[0x8F6C, 0x4EBA, 0x5DE5] \<comment> \<open>transfer to a person\<close>, [0x4EBA, 0x5DE5, 0x5BA2, 0x670D] \<comment> \<open>human support\<close>, [0x627E, 0x4EBA, 0x5DE5] \<comment> \<open>find a person\<close>,
     [0x4EBA, 0x5DE5, 0x670D, 0x52A1] \<comment> \<open>human service\<close>, [0x8054, 0x7CFB, 0x4EBA, 0x5DE5] \<comment> \<open>contact a person\<close>]"

definition order_hints :: "ustr list" where
  "order_hints = [[0x8BA2, 0x5355] \<comment> \<open>order\<close>, [0x9000, 0x6B3E] \<comment> \<open>refund\<close>, [0x7269, 0x6D41] \<comment> \<open>shipping\<close>, [0x8FDB, 0x5EA6] \<comment> \<open>progress\<close>, [0x652F, 0x4ED8] \<comment> \<open>payment\<close>, [0x5F00, 0x901A] \<comment> \<open>activate\<close>]"

definition greeting_hints :: "ustr list" where
  "greeting_hints = [[0x4F60, 0x597D] \<comment> \<open>hello\<close>, [0x60A8, 0x597D] \<comment> \<open>hello (polite)\<close>, [0x5728, 0x5417] \<comment> \<open>are you there\<close>, [0x55E8] \<comment> \<open>hi\<close>, (asc ''hello''), (asc ''hi''),
     [0x65E9, 0x4E0A, 0x597D] \<comment> \<open>good morning\<close>, [0x665A, 0x4E0A, 0x597D] \<comment> \<open>good evening\<close>]"

definition pure_chitchat :: "ustr list" where
  "pure_chitchat = greeting_hints @ [[0x8C22, 0x8C22] \<comment> \<open>thanks\<close>, [0x611F, 0x8C22] \<comment> \<open>thanks\<close>, [0x597D, 0x7684] \<comment> \<open>fine\<close>, [0x55EF] \<comment> \<open>uh-huh\<close>]"

definition generic_clarify :: ustr where
  "generic_clarify = [0x60A8, 0x60F3, 0x54A8, 0x8BE2, 0x8BFE, 0x7A0B, 0x5185, 0x5BB9, 0xFF0C, 0x8FD8, 0x662F, 0x67E5, 0x8BE2, 0x8BA2, 0x5355, 0x8FDB, 0x5EA6, 0xFF1F, 0x8BF7, 0x8865, 0x5145, 0x4E00, 0x4E0B, 0x5177, 0x4F53, 0x95EE, 0x9898, 0x3002] \<comment> \<open>courses or an order? please say more\<close>"

definition is_greeting_mixed :: "ustr \<Rightarrow> bool \<Rightarrow> bool \<Rightarrow> bool" where
  "is_greeting_mixed text has_course has_order =
     (if \<not> (has_course \<or> has_order) then False else any_in greeting_hints (lower text))"

definition is_pure_chitchat :: "ustr \<Rightarrow> bool" where
  "is_pure_chitchat text \<longleftrightarrow> lower (strip text) \<in> set pure_chitchat"

definition enough_context :: "session_slots \<Rightarrow> bool" where
  "enough_context slots \<longleftrightarrow>
     str_or_empty (last_intent slots) \<in> {(asc ''course_consult''), (asc ''order''), (asc ''mixed''), (asc ''handoff'')} \<or>
     truthy (last_order_no slots) \<or> truthy (last_course_query slots) \<or> truthy (last_course_name slots)"

definition recognize_by_keyword :: "ustr \<Rightarrow> route_decision" where
  "recognize_by_keyword text =
     (let query = strip text in
      if any_in handoff_hints query
      then mk_decision (asc ''handoff'') (asc ''keyword-intent'') (99/100) None None False None
      else
        let no = extract_query_order_no query;
            has_course = any_in course_hints query;
            has_order = (any_in order_hints query \<or> truthy no)
        in if has_course \<and> has_order
           then mk_decision (asc ''mixed'') (asc ''keyword-mixed'') (65/100) no (Some query) False None
           else if is_greeting_mixed query has_course has_order
           then mk_decision (asc ''ambiguous'') (asc ''ambiguous-query'') (35/100) no (if has_course then Some query else None) True
             (Some generic_clarify)
           else if has_order then mk_decision (asc ''order'') (asc ''keyword-intent'') (9/10) no None False None
           else if has_course then mk_decision (asc ''course_consult'') (asc ''keyword-intent'') (9/10) None (Some query) False None
           else if length query < 4 \<and> \<not> is_pure_chitchat query
           then mk_decision (asc ''ambiguous'') (asc ''short-query'') (3/10) None None True (Some generic_clarify)
           else mk_decision (asc ''chitchat'') (asc ''keyword-intent'') (8/10) None None False None)"

section \<open>Recognition\<close>

text \<open>What the model's structured call ends with.\<close>

datatype llm_route = Quota_Exceeded | Call_Failed | Not_A_Decision | Decided route_decision

record recognizer =
  llm_enabled :: bool
  ask_llm :: "ustr \<Rightarrow> llm_route"
  rec_tokenizer :: tokenizer
  rec_history :: history_settings

datatype recognize_error = Tenant_Quota_Error

definition llm_user_content :: "recognizer \<Rightarrow> ustr \<Rightarrow> message list \<Rightarrow> ustr option \<Rightarrow> ustr" where
  "llm_user_content env text history digest =
     (let h = format_history_for_prompt (rec_tokenizer env) (rec_history env) history None None digest
      in if h \<noteq> [] then [0x5BF9, 0x8BDD, 0x5386, 0x53F2, 0xFF1A, 10] \<comment> \<open>conversation so far:\<close> @ h @ [10, 10, 0x5F53, 0x524D, 0x7528, 0x6237, 0x95EE, 0x9898, 0xFF1A] \<comment> \<open>current question:\<close> @ text else text)"

definition recognize_by_llm ::
  "recognizer \<Rightarrow> ustr \<Rightarrow> message list \<Rightarrow> ustr option \<Rightarrow> recognize_error + route_decision option" where
  "recognize_by_llm env text history digest =
     (case ask_llm env (llm_user_content env text history digest) of
        Quota_Exceeded \<Rightarrow> Inl Tenant_Quota_Error
      | Call_Failed \<Rightarrow> Inr None
      | Not_A_Decision \<Rightarrow> Inr None
      | Decided d \<Rightarrow>
          if intent d \<notin> set valid_intents then Inr None
          else let d = d\<lparr>reason := or_str (reason d) (asc ''llm-intent'')\<rparr>;
                   d = (if target d = [] \<or> target d = (asc ''chitchat'') \<and> intent d \<noteq> (asc ''chitchat'')
                        then d\<lparr>target := intent_to_target (intent d)\<rparr> else d);
                   d = (if confidence d \<le> 0
                        then d\<lparr>confidence := if intent d = (asc ''course_consult'') then 1/2 else 9/10\<rparr> else d)
               in Inr (Some (finalize_route d)))"

definition recognize_intent ::
  "recognizer \<Rightarrow> ustr \<Rightarrow> message list \<Rightarrow> session_slots option \<Rightarrow> ustr option \<Rightarrow> recognize_error + route_decision" where
  "recognize_intent env text history given_slots digest =
     (let slots = (case given_slots of None \<Rightarrow> no_slots | Some s \<Rightarrow> s);
          keyword = recognize_by_keyword text;
          keyword = (if \<not> truthy (order_no keyword)
                     then keyword\<lparr>order_no := or_opt (last_order_no slots) (order_no_from_history history)\<rparr>
                     else keyword);
          fin = (\<lambda>d. Inr (policy_finalize default_policy text d))
      in if intent keyword \<notin> {(asc ''chitchat''), (asc ''ambiguous'')} then fin (apply_session_slots text keyword slots)
         else let follow = apply_session_slots text (keyword\<lparr>intent := (asc ''chitchat'')\<rparr>) slots in
           if intent keyword = (asc ''ambiguous'') \<and> enough_context slots \<and> intent follow \<noteq> (asc ''chitchat'') then fin follow
           else if \<not> llm_enabled env
           then let d = apply_session_slots text keyword slots
                in fin (if intent d = (asc ''chitchat'') \<and> intent keyword = (asc ''ambiguous'') then keyword else d)
           else if intent keyword = (asc ''ambiguous'')
           then let d = apply_session_slots text keyword slots
                in if intent d = (asc ''ambiguous'') \<or> intent d = (asc ''order'') \<and> \<not> truthy (order_no d)
                   then fin (if intent d = (asc ''ambiguous'') then keyword else d)
                   else fin d
           else (case recognize_by_llm env text history digest of
               Inl e \<Rightarrow> Inl e
             | Inr None \<Rightarrow> fin (apply_session_slots text keyword slots)
             | Inr (Some d) \<Rightarrow>
                 let d = (if \<not> truthy (order_no d) then d\<lparr>order_no := order_no keyword\<rparr> else d)
                 in fin (apply_session_slots text d slots)))"

section \<open>Properties of the slots\<close>

definition continues :: "ustr \<Rightarrow> route_decision \<Rightarrow> session_slots \<Rightarrow> bool" where
  "continues text d slots \<longleftrightarrow> intent d \<in> {(asc ''chitchat''), (asc ''ambiguous'')} \<and> is_followup text \<and>
     str_or_empty (last_intent slots) \<in> set business_intents"

lemma slots_fields:
  "intent (apply_session_slots text d slots) = (if continues text d slots then str_or_empty (last_intent slots) else intent d)"
  "target (apply_session_slots text d slots) = intent_to_target (intent (apply_session_slots text d slots))"
  "order_no (apply_session_slots text d slots) =
     (if intent (apply_session_slots text d slots) \<in> {(asc ''order''), (asc ''mixed'')} \<and> \<not> truthy (order_no d)
      then last_order_no slots else order_no d)"
  unfolding apply_session_slots_def Let_def continues_def by simp_all

lemma slots_course_query_kept: "truthy (course_query d) \<Longrightarrow> course_query (apply_session_slots text d slots) = course_query d"
  unfolding apply_session_slots_def Let_def by (auto simp: truthy_iff)

lemma slots_course_query_found:
  "intent (apply_session_slots text d slots) \<in> {(asc ''course_consult''), (asc ''mixed'')} \<Longrightarrow> text \<noteq> [] \<Longrightarrow>
     truthy (course_query (apply_session_slots text d slots))"
  unfolding apply_session_slots_def Let_def by simp

lemma last_intent_business:
  "str_or_empty x \<in> set business_intents \<Longrightarrow> x = Some (str_or_empty x)"
  by (cases x) (auto simp: business_intents_def eq_commute [of "[]"])

lemma apply_session_slots_well_routed:
  "intent d \<in> set valid_intents \<Longrightarrow> well_routed (apply_session_slots text d slots)"
  by (auto simp: slots_fields continues_def well_routed_def business_intents_def valid_intents_def)

lemma apply_session_slots_business:
  "intent d \<in> set business_intents \<Longrightarrow> intent (apply_session_slots text d slots) = intent d"
  by (auto simp: slots_fields continues_def business_intents_def)

text \<open>
  Slots only continue a topic. The slots change the recognised intent only of small talk
  or an unclear question that reads like a follow-up, and then to the last business intent; an
  order number or a course query of the question itself is never replaced; the order number
  filled in is the session's; and what a turn writes back is never an empty value or the
  placeholder of a course that was not found, so the next turn cannot pick those up.
\<close>

lemma slots_only_continue_followups:
  "(let r = apply_session_slots text d slots in
     (intent r \<noteq> intent d \<longrightarrow> intent d \<in> {(asc ''chitchat''), (asc ''ambiguous'')} \<and> is_followup text \<and>
        last_intent slots = Some (intent r) \<and> intent r \<in> set business_intents) \<and>
     (truthy (order_no d) \<longrightarrow> order_no r = order_no d) \<and>
     (order_no r \<noteq> order_no d \<longrightarrow> order_no r = last_order_no slots \<and> intent r \<in> {(asc ''order''), (asc ''mixed'')}) \<and>
     (truthy (course_query d) \<longrightarrow> course_query r = course_query d) \<and>
     (intent r \<in> {(asc ''course_consult''), (asc ''mixed'')} \<and> text \<noteq> [] \<longrightarrow> truthy (course_query r))) \<and>
   (let u = slot_updates_after_turn itn no cq cn in
     up_last_order_no u \<noteq> Some [] \<and> up_last_course_query u \<noteq> Some [] \<and>
     (\<forall>n. up_last_course_name u = Some n \<longrightarrow> n \<notin> set missing_course_names \<and> stripped n) \<and>
     (\<forall>i. up_last_intent u = Some i \<longleftrightarrow> i = itn \<and> i \<in> set business_intents))"
proof (intro conjI)
  show "let r = apply_session_slots text d slots in
     (intent r \<noteq> intent d \<longrightarrow> intent d \<in> {(asc ''chitchat''), (asc ''ambiguous'')} \<and> is_followup text \<and>
        last_intent slots = Some (intent r) \<and> intent r \<in> set business_intents) \<and>
     (truthy (order_no d) \<longrightarrow> order_no r = order_no d) \<and>
     (order_no r \<noteq> order_no d \<longrightarrow> order_no r = last_order_no slots \<and> intent r \<in> {(asc ''order''), (asc ''mixed'')}) \<and>
     (truthy (course_query d) \<longrightarrow> course_query r = course_query d) \<and>
     (intent r \<in> {(asc ''course_consult''), (asc ''mixed'')} \<and> text \<noteq> [] \<longrightarrow> truthy (course_query r))"
    unfolding Let_def
    using slots_course_query_kept [of d "text" slots] slots_course_query_found [of "text" d slots]
      last_intent_business [of "last_intent slots"]
    by (auto simp: slots_fields(1,3) continues_def split: if_splits)
  show "let u = slot_updates_after_turn itn no cq cn in
     up_last_order_no u \<noteq> Some [] \<and> up_last_course_query u \<noteq> Some [] \<and>
     (\<forall>n. up_last_course_name u = Some n \<longrightarrow> n \<notin> set missing_course_names \<and> stripped n) \<and>
     (\<forall>i. up_last_intent u = Some i \<longleftrightarrow> i = itn \<and> i \<in> set business_intents)"
    by (auto simp: slot_updates_after_turn_def Let_def)
qed

definition demo_slots :: session_slots where
  "demo_slots = \<lparr>last_intent = Some (asc ''order''), last_order_no = Some (asc ''20251114001''), last_course_query = None,
     last_course_name = None, handoff_pending = False\<rparr>"

definition demo_followup :: route_decision where
  "demo_followup = mk_decision (asc ''chitchat'') (asc ''keyword-intent'') (8/10) None None False None"

section \<open>Properties of recognition\<close>

lemma keyword_intent_valid [simp]: "intent (recognize_by_keyword text) \<in> set valid_intents"
  by (simp add: recognize_by_keyword_def Let_def valid_intents_def)

lemma keyword_well_routed [simp]: "well_routed (recognize_by_keyword text)"
  by (simp add: recognize_by_keyword_def Let_def valid_intents_def)

lemma keyword_handoff: "any_in handoff_hints (strip text) \<Longrightarrow> intent (recognize_by_keyword text) = (asc ''handoff'')"
  by (simp add: recognize_by_keyword_def Let_def)

lemma well_routed_order_no [simp]: "well_routed (d\<lparr>order_no := n\<rparr>) = well_routed d"
  by (simp add: well_routed_def)

lemma recognize_by_llm_valid:
  "recognize_by_llm env text history digest = Inr (Some d) \<Longrightarrow> intent d \<in> set valid_intents"
  by (auto simp: recognize_by_llm_def Let_def split: llm_route.splits if_splits)

lemma recognize_by_llm_error:
  "recognize_by_llm env text history digest = Inl e \<longleftrightarrow>
     ask_llm env (llm_user_content env text history digest) = Quota_Exceeded"
  by (cases e) (auto simp: recognize_by_llm_def Let_def split: llm_route.splits if_splits)

text \<open>Every way out of the recognition is the policy applied to a well-routed decision.\<close>

lemma recognize_intent_cases:
  assumes "recognize_intent env text history gs digest = r"
  obtains (quota) "r = Inl Tenant_Quota_Error" "llm_enabled env" "intent (recognize_by_keyword text) = (asc ''chitchat'')"
      "ask_llm env (llm_user_content env text history digest) = Quota_Exceeded"
  | (route) d where "r = Inr (policy_finalize default_policy text d)" "well_routed d"
proof -
  define slots where "slots = (case gs of None \<Rightarrow> no_slots | Some s \<Rightarrow> s)"
  define kw where "kw = (let k = recognize_by_keyword text in if \<not> truthy (order_no k)
    then k\<lparr>order_no := or_opt (last_order_no slots) (order_no_from_history history)\<rparr> else k)"
  have kwv: "intent kw \<in> set valid_intents" "intent kw = intent (recognize_by_keyword text)" "well_routed kw"
    by (simp_all add: kw_def Let_def)
  have fol: "well_routed (apply_session_slots text (kw\<lparr>intent := (asc ''chitchat'')\<rparr>) slots)"
    by (rule apply_session_slots_well_routed) (simp add: valid_intents_def)
  have own: "well_routed (apply_session_slots text kw slots)"
    by (rule apply_session_slots_well_routed [OF kwv(1)])
  have llm: "well_routed (apply_session_slots text (d\<lparr>order_no := n\<rparr>) slots)"
    "well_routed (apply_session_slots text d slots)"
    if "recognize_by_llm env text history digest = Inr (Some d)" for d n
    using recognize_by_llm_valid [OF that] by (auto intro: apply_session_slots_well_routed)
  have chit: "intent kw = (asc ''chitchat'')" if "\<not> intent kw \<notin> {(asc ''chitchat''), (asc ''ambiguous'')}" "intent kw \<noteq> (asc ''ambiguous'')"
    using that by blast
  note r = assms [unfolded recognize_intent_def, folded slots_def, unfolded Let_def, folded kw_def [unfolded Let_def]]
  show ?thesis
  proof (cases "recognize_by_llm env text history digest")
    case (Inl e)
    then have e: "ask_llm env (llm_user_content env text history digest) = Quota_Exceeded" "e = Tenant_Quota_Error"
      using recognize_by_llm_error by (blast, cases e, simp)
    show ?thesis using r fol own kwv Inl e quota route chit by (auto split: if_splits)
  next
    case (Inr x)
    show ?thesis
    proof (cases x)
      case None
      with r Inr fol own kwv show ?thesis by (auto split: if_splits intro: route)
    next
      case (Some d)
      with r Inr fol own kwv llm [of d] show ?thesis by (auto split: if_splits intro: route)
    qed
  qed
qed

text \<open>
  C12: Recognition is safe whatever the model answers. For every question, history, slots and
  model answer the route that comes out satisfies the routing contract (an order signal is
  never dropped, a course route is confident, an order route has its number, the target fits
  the intent); the only error is an exhausted quota, and it can only come from a question the
  keywords take for small talk; and a customer who asks for a person gets one, without the
  model being asked.
\<close>

theorem recognized_route_is_safe:
  "(\<forall>r. recognize_intent env text history gs digest = Inr r \<longrightarrow> route_safe text r) \<and>
   (\<forall>e. recognize_intent env text history gs digest = Inl e \<longrightarrow>
      llm_enabled env \<and> intent (recognize_by_keyword text) = (asc ''chitchat'') \<and>
      ask_llm env (llm_user_content env text history digest) = Quota_Exceeded) \<and>
   (any_in handoff_hints (strip text) \<longrightarrow>
      (\<exists>r. recognize_intent env text history gs digest = Inr r \<and> intent r = (asc ''handoff'') \<and> target r = (asc ''handoff'')))"
proof (intro conjI)
  show "\<forall>r. recognize_intent env text history gs digest = Inr r \<longrightarrow> route_safe text r"
    by (intro allI impI, erule recognize_intent_cases) (auto intro: policy_finalize_safe)
  show "\<forall>e. recognize_intent env text history gs digest = Inl e \<longrightarrow>
      llm_enabled env \<and> intent (recognize_by_keyword text) = (asc ''chitchat'') \<and>
      ask_llm env (llm_user_content env text history digest) = Quota_Exceeded"
    by (intro allI impI, erule recognize_intent_cases) auto
  show "any_in handoff_hints (strip text) \<longrightarrow>
      (\<exists>r. recognize_intent env text history gs digest = Inr r \<and> intent r = (asc ''handoff'') \<and> target r = (asc ''handoff''))"
  proof
    assume "any_in handoff_hints (strip text)"
    then have k: "intent (recognize_by_keyword text) = (asc ''handoff'')" by (rule keyword_handoff)
    define slots where "slots = (case gs of None \<Rightarrow> no_slots | Some s \<Rightarrow> s)"
    define kw where "kw = (let k = recognize_by_keyword text in if \<not> truthy (order_no k)
      then k\<lparr>order_no := or_opt (last_order_no slots) (order_no_from_history history)\<rparr> else k)"
    have kw: "intent kw = (asc ''handoff'')" by (simp add: kw_def Let_def k)
    let ?d = "apply_session_slots text kw slots"
    have d: "intent ?d = (asc ''handoff'')" using kw apply_session_slots_business [of kw "text" slots] by (simp add: business_intents_def)
    have "recognize_intent env text history gs digest = Inr (policy_finalize default_policy text ?d)"
      using kw unfolding recognize_intent_def slots_def [symmetric] Let_def kw_def [unfolded Let_def, symmetric] by simp
    moreover have "intent (policy_finalize default_policy text ?d) = (asc ''handoff'')"
      using d by (simp add: policy_finalize_def Let_def downgrade_missing_order_def apply_low_confidence_def
          apply_order_signal_def order_signal_passthrough_def)
    moreover have "well_routed (policy_finalize default_policy text ?d)"
      using policy_finalize_safe [of ?d "text"] apply_session_slots_well_routed [of kw "text" slots] kw
      by (simp add: route_safe_def valid_intents_def)
    ultimately show "\<exists>r. recognize_intent env text history gs digest = Inr r \<and> intent r = (asc ''handoff'') \<and> target r = (asc ''handoff'')"
      by (simp add: well_routed_def)
  qed
qed

definition demo_recognizer :: recognizer where
  "demo_recognizer = \<lparr>llm_enabled = True, ask_llm = (\<lambda>_. Quota_Exceeded), rec_tokenizer = demo_tokenizer,
     rec_history = demo_history_settings\<rparr>"

theorem recognized_route_is_safe_witness:
  "(\<exists>r. recognize_intent demo_recognizer [0x627E, 0x4EBA, 0x5DE5] \<comment> \<open>find a person\<close> demo_turns (Some demo_slots) None = Inr r \<and>
      intent r = (asc ''handoff'') \<and> route_safe [0x627E, 0x4EBA, 0x5DE5] \<comment> \<open>find a person\<close> r) \<and>
   ask_llm demo_recognizer (llm_user_content demo_recognizer [0x8C22, 0x8C22] \<comment> \<open>thanks\<close> demo_turns None) = Quota_Exceeded"
proof -
  have h: "any_in handoff_hints (strip [0x627E, 0x4EBA, 0x5DE5] \<comment> \<open>find a person\<close>)"
    by (simp add: any_in_def handoff_hints_def strip_def is_space_def)
  have k: "intent (recognize_by_keyword [0x8C22, 0x8C22] \<comment> \<open>thanks\<close>) = (asc ''chitchat'')"
    by (simp add: recognize_by_keyword_def Let_def any_in_def handoff_hints_def course_hints_def order_hints_def
        strip_def is_space_def extract_query_order_no_run first_long_run.simps is_digit_def digit_starts_def
        is_greeting_mixed_def is_pure_chitchat_def pure_chitchat_def lower_def lower1_def)
  have e: "recognize_intent demo_recognizer [0x8C22, 0x8C22] \<comment> \<open>thanks\<close> demo_turns None None = Inl Tenant_Quota_Error"
    unfolding recognize_intent_def Let_def using k by (simp add: recognize_by_llm_def demo_recognizer_def)
  from recognized_route_is_safe [of demo_recognizer "[0x627E, 0x4EBA, 0x5DE5] \<comment> \<open>find a person\<close>" demo_turns "Some demo_slots" None] h
    recognized_route_is_safe [of demo_recognizer "[0x8C22, 0x8C22] \<comment> \<open>thanks\<close>" demo_turns None None] e
  show ?thesis by blast
qed

end
