(* ===== verification/Summary.thy ===== *)
theory Summary
  imports Intent
begin

text \<open>
  The rolling structured summary of a conversation (\<open>app/context/summary/facts.py\<close>): rules
  extract facts from the messages that leave the window, summaries are merged, rendered as
  text into the state and parsed back from it. The regular expressions are run by the matcher
  of \<open>Regex\<close>.
\<close>

section \<open>Patterns and labels\<close>

definition dots :: re where
  "dots = Many (\<lambda>c. c \<noteq> 10) 0 None"

definition intent_labels :: "(ustr \<times> ustr) list" where
  "intent_labels = [((asc ''order''), [0x67E5, 0x8BA2, 0x5355] \<comment> \<open>order query\<close>), ((asc ''course_consult''), [0x8BFE, 0x7A0B, 0x54A8, 0x8BE2] \<comment> \<open>course advice\<close>),
     ((asc ''mixed''), [0x8BFE, 0x7A0B, 43, 0x8BA2, 0x5355] \<comment> \<open>course and order\<close>), ((asc ''handoff''), [0x8F6C, 0x4EBA, 0x5DE5] \<comment> \<open>to a person\<close>)]"

definition order_constraints :: "(re \<times> ustr) list" where
  "order_constraints =
     [(words [[0x9000, 0x6B3E] \<comment> \<open>refund\<close>], [0x7528, 0x6237, 0x8981, 0x9000, 0x6B3E] \<comment> \<open>user wants a refund\<close>),
      (words [[0x7269, 0x6D41] \<comment> \<open>shipping\<close>, [0x5FEB, 0x9012] \<comment> \<open>courier\<close>, [0x53D1, 0x8D27] \<comment> \<open>sent\<close>, [0x5230, 0x54EA] \<comment> \<open>where\<close>, [0x5230, 0x8D27] \<comment> \<open>arrived\<close>], [0x5728, 0x8FFD, 0x7269, 0x6D41] \<comment> \<open>tracking\<close>),
      (words [[0x53D6, 0x6D88] \<comment> \<open>cancel\<close>], [0x8981, 0x53D6, 0x6D88, 0x8BA2, 0x5355] \<comment> \<open>wants to cancel\<close>),
      (words [[0x8FDB, 0x5EA6] \<comment> \<open>progress\<close>], [0x5728, 0x95EE, 0x8FDB, 0x5EA6] \<comment> \<open>asks for progress\<close>)]"

definition course_constraints :: "(re \<times> ustr) list" where
  "course_constraints =
     [(Alt (Cat (lit [0x4E0D, 0x9002, 0x5408] \<comment> \<open>not suited\<close>) (Cat dots (lit [0x96F6, 0x57FA, 0x7840] \<comment> \<open>no basis\<close>)))
           (Cat (lit [0x96F6, 0x57FA, 0x7840] \<comment> \<open>no basis\<close>) (Cat dots (lit [0x4E0D] \<comment> \<open>not\<close>))), [0x5DF2, 0x786E, 0x8BA4, 0x4E0D, 0x9002, 0x5408, 0x96F6, 0x57FA, 0x7840] \<comment> \<open>confirmed not for beginners\<close>),
      (Alt (Cat (NotBehind (\<lambda>c. c = 0x4E0D)) (lit [0x9002, 0x5408, 0x96F6, 0x57FA, 0x7840] \<comment> \<open>suits beginners\<close>))
           (words [[0x96F6, 0x57FA, 0x7840, 0x53EF, 0x4EE5] \<comment> \<open>beginners can\<close>, [0x96F6, 0x57FA, 0x7840, 0x53CB, 0x597D] \<comment> \<open>beginner friendly\<close>]), [0x9002, 0x5408, 0x96F6, 0x57FA, 0x7840] \<comment> \<open>suits beginners\<close>),
      (words [[0x592A, 0x96BE] \<comment> \<open>too hard\<close>, [0x5F88, 0x96BE] \<comment> \<open>very hard\<close>, [0x504F, 0x96BE] \<comment> \<open>rather hard\<close>], [0x7528, 0x6237, 0x89C9, 0x5F97, 0x96BE] \<comment> \<open>user finds it hard\<close>),
      (words [[0x591A, 0x5C11, 0x94B1] \<comment> \<open>how much\<close>, [0x4EF7, 0x683C] \<comment> \<open>price\<close>, [0x5B66, 0x8D39] \<comment> \<open>fee\<close>], [0x5728, 0x95EE, 0x4EF7, 0x683C] \<comment> \<open>asks for the price\<close>),
      (words [[0x5927, 0x7EB2] \<comment> \<open>outline\<close>, [0x6A21, 0x5757] \<comment> \<open>module\<close>, [0x5B66, 0x4EC0, 0x4E48] \<comment> \<open>learn what\<close>, [0x8BB2, 0x4EC0, 0x4E48] \<comment> \<open>teaches what\<close>], [0x5728, 0x95EE, 0x5927, 0x7EB2] \<comment> \<open>asks for the outline\<close>)]"

definition pending_order_no :: ustr where
  "pending_order_no = [0x5F85, 0x63D0, 0x4F9B, 0x8BA2, 0x5355, 0x53F7] \<comment> \<open>order number to be given\<close>"

definition pending_course :: ustr where
  "pending_course = [0x5F85, 0x786E, 0x8BA4, 0x8BFE, 0x7A0B] \<comment> \<open>course to be confirmed\<close>"

definition pending_patterns :: "(re \<times> ustr) list" where
  "pending_patterns =
     [(words [[0x8BF7, 0x63D0, 0x4F9B, 0x8BA2, 0x5355, 0x53F7] \<comment> \<open>give the number\<close>, [0x9700, 0x8981, 0x8BA2, 0x5355, 0x53F7] \<comment> \<open>number needed\<close>, [0x5B8C, 0x6574, 0x8BA2, 0x5355, 0x7F16, 0x53F7] \<comment> \<open>full number\<close>], pending_order_no),
      (Alt (Cat (lit [0x8BF7] \<comment> \<open>please\<close>) (Cat dots (lit [0x8BFE, 0x7A0B, 0x540D] \<comment> \<open>course name\<close>))) (lit [0x54EA, 0x95E8, 0x8BFE] \<comment> \<open>which course\<close>), pending_course),
      (words [[0x8F6C, 0x63A5, 0x4EBA, 0x5DE5] \<comment> \<open>transferring\<close>, [0x5DF2, 0x4E3A, 0x60A8, 0x8F6C, 0x63A5] \<comment> \<open>transferred\<close>], [0x7B49, 0x5F85, 0x4EBA, 0x5DE5] \<comment> \<open>waiting for a person\<close>)]"

definition not_for_beginners :: ustr where "not_for_beginners = [0x5DF2, 0x786E, 0x8BA4, 0x4E0D, 0x9002, 0x5408, 0x96F6, 0x57FA, 0x7840] \<comment> \<open>confirmed not for beginners\<close>"
definition for_beginners :: ustr where "for_beginners = [0x9002, 0x5408, 0x96F6, 0x57FA, 0x7840] \<comment> \<open>suits beginners\<close>"
definition refund_done :: ustr where "refund_done = [0x9000, 0x6B3E, 0x5DF2, 0x5B8C, 0x6210] \<comment> \<open>refund done\<close>"
definition refund_review :: ustr where "refund_review = [0x9000, 0x6B3E, 0x5BA1, 0x6838, 0x4E2D] \<comment> \<open>refund under review\<close>"

definition exclusive_label_groups :: "ustr list list" where
  "exclusive_label_groups = [[not_for_beginners, for_beginners], [refund_done, refund_review]]"

definition assistant_conclusions :: "(re \<times> ustr) list" where
  "assistant_conclusions =
     [(words [[0x5DF2, 0x9000, 0x6B3E] \<comment> \<open>refunded\<close>], refund_done), (words [[0x9000, 0x6B3E, 0x5BA1, 0x6838] \<comment> \<open>refund review\<close>], refund_review),
      (words [[0x5DF2, 0x53D1, 0x8D27] \<comment> \<open>sent\<close>], [0x5DF2, 0x53D1, 0x8D27] \<comment> \<open>sent\<close>), (words [[0x5DF2, 0x5F00, 0x901A] \<comment> \<open>activated\<close>], [0x8BFE, 0x7A0B, 0x5DF2, 0x5F00, 0x901A] \<comment> \<open>course activated\<close>),
      (words [[0x5DF2, 0x53D6, 0x6D88] \<comment> \<open>cancelled\<close>], [0x8BA2, 0x5355, 0x5DF2, 0x53D6, 0x6D88] \<comment> \<open>order cancelled\<close>)]"

definition course_heading_re :: re where
  "course_heading_re = Cat (NotBehind (\<lambda>c. c \<noteq> 10)) (Cat (lit (asc ''##'')) (Cat (Many is_space 1 None)
     (Cat (Grp (Many (\<lambda>c. c \<noteq> 10) 1 None)) (NotAhead (\<lambda>c. c \<noteq> 10)))))"

definition course_book_re :: re where
  "course_book_re = Cat (lit [0x300A] \<comment> \<open>opening bracket\<close>) (Cat (Grp (Many (\<lambda>c. c \<noteq> 0x300B) 2 (Some 30))) (lit [0x300B] \<comment> \<open>closing bracket\<close>))"

definition is_colon :: "nat \<Rightarrow> bool" where
  "is_colon c \<longleftrightarrow> c = 0xFF1A \<or> c = 58"

definition course_label_re :: re where
  "course_label_re = Cat (lit [0x8BFE, 0x7A0B, 0x540D, 0x79F0] \<comment> \<open>course name\<close>) (Cat (Cls is_colon) (Cat (Many is_space 0 None)
     (Grp (Many (\<lambda>c. c \<noteq> 10) 2 (Some 30)))))"

definition is_word_or_cjk :: "nat \<Rightarrow> bool" where
  "is_word_or_cjk c \<longleftrightarrow> (65 \<le> c \<and> c \<le> 90) \<or> (97 \<le> c \<and> c \<le> 122) \<or> (48 \<le> c \<and> c \<le> 57) \<or> (0x4E00 \<le> c \<and> c \<le> 0x9FFF)"

definition course_inline_re :: re where
  "course_inline_re = Cat (lit [0x8BFE, 0x7A0B] \<comment> \<open>course\<close>) (Cat (Many is_space 0 None) (Grp (Many is_word_or_cjk 2 (Some 20))))"

definition skip_course_names :: "ustr list" where
  "skip_course_names = [[0x6A21, 0x5757] \<comment> \<open>module\<close>, [0x540D, 0x79F0] \<comment> \<open>name\<close>, [0x54A8, 0x8BE2] \<comment> \<open>advice\<close>, [0x5927, 0x7EB2] \<comment> \<open>outline\<close>, [0x672A, 0x627E, 0x5230, 0x8BFE, 0x7A0B] \<comment> \<open>course not found\<close>]"

definition extract_course_names :: "ustr \<Rightarrow> ustr list" where
  "extract_course_names text =
     foldl (\<lambda>names hit. let name = strip (strip_char 35 (strip hit)) in
         if name \<noteq> [] \<and> name \<notin> set missing_course_names \<and> name \<notin> set skip_course_names \<and> name \<notin> set names
         then names @ [name] else names)
       [] (concat (map (\<lambda>p. find_all p [] text) [course_heading_re, course_book_re, course_label_re, course_inline_re]))"

definition match_labels :: "ustr \<Rightarrow> (re \<times> ustr) list \<Rightarrow> ustr list" where
  "match_labels text patterns = foldl (\<lambda>found (pattern, label).
     if search pattern [] text \<noteq> None \<and> label \<notin> set found then found @ [label] else found) [] patterns"

section \<open>Lists of facts\<close>

definition is_fact_sep :: "nat \<Rightarrow> bool" where
  "is_fact_sep c \<longleftrightarrow> c = 0xFF1B \<or> c = 59"

definition split_facts :: "ustr \<Rightarrow> ustr list" where
  "split_facts raw = filter (\<lambda>p. p \<noteq> []) (map strip (split_on is_fact_sep raw))"

definition prepend_unique :: "ustr list \<Rightarrow> ustr list \<Rightarrow> nat \<Rightarrow> ustr list" where
  "prepend_unique existing incoming cap =
     last_n cap (foldl (\<lambda>out item. let t = strip item in
        if t = [] then out else filter (\<lambda>x. x \<noteq> t) out @ [t]) existing incoming)"

definition rivals_of :: "ustr \<Rightarrow> ustr list" where
  "rivals_of label = (case filter (\<lambda>g. label \<in> set g) exclusive_label_groups of
     [] \<Rightarrow> [] | g # _ \<Rightarrow> filter (\<lambda>x. x \<noteq> label) g)"

definition exclusive_step :: "ustr list \<Rightarrow> ustr \<Rightarrow> ustr list" where
  "exclusive_step out item = (let t = strip item in
     if t = [] then out else filter (\<lambda>x. x \<noteq> t \<and> x \<notin> set (rivals_of t)) out @ [t])"

definition apply_exclusive_sequence :: "ustr list \<Rightarrow> nat option \<Rightarrow> ustr list" where
  "apply_exclusive_sequence labels cap =
     (let out = foldl exclusive_step [] labels in case cap of Some n \<Rightarrow> last_n n out | None \<Rightarrow> out)"

section \<open>The structured summary\<close>

record structured =
  ss_orders :: "ustr list"
  ss_courses :: "ustr list"
  ss_intent :: ustr
  ss_confirmed :: "ustr list"
  ss_pending :: "ustr list"

definition no_summary :: structured where
  "no_summary = \<lparr>ss_orders = [], ss_courses = [], ss_intent = [], ss_confirmed = [], ss_pending = []\<rparr>"

definition summary_merge :: "structured \<Rightarrow> structured \<Rightarrow> structured" where
  "summary_merge s other =
     \<lparr>ss_orders = prepend_unique (ss_orders s) (ss_orders other) 3,
      ss_courses = prepend_unique (ss_courses s) (ss_courses other) 3,
      ss_intent = strip (or_str (ss_intent other) (ss_intent s)),
      ss_confirmed = apply_exclusive_sequence (ss_confirmed s @ ss_confirmed other) (Some 6),
      ss_pending = prepend_unique (ss_pending s) (ss_pending other) 4\<rparr>"

definition slot_text :: "(session_slots \<Rightarrow> ustr option) \<Rightarrow> session_slots option \<Rightarrow> ustr" where
  "slot_text field slots = (case slots of None \<Rightarrow> [] | Some s \<Rightarrow> strip (str_or_empty (field s)))"

definition summary_resolve :: "session_slots option \<Rightarrow> structured \<Rightarrow> structured" where
  "summary_resolve slots s =
     (let has_order = (ss_orders s \<noteq> [] \<or> slot_text last_order_no slots \<noteq> []);
          has_course = (ss_courses s \<noteq> [] \<or> slot_text last_course_name slots \<noteq> []);
          pending = (if has_order then filter (\<lambda>x. x \<noteq> pending_order_no) (ss_pending s) else ss_pending s);
          pending = (if has_course then filter (\<lambda>x. x \<noteq> pending_course) pending else pending)
      in s\<lparr>ss_confirmed := apply_exclusive_sequence (ss_confirmed s) (Some 6), ss_pending := pending\<rparr>)"

definition has_content :: "structured \<Rightarrow> bool" where
  "has_content s \<longleftrightarrow> ss_orders s \<noteq> [] \<or> ss_courses s \<noteq> [] \<or> ss_intent s \<noteq> [] \<or> ss_confirmed s \<noteq> [] \<or> ss_pending s \<noteq> []"

definition novel_against :: "structured \<Rightarrow> structured \<Rightarrow> bool" where
  "novel_against s existing \<longleftrightarrow>
     (\<exists>x \<in> set (ss_orders s). x \<notin> set (ss_orders existing)) \<or>
     (\<exists>x \<in> set (ss_courses s). x \<notin> set (ss_courses existing)) \<or>
     (ss_intent s \<noteq> [] \<and> ss_intent s \<noteq> ss_intent existing) \<or>
     (\<exists>x \<in> set (ss_confirmed s). x \<notin> set (ss_confirmed existing)) \<or>
     (\<exists>x \<in> set (ss_pending s). x \<notin> set (ss_pending existing))"

definition resolve_max_chars :: "int option \<Rightarrow> int \<Rightarrow> nat" where
  "resolve_max_chars max_chars configured = nat (max 80 (case max_chars of None \<Rightarrow> configured | Some m \<Rightarrow> m))"

definition clip_summary :: "ustr \<Rightarrow> int option \<Rightarrow> int \<Rightarrow> ustr" where
  "clip_summary text max_chars configured =
     (let combined = strip text; limit = resolve_max_chars max_chars configured
      in if length combined \<le> limit then combined else last_n limit combined)"

definition order_head :: ustr where "order_head = [0x8BA2, 0x5355, 0xFF1A] \<comment> \<open>orders:\<close>"
definition course_head :: ustr where "course_head = [0x8BFE, 0x7A0B, 0xFF1A] \<comment> \<open>courses:\<close>"
definition intent_head :: ustr where "intent_head = [0x610F, 0x56FE, 0xFF1A] \<comment> \<open>intent:\<close>"
definition confirmed_head :: ustr where "confirmed_head = [0x5DF2, 0x786E, 0x8BA4, 0xFF1A] \<comment> \<open>confirmed:\<close>"
definition pending_head :: ustr where "pending_head = [0x672A, 0x51B3, 0xFF1A] \<comment> \<open>pending:\<close>"

definition fact_row :: "ustr \<Rightarrow> ustr list \<Rightarrow> ustr list" where
  "fact_row head facts = (if facts \<noteq> [] then [head @ join [0xFF1B] facts] else [])"

definition render_lines :: "structured \<Rightarrow> ustr" where
  "render_lines s = join [10]
     (fact_row order_head (ss_orders s) @ fact_row course_head (ss_courses s) @
      (if ss_intent s \<noteq> [] then [intent_head @ ss_intent s] else []) @
      fact_row confirmed_head (ss_confirmed s) @ fact_row pending_head (ss_pending s))"

function render_within :: "nat \<Rightarrow> structured \<Rightarrow> ustr" where
  "render_within limit s =
     (let t = render_lines s in
      if length t \<le> limit then t
      else if length (ss_confirmed s) > 1 then render_within limit (s\<lparr>ss_confirmed := tl (ss_confirmed s)\<rparr>)
      else if length (ss_pending s) > 1 then render_within limit (s\<lparr>ss_pending := tl (ss_pending s)\<rparr>)
      else if length (ss_orders s) > 1 then render_within limit (s\<lparr>ss_orders := tl (ss_orders s)\<rparr>)
      else if length (ss_courses s) > 1 then render_within limit (s\<lparr>ss_courses := tl (ss_courses s)\<rparr>)
      else last_n limit t)"
  by pat_completeness auto
termination
  by (relation "measure (\<lambda>(_, s). length (ss_confirmed s) + length (ss_pending s) + length (ss_orders s) + length (ss_courses s))")
    auto

declare render_within.simps [simp del]

definition summary_render :: "structured \<Rightarrow> int option \<Rightarrow> ustr" where
  "summary_render s max_chars = (case max_chars of None \<Rightarrow> render_lines s
     | Some m \<Rightarrow> render_within (resolve_max_chars (Some m) m) s)"

text \<open>The section pattern on a stripped line: one of the five headings, a colon, the value.\<close>

datatype section_key = K_Orders | K_Courses | K_Intent | K_Confirmed | K_Pending

definition section_names :: "(ustr \<times> section_key) list" where
  "section_names = [([0x8BA2, 0x5355] \<comment> \<open>orders\<close>, K_Orders), ([0x8BFE, 0x7A0B] \<comment> \<open>courses\<close>, K_Courses), ([0x610F, 0x56FE] \<comment> \<open>intent\<close>, K_Intent),
     ([0x5DF2, 0x786E, 0x8BA4] \<comment> \<open>confirmed\<close>, K_Confirmed), ([0x672A, 0x51B3] \<comment> \<open>pending\<close>, K_Pending)]"

definition section_of :: "ustr \<Rightarrow> (section_key \<times> ustr) option" where
  "section_of line =
     (case filter (\<lambda>(name, k). starts_with name line \<and> (case drop (length name) line of [] \<Rightarrow> False | c # _ \<Rightarrow> is_colon c))
        section_names of
        [] \<Rightarrow> None
      | (name, k) # _ \<Rightarrow> Some (k, strip (drop (Suc (length name)) line)))"

definition set_section :: "section_key \<Rightarrow> ustr \<Rightarrow> structured \<Rightarrow> structured" where
  "set_section k v s = (case k of K_Orders \<Rightarrow> s\<lparr>ss_orders := split_facts v\<rparr>
     | K_Courses \<Rightarrow> s\<lparr>ss_courses := split_facts v\<rparr> | K_Intent \<Rightarrow> s\<lparr>ss_intent := v\<rparr>
     | K_Confirmed \<Rightarrow> s\<lparr>ss_confirmed := split_facts v\<rparr> | K_Pending \<Rightarrow> s\<lparr>ss_pending := split_facts v\<rparr>)"

definition parse_line :: "structured \<times> ustr list \<times> bool \<Rightarrow> ustr \<Rightarrow> structured \<times> ustr list \<times> bool" where
  "parse_line = (\<lambda>(s, leftover, saw) line. let line = strip line in
     if line = [] then (s, leftover, saw)
     else (case section_of line of None \<Rightarrow> (s, leftover @ [line], saw)
       | Some (k, v) \<Rightarrow> (set_section k v s, leftover, True)))"

definition summary_parse :: "ustr option \<Rightarrow> structured" where
  "summary_parse text =
     (let raw = strip (str_or_empty text) in
      if raw = [] then no_summary
      else let (s, leftover, saw) = foldl parse_line (no_summary, [], False) (split_on is_line_break raw) in
        if leftover \<noteq> [] \<and> \<not> saw then s\<lparr>ss_confirmed := leftover\<rparr>
        else if leftover \<noteq> [] then s\<lparr>ss_confirmed := prepend_unique (ss_confirmed s) leftover 6\<rparr>
        else s)"

section \<open>Extraction\<close>

definition fact_with_suffix :: "ustr \<Rightarrow> ustr list \<Rightarrow> ustr" where
  "fact_with_suffix name constraints =
     (let suffix = join [0xFF1B] (take 2 constraints)
      in if suffix \<noteq> [] then strip (name @ [32] @ suffix) else name)"

definition summary_order_no :: "ustr \<Rightarrow> ustr option" where
  "summary_order_no text = (case search order_no_pattern [] text of None \<Rightarrow> None | Some (g, _, _) \<Rightarrow> g)"

definition intent_label :: "ustr \<Rightarrow> ustr" where
  "intent_label i = str_or_empty (map_of intent_labels i)"

definition facts_from_one :: "session_slots option \<Rightarrow> ustr \<Rightarrow> structured" where
  "facts_from_one slots text =
     (let slot_order = slot_text last_order_no slots; slot_course = slot_text last_course_name slots;
          oc = match_labels text order_constraints; cc = match_labels text course_constraints;
          no = str_or_empty (summary_order_no text)
      in \<lparr>ss_orders = (if no \<noteq> [] \<and> no \<noteq> slot_order then [fact_with_suffix no oc] else []),
          ss_courses = map (\<lambda>name. fact_with_suffix name cc)
            (filter (\<lambda>name. \<not> (slot_course \<noteq> [] \<and> name = slot_course)) (extract_course_names text)),
          ss_intent = (if oc \<noteq> [] \<and> cc \<noteq> [] then intent_label (asc ''mixed'') else if oc \<noteq> [] then intent_label (asc ''order'')
            else if cc \<noteq> [] then intent_label (asc ''course_consult'') else []),
          ss_confirmed = apply_exclusive_sequence (cc @ oc @ match_labels text assistant_conclusions) None,
          ss_pending = match_labels text pending_patterns\<rparr>)"

definition infer_intent :: "structured \<Rightarrow> ustr" where
  "infer_intent s =
     (let has_order = (ss_orders s \<noteq> [] \<or> (\<exists>x \<in> set (map snd order_constraints). x \<in> set (ss_confirmed s)));
          has_course = (ss_courses s \<noteq> [] \<or> (\<exists>x \<in> set (map snd course_constraints). x \<in> set (ss_confirmed s)))
      in if has_order \<and> has_course then intent_label (asc ''mixed'') else if has_order then intent_label (asc ''order'')
         else if has_course then intent_label (asc ''course_consult'') else [])"

definition extract_summary_facts :: "message list \<Rightarrow> session_slots option \<Rightarrow> structured" where
  "extract_summary_facts overflow slots =
     (let acc = foldl (\<lambda>acc m. let t = strip (msg_text m) in
            if t \<noteq> [] then summary_merge acc (facts_from_one slots t) else acc) no_summary overflow;
          slot_intent = slot_text last_intent slots;
          acc = (if slot_intent \<noteq> [] \<and> map_of intent_labels slot_intent \<noteq> None
                 then acc\<lparr>ss_intent := intent_label slot_intent\<rparr>
                 else if ss_intent acc = [] then acc\<lparr>ss_intent := infer_intent acc\<rparr> else acc)
      in summary_resolve slots acc)"

definition finalize_structured :: "session_slots option \<Rightarrow> int option \<Rightarrow> structured \<Rightarrow> ustr" where
  "finalize_structured slots max_chars s =
     (let resolved = summary_resolve slots s in if \<not> has_content resolved then [] else summary_render resolved max_chars)"

definition finalize_summary :: "session_slots option \<Rightarrow> int option \<Rightarrow> ustr option \<Rightarrow> ustr" where
  "finalize_summary slots max_chars text = finalize_structured slots max_chars (summary_parse text)"

definition fold_session_summary :: "ustr option \<Rightarrow> message list \<Rightarrow> int option \<Rightarrow> session_slots option \<Rightarrow> ustr" where
  "fold_session_summary existing overflow max_chars slots =
     finalize_structured slots max_chars (summary_merge (summary_parse existing) (extract_summary_facts overflow slots))"

section \<open>Summaries never contradict themselves\<close>

lemma prepend_unique_bound: "length (prepend_unique xs ys cap) \<le> cap"
  by (simp add: prepend_unique_def)

lemma labels_distinct:
  "not_for_beginners \<noteq> for_beginners" "not_for_beginners \<noteq> refund_done" "not_for_beginners \<noteq> refund_review"
  "for_beginners \<noteq> refund_done" "for_beginners \<noteq> refund_review" "refund_done \<noteq> refund_review"
  "not_for_beginners \<noteq> []" "for_beginners \<noteq> []" "refund_done \<noteq> []" "refund_review \<noteq> []"
  by (simp_all add: not_for_beginners_def for_beginners_def refund_done_def refund_review_def)

lemma labels_strip [simp]:
  "strip not_for_beginners = not_for_beginners" "strip for_beginners = for_beginners"
  "strip refund_done = refund_done" "strip refund_review = refund_review"
  by (simp_all add: not_for_beginners_def for_beginners_def refund_done_def refund_review_def strip_def is_space_def)

lemma rivals_iff:
  "y \<in> set (rivals_of x) \<longleftrightarrow>
     (x = not_for_beginners \<and> y = for_beginners) \<or> (x = for_beginners \<and> y = not_for_beginners) \<or>
     (x = refund_done \<and> y = refund_review) \<or> (x = refund_review \<and> y = refund_done)"
proof (cases "x \<in> {not_for_beginners, for_beginners, refund_done, refund_review}")
  case True
  then show ?thesis
    by (elim insertE emptyE)
      (simp_all add: rivals_of_def exclusive_label_groups_def labels_distinct labels_distinct [symmetric])
next
  case False
  then show ?thesis by (auto simp: rivals_of_def exclusive_label_groups_def)
qed

lemma rivals_sym: "y \<in> set (rivals_of x) \<longleftrightarrow> x \<in> set (rivals_of y)"
  by (auto simp: rivals_iff)

text \<open>No label twice, none that is blank, and no two labels that exclude each other.\<close>

definition consistent :: "ustr list \<Rightarrow> bool" where
  "consistent labels \<longleftrightarrow> distinct labels \<and> [] \<notin> set labels \<and>
     (\<forall>x \<in> set labels. \<forall>y \<in> set labels. y \<notin> set (rivals_of x))"

lemma exclusive_step_consistent: "consistent out \<Longrightarrow> consistent (exclusive_step out item)"
proof -
  assume c: "consistent out"
  define t where "t = strip item"
  have self: "t \<notin> set (rivals_of t)" by (use labels_distinct in \<open>auto simp: rivals_iff\<close>)
  show ?thesis
  proof (cases "t = []")
    case True
    with c show ?thesis by (simp add: exclusive_step_def t_def [symmetric])
  next
    case False
    have "x \<notin> set (rivals_of t) \<Longrightarrow> t \<notin> set (rivals_of x)" for x using rivals_sym by blast
    with False c self show ?thesis
      by (auto simp: exclusive_step_def t_def [symmetric] Let_def consistent_def)
  qed
qed

lemma exclusive_fold_consistent: "consistent out \<Longrightarrow> consistent (foldl exclusive_step out labels)"
  by (induction labels arbitrary: out) (simp_all add: exclusive_step_consistent)

lemma consistent_last_n: "consistent xs \<Longrightarrow> consistent (last_n n xs)"
  unfolding consistent_def by (auto simp: last_n_def dest: in_set_dropD)

lemma exclusive_sequence_consistent: "consistent (apply_exclusive_sequence labels cap)"
proof -
  have "consistent (foldl exclusive_step [] labels)" by (rule exclusive_fold_consistent) (simp add: consistent_def)
  then show ?thesis
    by (auto simp: apply_exclusive_sequence_def Let_def consistent_last_n split: option.splits)
qed

lemma exclusive_sequence_bound: "length (apply_exclusive_sequence labels (Some n)) \<le> n"
  by (simp add: apply_exclusive_sequence_def Let_def)

lemma exclusive_step_keeps_last:
  "foldl exclusive_step out (labels @ [x]) = filter (\<lambda>y. y \<noteq> strip x \<and> y \<notin> set (rivals_of (strip x)))
     (foldl exclusive_step out labels) @ [strip x]" if "strip x \<noteq> []"
  using that by (simp add: exclusive_step_def Let_def)

text \<open>What the latest message says is what the summary keeps.\<close>

lemma latest_label_wins:
  assumes "strip x \<noteq> []" and "0 < n"
  shows "last (apply_exclusive_sequence (labels @ [x]) (Some n)) = strip x"
proof -
  let ?f = "filter (\<lambda>y. y \<noteq> strip x \<and> y \<notin> set (rivals_of (strip x))) (foldl exclusive_step [] labels)"
  have "apply_exclusive_sequence (labels @ [x]) (Some n) = last_n n (?f @ [strip x])"
    using exclusive_step_keeps_last [OF assms(1)] by (simp add: apply_exclusive_sequence_def Let_def)
  moreover have "last (last_n n (?f @ [strip x])) = strip x"
    using assms(2) by (simp add: last_n_def)
  ultimately show ?thesis by simp
qed

lemma resolve_fields:
  "ss_orders (summary_resolve slots s) = ss_orders s" "ss_courses (summary_resolve slots s) = ss_courses s"
  "ss_intent (summary_resolve slots s) = ss_intent s"
  "ss_confirmed (summary_resolve slots s) = apply_exclusive_sequence (ss_confirmed s) (Some 6)"
  "set (ss_pending (summary_resolve slots s)) \<subseteq> set (ss_pending s)"
  "length (ss_pending (summary_resolve slots s)) \<le> length (ss_pending s)"
  by (auto simp: summary_resolve_def Let_def intro: order.trans [OF length_filter_le])

lemma resolve_pending:
  "pending_order_no \<in> set (ss_pending (summary_resolve slots s)) \<Longrightarrow> ss_orders s = [] \<and> slot_text last_order_no slots = []"
  "pending_course \<in> set (ss_pending (summary_resolve slots s)) \<Longrightarrow> ss_courses s = [] \<and> slot_text last_course_name slots = []"
  by (auto simp: summary_resolve_def Let_def split: if_splits)

text \<open>
  C13: A merged and resolved summary is consistent and bounded. It never holds two conclusions
  that exclude each other (suitable and unsuitable for beginners, refund done and refund under
  review) nor one twice, the conclusion stated last is the one kept, it never waits for an
  order number or a course that the summary or the session already has, and every list stays
  within its cap.
\<close>

theorem summary_is_consistent:
  "(let r = summary_resolve slots (summary_merge a b) in
     consistent (ss_confirmed r) \<and> length (ss_confirmed r) \<le> 6 \<and>
     length (ss_orders r) \<le> 3 \<and> length (ss_courses r) \<le> 3 \<and> length (ss_pending r) \<le> 4 \<and>
     (pending_order_no \<in> set (ss_pending r) \<longrightarrow> ss_orders r = [] \<and> slot_text last_order_no slots = []) \<and>
     (pending_course \<in> set (ss_pending r) \<longrightarrow> ss_courses r = [] \<and> slot_text last_course_name slots = [])) \<and>
   (\<forall>x. ss_confirmed b \<noteq> [] \<and> strip (last (ss_confirmed b)) = x \<and> x \<noteq> [] \<longrightarrow>
      last (ss_confirmed (summary_merge a b)) = x)"
proof (intro conjI)
  let ?m = "summary_merge a b"
  have p: "length (ss_pending (summary_resolve slots ?m)) \<le> 4"
    by (rule order.trans [OF resolve_fields(6)]) (simp add: summary_merge_def prepend_unique_bound)
  have o: "length (ss_orders ?m) \<le> 3" "length (ss_courses ?m) \<le> 3"
    by (simp_all add: summary_merge_def prepend_unique_bound)
  show "let r = summary_resolve slots ?m in
     consistent (ss_confirmed r) \<and> length (ss_confirmed r) \<le> 6 \<and>
     length (ss_orders r) \<le> 3 \<and> length (ss_courses r) \<le> 3 \<and> length (ss_pending r) \<le> 4 \<and>
     (pending_order_no \<in> set (ss_pending r) \<longrightarrow> ss_orders r = [] \<and> slot_text last_order_no slots = []) \<and>
     (pending_course \<in> set (ss_pending r) \<longrightarrow> ss_courses r = [] \<and> slot_text last_course_name slots = [])"
    unfolding Let_def resolve_fields(1-4)
    by (intro conjI impI exclusive_sequence_consistent exclusive_sequence_bound p o)
      (use resolve_pending [of slots ?m] in blast)+
  show "\<forall>x. ss_confirmed b \<noteq> [] \<and> strip (last (ss_confirmed b)) = x \<and> x \<noteq> [] \<longrightarrow> last (ss_confirmed ?m) = x"
  proof (intro allI impI, elim conjE)
    fix x assume x: "ss_confirmed b \<noteq> []" "strip (last (ss_confirmed b)) = x" "x \<noteq> []"
    have "last (apply_exclusive_sequence ((ss_confirmed a @ butlast (ss_confirmed b)) @ [last (ss_confirmed b)]) (Some 6)) =
        strip (last (ss_confirmed b))"
      by (rule latest_label_wins) (use x in simp_all)
    then show "last (ss_confirmed ?m) = x" using x(1,2) by (simp add: summary_merge_def)
  qed
qed

definition demo_summary :: structured where
  "demo_summary = no_summary\<lparr>ss_confirmed := [for_beginners, refund_done]\<rparr>"

definition demo_new_facts :: structured where
  "demo_new_facts = no_summary\<lparr>ss_orders := [(asc ''20251114001'')], ss_confirmed := [not_for_beginners],
     ss_pending := [pending_order_no]\<rparr>"

theorem summary_is_consistent_witness:
  "last (ss_confirmed (summary_merge demo_summary demo_new_facts)) = not_for_beginners \<and>
   for_beginners \<notin> set (ss_confirmed (summary_resolve None (summary_merge demo_summary demo_new_facts))) \<and>
   pending_order_no \<notin> set (ss_pending (summary_resolve None (summary_merge demo_summary demo_new_facts)))"
proof -
  let ?m = "summary_merge demo_summary demo_new_facts"
  note d = labels_distinct labels_distinct [symmetric]
  have f: "ss_confirmed ?m = [refund_done, not_for_beginners]"
    by (simp add: summary_merge_def demo_summary_def demo_new_facts_def no_summary_def apply_exclusive_sequence_def
        exclusive_step_def rivals_iff last_n_def Let_def d)
  have new: "ss_confirmed demo_new_facts = [not_for_beginners]" by (simp add: demo_new_facts_def)
  have o: "ss_orders (summary_resolve None ?m) \<noteq> []"
    by (simp add: resolve_fields summary_merge_def demo_summary_def demo_new_facts_def no_summary_def prepend_unique_def last_n_def
        strip_def is_space_def asc_def)
  have "for_beginners \<notin> set (apply_exclusive_sequence (ss_confirmed ?m) (Some 6))"
    unfolding f by (simp add: apply_exclusive_sequence_def exclusive_step_def rivals_iff last_n_def Let_def d)
  show ?thesis
    using summary_is_consistent [of None demo_summary demo_new_facts] o d(7) new
      \<open>for_beginners \<notin> _\<close> unfolding Let_def resolve_fields(4) by simp
qed

section \<open>The text form of a summary\<close>

definition clean_fact :: "ustr \<Rightarrow> bool" where
  "clean_fact e \<longleftrightarrow> e \<noteq> [] \<and> stripped e \<and> (\<forall>c \<in> set e. \<not> is_fact_sep c \<and> \<not> is_line_break c)"

definition clean_summary :: "structured \<Rightarrow> bool" where
  "clean_summary s \<longleftrightarrow>
     (\<forall>e \<in> set (ss_orders s @ ss_courses s @ ss_confirmed s @ ss_pending s). clean_fact e) \<and>
     stripped (ss_intent s) \<and> (\<forall>c \<in> set (ss_intent s). \<not> is_line_break c)"

lemma split_facts_join: "\<forall>e \<in> set xs. clean_fact e \<Longrightarrow> xs \<noteq> [] \<Longrightarrow> split_facts (join [0xFF1B] xs) = xs"
proof -
  assume c: "\<forall>e \<in> set xs. clean_fact e" and ne: "xs \<noteq> []"
  have "split_on is_fact_sep (join [0xFF1B] xs) = xs"
    by (rule split_on_join) (use c ne in \<open>auto simp: clean_fact_def is_fact_sep_def\<close>)
  moreover have "map strip xs = xs" using c by (auto simp: clean_fact_def strip_id intro: map_idI)
  moreover have "filter (\<lambda>p. p \<noteq> []) xs = xs" using c by (auto simp: clean_fact_def intro: filter_True)
  ultimately show ?thesis by (simp add: split_facts_def)
qed

lemma join_clean:
  assumes "\<forall>e \<in> set xs. clean_fact e" and "xs \<noteq> []"
  shows "stripped (join [0xFF1B] xs)" "join [0xFF1B] xs \<noteq> []" "\<forall>c \<in> set (join [0xFF1B] xs). \<not> is_line_break c"
proof -
  show "stripped (join [0xFF1B] xs)" by (rule stripped_join) (use assms in \<open>auto simp: clean_fact_def\<close>)
  show "join [0xFF1B] xs \<noteq> []" using assms by (subst join_nonempty) (auto simp: clean_fact_def)
  show "\<forall>c \<in> set (join [0xFF1B] xs). \<not> is_line_break c"
  proof
    fix c
    assume "c \<in> set (join [0xFF1B] xs)"
    then have "c = 0xFF1B \<or> (\<exists>e \<in> set xs. c \<in> set e)" using set_join by fastforce
    then show "\<not> is_line_break c" using assms(1) by (auto simp: clean_fact_def) (simp add: is_line_break_def)
  qed
qed

lemma section_of_heads:
  "section_of (order_head @ v) = Some (K_Orders, strip v)"
  "section_of (course_head @ v) = Some (K_Courses, strip v)"
  "section_of (intent_head @ v) = Some (K_Intent, strip v)"
  "section_of (confirmed_head @ v) = Some (K_Confirmed, strip v)"
  "section_of (pending_head @ v) = Some (K_Pending, strip v)"
  by (simp_all add: section_of_def section_names_def order_head_def course_head_def intent_head_def confirmed_head_def
      pending_head_def is_colon_def)

definition heads :: "ustr set" where
  "heads = {order_head, course_head, intent_head, confirmed_head, pending_head}"

lemma head_facts: "h \<in> heads \<Longrightarrow> h \<noteq> [] \<and> \<not> is_space (hd h) \<and> (\<forall>c \<in> set h. \<not> is_line_break c)"
  by (auto simp: heads_def order_head_def course_head_def intent_head_def confirmed_head_def pending_head_def is_space_def
      is_line_break_def)

lemma stripped_row: "h \<in> heads \<Longrightarrow> stripped v \<Longrightarrow> v \<noteq> [] \<Longrightarrow> stripped (h @ v)"
  using head_facts [of h] by (auto simp: stripped_def)

lemma parse_row:
  assumes "h \<in> heads" and "section_of (h @ v) = Some (k, v)" and "stripped v" and "v \<noteq> []"
  shows "parse_line (s, l, b) (h @ v) = (set_section k v s, l, True)"
  using assms head_facts [of h] by (simp add: parse_line_def strip_id stripped_row Let_def)

text \<open>Each section of the rendering, parsed into a summary whose field is still empty.\<close>

lemma parse_fact_row:
  assumes "\<forall>e \<in> set xs. clean_fact e" and "h \<in> heads" and "\<And>v. section_of (h @ v) = Some (k, strip v)"
  shows "foldl parse_line (s, l, b) (fact_row h xs) =
    (if xs = [] then s else set_section k (join [0xFF1B] xs) s, l, b \<or> xs \<noteq> [])"
  using parse_row [OF assms(2), of "join [0xFF1B] xs" k] assms(3) join_clean [OF assms(1)]
  by (simp add: fact_row_def strip_id)

lemma parse_rendered_rows:
  assumes "clean_summary s"
  shows "\<exists>b. foldl parse_line (no_summary, [], False)
     (fact_row order_head (ss_orders s) @ fact_row course_head (ss_courses s) @
      (if ss_intent s \<noteq> [] then [intent_head @ ss_intent s] else []) @
      fact_row confirmed_head (ss_confirmed s) @ fact_row pending_head (ss_pending s)) = (s, [], b)"
proof -
  have c: "\<forall>e \<in> set (ss_orders s). clean_fact e" "\<forall>e \<in> set (ss_courses s). clean_fact e"
    "\<forall>e \<in> set (ss_confirmed s). clean_fact e" "\<forall>e \<in> set (ss_pending s). clean_fact e" "stripped (ss_intent s)"
    using assms by (auto simp: clean_summary_def)
  have h: "order_head \<in> heads" "course_head \<in> heads" "intent_head \<in> heads" "confirmed_head \<in> heads" "pending_head \<in> heads"
    by (simp_all add: heads_def)
  have i: "foldl parse_line (t, l, b) (if ss_intent s \<noteq> [] then [intent_head @ ss_intent s] else []) =
      (if ss_intent s = [] then t else t\<lparr>ss_intent := ss_intent s\<rparr>, l, b \<or> ss_intent s \<noteq> [])" for t l b
    using parse_row [OF h(3), of "ss_intent s" K_Intent t l b] c(5)
    by (simp add: section_of_heads strip_id set_section_def)
  note rows = parse_fact_row [OF c(1) h(1) section_of_heads(1)] parse_fact_row [OF c(2) h(2) section_of_heads(2)]
    parse_fact_row [OF c(3) h(4) section_of_heads(4)] parse_fact_row [OF c(4) h(5) section_of_heads(5)]
  show ?thesis
    unfolding foldl_append rows i
    by (intro exI, simp only: prod.inject, intro conjI refl, rule structured.equality)
      (use c in \<open>simp_all add: no_summary_def set_section_def split_facts_join\<close>)
qed

lemma rendered_rows_clean:
  assumes "clean_summary s" and "r \<in> set (fact_row order_head (ss_orders s) @ fact_row course_head (ss_courses s) @
      (if ss_intent s \<noteq> [] then [intent_head @ ss_intent s] else []) @
      fact_row confirmed_head (ss_confirmed s) @ fact_row pending_head (ss_pending s))"
  shows "r \<noteq> [] \<and> stripped r \<and> (\<forall>c \<in> set r. \<not> is_line_break c)"
proof -
  have fact: "r \<noteq> [] \<and> stripped r \<and> (\<forall>c \<in> set r. \<not> is_line_break c)"
    if "r \<in> set (fact_row h xs)" "\<forall>e \<in> set xs. clean_fact e" "h \<in> heads" for h xs
    using that join_clean [OF that(2)] head_facts [OF that(3)] stripped_row [OF that(3)]
    by (auto simp: fact_row_def split: if_splits)
  have c: "\<forall>e \<in> set (ss_orders s). clean_fact e" "\<forall>e \<in> set (ss_courses s). clean_fact e"
    "\<forall>e \<in> set (ss_confirmed s). clean_fact e" "\<forall>e \<in> set (ss_pending s). clean_fact e" "stripped (ss_intent s)"
    "\<forall>c \<in> set (ss_intent s). \<not> is_line_break c"
    using assms(1) by (auto simp: clean_summary_def)
  have h: "order_head \<in> heads" "course_head \<in> heads" "intent_head \<in> heads" "confirmed_head \<in> heads" "pending_head \<in> heads"
    by (simp_all add: heads_def)
  from assms(2) consider "r \<in> set (fact_row order_head (ss_orders s))" | "r \<in> set (fact_row course_head (ss_courses s))"
    | "ss_intent s \<noteq> []" "r = intent_head @ ss_intent s" | "r \<in> set (fact_row confirmed_head (ss_confirmed s))"
    | "r \<in> set (fact_row pending_head (ss_pending s))" by (auto split: if_splits)
  then show ?thesis
    using fact c h head_facts [OF h(3)] stripped_row [OF h(3) c(5)] by cases auto
qed

lemma render_within_bound: "length (render_within limit s) \<le> limit"
  by (induction limit s rule: render_within.induct) (subst render_within.simps, auto simp: Let_def)

text \<open>
  C14: The text form of a summary. A summary whose facts are free of separators and line
  breaks comes back unchanged when its rendering is parsed, so it survives being kept as text
  in the state from turn to turn; and a rendering with a limit never exceeds it (the limit is
  at least 80 characters), whatever the facts.
\<close>

theorem summary_text_roundtrip:
  "(clean_summary s \<longrightarrow> summary_parse (Some (summary_render s None)) = s) \<and>
   length (finalize_structured slots (Some m) s) \<le> nat (max 80 m)"
proof (intro conjI impI)
  assume c: "clean_summary s"
  define rows where "rows = fact_row order_head (ss_orders s) @ fact_row course_head (ss_courses s) @
      (if ss_intent s \<noteq> [] then [intent_head @ ss_intent s] else []) @
      fact_row confirmed_head (ss_confirmed s) @ fact_row pending_head (ss_pending s)"
  have ok: "\<forall>r \<in> set rows. r \<noteq> [] \<and> stripped r \<and> (\<forall>c \<in> set r. \<not> is_line_break c)"
    using rendered_rows_clean [OF c] unfolding rows_def by blast
  have rendered: "summary_render s None = join [10] rows" by (simp add: summary_render_def render_lines_def rows_def)
  have raw: "strip (join [10] rows) = join [10] rows" by (rule strip_id, rule stripped_join) (use ok in blast)
  obtain b where p: "foldl parse_line (no_summary, [], False) rows = (s, [], b)"
    using parse_rendered_rows [OF c] unfolding rows_def by blast
  show "summary_parse (Some (summary_render s None)) = s"
  proof (cases "rows = []")
    case True
    then have "summary_render s None = []" by (simp add: rendered)
    with p True show ?thesis by (simp add: summary_parse_def)
  next
    case False
    have "split_on is_line_break (join [10] rows) = rows"
      by (rule split_on_join) (use ok False in \<open>auto simp: is_line_break_def\<close>)
    moreover have "join [10] rows \<noteq> []" using ok False by (subst join_nonempty) auto
    ultimately show ?thesis by (simp add: summary_parse_def rendered raw p Let_def)
  qed
next
  show "length (finalize_structured slots (Some m) s) \<le> nat (max 80 m)"
    using render_within_bound by (simp add: finalize_structured_def Let_def summary_render_def resolve_max_chars_def)
qed

definition demo_clean_summary :: structured where
  "demo_clean_summary = \<lparr>ss_orders = [(asc ''20251114001'')], ss_courses = [], ss_intent = [0x67E5, 0x8BA2, 0x5355] \<comment> \<open>order query\<close>,
     ss_confirmed = [refund_review, for_beginners], ss_pending = []\<rparr>"

theorem summary_text_roundtrip_witness:
  "summary_parse (Some (summary_render demo_clean_summary None)) = demo_clean_summary"
proof -
  have "clean_summary demo_clean_summary"
    by (simp add: clean_summary_def clean_fact_def demo_clean_summary_def stripped_def is_space_def is_fact_sep_def
        is_line_break_def refund_review_def for_beginners_def asc_def)
  with summary_text_roundtrip [of demo_clean_summary None 80] show ?thesis by blast
qed

lemma summary_order_no_run: "summary_order_no s = first_long_run s"
  using extract_query_order_no_run by (simp add: summary_order_no_def extract_query_order_no_def)

text \<open>
  The rolling summary mixes up an order and what the customer wants from it. The
  extraction joins two wishes about an order with the separator that also stands between the
  orders, so when the stored text is parsed in the next turn the second wish has become an
  order of its own; three such turns push the real order numbers out of the list of three.
\<close>

lemma second_constraint_becomes_order:
  "(let s = facts_from_one None ([0x8BA2, 0x5355] @ asc ''20251114001'' @ [0x6211, 0x8981, 0x9000, 0x6B3E, 0xFF0C, 0x7269, 0x6D41, 0x5230, 0x54EA, 0x4E86]) \<comment> \<open>refund and where is the parcel\<close> in
      ss_orders s = [(asc ''20251114001 '' @ [0x7528, 0x6237, 0x8981, 0x9000, 0x6B3E, 0xFF1B, 0x5728, 0x8FFD, 0x7269, 0x6D41]) \<comment> \<open>number, refund; tracking\<close>] \<and>
      ss_orders (summary_parse (Some (summary_render (summary_resolve None s) None))) =
        [(asc ''20251114001 '' @ [0x7528, 0x6237, 0x8981, 0x9000, 0x6B3E]) \<comment> \<open>number, refund\<close>, [0x5728, 0x8FFD, 0x7269, 0x6D41] \<comment> \<open>tracking\<close>])"
proof -
  let ?t = "([0x8BA2, 0x5355] @ asc ''20251114001'' @ [0x6211, 0x8981, 0x9000, 0x6B3E, 0xFF0C, 0x7269, 0x6D41, 0x5230, 0x54EA, 0x4E86])"
  have a: "match_labels ?t order_constraints = [[0x7528, 0x6237, 0x8981, 0x9000, 0x6B3E], [0x5728, 0x8FFD, 0x7269, 0x6D41]]"
    by (simp add: match_labels_def order_constraints_def words_def lit_def asc_def)
  have b: "match_labels ?t course_constraints = []"
    by (simp add: match_labels_def course_constraints_def words_def lit_def asc_def)
  have c: "match_labels ?t assistant_conclusions = []"
    by (simp add: match_labels_def assistant_conclusions_def words_def lit_def asc_def)
  have d: "match_labels ?t pending_patterns = []"
    by (simp add: match_labels_def pending_patterns_def words_def lit_def asc_def)
  have e: "summary_order_no ?t = Some (asc ''20251114001'')"
    by (simp add: summary_order_no_run first_long_run.simps is_digit_def digit_starts_def asc_def)
  have f: "extract_course_names ?t = []"
    by (simp add: extract_course_names_def course_heading_re_def course_book_re_def course_label_re_def course_inline_re_def
        find_all.simps lit_def asc_def)
  have facts: "facts_from_one None ?t = \<lparr>ss_orders = [(asc ''20251114001 '' @ [0x7528, 0x6237, 0x8981, 0x9000, 0x6B3E, 0xFF1B, 0x5728, 0x8FFD, 0x7269, 0x6D41])], ss_courses = [],
      ss_intent = [0x67E5, 0x8BA2, 0x5355], ss_confirmed = [[0x7528, 0x6237, 0x8981, 0x9000, 0x6B3E], [0x5728, 0x8FFD, 0x7269, 0x6D41]], ss_pending = []\<rparr>"
    unfolding facts_from_one_def Let_def a b c d e f
    by (simp add: slot_text_def fact_with_suffix_def intent_label_def intent_labels_def
        apply_exclusive_sequence_def exclusive_step_def rivals_of_def exclusive_label_groups_def
        not_for_beginners_def for_beginners_def refund_done_def refund_review_def strip_def is_space_def asc_def)
  have "summary_render (summary_resolve None (facts_from_one None ?t)) None =
      ([0x8BA2, 0x5355, 0xFF1A] @ asc ''20251114001 '' @ [0x7528, 0x6237, 0x8981, 0x9000, 0x6B3E, 0xFF1B, 0x5728, 0x8FFD, 0x7269, 0x6D41, 10, 0x610F, 0x56FE, 0xFF1A, 0x67E5, 0x8BA2, 0x5355, 10, 0x5DF2, 0x786E, 0x8BA4, 0xFF1A, 0x7528, 0x6237, 0x8981, 0x9000, 0x6B3E, 0xFF1B, 0x5728, 0x8FFD, 0x7269, 0x6D41])"
    unfolding facts by (simp add: summary_resolve_def Let_def slot_text_def summary_render_def render_lines_def fact_row_def
        order_head_def intent_head_def confirmed_head_def
        apply_exclusive_sequence_def exclusive_step_def rivals_of_def exclusive_label_groups_def
        not_for_beginners_def for_beginners_def refund_done_def refund_review_def strip_def is_space_def last_n_def asc_def)
  note shown = this
  have "ss_orders (summary_parse (Some ([0x8BA2, 0x5355, 0xFF1A] @ asc ''20251114001 '' @ [0x7528, 0x6237, 0x8981, 0x9000, 0x6B3E, 0xFF1B, 0x5728, 0x8FFD, 0x7269, 0x6D41, 10, 0x610F, 0x56FE, 0xFF1A, 0x67E5, 0x8BA2, 0x5355, 10, 0x5DF2, 0x786E, 0x8BA4, 0xFF1A, 0x7528, 0x6237, 0x8981, 0x9000, 0x6B3E, 0xFF1B, 0x5728, 0x8FFD, 0x7269, 0x6D41]))) =
      [(asc ''20251114001 '' @ [0x7528, 0x6237, 0x8981, 0x9000, 0x6B3E]), [0x5728, 0x8FFD, 0x7269, 0x6D41]]"
    by (simp add: summary_parse_def Let_def strip_def is_space_def is_line_break_def parse_line_def section_of_def
        section_names_def is_colon_def set_section_def split_facts_def is_fact_sep_def no_summary_def asc_def)
  then show ?thesis unfolding Let_def unfolding shown unfolding facts by simp
qed

end
