(* ===== verification/Compress.thy ===== *)
theory Compress
  imports Summary "HOL-Library.Multiset"
begin

text \<open>
  Graded compression of a conversation (\<open>app/context/summary/\<close>: \<open>scoring.py\<close>,
  \<open>rag_compact.py\<close>, \<open>llm.py\<close>, \<open>compress.py\<close>): messages are scored, whole turns are kept,
  summarised or discarded, what is still over budget is cut, and the facts of what leaves go
  into the rolling summary. The code tells message objects apart by \<open>id(m)\<close>; here each message
  carries its position in the conversation. The model that writes the summary is a parameter.
\<close>

type_synonym posmsg = "nat \<times> message"

section \<open>Scores\<close>

definition is_cjk :: "nat \<Rightarrow> bool" where
  "is_cjk c \<longleftrightarrow> 0x4E00 \<le> c \<and> c \<le> 0x9FFF"

definition is_ascii_word :: "nat \<Rightarrow> bool" where
  "is_ascii_word c \<longleftrightarrow> (65 \<le> c \<and> c \<le> 90) \<or> (97 \<le> c \<and> c \<le> 122) \<or> (48 \<le> c \<and> c \<le> 57)"

definition cjk_tokens :: "ustr \<Rightarrow> ustr list" where
  "cjk_tokens run = (if length run = 1 then [run] else map (\<lambda>i. take 2 (drop i run)) [0..<length run - 1])"

definition text_tokens :: "ustr \<Rightarrow> ustr list" where
  "text_tokens t = remdups (concat (map cjk_tokens (find_all (Many is_cjk 1 None) [] t)) @
     map lower (find_all (Many is_ascii_word 2 None) [] t))"

definition relevance_score :: "ustr \<Rightarrow> ustr \<Rightarrow> rat" where
  "relevance_score t query =
     (if query = [] \<or> t = [] then 0
      else let a = text_tokens t; b = text_tokens query; u = remdups (a @ b)
        in if u = [] then 0 else of_nat (length (filter (\<lambda>x. x \<in> set b) a)) / of_nat (length u))"

definition recency_score :: "nat \<Rightarrow> nat \<Rightarrow> rat" where
  "recency_score i n = (if n = 0 then 0 else max 0 (1 - of_nat (n - 1 - i) / 5 * (1/10)))"

definition slot_keywords :: "session_slots option \<Rightarrow> ustr \<Rightarrow> ustr list" where
  "slot_keywords slots t = (case slots of None \<Rightarrow> [] | Some s \<Rightarrow>
     filter (\<lambda>v. length v \<ge> 2 \<and> occurs v t)
       (map (\<lambda>v. strip (str_or_empty v)) [last_order_no s, last_course_name s, last_course_query s]))"

definition frequency_score :: "ustr \<Rightarrow> message list \<Rightarrow> session_slots option \<Rightarrow> rat" where
  "frequency_score t later slots =
     (let keywords = slot_keywords slots t
      in if t = [] \<or> later = [] \<or> keywords = [] then 0
         else min 1 (of_nat (length (filter (\<lambda>m. any_in keywords (msg_text m)) later)) * (2/10)))"

fun index_of :: "'a \<Rightarrow> 'a list \<Rightarrow> nat" where
  "index_of x [] = 0"
| "index_of x (y # ys) = (if x = y then 0 else Suc (index_of x ys))"

definition score_message :: "message \<Rightarrow> message list \<Rightarrow> ustr \<Rightarrow> session_slots option \<Rightarrow> bool \<Rightarrow> rat" where
  "score_message m ms query slots marked =
     (if strip (msg_text m) = [] then 0
      else let i = (if m \<in> set ms then index_of m ms else length ms - 1)
        in relevance_score (msg_text m) query * (4/10) + recency_score i (length ms) * (3/10) +
           frequency_score (msg_text m) (drop (i + 1) ms) slots * (2/10) + (if marked then 1 else 0) * (1/10))"

section \<open>Turns\<close>

definition is_system :: "message \<Rightarrow> bool" where
  "is_system m \<longleftrightarrow> msg_role m = System"

fun partition_loop ::
  "posmsg list \<Rightarrow> posmsg list \<Rightarrow> posmsg list list \<Rightarrow> posmsg list \<Rightarrow> posmsg list \<times> posmsg list list" where
  "partition_loop [] systems turns current = (systems, if current \<noteq> [] then turns @ [current] else turns)"
| "partition_loop ((i, m) # rest) systems turns current =
     (if is_system m
      then partition_loop rest (systems @ [(i, m)]) (if current \<noteq> [] then turns @ [current] else turns) []
      else if is_human m \<and> current \<noteq> [] \<and> (\<exists>x \<in> set current. is_ai (snd x))
      then partition_loop rest systems (turns @ [current]) [(i, m)]
      else if is_ai m \<and> current \<noteq> [] \<and> (\<forall>x \<in> set current. \<not> is_human (snd x))
      then partition_loop rest systems (turns @ [current]) [(i, m)]
      else partition_loop rest systems turns (current @ [(i, m)]))"

definition partition_turns :: "posmsg list \<Rightarrow> posmsg list \<times> posmsg list list" where
  "partition_turns ms = partition_loop ms [] [] []"

section \<open>Compacting long course answers\<close>

definition rag_title_re :: re where
  "rag_title_re = Cat (NotBehind (\<lambda>c. c \<noteq> 10)) (Cat (lit (asc ''##'')) (Cat (Many is_space 1 None) (Cls (\<lambda>c. \<not> is_space c))))"

definition is_long_rag_reply :: "ustr \<Rightarrow> bool" where
  "is_long_rag_reply t =
     (if length t < 400 then False
      else search rag_title_re [] t \<noteq> None \<and> (occurs (asc ''### '' @ [0x8BFE, 0x7A0B, 0x6A21, 0x5757]) \<comment> \<open>course modules\<close> t \<or> occurs (asc ''### '' @ [0x5B66, 0x4E60, 0x8DEF, 0x5F84]) \<comment> \<open>learning path\<close> t))"

fun compact_loop :: "ustr list \<Rightarrow> ustr \<Rightarrow> ustr list \<Rightarrow> ustr \<times> ustr list" where
  "compact_loop [] title parts = (title, parts)"
| "compact_loop (line # rest) title parts =
     (let s = strip line in
      if title = [] \<and> starts_with (asc ''## '') s then compact_loop rest (strip (drop 3 s)) parts
      else if starts_with (asc ''###'') s then (title, parts)
      else if s \<noteq> []
      then (let parts = parts @ [s] in
        if length (join [32] parts) \<ge> 180 then (title, parts) else compact_loop rest title parts)
      else compact_loop rest title parts)"

definition compact_rag_text :: "ustr \<Rightarrow> ustr" where
  "compact_rag_text t =
     (let (title, parts) = compact_loop (split_on is_line_break t) [] [];
          body = take 180 (join [32] parts);
          head = (if title \<noteq> [] then (asc ''## '') @ title else (asc ''## '' @ [0x8BFE, 0x7A0B, 0x54A8, 0x8BE2]) \<comment> \<open>course advice\<close>)
      in if body \<noteq> [] then strip (head @ [10] @ body) else head)"

definition compact_rag_history :: "ustr \<Rightarrow> ustr" where
  "compact_rag_history t = (if \<not> is_long_rag_reply t then t else compact_rag_text t)"

definition compact_rag_message :: "message \<Rightarrow> message" where
  "compact_rag_message m = (if \<not> is_ai m then m else m\<lparr>msg_text := compact_rag_history (msg_text m)\<rparr>)"

definition has_id :: "message \<Rightarrow> bool" where
  "has_id m \<longleftrightarrow> truthy (msg_id m)"

definition apply_rag_compact :: "posmsg list \<Rightarrow> posmsg list \<times> message list" where
  "apply_rag_compact ms =
     (map (\<lambda>(i, m). (i, compact_rag_message m)) ms,
      map (\<lambda>(i, m). compact_rag_message m)
        (filter (\<lambda>(i, m). compact_rag_message m \<noteq> m \<and> has_id m) ms))"

section \<open>The model's summary\<close>

definition business_signals :: "ustr list" where
  "business_signals = [[0x8BA2, 0x5355] \<comment> \<open>order\<close>, [0x9000, 0x6B3E] \<comment> \<open>refund\<close>, [0x9000, 0x94B1] \<comment> \<open>money back\<close>, [0x7269, 0x6D41] \<comment> \<open>shipping\<close>, [0x5FEB, 0x9012] \<comment> \<open>courier\<close>, [0x53D1, 0x8D27] \<comment> \<open>sent\<close>,
     [0x53D6, 0x6D88] \<comment> \<open>cancel\<close>, [0x8FDB, 0x5EA6] \<comment> \<open>progress\<close>, [0x8BFE, 0x7A0B] \<comment> \<open>course\<close>, [0x5927, 0x7EB2] \<comment> \<open>outline\<close>, [0x6A21, 0x5757] \<comment> \<open>module\<close>, [0x5B66, 0x8D39] \<comment> \<open>fee\<close>, [0x4EF7, 0x683C] \<comment> \<open>price\<close>,
     [0x591A, 0x5C11, 0x94B1] \<comment> \<open>how much\<close>, [0x96F6, 0x57FA, 0x7840] \<comment> \<open>no basis\<close>, [0x9002, 0x5408] \<comment> \<open>suits\<close>, [0x4ED8, 0x8D39] \<comment> \<open>paid\<close>, [0x63A8, 0x8350] \<comment> \<open>recommend\<close>, [0x592A, 0x96BE] \<comment> \<open>too hard\<close>,
     [0x5F88, 0x96BE] \<comment> \<open>very hard\<close>, [0x504F, 0x96BE] \<comment> \<open>rather hard\<close>, [0x8F6C, 0x4EBA, 0x5DE5] \<comment> \<open>to a person\<close>, [0x8F6C, 0x63A5] \<comment> \<open>transfer\<close>, [0x5F00, 0x8BFE] \<comment> \<open>course start\<close>,
     [0x5B66, 0x4EC0, 0x4E48] \<comment> \<open>learn what\<close>, [0x8BB2, 0x4EC0, 0x4E48] \<comment> \<open>teaches what\<close>, [0x4E0D, 0x60F3, 0x5B66] \<comment> \<open>does not want to learn\<close>, [0x6539, 0x4E3B, 0x610F] \<comment> \<open>changed mind\<close>,
     [0x522B, 0x63A8] \<comment> \<open>do not push\<close>, [0x4E0D, 0x8981, 0x63A8] \<comment> \<open>do not push\<close>, [0x522B, 0x63A8, 0x8350] \<comment> \<open>do not recommend\<close>, [0x4E0D, 0x8981, 0x63A8, 0x8350] \<comment> \<open>do not recommend\<close>]"

definition overflow_has_business_signal :: "message list \<Rightarrow> bool" where
  "overflow_has_business_signal ms \<longleftrightarrow> (\<exists>m \<in> set ms. let t = strip (msg_text m) in t \<noteq> [] \<and>
     (summary_order_no t \<noteq> None \<or> any_in business_signals t \<or> extract_course_names t \<noteq> []))"

definition should_invoke_llm_summary :: "message list \<Rightarrow> structured \<Rightarrow> structured \<Rightarrow> bool" where
  "should_invoke_llm_summary ms existing delta =
     (if ms = [] then False else if novel_against delta existing then True else overflow_has_business_signal ms)"

datatype prepared_summary = Prepared_Done ustr | Prepared_Invoke structured structured ustr

definition summary_message_line :: "message \<Rightarrow> ustr list" where
  "summary_message_line m =
     (let role = (if is_human m then [0x7528, 0x6237] \<comment> \<open>user\<close> else [0x52A9, 0x624B] \<comment> \<open>assistant\<close>); t = replace_all [10] [32] (strip (msg_text m))
      in if t \<noteq> [] then [role @ [0xFF1A] \<comment> \<open>:\<close> @ take 200 t] else [])"

definition slot_hint :: "session_slots option \<Rightarrow> ustr" where
  "slot_hint slots = (case slots of None \<Rightarrow> [] | Some s \<Rightarrow>
     [0x69FD, 0x4F4D, 0x5DF2, 0x6709, 0xFF1A, 0x8BA2, 0x5355, 61] \<comment> \<open>slots: order=\<close> @ str_or_empty (or_opt (last_order_no s) (Some [0x65E0] \<comment> \<open>none\<close>)) @
     [0xFF1B, 0x8BFE, 0x7A0B, 61] \<comment> \<open>course=\<close> @ str_or_empty (or_opt (last_course_name s) (Some [0x65E0] \<comment> \<open>none\<close>)) @
     [0xFF1B, 0x610F, 0x56FE, 61] \<comment> \<open>intent=\<close> @ str_or_empty (or_opt (last_intent s) (Some [0x65E0] \<comment> \<open>none\<close>)) @ [0x3002, 10] \<comment> \<open>.\<close>)"

definition prepare_llm_summary ::
  "message list \<Rightarrow> ustr \<Rightarrow> int option \<Rightarrow> session_slots option \<Rightarrow> prepared_summary" where
  "prepare_llm_summary ms existing_summary max_chars slots =
     (let existing = summary_parse (Some existing_summary); delta = extract_summary_facts ms slots in
      if ms = [] then Prepared_Done (finalize_summary slots max_chars (Some existing_summary))
      else if \<not> should_invoke_llm_summary ms existing delta
      then Prepared_Done (fold_session_summary (Some existing_summary) ms max_chars slots)
      else let rows = concat (map summary_message_line ms) in
        if rows = [] then Prepared_Done (finalize_structured slots max_chars existing)
        else Prepared_Invoke existing delta
          (slot_hint slots @ [0x5DF2, 0x6709, 0x6458, 0x8981, 0xFF1A, 10] \<comment> \<open>existing summary\<close> @ or_str (summary_render existing None) [0xFF08, 0x7A7A, 0xFF09] \<comment> \<open>(empty)\<close> @
           [10, 10, 0x6EA2, 0x51FA, 0x6D88, 0x606F, 0xFF1A, 10] \<comment> \<open>overflowing messages\<close> @ join [10] rows))"

definition merge_llm_summary_text ::
  "ustr \<Rightarrow> structured \<Rightarrow> structured \<Rightarrow> ustr \<Rightarrow> message list \<Rightarrow> int option \<Rightarrow> session_slots option \<Rightarrow> ustr" where
  "merge_llm_summary_text answer existing delta existing_summary ms max_chars slots =
     (if answer = [] then fold_session_summary (Some existing_summary) ms max_chars slots
      else let llm_delta = summary_parse (Some answer);
               llm_delta = (if \<not> has_content llm_delta
                 then no_summary\<lparr>ss_confirmed := [take 120 (strip (replace_all [10] [32] answer))]\<rparr> else llm_delta)
           in finalize_structured slots max_chars (summary_merge (summary_merge existing llm_delta) delta))"

text \<open>\<open>ask\<close> is the model's answer to the user block, \<open>None\<close> when the call raises.\<close>

definition llm_batch_summarize ::
  "(ustr \<Rightarrow> ustr option) \<Rightarrow> message list \<Rightarrow> ustr \<Rightarrow> int option \<Rightarrow> session_slots option \<Rightarrow> ustr" where
  "llm_batch_summarize ask ms existing_summary max_chars slots =
     (case prepare_llm_summary ms existing_summary max_chars slots of
        Prepared_Done r \<Rightarrow> r
      | Prepared_Invoke existing delta block \<Rightarrow>
          (case ask block of
             None \<Rightarrow> fold_session_summary (Some existing_summary) ms max_chars slots
           | Some answer \<Rightarrow> merge_llm_summary_text (strip answer) existing delta existing_summary ms max_chars slots))"

section \<open>Compression\<close>

record compress_result =
  cr_kept :: "posmsg list"
  cr_summarized :: "posmsg list"
  cr_discarded :: "posmsg list"
  cr_summary :: ustr
  cr_updated :: "message list"

record compress_plan =
  cp_kept :: "posmsg list"
  cp_summarized :: "posmsg list"
  cp_discarded :: "posmsg list"
  cp_overflow :: "posmsg list"
  cp_updated :: "message list"

record compress_args =
  ca_query :: ustr
  ca_budget :: int
  ca_slots :: "session_slots option"
  ca_keep_recent :: nat
  ca_discard :: rat
  ca_summarize :: rat
  ca_max_messages :: nat
  ca_existing :: ustr
  ca_use_llm :: bool
  ca_max_chars :: "int option"

definition turn_cost :: "tokenizer \<Rightarrow> posmsg list \<Rightarrow> int" where
  "turn_cost tk turn = sum_list (map (message_token_count tk \<circ> snd) turn)"

text \<open>The loop over the reversed turns, with the turns from the break on as its overflow.\<close>

fun select_turns ::
  "tokenizer \<Rightarrow> int \<Rightarrow> nat \<Rightarrow> posmsg list list \<Rightarrow> posmsg list list \<Rightarrow> int \<Rightarrow> posmsg list list \<times> posmsg list list" where
  "select_turns tk budget min_keep [] selected used = (selected, [])"
| "select_turns tk budget min_keep (turn # rest) selected used =
     (if selected \<noteq> [] \<and> used + turn_cost tk turn > budget \<and> length (concat selected) \<ge> min_keep
      then (selected, rev (turn # rest))
      else select_turns tk budget min_keep rest (selected @ [turn]) (used + turn_cost tk turn))"

definition split_kept_by_budget ::
  "tokenizer \<Rightarrow> posmsg list \<Rightarrow> int \<Rightarrow> ustr \<Rightarrow> nat \<Rightarrow> posmsg list \<times> posmsg list" where
  "split_kept_by_budget tk kept token_budget digest keep_recent =
     (if kept = [] then ([], [])
      else let budget = max 1 (token_budget - prompt_summary_tokens tk (Some digest));
               (systems, turns) = partition_turns kept;
               rest_budget = max 1 (budget - turn_cost tk systems);
               body_count = max 1 (length kept - length systems);
               min_keep = min (max 1 keep_recent) body_count;
               (selected, overflow_head) = select_turns tk rest_budget min_keep (rev turns) [] 0;
               keep_ids = map fst (concat (rev selected)) @ map fst systems
           in (filter (\<lambda>(i, m). i \<in> set keep_ids) kept, concat overflow_head))"

definition drop_updated :: "posmsg list \<Rightarrow> message list \<Rightarrow> message list" where
  "drop_updated overflow updated =
     (let ids = map (msg_id \<circ> snd) (filter (\<lambda>(i, m). msg_id m \<noteq> None) overflow)
      in filter (\<lambda>m. msg_id m \<notin> set ids) updated)"

datatype fate = Keep | Summarize | Discard

definition turn_fate :: "compress_args \<Rightarrow> message list \<Rightarrow> posmsg list \<Rightarrow> fate" where
  "turn_fate a ms turn =
     (let recent_start = length ms - ca_keep_recent a;
          scores = map (\<lambda>(i, m). score_message m ms (ca_query a) (ca_slots a) False) turn;
          score = (if scores = [] then 0 else Max (set scores))
      in if fst (last turn) \<ge> recent_start then Keep
         else if score < ca_discard a then Discard
         else if score < ca_summarize a then Summarize else Keep)"

definition plan_compression ::
  "tokenizer \<Rightarrow> compress_args \<Rightarrow> message list \<Rightarrow> compress_result + compress_plan" where
  "plan_compression tk a ms =
     (let finished = finalize_summary (ca_slots a) (ca_max_chars a) (Some (ca_existing a));
          indexed = enumerate 0 ms
      in if ms = []
         then Inl \<lparr>cr_kept = [], cr_summarized = [], cr_discarded = [], cr_summary = finished, cr_updated = []\<rparr>
         else if sum_list (map (message_token_count tk) ms) + prompt_summary_tokens tk (Some (ca_existing a)) \<le> ca_budget a \<and>
           length ms \<le> ca_max_messages a
         then (let (kept, updated) = apply_rag_compact indexed
           in Inl \<lparr>cr_kept = kept, cr_summarized = [], cr_discarded = [], cr_summary = finished, cr_updated = updated\<rparr>)
         else let (systems, turns) = partition_turns indexed;
                  fate = turn_fate a ms;
                  compact = map (\<lambda>(i, m). (i, compact_rag_message m));
                  keep_ids = map fst systems @ map fst (concat (filter (\<lambda>t. fate t = Keep) turns));
                  discarded = concat (filter (\<lambda>t. fate t = Discard) turns);
                  summarized = compact (concat (filter (\<lambda>t. fate t = Summarize) turns));
                  overflow = concat (map (\<lambda>t. case fate t of Keep \<Rightarrow> [] | Discard \<Rightarrow> t | Summarize \<Rightarrow> compact t) turns);
                  compact_kept = (\<lambda>(i, m). (i, if is_system m then m else compact_rag_message m));
                  kept = map compact_kept (filter (\<lambda>(i, m). i \<in> set keep_ids) indexed);
                  updated = map (\<lambda>(i, m). compact_rag_message m)
                    (filter (\<lambda>(i, m). i \<in> set keep_ids \<and> \<not> is_system m \<and> compact_rag_message m \<noteq> m) indexed);
                  (kept, fallback) = split_kept_by_budget tk kept (ca_budget a) (ca_existing a) (ca_keep_recent a)
              in Inr \<lparr>cp_kept = kept, cp_summarized = summarized @ fallback, cp_discarded = discarded,
                   cp_overflow = overflow @ fallback, cp_updated = drop_updated fallback updated\<rparr>)"

definition finalize_compression :: "tokenizer \<Rightarrow> compress_args \<Rightarrow> compress_plan \<Rightarrow> ustr \<Rightarrow> compress_result" where
  "finalize_compression tk a p digest =
     (let (kept, extra) = split_kept_by_budget tk (cp_kept p) (ca_budget a) digest (ca_keep_recent a);
          summarized = (if extra \<noteq> [] then cp_summarized p @ extra else cp_summarized p);
          updated = (if extra \<noteq> [] then drop_updated extra (cp_updated p) else cp_updated p);
          digest = (if extra \<noteq> [] then fold_session_summary (Some digest) (map snd extra) (ca_max_chars a) (ca_slots a) else digest)
      in \<lparr>cr_kept = kept, cr_summarized = summarized, cr_discarded = cp_discarded p,
          cr_summary = finalize_summary (ca_slots a) (ca_max_chars a) (Some digest), cr_updated = updated\<rparr>)"

definition run_compression ::
  "tokenizer \<Rightarrow> (ustr \<Rightarrow> ustr option) \<Rightarrow> compress_args \<Rightarrow> message list \<Rightarrow> compress_result" where
  "run_compression tk ask a ms =
     (case plan_compression tk a ms of
        Inl r \<Rightarrow> r
      | Inr p \<Rightarrow>
          let overflow = map snd (cp_overflow p);
              digest = (if overflow = [] then ca_existing a
                else if ca_use_llm a
                then llm_batch_summarize ask overflow (ca_existing a) (ca_max_chars a) (ca_slots a)
                else fold_session_summary (Some (ca_existing a)) overflow (ca_max_chars a) (ca_slots a))
          in finalize_compression tk a p digest)"

section \<open>Turns partition the conversation\<close>

definition sys :: "posmsg \<Rightarrow> bool" where
  "sys x \<longleftrightarrow> is_system (snd x)"

lemma partition_loop_spec:
  "partition_loop ms systems turns current = (s, ts) \<Longrightarrow>
     s = systems @ filter sys ms \<and> concat ts = concat turns @ current @ filter (\<lambda>x. \<not> sys x) ms \<and>
     ([] \<notin> set turns \<longrightarrow> [] \<notin> set ts)"
proof (induction ms systems turns current rule: partition_loop.induct)
  case (1 systems turns current)
  then show ?case by (auto split: if_splits)
next
  case (2 i m rest systems turns current)
  then show ?case by (auto simp: sys_def split: if_splits)
qed

lemma partition_turns_spec:
  assumes "partition_turns ms = (s, ts)"
  shows "s = filter sys ms" "concat ts = filter (\<lambda>x. \<not> sys x) ms" "[] \<notin> set ts"
  using partition_loop_spec [OF assms [unfolded partition_turns_def]] by simp_all

lemma select_turns_spec:
  "select_turns tk budget k rest sel used = (sel', over) \<Longrightarrow>
     over @ rev sel' = rev rest @ rev sel \<and> (rest \<noteq> [] \<or> sel \<noteq> [] \<longrightarrow> sel' \<noteq> [] \<and> hd sel' = hd (sel @ rest))"
proof (induction tk budget k rest sel used arbitrary: sel' over rule: select_turns.induct)
  case (1 tk budget k sel used)
  then show ?case by auto
next
  case (2 tk budget k turn rest sel used)
  then show ?case by (auto split: if_splits simp: hd_append)
qed

text \<open>Picking by identity out of a list whose identities are distinct.\<close>

lemma mset_pick:
  assumes "distinct (map fst xs)" and "mset xs = mset A + mset B"
  shows "mset (filter (\<lambda>(i, m). i \<in> set (map fst A)) xs) = mset A"
proof -
  let ?P = "\<lambda>(i, m). i \<in> set (map fst A)"
  have "mset (map fst xs) = mset (map fst A @ map fst B)" using assms(2) by (simp add: mset_map)
  then have d: "distinct (map fst A @ map fst B)" using assms(1) by (metis mset_eq_imp_distinct_iff)
  have "mset (filter ?P xs) = filter_mset ?P (mset A) + filter_mset ?P (mset B)"
    by (simp only: mset_filter assms(2) filter_union_mset)
  also have "filter_mset ?P (mset A) = mset A" by (force simp: filter_mset_eq_conv)
  also have "filter_mset ?P (mset B) = {#}" using d by (force simp: filter_mset_eq_mempty_iff)
  finally show ?thesis by simp
qed

lemma split_kept_spec:
  assumes "split_kept_by_budget tk kept b d k = (out, over)" and "distinct (map fst kept)"
  shows "mset kept = mset out + mset over" "\<exists>P. out = filter P kept"
    "\<forall>x \<in> set kept. sys x \<longrightarrow> x \<in> set out" "kept \<noteq> [] \<and> \<not> sys (last kept) \<longrightarrow> last kept \<in> set out"
proof -
  obtain s ts where p: "partition_turns kept = (s, ts)" by (metis surj_pair)
  obtain sel oh where st: "select_turns tk (max 1 (max 1 (b - prompt_summary_tokens tk (Some d)) - turn_cost tk s))
      (min (max 1 k) (max 1 (length kept - length s))) (rev ts) [] 0 = (sel, oh)" by (metis surj_pair)
  have io: "out = filter (\<lambda>(i, m). i \<in> set (map fst (concat (rev sel) @ s))) kept \<and> over = concat oh" if "kept \<noteq> []"
    using assms(1) that p st by (auto simp: split_kept_by_budget_def Let_def)
  have ts: "ts = oh @ rev sel" "ts \<noteq> [] \<Longrightarrow> sel \<noteq> [] \<and> hd sel = last ts"
    using select_turns_spec [OF st] by (simp_all add: hd_rev)
  note ps = partition_turns_spec [OF p]
  have "mset kept = mset s + mset (concat ts)" unfolding ps by (simp add: mset_filter)
  then have m: "mset kept = mset (concat (rev sel) @ s) + mset (concat oh)" by (simp add: ts(1))
  show out: "mset kept = mset out + mset over"
    using io mset_pick [OF assms(2) m] m assms(1) by (cases "kept = []") (auto simp: split_kept_by_budget_def)
  show "\<exists>P. out = filter P kept" using io assms(1) by (cases "kept = []") (auto simp: split_kept_by_budget_def)
  show "\<forall>x \<in> set kept. sys x \<longrightarrow> x \<in> set out" using io ps(1) by (cases "kept = []") force+
  show "kept \<noteq> [] \<and> \<not> sys (last kept) \<longrightarrow> last kept \<in> set out"
  proof
    assume k: "kept \<noteq> [] \<and> \<not> sys (last kept)"
    then have "last (filter (\<lambda>x. \<not> sys x) kept) = last kept" "filter (\<lambda>x. \<not> sys x) kept \<noteq> []"
      by (cases kept rule: rev_cases; simp)+
    with ps(2) have c: "last (concat ts) = last kept" "concat ts \<noteq> []" by simp_all
    then have "ts \<noteq> []" by auto
    then have "last ts \<noteq> []" using ps(3) by (metis last_in_set)
    then have "last kept \<in> set (last ts)" using c by (metis append_butlast_last_id concat.simps concat_append last_append last_in_set append_Nil2)
    moreover have "last ts \<in> set sel" using ts(2) \<open>ts \<noteq> []\<close> by (metis hd_in_set)
    ultimately have "last kept \<in> set (concat (rev sel))" by auto
    with io k show "last kept \<in> set out" by (auto simp: case_prod_beta image_iff)
  qed
qed


section \<open>Nothing is lost and nothing is counted twice\<close>

definition shrink :: "posmsg \<Rightarrow> posmsg" where
  "shrink = (\<lambda>(i, m). (i, if is_system m then m else compact_rag_message m))"

lemma fst_shrink [simp]: "fst (shrink x) = fst x"
  by (simp add: shrink_def case_prod_beta)

lemma map_fst_shrink [simp]: "map fst (map shrink xs) = map fst xs"
  by simp

lemma sys_shrink [simp]: "sys (shrink x) = sys x"
  by (auto simp: sys_def shrink_def is_system_def compact_rag_message_def split: prod.splits)

lemma enumerate_fst [simp]: "map fst (enumerate 0 xs) = [0..<length xs]"
  by (simp add: enumerate_eq_zip)

lemma mset_by_fate:
  "mset (concat ts) = mset (concat (filter (\<lambda>t. fate t = Keep) ts)) + mset (concat (filter (\<lambda>t. fate t = Summarize) ts)) +
     mset (concat (filter (\<lambda>t. fate t = Discard) ts))"
proof (induction ts)
  case (Cons t ts)
  then show ?case by (cases "fate t") (simp_all add: ac_simps)
qed simp

definition positions :: "posmsg list \<Rightarrow> nat multiset" where
  "positions xs = mset (map fst xs)"

lemma positions_append [simp]: "positions (xs @ ys) = positions xs + positions ys"
  by (simp add: positions_def)

lemma positions_cong: "mset xs = mset ys + mset zs \<Longrightarrow> positions xs = positions ys + positions zs"
  by (simp add: positions_def)

text \<open>A part of the conversation: messages at their positions, as they were or compacted.\<close>

definition part_of :: "message list \<Rightarrow> posmsg list \<Rightarrow> bool" where
  "part_of ms xs \<longleftrightarrow> (\<forall>(i, m) \<in> set xs. i < length ms \<and> (m = ms ! i \<or> m = compact_rag_message (ms ! i)))"

lemma part_of_append [simp]: "part_of ms (xs @ ys) \<longleftrightarrow> part_of ms xs \<and> part_of ms ys"
  by (auto simp: part_of_def)

lemma part_of_subset: "part_of ms ys \<Longrightarrow> set xs \<subseteq> set ys \<Longrightarrow> part_of ms xs"
  unfolding part_of_def by blast

lemma part_of_enumerate: "set xs \<subseteq> set (enumerate 0 ms) \<Longrightarrow> part_of ms xs"
  by (auto simp: part_of_def in_set_enumerate_eq dest!: subsetD)

lemma part_of_shrink:
  "set xs \<subseteq> set (enumerate 0 ms) \<Longrightarrow> part_of ms (map shrink xs)"
  "set xs \<subseteq> set (enumerate 0 ms) \<Longrightarrow> part_of ms (map (\<lambda>(i, m). (i, compact_rag_message m)) xs)"
  by (auto simp: part_of_def in_set_enumerate_eq shrink_def dest!: subsetD)

text \<open>What a split of the conversation into kept, summarised and discarded messages satisfies.\<close>

definition splits_conversation ::
  "message list \<Rightarrow> posmsg list \<Rightarrow> posmsg list \<Rightarrow> posmsg list \<Rightarrow> bool" where
  "splits_conversation ms kept summarized discarded \<longleftrightarrow>
     positions kept + positions summarized + positions discarded = mset [0..<length ms] \<and>
     sorted (map fst kept) \<and> part_of ms kept \<and> part_of ms summarized \<and> part_of ms discarded \<and>
     (\<forall>i < length ms. is_system (ms ! i) \<longrightarrow> i \<in> set (map fst kept)) \<and>
     (ms \<noteq> [] \<and> \<not> is_system (last ms) \<longrightarrow> kept \<noteq> [] \<and> fst (last kept) = length ms - 1)"

lemma splits_distinct: "splits_conversation ms kept summ disc \<Longrightarrow> distinct (map fst kept)"
proof -
  assume "splits_conversation ms kept summ disc"
  then have "mset (map fst kept @ map fst summ @ map fst disc) = mset [0..<length ms]"
    by (simp add: splits_conversation_def positions_def ac_simps)
  then have "distinct (map fst kept @ map fst summ @ map fst disc)" by (metis distinct_upt mset_eq_imp_distinct_iff)
  then show ?thesis by simp
qed

lemma last_filter_in: "last xs \<in> set (filter P xs) \<Longrightarrow> filter P xs \<noteq> [] \<and> last (filter P xs) = last xs"
  by (cases xs rule: rev_cases) auto

lemma part_of_system: "part_of ms xs \<Longrightarrow> (i, m) \<in> set xs \<Longrightarrow> is_system m = is_system (ms ! i)"
proof -
  have c: "is_system (compact_rag_message x) = is_system x" for x
    by (simp add: is_system_def compact_rag_message_def)
  assume "part_of ms xs" "(i, m) \<in> set xs"
  then have "m = ms ! i \<or> m = compact_rag_message (ms ! i)" unfolding part_of_def by blast
  then show ?thesis using c by metis
qed

text \<open>Cutting the kept messages down to the budget keeps the split a split.\<close>

lemma split_step:
  assumes sp: "splits_conversation ms kept summ disc" and cut: "split_kept_by_budget tk kept b d k = (out, over)"
  shows "splits_conversation ms out (summ @ over) disc"
proof -
  note d = splits_distinct [OF sp]
  note c = split_kept_spec [OF cut d]
  from c(2) obtain P where P: "out = filter P kept" by blast
  have pos: "positions kept = positions out + positions over" by (rule positions_cong [OF c(1)])
  have sub: "set out \<subseteq> set kept" "set over \<subseteq> set kept"
    using c(1) by (metis mset_subset_eq_add_left set_mset_mono set_mset_mset, metis mset_subset_eq_add_right set_mset_mono set_mset_mset)
  have part: "part_of ms kept" using sp by (simp add: splits_conversation_def)
  have sysk: "i \<in> set (map fst out)" if "i < length ms" "is_system (ms ! i)" for i
  proof -
    from that sp have "i \<in> set (map fst kept)" by (simp add: splits_conversation_def)
    then obtain m where m: "(i, m) \<in> set kept" by auto
    then have "sys (i, m)" using part_of_system [OF part m] that by (simp add: sys_def)
    with m c(3) show ?thesis by force
  qed
  have lastk: "out \<noteq> [] \<and> fst (last out) = length ms - 1" if "ms \<noteq> []" "\<not> is_system (last ms)"
  proof -
    have l: "kept \<noteq> []" "fst (last kept) = length ms - 1" using sp that by (auto simp: splits_conversation_def)
    have "(fst (last kept), snd (last kept)) \<in> set kept" using l(1) by simp
    then have "\<not> sys (last kept)"
      using l part_of_system [OF part, of "fst (last kept)" "snd (last kept)"] that
      by (simp add: sys_def last_conv_nth [OF that(1)])
    with c(4) l have "last kept \<in> set (filter P kept)" by (simp add: P)
    from last_filter_in [OF this] l P show ?thesis by simp
  qed
  have "sorted (map fst out)" unfolding P by (rule sorted_filter) (use sp in \<open>simp add: splits_conversation_def\<close>)
  with sp pos sub part sysk lastk show ?thesis
    by (auto simp: splits_conversation_def ac_simps intro: part_of_subset)
qed

lemma graded_turns_split:
  assumes p: "partition_turns (enumerate 0 ms) = (systems, turns)" and keep: "1 \<le> ca_keep_recent a"
  defines "fate \<equiv> turn_fate a ms"
  defines "K \<equiv> systems @ concat (filter (\<lambda>t. fate t = Keep) turns)"
  shows "splits_conversation ms (map shrink (filter (\<lambda>(i, m). i \<in> set (map fst K)) (enumerate 0 ms)))
     (map (\<lambda>(i, m). (i, compact_rag_message m)) (concat (filter (\<lambda>t. fate t = Summarize) turns)))
     (concat (filter (\<lambda>t. fate t = Discard) turns))"
proof -
  let ?ix = "enumerate 0 ms" and ?S = "concat (filter (\<lambda>t. fate t = Summarize) turns)"
    and ?D = "concat (filter (\<lambda>t. fate t = Discard) turns)" and ?P = "\<lambda>(i, m). i \<in> set (map fst K)"
  note ps = partition_turns_spec [OF p]
  have "mset ?ix = mset systems + mset (concat turns)" unfolding ps by (simp add: mset_filter)
  then have m: "mset ?ix = mset K + mset (?S @ ?D)" using mset_by_fate [of turns fate] by (simp add: K_def ac_simps)
  have pick: "mset (filter ?P ?ix) = mset K" by (rule mset_pick [OF _ m]) simp
  have fstc: "map fst (map (\<lambda>(i, m). (i, compact_rag_message m)) xs) = map fst xs" for xs
    by (simp add: case_prod_beta comp_def)
  have "positions ?ix = positions K + (positions ?S + positions ?D)" using positions_cong [OF m] by simp
  moreover have "positions (filter ?P ?ix) = positions K" using pick unfolding positions_def mset_map by simp
  ultimately have pos: "positions (map shrink (filter ?P ?ix)) + positions (map (\<lambda>(i, m). (i, compact_rag_message m)) ?S) +
      positions ?D = mset [0..<length ms]"
    unfolding positions_def map_fst_shrink fstc by (simp add: ac_simps)
  have sub: "set K \<subseteq> set ?ix" "set ?S \<subseteq> set ?ix" "set ?D \<subseteq> set ?ix"
    using m by (metis mset_subset_eq_add_left set_mset_mono set_mset_mset,
      metis mset_subset_eq_add_right set_mset_mono set_mset_mset set_append Un_subset_iff,
      metis mset_subset_eq_add_right set_mset_mono set_mset_mset set_append Un_subset_iff)
  have sorted: "sorted (map fst (map shrink (filter ?P ?ix)))"
    unfolding map_fst_shrink by (rule sorted_filter) simp
  have sysk: "i \<in> set (map fst (map shrink (filter ?P ?ix)))" if "i < length ms" "is_system (ms ! i)" for i
  proof -
    have "(i, ms ! i) \<in> set systems" using that by (simp add: ps(1) sys_def in_set_enumerate_eq)
    then have "i \<in> set (map fst K)" by (force simp: K_def)
    then show ?thesis unfolding map_fst_shrink using that by (force simp: in_set_enumerate_eq)
  qed
  have lastk: "map shrink (filter ?P ?ix) \<noteq> [] \<and> fst (last (map shrink (filter ?P ?ix))) = length ms - 1"
    if l: "ms \<noteq> []" "\<not> is_system (last ms)"
  proof -
    have e: "last ?ix = (length ms - 1, last ms)" "?ix \<noteq> []"
      using l(1) by (simp_all add: last_conv_nth nth_enumerate_eq enumerate_eq_zip)
    then have "last ?ix \<in> set (filter (\<lambda>x. \<not> sys x) ?ix)" using l(2) by (simp add: sys_def) (metis last_in_set)
    from last_filter_in [OF this] ps(2) have c: "concat turns \<noteq> []" "last (concat turns) = last ?ix" by simp_all
    then have "turns \<noteq> []" by auto
    then have t: "last turns \<noteq> []" "last turns \<in> set turns" using ps(3) by (metis last_in_set) (simp add: \<open>turns \<noteq> []\<close>)
    then have lt: "last (last turns) = last ?ix"
      using c \<open>turns \<noteq> []\<close> by (metis append_butlast_last_id concat.simps concat_append last_append append_Nil2)
    have "length ms - ca_keep_recent a \<le> fst (last (last turns))" using keep unfolding lt e(1) by simp
    then have "fate (last turns) = Keep" by (simp only: fate_def turn_fate_def Let_def if_True)
    with t have "last (last turns) \<in> set (concat (filter (\<lambda>t. fate t = Keep) turns))" by auto
    then have "last ?ix \<in> set K" by (simp add: K_def lt)
    then have "fst (last ?ix) \<in> set (map fst K)" by (simp only: set_map imageI)
    moreover have "last ?ix \<in> set ?ix" using e(2) by (rule last_in_set)
    ultimately have "last ?ix \<in> set (filter ?P ?ix)" by (simp add: case_prod_beta)
    from last_filter_in [OF this] e show ?thesis by (simp add: last_map)
  qed
  have parts: "part_of ms (map shrink (filter ?P ?ix))" "part_of ms (map (\<lambda>(i, m). (i, compact_rag_message m)) ?S)"
    "part_of ms ?D"
    by (rule part_of_shrink(1), force, rule part_of_shrink(2) [OF sub(2)], rule part_of_enumerate [OF sub(3)])
  show ?thesis unfolding splits_conversation_def using pos sorted parts sysk lastk by blast
qed

lemma plan_splits:
  assumes "1 \<le> ca_keep_recent a" and "plan_compression tk a ms = Inr p"
  shows "splits_conversation ms (cp_kept p) (cp_summarized p) (cp_discarded p)"
proof -
  obtain systems turns where pt: "partition_turns (enumerate 0 ms) = (systems, turns)" by (metis surj_pair)
  note g = graded_turns_split [OF pt assms(1)]
  let ?K = "systems @ concat (filter (\<lambda>t. turn_fate a ms t = Keep) turns)"
  let ?kept = "map shrink (filter (\<lambda>(i, m). i \<in> set (map fst ?K)) (enumerate 0 ms))"
  obtain out over where cut: "split_kept_by_budget tk ?kept (ca_budget a) (ca_existing a) (ca_keep_recent a) = (out, over)"
    by (metis surj_pair)
  have "cp_kept p = out \<and> cp_discarded p = concat (filter (\<lambda>t. turn_fate a ms t = Discard) turns) \<and>
      cp_summarized p = map (\<lambda>(i, m). (i, compact_rag_message m)) (concat (filter (\<lambda>t. turn_fate a ms t = Summarize) turns)) @ over"
    using assms(2) pt cut by (auto simp: plan_compression_def Let_def shrink_def [symmetric] split: if_splits prod.splits)
  then show ?thesis using split_step [OF g cut] by simp
qed

lemma whole_conversation_split:
  "splits_conversation ms (map (\<lambda>(i, m). (i, compact_rag_message m)) (enumerate 0 ms)) [] []"
proof -
  let ?k = "map (\<lambda>(i, m). (i, compact_rag_message m)) (enumerate 0 ms)"
  have f: "map fst ?k = [0..<length ms]" by (simp add: case_prod_beta comp_def)
  have p: "part_of ms ?k" by (rule part_of_shrink(2)) simp
  have l: "?k \<noteq> [] \<and> fst (last ?k) = length ms - 1" if "ms \<noteq> []"
  proof -
    have "?k \<noteq> []" using f that by (metis length_0_conv length_map length_upt minus_nat.diff_0)
    then have "fst (last ?k) = last (map fst ?k)" by (rule last_map [symmetric])
    with that f \<open>?k \<noteq> []\<close> show ?thesis by simp
  qed
  show ?thesis unfolding splits_conversation_def positions_def f using p l by (simp add: part_of_def)
qed

lemma run_compression_splits:
  assumes "1 \<le> ca_keep_recent a"
  shows "splits_conversation ms (cr_kept (run_compression tk ask a ms)) (cr_summarized (run_compression tk ask a ms))
     (cr_discarded (run_compression tk ask a ms))"
proof (cases "plan_compression tk a ms")
  case (Inl r)
  from Inl have "cr_summarized r = []" "cr_discarded r = []"
    "cr_kept r = map (\<lambda>(i, m). (i, compact_rag_message m)) (enumerate 0 ms)"
    by (auto simp: plan_compression_def Let_def apply_rag_compact_def split: if_splits prod.splits)
  with Inl show ?thesis using whole_conversation_split [of ms] by (simp add: run_compression_def)
next
  case (Inr p)
  note pl = plan_splits [OF assms Inr]
  define digest where "digest = (let overflow = map snd (cp_overflow p) in if overflow = [] then ca_existing a
     else if ca_use_llm a then llm_batch_summarize ask overflow (ca_existing a) (ca_max_chars a) (ca_slots a)
     else fold_session_summary (Some (ca_existing a)) overflow (ca_max_chars a) (ca_slots a))"
  obtain out over where cut: "split_kept_by_budget tk (cp_kept p) (ca_budget a) digest (ca_keep_recent a) = (out, over)"
    by (metis surj_pair)
  have r: "run_compression tk ask a ms = finalize_compression tk a p digest"
    using Inr by (simp add: run_compression_def digest_def Let_def)
  have "cr_kept (run_compression tk ask a ms) = out" "cr_discarded (run_compression tk ask a ms) = cp_discarded p"
    "cr_summarized (run_compression tk ask a ms) = cp_summarized p @ over"
    unfolding r finalize_compression_def cut Let_def by simp_all
  then show ?thesis using split_step [OF pl cut] by simp
qed

text \<open>The updated messages are the kept ones whose text was shortened.\<close>

definition updates_match :: "message list \<Rightarrow> posmsg list \<Rightarrow> message list \<Rightarrow> bool" where
  "updates_match ms kept updated \<longleftrightarrow>
     (\<forall>m. has_id m \<longrightarrow> (m \<in> set updated \<longleftrightarrow> (\<exists>i. (i, m) \<in> set kept \<and> m \<noteq> ms ! i)))"

definition ids_distinct :: "message list \<Rightarrow> bool" where
  "ids_distinct ms \<longleftrightarrow> distinct (filter ((\<noteq>) None) (map msg_id ms))"

lemma ids_distinct_nth:
  "ids_distinct ms \<Longrightarrow> i < length ms \<Longrightarrow> j < length ms \<Longrightarrow> msg_id (ms ! i) = msg_id (ms ! j) \<Longrightarrow> msg_id (ms ! i) \<noteq> None \<Longrightarrow> i = j"
proof (induction ms arbitrary: i j)
  case Nil
  then show ?case by simp
next
  case (Cons m ms)
  have n: "msg_id m \<noteq> msg_id (ms ! k)" if "k < length ms" "msg_id m \<noteq> None" for k
    using Cons(2) that by (auto simp: ids_distinct_def)
  from Cons have "ids_distinct ms" by (auto simp: ids_distinct_def split: if_splits)
  with Cons n show ?case by (cases i; cases j) (auto, metis)
qed

lemma compact_id [simp]: "msg_id (compact_rag_message m) = msg_id m"
  by (simp add: compact_rag_message_def)

lemma part_of_id: "part_of ms xs \<Longrightarrow> (i, m) \<in> set xs \<Longrightarrow> i < length ms \<and> msg_id m = msg_id (ms ! i)"
  by (auto simp: part_of_def dest!: bspec [of _ _ "(i, m)"])

lemma updates_match_cut:
  assumes sp: "splits_conversation ms kept summ disc" and ids: "ids_distinct ms" and up: "updates_match ms kept updated"
    and cut: "split_kept_by_budget tk kept b d k = (out, over)"
  shows "updates_match ms out (drop_updated over updated)"
proof -
  note c = split_kept_spec [OF cut splits_distinct [OF sp]]
  have part: "part_of ms kept" using sp by (simp add: splits_conversation_def)
  have kept: "set kept = set out \<union> set over" using c(1) by (metis set_mset_mset set_mset_union)
  have disj: False if "(i, m) \<in> set out" "(i, m') \<in> set over" for i m m'
  proof -
    have "distinct (map fst out @ map fst over)"
      using splits_distinct [OF sp] arg_cong [OF c(1), of "image_mset fst"] by (metis image_mset_union mset_append mset_eq_imp_distinct_iff mset_map)
    with that show False by force
  qed
  show ?thesis unfolding updates_match_def
  proof (intro allI impI)
    fix m
    assume h: "has_id m"
    then have ne: "msg_id m \<noteq> None" by (auto simp: has_id_def truthy_iff)
    have over_id: "msg_id m \<in> set (map (msg_id \<circ> snd) (filter (\<lambda>(i, m). msg_id m \<noteq> None) over)) \<longleftrightarrow>
        (\<exists>i x. (i, x) \<in> set over \<and> msg_id x = msg_id m)"
      using ne by (force simp: image_iff)
    have same: "i = j" if "(i, x) \<in> set kept" "(j, m) \<in> set kept" "msg_id x = msg_id m" for i j x
      using that part_of_id [OF part] ids_distinct_nth [OF ids] ne by metis
    have "m \<in> set (drop_updated over updated) \<longleftrightarrow> m \<in> set updated \<and> \<not> (\<exists>i x. (i, x) \<in> set over \<and> msg_id x = msg_id m)"
      using over_id by (auto simp: drop_updated_def Let_def)
    also have "\<dots> \<longleftrightarrow> (\<exists>i. (i, m) \<in> set kept \<and> m \<noteq> ms ! i) \<and> \<not> (\<exists>i x. (i, x) \<in> set over \<and> msg_id x = msg_id m)"
      using up h by (simp add: updates_match_def)
    also have "\<dots> \<longleftrightarrow> (\<exists>i. (i, m) \<in> set out \<and> m \<noteq> ms ! i)"
      using kept same disj by (metis Un_iff)
    finally show "m \<in> set (drop_updated over updated) \<longleftrightarrow> (\<exists>i. (i, m) \<in> set out \<and> m \<noteq> ms ! i)" .
  qed
qed

lemma updates_match_whole:
  assumes "apply_rag_compact (enumerate 0 ms) = (kept, updated)"
  shows "updates_match ms kept updated"
proof -
  have k: "kept = map (\<lambda>(i, m). (i, compact_rag_message m)) (enumerate 0 ms)"
    "updated = map (\<lambda>(i, m). compact_rag_message m) (filter (\<lambda>(i, m). compact_rag_message m \<noteq> m \<and> has_id m) (enumerate 0 ms))"
    using assms by (auto simp: apply_rag_compact_def)
  have h: "has_id (compact_rag_message m) = has_id m" for m by (simp add: has_id_def)
  have u: "m \<in> set updated \<longleftrightarrow> (\<exists>i < length ms. m = compact_rag_message (ms ! i) \<and> m \<noteq> ms ! i \<and> has_id m)" for m
    unfolding k by (force simp: in_set_enumerate_eq h)
  have kp: "(i, m) \<in> set kept \<longleftrightarrow> i < length ms \<and> m = compact_rag_message (ms ! i)" for i m
    unfolding k by (force simp: in_set_enumerate_eq)
  show ?thesis unfolding updates_match_def u kp by blast
qed

lemma updates_match_shrink:
  "updates_match ms (map shrink (filter (\<lambda>(i, m). P i) (enumerate 0 ms)))
     (map (\<lambda>(i, m). compact_rag_message m) (filter (\<lambda>(i, m). P i \<and> \<not> is_system m \<and> compact_rag_message m \<noteq> m) (enumerate 0 ms)))"
  unfolding updates_match_def
  by (auto simp: in_set_enumerate_eq shrink_def image_iff split: prod.splits if_splits)

lemma run_compression_updates:
  assumes "1 \<le> ca_keep_recent a" and ids: "ids_distinct ms"
  shows "updates_match ms (cr_kept (run_compression tk ask a ms)) (cr_updated (run_compression tk ask a ms))"
proof (cases "plan_compression tk a ms")
  case (Inl r)
  then have "ms = [] \<and> cr_kept r = [] \<and> cr_updated r = [] \<or> apply_rag_compact (enumerate 0 ms) = (cr_kept r, cr_updated r)"
    by (auto simp: plan_compression_def Let_def split: if_splits prod.splits)
  with updates_match_whole Inl show ?thesis by (auto simp: run_compression_def updates_match_def)
next
  case (Inr p)
  obtain systems turns where pt: "partition_turns (enumerate 0 ms) = (systems, turns)" by (metis surj_pair)
  let ?K = "systems @ concat (filter (\<lambda>t. turn_fate a ms t = Keep) turns)"
  let ?kept = "map shrink (filter (\<lambda>(i, m). i \<in> set (map fst ?K)) (enumerate 0 ms))"
  let ?updated = "map (\<lambda>(i, m). compact_rag_message m) (filter (\<lambda>(i, m). i \<in> set (map fst ?K) \<and> \<not> is_system m \<and> compact_rag_message m \<noteq> m) (enumerate 0 ms))"
  obtain out over where cut: "split_kept_by_budget tk ?kept (ca_budget a) (ca_existing a) (ca_keep_recent a) = (out, over)"
    by (metis surj_pair)
  have p: "cp_kept p = out" "cp_updated p = drop_updated over ?updated"
    using Inr pt cut by (auto simp: plan_compression_def Let_def shrink_def [symmetric] split: if_splits prod.splits)
  have m1: "updates_match ms (cp_kept p) (cp_updated p)" unfolding p
    by (rule updates_match_cut [OF graded_turns_split [OF pt assms(1)] ids updates_match_shrink cut])
  define digest where "digest = (let overflow = map snd (cp_overflow p) in if overflow = [] then ca_existing a
     else if ca_use_llm a then llm_batch_summarize ask overflow (ca_existing a) (ca_max_chars a) (ca_slots a)
     else fold_session_summary (Some (ca_existing a)) overflow (ca_max_chars a) (ca_slots a))"
  obtain out' over' where cut': "split_kept_by_budget tk (cp_kept p) (ca_budget a) digest (ca_keep_recent a) = (out', over')"
    by (metis surj_pair)
  have r: "run_compression tk ask a ms = finalize_compression tk a p digest"
    using Inr by (simp add: run_compression_def digest_def Let_def)
  have "drop_updated [] u = u" for u by (simp add: drop_updated_def)
  then have "cr_kept (run_compression tk ask a ms) = out'" "cr_updated (run_compression tk ask a ms) = drop_updated over' (cp_updated p)"
    unfolding r finalize_compression_def cut' Let_def by simp_all
  then show ?thesis using updates_match_cut [OF plan_splits [OF assms(1) Inr] ids m1 cut'] by simp
qed

text \<open>
  C15: Compression loses nothing and counts nothing twice. Whatever the scores and whatever the
  model writes as summary, every message of the conversation ends up in exactly one of kept,
  summarised and discarded, unchanged or with its long course answer shortened; the kept
  messages stay in order, system messages are always kept, and so is the newest message.
\<close>

theorem compression_partitions:
  assumes "1 \<le> ca_keep_recent a"
  shows "splits_conversation ms (cr_kept (run_compression tk ask a ms)) (cr_summarized (run_compression tk ask a ms))
     (cr_discarded (run_compression tk ask a ms))"
  by (rule run_compression_splits [OF assms])

definition demo_compress_args :: compress_args where
  "demo_compress_args = \<lparr>ca_query = (asc ''c''), ca_budget = 1, ca_slots = None, ca_keep_recent = 1, ca_discard = 3/10,
     ca_summarize = 6/10, ca_max_messages = 2, ca_existing = [], ca_use_llm = False, ca_max_chars = Some 800\<rparr>"

theorem compression_partitions_witness:
  "(let r = run_compression demo_tokenizer (\<lambda>_. None) demo_compress_args demo_turns in
     positions (cr_kept r) + positions (cr_summarized r) + positions (cr_discarded r) = mset [0, 1, 2] \<and>
     fst (last (cr_kept r)) = 2)"
proof -
  have k: "1 \<le> ca_keep_recent demo_compress_args" by (simp add: demo_compress_args_def)
  have n: "length demo_turns = 3" "demo_turns \<noteq> []" "\<not> is_system (last demo_turns)"
    by (simp_all add: demo_turns_def is_system_def human_def)
  have u: "[0..<3] = [0, 1, 2::nat]" by (simp add: upt_rec)
  show ?thesis
    using compression_partitions [OF k, of demo_turns demo_tokenizer "\<lambda>_. None"] n
    unfolding splits_conversation_def Let_def n(1) u by simp
qed

end
