(* ===== verification/User_Memory.thy ===== *)
theory User_Memory
  imports Intent Order_Access Redis_Client Tenancy
begin

text \<open>
  Long-term memory of a user: \<open>app/memory.py\<close> (the profile and its Redis store) and the
  profile part of \<open>app/db/archive.py\<close> (the row it is recovered from). The profile store is the
  locale \<open>profile_store\<close>; \<open>RedisUserStore\<close> implements it over a client as in \<open>Redis_Client\<close>.
  The clock is an argument: \<open>now\<close> in seconds and its ISO text \<open>stamp\<close>.
\<close>

section \<open>Profiles\<close>

record user_memory =
  um_intent :: "ustr option"
  um_order_no :: "ustr option"
  um_course_query :: "ustr option"
  um_course_name :: "ustr option"
  um_handoff :: bool
  um_recent_orders :: "ustr list"
  um_recent_courses :: "ustr list"
  um_updated_at :: "ustr option"

definition no_memory :: user_memory where
  "no_memory = \<lparr>um_intent = None, um_order_no = None, um_course_query = None, um_course_name = None, um_handoff = False,
     um_recent_orders = [], um_recent_courses = [], um_updated_at = None\<rparr>"

definition max_recent :: nat where
  "max_recent = 5"

text \<open>The stored dictionary has the fields of the profile, so it is a profile again.\<close>

definition to_value :: "user_memory \<Rightarrow> user_memory" where
  "to_value m = m\<lparr>um_recent_orders := take max_recent (um_recent_orders m),
     um_recent_courses := take max_recent (um_recent_courses m)\<rparr>"

definition drop_empty :: "ustr option \<Rightarrow> ustr option" where
  "drop_empty x = (if truthy x then x else None)"

definition from_value :: "user_memory option \<Rightarrow> user_memory" where
  "from_value v = (case v of None \<Rightarrow> no_memory
     | Some m \<Rightarrow> m\<lparr>um_intent := drop_empty (um_intent m), um_order_no := drop_empty (um_order_no m),
         um_course_query := drop_empty (um_course_query m), um_course_name := drop_empty (um_course_name m)\<rparr>)"

definition overlay_user_memory :: "session_slots \<Rightarrow> user_memory \<Rightarrow> session_slots" where
  "overlay_user_memory s m =
     \<lparr>last_intent = or_opt (last_intent s) (um_intent m), last_order_no = or_opt (last_order_no s) (um_order_no m),
      last_course_query = or_opt (last_course_query s) (um_course_query m),
      last_course_name = or_opt (last_course_name s) (um_course_name m),
      handoff_pending = (handoff_pending s \<or> um_handoff m)\<rparr>"

definition prepend_recent :: "ustr list \<Rightarrow> ustr option \<Rightarrow> ustr list" where
  "prepend_recent items v = (if \<not> truthy v then take max_recent items
     else take max_recent (the v # filter (\<lambda>x. x \<noteq> the v) items))"

section \<open>The Redis store\<close>

definition memory_namespace :: "ustr \<Rightarrow> ustr \<Rightarrow> ustr list" where
  "memory_namespace tn u = [(asc ''tenants''), tn, (asc ''users''), u]"

definition hash_tag_for_namespace :: "ustr list \<Rightarrow> ustr" where
  "hash_tag_for_namespace ns =
     (if length ns \<ge> 4 \<and> ns ! 0 = (asc ''tenants'') \<and> ns ! 2 = (asc ''users'')
      then [123] @ or_str (strip (ns ! 1)) (asc ''unknown'') @ [58] @ or_str (strip (ns ! 3)) (asc ''unknown'') @ [125]
      else if length ns \<ge> 2 then [123] @ last (butlast ns) @ [58] @ last ns @ [125]
      else if ns \<noteq> [] then [123] @ hd ns @ [125]
      else (asc ''{default}''))"

fun join_slash :: "ustr list \<Rightarrow> ustr" where
  "join_slash [] = []"
| "join_slash [x] = x"
| "join_slash (x # y # xs) = x @ [47] @ join_slash (y # xs)"

definition slash_to_line :: "ustr \<Rightarrow> ustr" where
  "slash_to_line s = map (\<lambda>c. if c = 47 then 95 else c) s"

definition memory_key :: "ustr list \<Rightarrow> ustr \<Rightarrow> ustr" where
  "memory_key ns key = (asc ''cs:memory:'') @ hash_tag_for_namespace ns @ join_slash (map slash_to_line ns) @ [58] @ key"

definition profile_key :: ustr where
  "profile_key = (asc ''profile'')"

record payload =
  pl_value :: user_memory
  pl_created :: ustr
  pl_updated :: ustr

record 'r user_store =
  us_client :: "('r, payload) kv_store"
  us_db :: 'r
  us_ttl_minutes :: int

definition store_ttl_seconds :: "'r user_store \<Rightarrow> rat option \<Rightarrow> int" where
  "store_ttl_seconds s op_ttl =
     (let minutes = (case op_ttl of None \<Rightarrow> of_int (us_ttl_minutes s) | Some m \<Rightarrow> m)
      in if minutes \<le> 0 then 0 else max 1 (floor (minutes * 60)))"

text \<open>A read of the profile refreshes its time to live (\<open>GetOp.refresh_ttl\<close> is true by default).\<close>

definition store_get :: "'r user_store \<Rightarrow> rat \<Rightarrow> ustr list \<Rightarrow> ustr \<Rightarrow> user_memory option \<times> 'r user_store" where
  "store_get s now ns key =
     (let k = memory_key ns key in
      case kv_get (us_client s) (us_db s) now k of
        None \<Rightarrow> (None, s)
      | Some p \<Rightarrow>
          (let ttl = store_ttl_seconds s None
           in (Some (pl_value p),
               if ttl > 0 then s\<lparr>us_db := kv_expire (us_client s) (us_db s) now k (of_int ttl)\<rparr> else s)))"

definition store_put ::
  "'r user_store \<Rightarrow> rat \<Rightarrow> ustr \<Rightarrow> ustr list \<Rightarrow> ustr \<Rightarrow> user_memory option \<Rightarrow> rat option \<Rightarrow> 'r user_store" where
  "store_put s now stamp ns key val op_ttl =
     (let k = memory_key ns key; c = us_client s in
      case val of
        None \<Rightarrow> s\<lparr>us_db := kv_del c (us_db s) now k\<rparr>
      | Some v \<Rightarrow>
          (let created = (case kv_get c (us_db s) now k of None \<Rightarrow> stamp | Some old \<Rightarrow> or_str (pl_created old) stamp);
               p = \<lparr>pl_value = v, pl_created = created, pl_updated = stamp\<rparr>;
               ttl = store_ttl_seconds s op_ttl
           in s\<lparr>us_db := kv_set c (us_db s) now k p (if ttl > 0 then Some (of_int ttl) else None)\<rparr>))"

section \<open>The archived profile\<close>

record profile_row =
  pr_tenant :: ustr
  pr_user :: ustr
  pr_profile :: user_memory

text \<open>\<open>up\<close>: the database answers; otherwise the failure is only logged.\<close>

definition profile_row_of :: "profile_row list \<Rightarrow> ustr \<Rightarrow> ustr \<Rightarrow> profile_row option" where
  "profile_row_of rows tn u = find (\<lambda>r. pr_tenant r = tn \<and> pr_user r = u) rows"

definition upsert_user_profile ::
  "bool \<Rightarrow> profile_row list \<Rightarrow> ustr \<Rightarrow> ustr \<Rightarrow> user_memory \<Rightarrow> profile_row list" where
  "upsert_user_profile up rows tenant_id user_id m =
     (let tn = or_str (strip tenant_id) (asc ''demo''); u = strip user_id in
      if u = [] \<or> \<not> up then rows
      else case profile_row_of rows tn u of
          None \<Rightarrow> rows @ [\<lparr>pr_tenant = tn, pr_user = u, pr_profile = m\<rparr>]
        | Some _ \<Rightarrow> map (\<lambda>r. if pr_tenant r = tn \<and> pr_user r = u then r\<lparr>pr_profile := m\<rparr> else r) rows)"

definition load_user_profile :: "bool \<Rightarrow> profile_row list \<Rightarrow> ustr \<Rightarrow> ustr \<Rightarrow> user_memory option" where
  "load_user_profile up rows tenant_id user_id =
     (let tn = or_str (strip tenant_id) (asc ''demo''); u = strip user_id in
      if u = [] \<or> \<not> up then None else map_option pr_profile (profile_row_of rows tn u))"

section \<open>Loading and saving\<close>

record memory_settings =
  user_memory_enabled :: bool
  user_memory_ttl :: int

record 's profile_ops =
  p_get :: "'s \<Rightarrow> rat \<Rightarrow> ustr list \<Rightarrow> ustr \<Rightarrow> user_memory option \<times> 's"
  p_put :: "'s \<Rightarrow> rat \<Rightarrow> ustr \<Rightarrow> ustr list \<Rightarrow> ustr \<Rightarrow> user_memory option \<Rightarrow> rat option \<Rightarrow> 's"
  supports_ttl :: bool

record 's memory_world =
  mw_store :: 's
  mw_rows :: "profile_row list"
  mw_up :: bool

definition put_ttl :: "'s profile_ops \<Rightarrow> memory_settings \<Rightarrow> rat option" where
  "put_ttl ops cfg = (if supports_ttl ops \<and> user_memory_ttl cfg > 0 then Some (of_int (user_memory_ttl cfg)) else None)"

definition load_user_memory ::
  "'s profile_ops \<Rightarrow> memory_settings \<Rightarrow> 's memory_world \<Rightarrow> rat \<Rightarrow> ustr \<Rightarrow> ustr \<Rightarrow> ustr \<Rightarrow> user_memory \<times> 's memory_world" where
  "load_user_memory ops cfg w now stamp tn u =
     (if \<not> is_persistent_user (Some u) then (no_memory, w)
      else let ns = memory_namespace tn u; (item, store) = p_get ops (mw_store w) now ns profile_key;
               w = w\<lparr>mw_store := store\<rparr>
        in (case item of
              Some v \<Rightarrow> (from_value (Some v), w)
            | None \<Rightarrow> (case load_user_profile (mw_up w) (mw_rows w) tn u of
                None \<Rightarrow> (no_memory, w)
              | Some archived \<Rightarrow>
                  (let m = from_value (Some archived)
                   in (m, w\<lparr>mw_store := p_put ops (mw_store w) now stamp ns profile_key (Some (to_value m)) (put_ttl ops cfg)\<rparr>)))))"

definition update_memory ::
  "user_memory \<Rightarrow> ustr \<Rightarrow> ustr option \<Rightarrow> ustr option \<Rightarrow> ustr option \<Rightarrow> ustr option \<Rightarrow> bool option \<Rightarrow> user_memory" where
  "update_memory m stamp itn no cquery cname handoff =
     (let name = strip (str_or_empty cname);
          name = (if name \<in> set missing_course_names then [] else name);
          m = (if truthy itn then m\<lparr>um_intent := itn\<rparr> else m);
          m = (if truthy no then m\<lparr>um_order_no := no, um_recent_orders := prepend_recent (um_recent_orders m) no\<rparr> else m);
          m = (if truthy cquery then m\<lparr>um_course_query := cquery\<rparr> else m);
          m = (if name \<noteq> [] then m\<lparr>um_course_name := Some name,
                 um_recent_courses := prepend_recent (um_recent_courses m) (Some name)\<rparr> else m);
          m = (case handoff of None \<Rightarrow> m | Some h \<Rightarrow> m\<lparr>um_handoff := h\<rparr>)
      in m\<lparr>um_updated_at := Some stamp\<rparr>)"

definition save_user_memory ::
  "'s profile_ops \<Rightarrow> memory_settings \<Rightarrow> 's memory_world \<Rightarrow> rat \<Rightarrow> ustr \<Rightarrow> ustr \<Rightarrow> ustr \<Rightarrow> ustr option \<Rightarrow> ustr option \<Rightarrow>
     ustr option \<Rightarrow> ustr option \<Rightarrow> bool option \<Rightarrow> user_memory option \<times> 's memory_world" where
  "save_user_memory ops cfg w now stamp tn u itn no cquery cname handoff =
     (if \<not> is_persistent_user (Some u) \<or> \<not> user_memory_enabled cfg then (None, w)
      else let (current, w) = load_user_memory ops cfg w now stamp tn u;
               m = update_memory current stamp itn no cquery cname handoff;
               value = to_value m
        in (Some m, w\<lparr>mw_store := p_put ops (mw_store w) now stamp (memory_namespace tn u) profile_key (Some value) (put_ttl ops cfg),
                     mw_rows := upsert_user_profile (mw_up w) (mw_rows w) tn u value\<rparr>))"

section \<open>Keys of different users differ\<close>

lemma strip_parts:
  obtains a b where "s = a @ strip s @ b" "\<forall>c \<in> set a. is_space c" "\<forall>c \<in> set b. is_space c"
proof
  let ?d = "dropWhile is_space s"
  have "?d = rev (dropWhile is_space (rev ?d)) @ rev (takeWhile is_space (rev ?d))"
    by (metis rev_append rev_rev_ident takeWhile_dropWhile_id)
  then show "s = takeWhile is_space s @ strip s @ rev (takeWhile is_space (rev ?d))"
    unfolding strip_def by (metis takeWhile_dropWhile_id)
qed (auto dest: set_takeWhileD)

lemma slash_to_line_append [simp]: "slash_to_line (x @ y) = slash_to_line x @ slash_to_line y"
  by (simp add: slash_to_line_def)

lemma slash_to_line_id: "47 \<notin> set s \<Longrightarrow> slash_to_line s = s"
  by (auto simp: slash_to_line_def intro: map_idI)

lemma no_slash: "47 \<notin> set (slash_to_line s)"
  by (auto simp: slash_to_line_def)

lemma slash_to_line_inj:
  assumes "strip u = strip v" and "strip u \<noteq> []" and "slash_to_line u = slash_to_line v"
  shows "u = v"
proof -
  obtain a b where u: "u = a @ strip u @ b" "\<forall>c \<in> set a. is_space c" "\<forall>c \<in> set b. is_space c" by (rule strip_parts)
  obtain a' b' where v: "v = a' @ strip v @ b'" "\<forall>c \<in> set a'. is_space c" "\<forall>c \<in> set b'. is_space c" by (rule strip_parts)
  have id: "slash_to_line x = x" if "\<forall>c \<in> set x. is_space c" for x
    using that by (intro slash_to_line_id) (auto simp: is_space_def)
  have lu: "slash_to_line u = a @ slash_to_line (strip u) @ b" using u id by (metis slash_to_line_append)
  have lv: "slash_to_line v = a' @ slash_to_line (strip u) @ b'" using v id assms(1) by (metis slash_to_line_append)
  have ns: "slash_to_line (strip u) \<noteq> [] \<and> \<not> is_space (hd (slash_to_line (strip u)))"
    using stripped_strip [of u] assms(2) by (cases "strip u") (auto simp: stripped_def slash_to_line_def is_space_def)
  have tw: "takeWhile is_space (x @ slash_to_line (strip u) @ y) = x" if "\<forall>c \<in> set x. is_space c" for x y
    using that ns by (cases "slash_to_line (strip u)") auto
  have "a = a'" using tw [OF u(2), of b] tw [OF v(2), of b'] lu lv assms(3) by metis
  with lu lv assms(3) have "b = b'" by simp
  with \<open>a = a'\<close> u(1) v(1) assms(1) show ?thesis by metis
qed

lemma profile_key_form:
  assumes "tenant_re tn" and "strip u \<noteq> []"
  shows "memory_key (memory_namespace tn u) profile_key =
    ((asc ''cs:memory:'') @ [123]) @ tn @ 58 # ((strip u @ (asc ''}tenants/'') @ tn @ (asc ''/users'')) @ 47 # slash_to_line u) @ (asc '':profile'')"
proof -
  have c: "clean_id tn" by (rule tenant_re_clean [OF assms(1)])
  then have "strip tn = tn" "tn \<noteq> []" by (simp_all add: clean_id_def strip_id)
  moreover have "47 \<notin> set tn" using assms(1) by (auto simp: tenant_re_def list_all_iff tenant_char_def)
  moreover have "47 \<notin> set (asc ''tenants'')" "47 \<notin> set (asc ''users'')" by (simp_all add: asc_def)
  ultimately show ?thesis using assms(2)
    by (simp add: memory_key_def memory_namespace_def hash_tag_for_namespace_def slash_to_line_id or_str_def)
      (simp add: asc_def profile_key_def)
qed

lemma memory_key_inj:
  assumes "tenant_re tn" "strip u \<noteq> []" "tenant_re tn'" "strip u' \<noteq> []"
  shows "memory_key (memory_namespace tn u) profile_key = memory_key (memory_namespace tn' u') profile_key \<longleftrightarrow>
    tn = tn' \<and> u = u'"
proof
  assume e: "memory_key (memory_namespace tn u) profile_key = memory_key (memory_namespace tn' u') profile_key"
  have nc: "58 \<notin> set tn" "58 \<notin> set tn'" using tenant_re_clean assms(1,3) by (auto simp: clean_id_def)
  from e have "tn @ 58 # ((strip u @ (asc ''}tenants/'') @ tn @ (asc ''/users'')) @ 47 # slash_to_line u) =
      tn' @ 58 # ((strip u' @ (asc ''}tenants/'') @ tn' @ (asc ''/users'')) @ 47 # slash_to_line u')"
    unfolding profile_key_form [OF assms(1,2)] profile_key_form [OF assms(3,4)] by simp
  then have t: "tn = tn'" and r: "(strip u @ (asc ''}tenants/'') @ tn @ (asc ''/users'')) @ 47 # slash_to_line u =
      (strip u' @ (asc ''}tenants/'') @ tn' @ (asc ''/users'')) @ 47 # slash_to_line u'"
    using split_at_sep [OF nc] by blast+
  from split_at_last_sep [OF no_slash no_slash r] t have "strip u = strip u'" "slash_to_line u = slash_to_line u'" by simp_all
  with slash_to_line_inj assms(2) t show "tn = tn' \<and> u = u'" by blast
qed simp

section \<open>The interface to the profile store\<close>

definition user_ok :: "ustr \<Rightarrow> ustr \<Rightarrow> bool" where
  "user_ok tn u \<longleftrightarrow> tenant_re tn \<and> is_persistent_user (Some u)"

lemma user_ok_strip: "user_ok tn u \<Longrightarrow> strip u \<noteq> []"
  by (simp add: user_ok_def is_persistent_user_def)

locale profile_store =
  fixes ops :: "'s profile_ops" and lawful :: "'s \<Rightarrow> bool"
  assumes lawful_get: "lawful s \<Longrightarrow> lawful (snd (p_get ops s now ns k))"
    and lawful_put: "lawful s \<Longrightarrow> lawful (p_put ops s now stamp ns k val ttl)"
    and get_put: "lawful s \<Longrightarrow> now \<le> t \<Longrightarrow>
      fst (p_get ops (p_put ops s now stamp ns k (Some v) ttl) t ns k) \<in> {None, Some v}"
    and get_put_other: "lawful s \<Longrightarrow> now \<le> t \<Longrightarrow> user_ok tn u \<Longrightarrow> user_ok tn' u' \<Longrightarrow> (tn, u) \<noteq> (tn', u') \<Longrightarrow>
      fst (p_get ops (p_put ops s now stamp (memory_namespace tn u) profile_key val ttl) t (memory_namespace tn' u') profile_key) =
      fst (p_get ops s t (memory_namespace tn' u') profile_key)"
    and get_get_other: "lawful s \<Longrightarrow> now \<le> t \<Longrightarrow> user_ok tn u \<Longrightarrow> user_ok tn' u' \<Longrightarrow> (tn, u) \<noteq> (tn', u') \<Longrightarrow>
      fst (p_get ops (snd (p_get ops s now (memory_namespace tn u) profile_key)) t (memory_namespace tn' u') profile_key) =
      fst (p_get ops s t (memory_namespace tn' u') profile_key)"

lemma find_upsert:
  "profile_row_of (upsert_user_profile True rows tn u m) tn' u' =
     (if strip u \<noteq> [] \<and> tn' = or_str (strip tn) (asc ''demo'') \<and> u' = strip u
      then Some (case profile_row_of rows tn' u' of None \<Rightarrow> \<lparr>pr_tenant = tn', pr_user = u', pr_profile = m\<rparr> | Some r \<Rightarrow> r\<lparr>pr_profile := m\<rparr>)
      else profile_row_of rows tn' u')"
proof -
  have app: "find P (xs @ ys) = (case find P xs of None \<Rightarrow> find P ys | Some x \<Rightarrow> Some x)" for P xs and ys :: "profile_row list"
    by (induction xs) auto
  have upd: "find (\<lambda>r. pr_tenant r = b \<and> pr_user r = v)
      (map (\<lambda>r. if pr_tenant r = a \<and> pr_user r = w then r\<lparr>pr_profile := m\<rparr> else r) rows) =
      (if b = a \<and> v = w then map_option (\<lambda>r. r\<lparr>pr_profile := m\<rparr>) (find (\<lambda>r. pr_tenant r = b \<and> pr_user r = v) rows)
       else find (\<lambda>r. pr_tenant r = b \<and> pr_user r = v) rows)" for a b v w
    by (induction rows) auto
  show ?thesis
    by (auto simp: upsert_user_profile_def Let_def profile_row_of_def app upd split: option.splits)
qed

lemma load_upsert:
  "strip u \<noteq> [] \<Longrightarrow> load_user_profile True (upsert_user_profile True rows tn u m) tn u = Some m"
  by (auto simp: load_user_profile_def Let_def find_upsert split: option.splits)

lemma load_upsert_other:
  "(or_str (strip tn) (asc ''demo''), strip u) \<noteq> (or_str (strip tn') (asc ''demo''), strip u') \<Longrightarrow>
     load_user_profile True (upsert_user_profile True rows tn u m) tn' u' = load_user_profile True rows tn' u'"
  by (auto simp: load_user_profile_def Let_def find_upsert)

lemma user_ok_row: "user_ok tn u \<Longrightarrow> or_str (strip tn) (asc ''demo'') = tn"
  by (auto simp: user_ok_def or_str_def strip_id dest!: tenant_re_clean simp: clean_id_def)

lemma load_rows: "mw_rows (snd (load_user_memory ops cfg w now stamp tn u)) = mw_rows w"
  "mw_up (snd (load_user_memory ops cfg w now stamp tn u)) = mw_up w"
  by (auto simp: load_user_memory_def Let_def case_prod_beta split: option.splits)

context profile_store
begin

lemma load_lawful: "lawful (mw_store w) \<Longrightarrow> lawful (mw_store (snd (load_user_memory ops cfg w now stamp tn u)))"
  using lawful_get [of "mw_store w"] lawful_put
  by (auto simp: load_user_memory_def Let_def case_prod_beta split: option.splits)

lemma load_other:
  assumes "lawful (mw_store w)" "now \<le> t" "user_ok tn u" "user_ok tn' u'" "(tn, u) \<noteq> (tn', u')"
  shows "fst (p_get ops (mw_store (snd (load_user_memory ops cfg w now stamp tn u))) t (memory_namespace tn' u') profile_key) =
    fst (p_get ops (mw_store w) t (memory_namespace tn' u') profile_key)"
  using get_get_other [OF assms] get_put_other [OF lawful_get [OF assms(1)] assms(2-5)]
  by (auto simp: load_user_memory_def Let_def case_prod_beta split: option.splits)

lemma load_fst:
  "is_persistent_user (Some u) \<Longrightarrow> fst (load_user_memory ops cfg w now stamp tn u) =
     (case fst (p_get ops (mw_store w) now (memory_namespace tn u) profile_key) of Some v \<Rightarrow> from_value (Some v)
      | None \<Rightarrow> from_value (load_user_profile (mw_up w) (mw_rows w) tn u))"
  by (auto simp: load_user_memory_def Let_def case_prod_beta from_value_def split: option.splits)

lemma saved_is_loaded:
  assumes "lawful (mw_store w)" "mw_up w" "now \<le> t" "user_ok tn u"
    and "save_user_memory ops cfg w now stamp tn u itn no cq cn h = (Some m, w')"
  shows "fst (load_user_memory ops cfg w' t stamp' tn u) = from_value (Some (to_value m))"
    and "user_ok tn' u' \<Longrightarrow> (tn, strip u) \<noteq> (tn', strip u') \<Longrightarrow>
      fst (load_user_memory ops cfg w' t stamp' tn' u') = fst (load_user_memory ops cfg w t stamp' tn' u')"
proof -
  define w1 where "w1 = snd (load_user_memory ops cfg w now stamp tn u)"
  have w': "w' = w1\<lparr>mw_store := p_put ops (mw_store w1) now stamp (memory_namespace tn u) profile_key (Some (to_value m)) (put_ttl ops cfg),
      mw_rows := upsert_user_profile True (mw_rows w) tn u (to_value m)\<rparr>"
    using assms(2,5) load_rows [of ops cfg w now stamp tn u]
    by (auto simp: save_user_memory_def w1_def Let_def case_prod_beta split: if_splits)
  have l1: "lawful (mw_store w1)" unfolding w1_def by (rule load_lawful [OF assms(1)])
  have p: "is_persistent_user (Some u)" using assms(4) by (simp add: user_ok_def)
  have up: "mw_up w' = True" using assms(2) by (simp add: w' w1_def load_rows)
  show "fst (load_user_memory ops cfg w' t stamp' tn u) = from_value (Some (to_value m))"
    using get_put [OF l1 assms(3), of stamp "memory_namespace tn u" profile_key "to_value m" "put_ttl ops cfg"]
      load_upsert [OF user_ok_strip [OF assms(4)]]
    unfolding load_fst [OF p] up by (auto simp: w' split: option.splits)
  assume o: "user_ok tn' u'" "(tn, strip u) \<noteq> (tn', strip u')"
  then have ne: "(tn, u) \<noteq> (tn', u')" and p': "is_persistent_user (Some u')" by (auto simp: user_ok_def)
  have "fst (p_get ops (mw_store w') t (memory_namespace tn' u') profile_key) =
      fst (p_get ops (mw_store w) t (memory_namespace tn' u') profile_key)"
    using get_put_other [OF l1 assms(3,4) o(1) ne] load_other [OF assms(1,3,4) o(1) ne] by (simp add: w' w1_def)
  moreover have "load_user_profile True (mw_rows w') tn' u' = load_user_profile True (mw_rows w) tn' u'"
    unfolding w' using load_upsert_other [of tn u tn' u'] o user_ok_row assms(4) by simp
  ultimately show "fst (load_user_memory ops cfg w' t stamp' tn' u') = fst (load_user_memory ops cfg w t stamp' tn' u')"
    unfolding load_fst [OF p'] up using assms(2) by (simp split: option.splits)
qed

end

definition redis_profile_ops :: "'r user_store profile_ops" where
  "redis_profile_ops = \<lparr>p_get = store_get, p_put = store_put, supports_ttl = True\<rparr>"

definition user_store_ok :: "'r user_store \<Rightarrow> bool" where
  "user_store_ok s \<longleftrightarrow> kv_laws (us_client s)"

lemma until_cases: "until now ttl t v \<in> {None, Some v}"
  by (auto simp: until_def split: option.splits)

lemma user_key_differs:
  "user_ok tn u \<Longrightarrow> user_ok tn' u' \<Longrightarrow> (tn, u) \<noteq> (tn', u') \<Longrightarrow>
     memory_key (memory_namespace tn' u') profile_key \<noteq> memory_key (memory_namespace tn u) profile_key"
  using memory_key_inj [of tn' u' tn u] user_ok_strip by (auto simp: user_ok_def)

lemma store_get_fst: "fst (store_get s now ns k) = map_option pl_value (kv_get (us_client s) (us_db s) now (memory_key ns k))"
  by (simp add: store_get_def Let_def split: option.splits)

lemma store_get_client: "us_client (snd (store_get s now ns k)) = us_client s"
  by (simp add: store_get_def Let_def split: option.splits)

lemma store_put_client: "us_client (store_put s now stamp ns k v ttl) = us_client s"
  by (simp add: store_put_def Let_def split: option.splits)

lemma store_put_keeps:
  "kv_laws (us_client s) \<Longrightarrow> now \<le> t \<Longrightarrow> k' \<noteq> memory_key ns k \<Longrightarrow>
     kv_get (us_client s) (us_db (store_put s now stamp ns k v ttl)) t k' = kv_get (us_client s) (us_db s) t k'"
  by (auto simp: store_put_def Let_def kv_rules split: option.splits)

lemma store_get_keeps:
  "kv_laws (us_client s) \<Longrightarrow> now \<le> t \<Longrightarrow> k' \<noteq> memory_key ns k \<Longrightarrow>
     kv_get (us_client s) (us_db (snd (store_get s now ns k))) t k' = kv_get (us_client s) (us_db s) t k'"
  by (auto simp: store_get_def Let_def kv_rules split: option.splits)

interpretation redis_profiles: profile_store redis_profile_ops user_store_ok
proof
  fix s :: "'r user_store" and now t ns k stamp v ttl tn u tn' u' and v' :: "user_memory option"
  assume s: "user_store_ok s"
  then have laws: "kv_laws (us_client s)" by (simp add: user_store_ok_def)
  show "user_store_ok (snd (p_get redis_profile_ops s now ns k))"
    using laws by (simp add: redis_profile_ops_def user_store_ok_def store_get_client)
  show "user_store_ok (p_put redis_profile_ops s now stamp ns k v' ttl)"
    using laws by (simp add: redis_profile_ops_def user_store_ok_def store_put_client)
  show "fst (p_get redis_profile_ops (p_put redis_profile_ops s now stamp ns k (Some v) ttl) t ns k) \<in> {None, Some v}" if "now \<le> t"
    using that laws by (auto simp: redis_profile_ops_def store_get_fst store_put_def Let_def kv_rules until_def split: option.splits)
  assume o: "now \<le> t" "user_ok tn u" "user_ok tn' u'" "(tn, u) \<noteq> (tn', u')"
  show "fst (p_get redis_profile_ops (p_put redis_profile_ops s now stamp (memory_namespace tn u) profile_key v' ttl) t
      (memory_namespace tn' u') profile_key) = fst (p_get redis_profile_ops s t (memory_namespace tn' u') profile_key)"
    using store_put_keeps [OF laws o(1) user_key_differs [OF o(2-4)]]
    by (simp add: redis_profile_ops_def store_get_fst store_put_client)
  show "fst (p_get redis_profile_ops (snd (p_get redis_profile_ops s now (memory_namespace tn u) profile_key)) t
      (memory_namespace tn' u') profile_key) = fst (p_get redis_profile_ops s t (memory_namespace tn' u') profile_key)"
    using store_get_keeps [OF laws o(1) user_key_differs [OF o(2-4)]]
    by (simp add: redis_profile_ops_def store_get_fst store_get_client)
qed

section \<open>Profiles survive and stay apart\<close>

definition recent_ok :: "ustr list \<Rightarrow> bool" where
  "recent_ok xs \<longleftrightarrow> distinct xs \<and> length xs \<le> max_recent \<and> [] \<notin> set xs"

lemma prepend_recent_ok: "recent_ok xs \<Longrightarrow> recent_ok (prepend_recent xs v)"
  by (auto simp: recent_ok_def prepend_recent_def truthy_iff dest: in_set_takeD)

definition memory_ok :: "user_memory \<Rightarrow> bool" where
  "memory_ok m \<longleftrightarrow> recent_ok (um_recent_orders m) \<and> recent_ok (um_recent_courses m) \<and>
     um_intent m \<noteq> Some [] \<and> um_order_no m \<noteq> Some [] \<and> um_course_query m \<noteq> Some [] \<and> um_course_name m \<noteq> Some []"

lemma update_memory_ok: "memory_ok m \<Longrightarrow> memory_ok (update_memory m stamp itn no cq cn h)"
  by (cases h) (auto simp: memory_ok_def update_memory_def Let_def prepend_recent_ok truthy_iff)

lemma memory_ok_value: "memory_ok m \<Longrightarrow> from_value (Some (to_value m)) = m"
proof -
  have d: "x \<noteq> Some [] \<Longrightarrow> drop_empty x = x" for x by (cases x) (simp_all add: drop_empty_def)
  assume "memory_ok m"
  then show ?thesis by (simp add: memory_ok_def recent_ok_def to_value_def from_value_def d)
qed

text \<open>
  C17: A saved profile is what every worker loads from then on, and nobody else's profile
  changes. Whatever turn facts are saved for a logged-in user, a later load through the Redis
  store gives back that profile, from the store or, once its entry has expired, from the
  archive row; the lists of recent orders and courses stay free of repetitions and within
  five; the loads of every other user of any tenant are untouched; and for an anonymous user
  nothing is stored at all.
\<close>

theorem saved_profile_is_loaded:
  assumes "kv_laws (us_client (mw_store w))" and "mw_up w" and "now \<le> t"
  shows "(user_ok tn u \<and> save_user_memory redis_profile_ops cfg w now stamp tn u itn no cq cn h = (Some m, w') \<longrightarrow>
      fst (load_user_memory redis_profile_ops cfg w' t stamp' tn u) = from_value (Some (to_value m)) \<and>
      (memory_ok (fst (load_user_memory redis_profile_ops cfg w now stamp tn u)) \<longrightarrow>
        memory_ok m \<and> fst (load_user_memory redis_profile_ops cfg w' t stamp' tn u) = m) \<and>
      (user_ok tn' u' \<and> (tn, strip u) \<noteq> (tn', strip u') \<longrightarrow>
        fst (load_user_memory redis_profile_ops cfg w' t stamp' tn' u') =
        fst (load_user_memory redis_profile_ops cfg w t stamp' tn' u'))) \<and>
    (\<not> is_persistent_user (Some u) \<longrightarrow>
      save_user_memory redis_profile_ops cfg w now stamp tn u itn no cq cn h = (None, w) \<and>
      load_user_memory redis_profile_ops cfg w t stamp tn u = (no_memory, w))"
proof (intro conjI impI)
  have ok: "user_store_ok (mw_store w)" using assms(1) by (simp add: user_store_ok_def)
  assume a: "user_ok tn u \<and> save_user_memory redis_profile_ops cfg w now stamp tn u itn no cq cn h = (Some m, w')"
  note s = redis_profiles.saved_is_loaded [OF ok assms(2,3) conjunct1 [OF a] conjunct2 [OF a]]
  show l: "fst (load_user_memory redis_profile_ops cfg w' t stamp' tn u) = from_value (Some (to_value m))" by (rule s(1))
  show "fst (load_user_memory redis_profile_ops cfg w' t stamp' tn' u') = fst (load_user_memory redis_profile_ops cfg w t stamp' tn' u')"
    if "user_ok tn' u' \<and> (tn, strip u) \<noteq> (tn', strip u')" using s(2) that by blast
  assume m: "memory_ok (fst (load_user_memory redis_profile_ops cfg w now stamp tn u))"
  have "m = update_memory (fst (load_user_memory redis_profile_ops cfg w now stamp tn u)) stamp itn no cq cn h"
    using a by (auto simp: save_user_memory_def Let_def case_prod_beta split: if_splits)
  with m show mo: "memory_ok m" by (simp add: update_memory_ok)
  with l show "fst (load_user_memory redis_profile_ops cfg w' t stamp' tn u) = m" by (simp add: memory_ok_value)
next
  assume "\<not> is_persistent_user (Some u)"
  then show "save_user_memory redis_profile_ops cfg w now stamp tn u itn no cq cn h = (None, w)"
    "load_user_memory redis_profile_ops cfg w t stamp tn u = (no_memory, w)"
    by (simp_all add: save_user_memory_def load_user_memory_def)
qed

definition demo_memory_world :: "payload ref_store user_store memory_world" where
  "demo_memory_world = \<lparr>mw_store = \<lparr>us_client = ref_kv, us_db = (\<lambda>_. None), us_ttl_minutes = 60\<rparr>, mw_rows = [], mw_up = True\<rparr>"

definition demo_memory_settings :: memory_settings where
  "demo_memory_settings = \<lparr>user_memory_enabled = True, user_memory_ttl = 60\<rparr>"

theorem saved_profile_is_loaded_witness:
  "um_order_no (fst (load_user_memory redis_profile_ops demo_memory_settings
     (snd (save_user_memory redis_profile_ops demo_memory_settings demo_memory_world 0 (asc ''t'') (asc ''demo'') (asc ''alice'') (Some (asc ''order''))
        (Some (asc ''20251114001'')) None None None)) 100000 (asc ''t'') (asc ''demo'') (asc ''alice''))) = Some (asc ''20251114001'')"
proof -
  let ?s = "save_user_memory redis_profile_ops demo_memory_settings demo_memory_world 0 (asc ''t'') (asc ''demo'') (asc ''alice'') (Some (asc ''order''))
    (Some (asc ''20251114001'')) None None None"
  have laws: "kv_laws (us_client (mw_store demo_memory_world))" "mw_up demo_memory_world" "(0::rat) \<le> 100000"
    by (simp_all add: demo_memory_world_def ref_kv_laws)
  have u: "user_ok (asc ''demo'') (asc ''alice'')"
    by (simp add: user_ok_def tenant_re_def is_persistent_user_def ephemeral_users_def strip_def is_space_def)
      (simp add: asc_def tenant_char_def is_space_def)
  then have p: "is_persistent_user (Some (asc ''alice''))" by (simp add: user_ok_def)
  have l: "fst (load_user_memory redis_profile_ops demo_memory_settings demo_memory_world 0 (asc ''t'') (asc ''demo'') (asc ''alice'')) = no_memory"
    using p by (simp add: load_user_memory_def redis_profile_ops_def demo_memory_world_def store_get_def Let_def ref_kv_def ref_get_def
        load_user_profile_def profile_row_of_def)
  obtain m w' where s: "?s = (Some m, w')" "um_order_no m = Some (asc ''20251114001'')"
    using p l by (auto simp: save_user_memory_def demo_memory_settings_def Let_def case_prod_beta update_memory_def missing_course_names_def)
  have ok: "memory_ok (fst (load_user_memory redis_profile_ops demo_memory_settings demo_memory_world 0 (asc ''t'') (asc ''demo'') (asc ''alice'')))"
    unfolding l by (simp add: memory_ok_def no_memory_def recent_ok_def)
  have "fst (load_user_memory redis_profile_ops demo_memory_settings w' 100000 (asc ''t'') (asc ''demo'') (asc ''alice'')) = m"
    using saved_profile_is_loaded [OF laws, of "(asc ''demo'')" "(asc ''alice'')" demo_memory_settings "(asc ''t'')" "Some (asc ''order'')" "Some (asc ''20251114001'')" None None None m w' "(asc ''t'')"]
      u s(1) ok by blast
  with s show ?thesis by simp
qed

end
