(* ===== verification/Session_State.thy ===== *)
theory Session_State
  imports Capabilities Compress Filters User_Memory
begin

text \<open>
  The state of the graph (\<open>app/graph/state/\<close>), its cold archive (the session part of
  \<open>app/db/archive.py\<close>), the recovery from it (\<open>app/graph/hydrate.py\<close>) and the end of a turn
  (\<open>app/context/turn.py\<close>). The state is one flat dictionary in the code, whose missing keys
  read like the falsy values that stand for them here. A cached result in the state is the
  snapshot of \<open>Tool_Cache\<close>; JSON text is the object it was made from.
\<close>

section \<open>State and views\<close>

record identity_state =
  g_query :: ustr
  g_user :: ustr
  g_tenant :: ustr
  g_session :: ustr
  g_messages :: "message list"

record route_state = identity_state +
  g_intent :: ustr
  g_target :: ustr
  g_confidence :: rat
  g_needs :: bool
  g_question :: "ustr option"
  g_order_no :: "ustr option"
  g_course_query :: "ustr option"
  g_blocked :: bool
  g_block_reason :: ustr
  g_upgraded :: bool

record memory_state = route_state +
  g_last_intent :: "ustr option"
  g_last_order_no :: "ustr option"
  g_last_course_query :: "ustr option"
  g_last_course_name :: "ustr option"
  g_handoff_pending :: bool
  g_last_order :: "order_report snapshot option"
  g_last_course :: "course_result snapshot option"
  g_last_course_key :: "ustr option"
  g_summary :: ustr

record result_state = memory_state +
  g_answer :: ustr
  g_structured :: "tool_payload option"
  g_visualization :: "ustr option"
  g_oss_url :: "ustr option"

type_synonym cs_state = result_state

text \<open>\<open>RESULT_TURN_RESET\<close> and \<open>ROUTE_TURN_RESET\<close>, as updates of the state.\<close>

definition result_turn_reset :: "cs_state \<Rightarrow> cs_state" where
  "result_turn_reset s = s\<lparr>g_answer := [], g_structured := None, g_visualization := None, g_oss_url := None\<rparr>"

definition route_turn_reset :: "cs_state \<Rightarrow> cs_state" where
  "route_turn_reset s = s\<lparr>g_blocked := False, g_block_reason := [], g_intent := [], g_target := [], g_confidence := 0,
     g_needs := False, g_question := None, g_order_no := None, g_course_query := None, g_upgraded := False\<rparr>"

definition reset_turn_fields :: "cs_state \<Rightarrow> cs_state" where
  "reset_turn_fields s = result_turn_reset (route_turn_reset s)"

definition nonempty_or_none :: "ustr option \<Rightarrow> ustr option" where
  "nonempty_or_none x = (if truthy x then x else None)"

record identity_view =
  iv_query :: ustr
  iv_user :: ustr
  iv_tenant :: ustr
  iv_session :: ustr

definition identity_of :: "ustr \<Rightarrow> cs_state \<Rightarrow> identity_view" where
  "identity_of default_tenant s =
     \<lparr>iv_query = g_query s, iv_user = or_str (strip (g_user s)) (asc ''anonymous''), iv_tenant = or_str (strip (g_tenant s)) default_tenant,
      iv_session = strip (g_session s)\<rparr>"

record route_view =
  rv_intent :: ustr
  rv_target :: ustr
  rv_confidence :: rat
  rv_needs :: bool
  rv_question :: "ustr option"
  rv_order_no :: "ustr option"
  rv_course_query :: "ustr option"
  rv_blocked :: bool
  rv_block_reason :: ustr
  rv_upgraded :: bool

definition route_of :: "cs_state \<Rightarrow> route_view" where
  "route_of s = \<lparr>rv_intent = g_intent s, rv_target = g_target s, rv_confidence = g_confidence s, rv_needs = g_needs s,
     rv_question = g_question s, rv_order_no = nonempty_or_none (g_order_no s), rv_course_query = nonempty_or_none (g_course_query s),
     rv_blocked = g_blocked s, rv_block_reason = g_block_reason s, rv_upgraded = g_upgraded s\<rparr>"

record memory_view =
  mv_last_intent :: "ustr option"
  mv_last_order_no :: "ustr option"
  mv_last_course_query :: "ustr option"
  mv_last_course_name :: "ustr option"
  mv_handoff_pending :: bool
  mv_last_order :: "order_report snapshot option"
  mv_last_course :: "course_result snapshot option"
  mv_last_course_key :: "ustr option"
  mv_summary :: ustr

definition memory_of :: "cs_state \<Rightarrow> memory_view" where
  "memory_of s = \<lparr>mv_last_intent = nonempty_or_none (g_last_intent s), mv_last_order_no = nonempty_or_none (g_last_order_no s),
     mv_last_course_query = nonempty_or_none (g_last_course_query s), mv_last_course_name = nonempty_or_none (g_last_course_name s),
     mv_handoff_pending = g_handoff_pending s, mv_last_order = g_last_order s, mv_last_course = g_last_course s,
     mv_last_course_key = nonempty_or_none (g_last_course_key s), mv_summary = g_summary s\<rparr>"

text \<open>\<open>MemoryView.as_state\<close>, merged into a state.\<close>

definition memory_as_state :: "memory_view \<Rightarrow> cs_state \<Rightarrow> cs_state" where
  "memory_as_state m s = s\<lparr>g_last_intent := mv_last_intent m, g_last_order_no := mv_last_order_no m,
     g_last_course_query := mv_last_course_query m, g_last_course_name := mv_last_course_name m,
     g_handoff_pending := mv_handoff_pending m, g_last_order := mv_last_order m, g_last_course := mv_last_course m,
     g_last_course_key := mv_last_course_key m, g_summary := mv_summary m\<rparr>"

record result_view =
  sv_answer :: ustr
  sv_structured :: "tool_payload option"
  sv_visualization :: "ustr option"
  sv_oss_url :: "ustr option"

definition result_of :: "cs_state \<Rightarrow> result_view" where
  "result_of s = \<lparr>sv_answer = g_answer s, sv_structured = g_structured s, sv_visualization = g_visualization s, sv_oss_url = g_oss_url s\<rparr>"

text \<open>\<open>SessionSlots.from_state\<close> and the snapshot of \<open>session_tool_cache_scope\<close>.\<close>

definition slots_of :: "cs_state \<Rightarrow> session_slots" where
  "slots_of s = (let m = memory_of s in \<lparr>last_intent = mv_last_intent m, last_order_no = mv_last_order_no m,
     last_course_query = mv_last_course_query m, last_course_name = mv_last_course_name m, handoff_pending = mv_handoff_pending m\<rparr>)"

definition session_cache_of :: "cs_state \<Rightarrow> session_tool_cache" where
  "session_cache_of s = \<lparr>last_order_structured = g_last_order s, last_course_structured = g_last_course s,
     last_course_structured_key = strip_opt (g_last_course_key s)\<rparr>"

section \<open>The archive\<close>

definition encode_messages :: "message list \<Rightarrow> (ustr \<times> ustr) list" where
  "encode_messages ms = concat (map (\<lambda>m. if is_human m then [((asc ''human''), msg_text m)]
     else if is_ai m then [((asc ''ai''), msg_text m)] else []) ms)"

definition decode_messages :: "(ustr \<times> ustr) list \<Rightarrow> message list" where
  "decode_messages raw = concat (map (\<lambda>(r, content).
     if r = (asc ''human'') then [human content]
     else if r = (asc ''ai'') then [ai content] else []) raw)"

record session_payload =
  sp_messages :: "(ustr \<times> ustr) list"
  sp_memory :: memory_view

definition build_session_state_payload :: "cs_state \<Rightarrow> session_payload" where
  "build_session_state_payload s = \<lparr>sp_messages = encode_messages (g_messages s), sp_memory = memory_of s\<rparr>"

record session_row =
  sr_tenant :: ustr
  sr_user :: ustr
  sr_session :: ustr
  sr_thread :: ustr
  sr_payload :: session_payload

definition is_session :: "ustr \<Rightarrow> ustr \<Rightarrow> ustr \<Rightarrow> session_row \<Rightarrow> bool" where
  "is_session tn u sid r \<longleftrightarrow> sr_tenant r = tn \<and> sr_user r = u \<and> sr_session r = sid"

text \<open>\<open>up\<close>: the database answers; otherwise the failure is only logged.\<close>

definition upsert_session_archive ::
  "bool \<Rightarrow> session_row list \<Rightarrow> ustr \<Rightarrow> ustr \<Rightarrow> ustr \<Rightarrow> ustr \<Rightarrow> cs_state \<Rightarrow> session_row list" where
  "upsert_session_archive up rows tenant_id user_id session_id thread s =
     (let tn = or_str (strip tenant_id) (asc ''demo''); u = or_str (strip user_id) (asc ''anonymous''); sid = strip session_id;
          payload = build_session_state_payload s
      in if sid = [] \<or> \<not> up then rows
         else case find (is_session tn u sid) rows of
             None \<Rightarrow> rows @ [\<lparr>sr_tenant = tn, sr_user = u, sr_session = sid, sr_thread = thread, sr_payload = payload\<rparr>]
           | Some _ \<Rightarrow> map (\<lambda>r. if is_session tn u sid r
                 then r\<lparr>sr_payload := payload, sr_thread := or_str thread (sr_thread r)\<rparr> else r) rows)"

definition load_session_archive :: "bool \<Rightarrow> session_row list \<Rightarrow> ustr \<Rightarrow> ustr \<Rightarrow> ustr \<Rightarrow> session_payload option" where
  "load_session_archive up rows tenant_id user_id session_id =
     (let tn = or_str (strip tenant_id) (asc ''demo''); u = or_str (strip user_id) (asc ''anonymous''); sid = strip session_id
      in if sid = [] \<or> \<not> up then None else map_option sr_payload (find (is_session tn u sid) rows))"

section \<open>Recovering a session\<close>

text \<open>What a turn is started with; \<open>in_recovered\<close> are the fields taken from the archive.\<close>

record turn_inputs =
  in_query :: ustr
  in_user :: ustr
  in_tenant :: ustr
  in_session :: ustr
  in_recovered :: "(message list \<times> memory_view) option"

text \<open>The memory of a state whose fields are those of the view.\<close>

definition view_of_view :: "memory_view \<Rightarrow> memory_view" where
  "view_of_view m = m\<lparr>mv_last_intent := nonempty_or_none (mv_last_intent m), mv_last_order_no := nonempty_or_none (mv_last_order_no m),
     mv_last_course_query := nonempty_or_none (mv_last_course_query m), mv_last_course_name := nonempty_or_none (mv_last_course_name m),
     mv_last_course_key := nonempty_or_none (mv_last_course_key m)\<rparr>"

definition archive_to_graph_inputs :: "session_payload \<Rightarrow> message list \<times> memory_view" where
  "archive_to_graph_inputs p = (decode_messages (sp_messages p), view_of_view (sp_memory p))"

text \<open>\<open>None\<close>: reading the checkpoint raised, which is logged and taken for a miss.\<close>

definition checkpoint_exists :: "bool option \<Rightarrow> bool" where
  "checkpoint_exists probe = (case probe of None \<Rightarrow> False | Some found \<Rightarrow> found)"

definition merge_archive :: "turn_inputs \<Rightarrow> session_payload option \<Rightarrow> turn_inputs" where
  "merge_archive inp archived = (case archived of None \<Rightarrow> inp | Some p \<Rightarrow> inp\<lparr>in_recovered := Some (archive_to_graph_inputs p)\<rparr>)"

definition hydrate_inputs_from_archive ::
  "bool option \<Rightarrow> bool \<Rightarrow> session_row list \<Rightarrow> ustr \<Rightarrow> ustr \<Rightarrow> ustr \<Rightarrow> turn_inputs \<Rightarrow> turn_inputs" where
  "hydrate_inputs_from_archive probe up rows tenant_id user_id session_id inp =
     (if checkpoint_exists probe then inp else merge_archive inp (load_session_archive up rows tenant_id user_id session_id))"

section \<open>The end of a turn\<close>

datatype message_update = Remove ustr | Put message

record respond_update =
  ru_answer :: ustr
  ru_stored_answer :: ustr
  ru_messages :: "message_update list"
  ru_summary :: ustr
  ru_kept :: "message list"

record turn_settings =
  ts_default_tenant :: ustr
  ts_history_budget :: int
  ts_keep_recent :: nat
  ts_discard_score :: rat
  ts_summarize_score :: rat
  ts_max_messages :: nat
  ts_use_llm :: bool
  ts_summary_chars :: int

definition llm_unavailable_answer :: ustr where
  "llm_unavailable_answer = [0x5F53, 0x524D, 0x667A, 0x80FD, 0x52A9, 0x624B, 0x6682, 0x65F6, 0x4E0D, 0x53EF, 0x7528, 0x3002, 0x60A8, 0x53EF, 0x4EE5, 0x7A0D, 0x540E, 0x518D, 0x8BD5, 0xFF0C, 0x6216, 0x76F4, 0x63A5, 0x63D0, 0x4F9B, 0x8BA2, 0x5355, 0x53F7, 0x67E5, 0x8BE2, 0x8FDB, 0x5EA6, 0xFF0C, 0x4E5F, 0x53EF, 0x4EE5, 0x56DE, 0x590D, 0x300C, 0x8F6C, 0x4EBA, 0x5DE5, 0x300D, 0x7531, 0x4E13, 0x5458, 0x7EE7, 0x7EED, 0x5904, 0x7406, 0x3002] \<comment> \<open>unavailable: try later, give an order number, or ask for a person\<close>"

definition build_stored_answer :: "ustr \<Rightarrow> ustr \<times> ustr" where
  "build_stored_answer answer = (let full = inspect_output answer in (full, compact_rag_history full))"

definition build_message_updates :: "compress_result \<Rightarrow> ustr \<Rightarrow> message_update list" where
  "build_message_updates res stored_answer =
     (let to_remove = map snd (cr_discarded res @ cr_summarized res);
          removals = map (\<lambda>m. Remove (the (msg_id m))) (filter has_id to_remove);
          replacements = map Put (filter has_id (cr_updated res));
          turn_ai = (if cr_kept res \<noteq> [] \<and> is_ai (snd (last (cr_kept res))) \<and> \<not> has_id (snd (last (cr_kept res)))
            then snd (last (cr_kept res)) else ai stored_answer)
      in removals @ replacements @ [Put turn_ai])"

definition resolve_respond_answer :: "cs_state \<Rightarrow> ustr" where
  "resolve_respond_answer s =
     (let answer = sv_answer (result_of s) in
      if strip answer \<noteq> [] then answer
      else if rv_blocked (route_of s) then or_str answer [0x8BF7, 0x6C42, 0x5DF2, 0x88AB, 0x5B89, 0x5168, 0x4E2D, 0x95F4, 0x4EF6, 0x62E6, 0x622A, 0x3002] \<comment> \<open>blocked by the security layer\<close>
      else llm_unavailable_answer)"

definition respond_compress_args :: "turn_settings \<Rightarrow> cs_state \<Rightarrow> compress_args" where
  "respond_compress_args cfg s =
     \<lparr>ca_query = iv_query (identity_of (ts_default_tenant cfg) s), ca_budget = ts_history_budget cfg, ca_slots = Some (slots_of s),
      ca_keep_recent = ts_keep_recent cfg, ca_discard = ts_discard_score cfg, ca_summarize = ts_summarize_score cfg,
      ca_max_messages = ts_max_messages cfg, ca_existing = mv_summary (memory_of s), ca_use_llm = ts_use_llm cfg,
      ca_max_chars = Some (ts_summary_chars cfg)\<rparr>"

definition finalize_respond_turn :: "tokenizer \<Rightarrow> (ustr \<Rightarrow> ustr option) \<Rightarrow> turn_settings \<Rightarrow> cs_state \<Rightarrow> respond_update" where
  "finalize_respond_turn tk ask cfg s =
     (let (answer, stored) = build_stored_answer (resolve_respond_answer s);
          projected = g_messages s @ [ai stored];
          res = run_compression tk ask (respond_compress_args cfg s) projected
      in \<lparr>ru_answer = answer, ru_stored_answer = stored, ru_messages = build_message_updates res stored,
          ru_summary = cr_summary res, ru_kept = map snd (cr_kept res)\<rparr>)"

definition persist_respond_turn :: "turn_settings \<Rightarrow> bool \<Rightarrow> session_row list \<Rightarrow> cs_state \<Rightarrow> respond_update \<Rightarrow> session_row list" where
  "persist_respond_turn cfg up rows s upd =
     (let ident = identity_of (ts_default_tenant cfg) s
      in upsert_session_archive up rows (iv_tenant ident) (iv_user ident) (iv_session ident)
           (if iv_session ident \<noteq> [] then make_thread_id (iv_tenant ident) (iv_session ident) (iv_user ident) else [])
           (s\<lparr>g_messages := ru_kept upd, g_summary := ru_summary upd\<rparr>))"


section \<open>What is archived is recovered\<close>

lemma nonempty_or_none_idem [simp]: "nonempty_or_none (nonempty_or_none x) = nonempty_or_none x"
  by (simp add: nonempty_or_none_def)

lemma view_of_memory [simp]: "view_of_view (memory_of s) = memory_of s"
  by (simp add: view_of_view_def memory_of_def)

definition untag :: "message \<Rightarrow> message" where
  "untag m = m\<lparr>msg_id := None\<rparr>"

definition in_dialogue :: "message \<Rightarrow> bool" where
  "in_dialogue m \<longleftrightarrow> is_human m \<or> is_ai m"

lemma decode_encode_messages: "decode_messages (encode_messages ms) = map untag (filter in_dialogue ms)"
proof (induction ms)
  case Nil
  then show ?case by (simp add: encode_messages_def decode_messages_def)
next
  case (Cons m ms)
  have "(asc ''human'') \<noteq> (asc ''ai'')" by simp
  with Cons show ?case
    by (cases m) (auto simp: encode_messages_def decode_messages_def untag_def in_dialogue_def is_human_def is_ai_def human_def ai_def)
qed

lemma find_map_same: "(\<And>r. P (f r) = P r) \<Longrightarrow> find P (map f rows) = map_option f (find P rows)"
  by (induction rows) auto

lemma find_session_upsert:
  "find (is_session tn u sid) rows \<noteq> None \<Longrightarrow>
     find (is_session tn' u' sid') (map (\<lambda>r. if is_session tn u sid r then r\<lparr>sr_payload := p, sr_thread := f r\<rparr> else r) rows) =
       map_option (\<lambda>r. if (tn', u', sid') = (tn, u, sid) then r\<lparr>sr_payload := p, sr_thread := f r\<rparr> else r)
         (find (is_session tn' u' sid') rows)"
  by (subst find_map_same) (auto simp: is_session_def find_Some_iff option.map_comp intro!: option.map_cong0)

lemma find_append: "find P (xs @ ys) = (case find P xs of None \<Rightarrow> find P ys | Some x \<Rightarrow> Some x)"
  by (induction xs) auto

lemma is_session_new: "is_session tn u sid \<lparr>sr_tenant = a, sr_user = b, sr_session = c, sr_thread = th, sr_payload = p\<rparr> \<longleftrightarrow>
    (tn, u, sid) = (a, b, c)"
  by (auto simp: is_session_def)

lemma load_upsert_session:
  "strip sid \<noteq> [] \<Longrightarrow> load_session_archive True (upsert_session_archive True rows tn u sid th s) tn u sid = Some (build_session_state_payload s)"
  by (auto simp: load_session_archive_def upsert_session_archive_def Let_def find_session_upsert find_append is_session_new split: option.splits)

lemma load_upsert_other_session:
  "(or_str (strip tn) (asc ''demo''), or_str (strip u) (asc ''anonymous''), strip sid) \<noteq> (or_str (strip tn') (asc ''demo''), or_str (strip u') (asc ''anonymous''), strip sid') \<Longrightarrow>
     load_session_archive up' (upsert_session_archive up rows tn u sid th s) tn' u' sid' = load_session_archive up' rows tn' u' sid'"
  by (auto simp: load_session_archive_def upsert_session_archive_def Let_def find_session_upsert find_append is_session_new option.map_comp
      comp_def split: option.splits)

text \<open>
  C22: A session survives the loss of its checkpoint. After a turn has been archived, a new turn
  of the same tenant, user and session that finds no checkpoint (or cannot read it) starts
  with the dialogue that the turn kept, user and assistant messages in order, and with the
  memory fields and summary of that turn. A turn that finds its checkpoint takes nothing from
  the archive, so no message is doubled, and archiving changes no other session.
\<close>

theorem archived_session_is_recovered:
  fixes cfg :: turn_settings and s :: cs_state
  defines "ident \<equiv> identity_of (ts_default_tenant cfg) s"
  assumes "iv_session ident \<noteq> []" and "rows' = persist_respond_turn cfg True rows s upd"
  shows "hydrate_inputs_from_archive (Some True) True rows' (iv_tenant ident) (iv_user ident) (iv_session ident) inp = inp \<and>
    (\<forall>probe \<in> {None, Some False}. hydrate_inputs_from_archive probe True rows' (iv_tenant ident) (iv_user ident) (iv_session ident) inp =
       inp\<lparr>in_recovered := Some (map untag (filter in_dialogue (ru_kept upd)), (memory_of s)\<lparr>mv_summary := ru_summary upd\<rparr>)\<rparr>) \<and>
    ((or_str (strip (iv_tenant ident)) (asc ''demo''), or_str (strip (iv_user ident)) (asc ''anonymous''), iv_session ident) \<noteq>
       (or_str (strip tn) (asc ''demo''), or_str (strip u) (asc ''anonymous''), strip sid) \<longrightarrow>
       hydrate_inputs_from_archive probe True rows' tn u sid inp = hydrate_inputs_from_archive probe True rows tn u sid inp)"
proof -
  have sid: "strip (iv_session ident) = iv_session ident" by (simp add: ident_def identity_of_def)
  let ?s = "s\<lparr>g_messages := ru_kept upd, g_summary := ru_summary upd\<rparr>"
  have m: "memory_of ?s = (memory_of s)\<lparr>mv_summary := ru_summary upd\<rparr>" by (simp add: memory_of_def)
  have v: "view_of_view ((memory_of s)\<lparr>mv_summary := x\<rparr>) = (memory_of s)\<lparr>mv_summary := x\<rparr>" for x
    by (simp add: view_of_view_def memory_of_def)
  have rows: "rows' = upsert_session_archive True rows (iv_tenant ident) (iv_user ident) (iv_session ident)
      (make_thread_id (iv_tenant ident) (iv_session ident) (iv_user ident)) ?s"
    using assms(2,3) by (simp add: persist_respond_turn_def ident_def Let_def)
  have l: "load_session_archive True rows' (iv_tenant ident) (iv_user ident) (iv_session ident) = Some (build_session_state_payload ?s)"
    unfolding rows by (rule load_upsert_session) (simp add: sid assms(2))
  show ?thesis using l load_upsert_other_session [of "iv_tenant ident" "iv_user ident" "iv_session ident" tn u sid] rows
    by (auto simp: hydrate_inputs_from_archive_def checkpoint_exists_def merge_archive_def archive_to_graph_inputs_def
        build_session_state_payload_def decode_encode_messages m v sid)
qed


section \<open>The checkpoint and the archive agree\<close>

definition removed_ids :: "message_update list \<Rightarrow> ustr option set" where
  "removed_ids us = {Some i | i. Remove i \<in> set us}"

definition puts :: "message_update list \<Rightarrow> message list" where
  "puts us = concat (map (\<lambda>u. case u of Put m \<Rightarrow> [m] | Remove _ \<Rightarrow> []) us)"

definition replaced_by :: "message_update list \<Rightarrow> message \<Rightarrow> message" where
  "replaced_by us m = (case find (\<lambda>x. has_id x \<and> msg_id x = msg_id m) (puts us) of None \<Rightarrow> m | Some x \<Rightarrow> x)"

text \<open>
  The documented behaviour of the reducer \<open>add_messages\<close> of LangGraph: messages with the id of
  an existing one replace it, messages without an id are appended, and \<open>RemoveMessage\<close> deletes
  by id. Which ids it gives to new messages is left open.
\<close>

definition updates_ok :: "message list \<Rightarrow> message_update list \<Rightarrow> bool" where
  "updates_ok ms us \<longleftrightarrow> removed_ids us \<subseteq> set (map msg_id ms) \<and>
     (\<forall>x \<in> set (puts us). has_id x \<longrightarrow> msg_id x \<in> set (map msg_id ms) - removed_ids us) \<and>
     (\<forall>x \<in> set (puts us). \<forall>y \<in> set (puts us). has_id x \<and> msg_id x = msg_id y \<longrightarrow> x = y)"

definition reducer_laws :: "(message list \<Rightarrow> message_update list \<Rightarrow> message list) \<Rightarrow> bool" where
  "reducer_laws red \<longleftrightarrow> (\<forall>ms us. (\<forall>m \<in> set ms. has_id m) \<longrightarrow> ids_distinct ms \<longrightarrow> updates_ok ms us \<longrightarrow>
     map untag (red ms us) = map untag (map (replaced_by us) (filter (\<lambda>m. msg_id m \<notin> removed_ids us) ms) @
       filter (\<lambda>x. \<not> has_id x) (puts us)))"

lemma sorted_distinct_filter:
  assumes "sorted xs" "distinct xs" "set xs \<subseteq> {..<n}"
  shows "xs = filter (\<lambda>i. i \<in> set xs) [0..<n]"
proof (rule sorted_distinct_set_unique)
  show "sorted (filter (\<lambda>i. i \<in> set xs) [0..<n])" using sorted_filter [of id "[0..<n]"] by simp
qed (use assms in auto)

text \<open>The patches \<open>us\<close> leave of the conversation \<open>ms\<close> the messages \<open>ks\<close>, by position, and add \<open>x\<close>.\<close>

definition patches :: "message list \<Rightarrow> posmsg list \<Rightarrow> message \<Rightarrow> message_update list \<Rightarrow> bool" where
  "patches ms ks x us \<longleftrightarrow> sorted (map fst ks) \<and> distinct (map fst ks) \<and>
     (\<forall>(i, m) \<in> set ks. i < length ms \<and> msg_id m = msg_id (ms ! i)) \<and>
     removed_ids us = {msg_id (ms ! i) | i. i < length ms \<and> i \<notin> fst ` set ks} \<and>
     (\<forall>y \<in> set (puts us). has_id y \<longrightarrow> y \<in> snd ` set ks) \<and>
     (\<forall>(i, m) \<in> set ks. m \<noteq> ms ! i \<longrightarrow> m \<in> set (puts us)) \<and>
     filter (\<lambda>y. \<not> has_id y) (puts us) = [x]"

definition identified :: "message list \<Rightarrow> bool" where
  "identified ms \<longleftrightarrow> (\<forall>m \<in> set ms. has_id m) \<and> ids_distinct ms"

lemma identified_nth:
  assumes "identified ms" "i < length ms"
  shows "has_id (ms ! i)" and "msg_id (ms ! i) \<noteq> None"
proof -
  show h: "has_id (ms ! i)" using assms by (simp add: identified_def)
  then show "msg_id (ms ! i) \<noteq> None" by (auto simp: has_id_def truthy_iff)
qed

lemma identified_eq:
  "identified ms \<Longrightarrow> i < length ms \<Longrightarrow> j < length ms \<Longrightarrow> msg_id (ms ! i) = msg_id (ms ! j) \<Longrightarrow> i = j"
  using ids_distinct_nth [of ms i j] identified_nth(2) [of ms i] by (simp add: identified_def)

lemma patches_same:
  assumes "identified ms" "patches ms ks x us" "(i, m) \<in> set ks" "(j, y) \<in> set ks" "msg_id m = msg_id y"
  shows "i = j \<and> m = y"
proof -
  have "i < length ms" "j < length ms" "msg_id m = msg_id (ms ! i)" "msg_id y = msg_id (ms ! j)" "distinct (map fst ks)"
    using assms(2-4) by (auto simp: patches_def)
  with identified_eq [OF assms(1), of i j] assms(3-5) show ?thesis by (metis eq_key_imp_eq_value)
qed

lemma patches_removed:
  assumes "identified ms" "patches ms ks x us" "i < length ms"
  shows "msg_id (ms ! i) \<in> removed_ids us \<longleftrightarrow> i \<notin> fst ` set ks"
proof -
  have "removed_ids us = {msg_id (ms ! i) | i. i < length ms \<and> i \<notin> fst ` set ks}" using assms(2) by (simp add: patches_def)
  then show ?thesis using identified_eq [OF assms(1)] assms(3) by auto
qed

lemma patches_updates_ok:
  assumes "identified ms" "patches ms ks x us"
  shows "updates_ok ms us"
proof -
  have ks: "i < length ms \<and> msg_id m = msg_id (ms ! i)" if "(i, m) \<in> set ks" for i m using assms(2) that by (auto simp: patches_def)
  have put: "\<exists>j. (j, y) \<in> set ks" if "y \<in> set (puts us)" "has_id y" for y using assms(2) that by (force simp: patches_def)
  show ?thesis unfolding updates_ok_def
  proof (intro conjI ballI impI)
    show "removed_ids us \<subseteq> set (map msg_id ms)" using assms(2) by (auto simp: patches_def)
  next
    fix y
    assume "y \<in> set (puts us)" "has_id y"
    then obtain j where j: "(j, y) \<in> set ks" using put by blast
    then have "j \<in> fst ` set ks" by force
    then show "msg_id y \<in> set (map msg_id ms) - removed_ids us" using ks [OF j] patches_removed [OF assms, of j] by auto
  next
    fix y z
    assume y: "y \<in> set (puts us)" "z \<in> set (puts us)" "has_id y \<and> msg_id y = msg_id z"
    then have "has_id z" unfolding has_id_def by (elim conjE, simp only:)
    with y put show "y = z" using patches_same [OF assms] by metis
  qed
qed

lemma patches_replace:
  assumes "identified ms" "patches ms ks x us" "(i, m) \<in> set ks"
  shows "replaced_by us (ms ! i) = m"
proof -
  have i: "i < length ms" "msg_id m = msg_id (ms ! i)" using assms(2,3) by (auto simp: patches_def)
  then have h: "has_id m" using identified_nth(1) [OF assms(1) i(1)] by (simp add: has_id_def)
  show ?thesis
  proof (cases "find (\<lambda>y. has_id y \<and> msg_id y = msg_id (ms ! i)) (puts us)")
    case None
    then have "m \<notin> set (puts us)" using h i(2) by (auto simp: find_None_iff)
    then have "m = ms ! i" using assms(2,3) by (auto simp: patches_def)
    with None show ?thesis by (simp add: replaced_by_def)
  next
    case (Some y)
    then have y: "y \<in> set (puts us)" "has_id y" "msg_id y = msg_id (ms ! i)" by (auto simp: find_Some_iff)
    then obtain j where "(j, y) \<in> set ks" using assms(2) by (force simp: patches_def)
    then have "y = m" using patches_same [OF assms(1,2,3)] y(3) i(2) by metis
    with Some show ?thesis by (simp add: replaced_by_def)
  qed
qed

lemma patches_kept_positions:
  assumes "patches ms ks x us"
  shows "map fst ks = filter (\<lambda>i. i \<in> fst ` set ks) [0..<length ms]"
proof -
  have "map fst ks = filter (\<lambda>i. i \<in> set (map fst ks)) [0..<length ms]"
    using assms by (intro sorted_distinct_filter) (auto simp: patches_def)
  then show ?thesis by simp
qed

lemma patches_apply:
  assumes i: "identified ms" and p: "patches ms ks x us" and red: "reducer_laws red"
  shows "map untag (red ms us) = map untag (map snd ks @ [x])"
proof -
  have "filter (\<lambda>m. msg_id m \<notin> removed_ids us) ms = map ((!) ms) (filter (\<lambda>i. msg_id (ms ! i) \<notin> removed_ids us) [0..<length ms])"
    by (metis (no_types, lifting) filter_map map_nth comp_apply filter_cong)
  also have "filter (\<lambda>i. msg_id (ms ! i) \<notin> removed_ids us) [0..<length ms] = map fst ks"
    unfolding patches_kept_positions [OF p] by (rule filter_cong) (use patches_removed [OF i p] in auto)
  finally have "map (replaced_by us) (filter (\<lambda>m. msg_id m \<notin> removed_ids us) ms) = map (\<lambda>k. replaced_by us (ms ! fst k)) ks"
    by (simp add: comp_def)
  also have "\<dots> = map snd ks" using patches_replace [OF i p] by (auto intro!: map_cong)
  finally have "map (replaced_by us) (filter (\<lambda>m. msg_id m \<notin> removed_ids us) ms) = map snd ks" .
  moreover have "filter (\<lambda>y. \<not> has_id y) (puts us) = [x]" using p by (simp add: patches_def)
  ultimately show ?thesis using red i patches_updates_ok [OF i p] by (simp add: reducer_laws_def identified_def del: map_map)
qed

text \<open>The conversation as \<open>finalize_respond_turn\<close> hands it to the compression: how the kept part ends, and what is gone.\<close>

lemma splits_last:
  assumes sp: "splits_conversation (ms @ [reply]) kept summ disc" and r: "is_ai reply"
  obtains ks x where "kept = ks @ [(length ms, x)]" "x = reply \<or> x = compact_rag_message reply" "\<forall>(i, m) \<in> set ks. i < length ms"
proof -
  note parts = sp [unfolded splits_conversation_def]
  have "\<not> is_system (last (ms @ [reply]))" using r by (simp add: is_system_def is_ai_def)
  then have k: "kept \<noteq> []" "fst (last kept) = length ms" using parts by auto
  then obtain ks x where ks: "kept = ks @ [(length ms, x)]" by (metis append_butlast_last_id prod.collapse)
  have part: "part_of (ms @ [reply]) kept" using parts by auto
  have "distinct (map fst kept)" by (rule splits_distinct [OF sp])
  then have "i < length ms" if "(i, m) \<in> set ks" for i m
    using that part_of_id [OF part, of i m] by (auto simp: ks less_Suc_eq image_iff)
  moreover have "x = reply \<or> x = compact_rag_message reply" using part by (auto simp: ks part_of_def)
  ultimately show ?thesis using that [OF ks] by blast
qed

lemma splits_gone:
  assumes "splits_conversation ms kept summ disc" "i < length ms"
  shows "i \<in> fst ` set (disc @ summ) \<longleftrightarrow> i \<notin> fst ` set kept"
proof -
  have m: "mset (map fst kept @ map fst (disc @ summ)) = mset [0..<length ms]"
    using assms(1) by (simp add: splits_conversation_def positions_def ac_simps)
  have "distinct (map fst kept @ map fst (disc @ summ))"
    using mset_eq_imp_distinct_iff [OF m] by simp
  moreover have "set (map fst kept @ map fst (disc @ summ)) = {0..<length ms}"
    using mset_eq_setD [OF m] by simp
  ultimately show ?thesis using assms(2) by auto
qed

lemma removed_ids_of_gone:
  assumes "\<forall>u \<in> set rest. \<exists>m. u = Put m"
  shows "removed_ids (map (\<lambda>m. Remove (the (msg_id m))) (filter has_id ms) @ rest) = msg_id ` {m \<in> set ms. has_id m}"
proof -
  have "Some (the (msg_id m)) = msg_id m" if "has_id m" for m using that by (auto simp: has_id_def truthy_iff)
  then show ?thesis using assms unfolding removed_ids_def by (auto simp: image_iff) force+
qed

lemma respond_patches:
  assumes ids: "identified ms" and r: "is_ai reply" "msg_id reply = None"
    and sp: "splits_conversation (ms @ [reply]) (cr_kept res) (cr_summarized res) (cr_discarded res)"
    and um: "updates_match (ms @ [reply]) (cr_kept res) (cr_updated res)"
    and ks: "cr_kept res = ks @ [(length ms, x)]" and x: "x = reply \<or> x = compact_rag_message reply"
    and lt: "\<forall>(i, m) \<in> set ks. i < length ms"
  shows "patches ms ks x (build_message_updates res stored)"
proof -
  let ?gone = "cr_discarded res @ cr_summarized res"
  let ?rest = "map Put (filter has_id (cr_updated res)) @ [Put x]"
  have xr: "is_ai x" "msg_id x = None" using x r by (auto simp: is_ai_def compact_rag_message_def)
  have us: "build_message_updates res stored = map (\<lambda>m. Remove (the (msg_id m))) (filter has_id (map snd ?gone)) @ ?rest"
    using xr by (simp add: build_message_updates_def Let_def ks has_id_def)
  have puts: "puts (build_message_updates res stored) = filter has_id (cr_updated res) @ [x]"
    unfolding us by (auto simp: puts_def comp_def map_concat)
  have part: "part_of (ms @ [reply]) (cr_kept res)" "part_of (ms @ [reply]) ?gone" using sp by (auto simp: splits_conversation_def)
  have dk: "distinct (map fst (cr_kept res))" by (rule splits_distinct [OF sp])
  have kid: "i < length ms \<and> msg_id m = msg_id (ms ! i)" if "(i, m) \<in> set ks" for i m
    using that lt part_of_id [OF part(1), of i m] by (auto simp: ks nth_append)
  have gid: "i < length ms \<and> msg_id m = msg_id (ms ! i)" if "(i, m) \<in> set ?gone" "has_id m" for i m
    using that r(2) part_of_id [OF part(2) that(1)] by (auto simp: has_id_def nth_append split: if_splits)
  have gone: "i \<in> fst ` set ?gone \<longleftrightarrow> i \<notin> fst ` set ks" if "i < length ms" for i
    using splits_gone [OF sp, of i] that by (simp add: ks)
  have rem: "removed_ids (build_message_updates res stored) = msg_id ` {m \<in> snd ` set ?gone. has_id m}"
    unfolding us by (subst removed_ids_of_gone) auto
  have "msg_id ` {m \<in> snd ` set ?gone. has_id m} = {msg_id (ms ! i) | i. i < length ms \<and> i \<notin> fst ` set ks}" (is "?A = ?B")
  proof
    show "?A \<subseteq> ?B"
    proof
      fix k
      assume "k \<in> ?A"
      then obtain m where k: "m \<in> snd ` set ?gone" "has_id m" "k = msg_id m" by blast
      then obtain i where i: "(i, m) \<in> set ?gone" by (metis imageE prod.collapse)
      note m = i k(2,3)
      from m(1) have "i \<in> fst ` set ?gone" by (metis fst_conv image_eqI)
      with gid [OF m(1,2)] gone [of i] m(3) show "k \<in> ?B" by blast
    qed
    show "?B \<subseteq> ?A"
    proof
      fix k
      assume "k \<in> ?B"
      then obtain i where i: "k = msg_id (ms ! i)" "i < length ms" "i \<in> fst ` set ?gone" using gone by blast
      then obtain m where m: "(i, m) \<in> set ?gone" by (metis imageE prod.collapse)
      then have "msg_id m = msg_id (ms ! i)" using part_of_id [OF part(2) m] i(2) by (simp add: nth_append)
      moreover from this have "has_id m" using identified_nth(1) [OF ids i(2)] by (simp add: has_id_def)
      ultimately show "k \<in> ?A" using i(1) m by (metis (mono_tags, lifting) image_eqI mem_Collect_eq snd_conv)
    qed
  qed
  moreover have "\<forall>y \<in> set (puts (build_message_updates res stored)). has_id y \<longrightarrow> y \<in> snd ` set ks"
    using um xr(2) by (force simp: puts updates_match_def ks has_id_def)
  moreover have "m \<in> set (puts (build_message_updates res stored))" if m: "(i, m) \<in> set ks" "m \<noteq> ms ! i" for i m
  proof -
    have "has_id m" using kid [OF m(1)] identified_nth(1) [OF ids, of i] by (simp add: has_id_def)
    moreover from this have "m \<in> set (cr_updated res) \<longleftrightarrow> (\<exists>i. (i, m) \<in> set (cr_kept res) \<and> m \<noteq> (ms @ [reply]) ! i)"
      using um by (auto simp: updates_match_def)
    moreover have "(i, m) \<in> set (cr_kept res)" "m \<noteq> (ms @ [reply]) ! i" using m kid [OF m(1)] by (auto simp: ks nth_append)
    ultimately show ?thesis by (auto simp: puts)
  qed
  moreover have "filter (\<lambda>y. \<not> has_id y) (puts (build_message_updates res stored)) = [x]" using xr(2) by (simp add: puts has_id_def)
  moreover have "sorted (map fst ks)" "distinct (map fst ks)" using sp dk by (auto simp: splits_conversation_def ks sorted_append)
  ultimately show ?thesis unfolding patches_def using kid rem by auto
qed

lemma respond_updates_apply:
  assumes ids: "identified ms" and r: "is_ai reply" "msg_id reply = None"
    and res: "res = run_compression tk ask a (ms @ [reply])" and keep: "1 \<le> ca_keep_recent a"
    and red: "reducer_laws red"
  shows "map untag (red ms (build_message_updates res stored)) = map untag (map snd (cr_kept res))"
proof -
  have d: "ids_distinct (ms @ [reply])" using ids r(2) by (simp add: ids_distinct_def identified_def)
  have sp: "splits_conversation (ms @ [reply]) (cr_kept res) (cr_summarized res) (cr_discarded res)"
    unfolding res by (rule run_compression_splits [OF keep])
  have um: "updates_match (ms @ [reply]) (cr_kept res) (cr_updated res)" unfolding res by (rule run_compression_updates [OF keep d])
  obtain ks x where ks: "cr_kept res = ks @ [(length ms, x)]" "x = reply \<or> x = compact_rag_message reply" "\<forall>(i, m) \<in> set ks. i < length ms"
    by (rule splits_last [OF sp r(1)])
  show ?thesis using patches_apply [OF ids respond_patches [OF ids r sp um ks] red] by (simp add: ks(1))
qed


text \<open>
  C23: The checkpoint and the archive agree. The patches that the last node of a turn returns
  turn the checkpointed conversation into exactly the messages that the turn archives, whatever
  was kept, shortened, summarised or dropped, and they add one message, the assistant's
  answer. So a session recovered from the archive goes on where the checkpoint would have.
\<close>

theorem checkpoint_agrees_with_archive:
  assumes "identified (g_messages s)"
    and "1 \<le> ts_keep_recent cfg" and "reducer_laws red"
    and "upd = finalize_respond_turn tk ask cfg s"
  shows "map untag (red (g_messages s) (ru_messages upd)) = map untag (ru_kept upd) \<and>
    length (filter (\<lambda>m. \<not> has_id m) (puts (ru_messages upd))) = 1"
proof -
  let ?stored = "snd (build_stored_answer (resolve_respond_answer s))"
  let ?res = "run_compression tk ask (respond_compress_args cfg s) (g_messages s @ [ai ?stored])"
  have u: "ru_messages upd = build_message_updates ?res ?stored" "ru_kept upd = map snd (cr_kept ?res)"
    using assms(4) by (simp_all add: finalize_respond_turn_def case_prod_beta Let_def)
  have "filter (\<lambda>m. \<not> has_id m) (puts (build_message_updates r st)) =
      [if cr_kept r \<noteq> [] \<and> is_ai (snd (last (cr_kept r))) \<and> \<not> has_id (snd (last (cr_kept r))) then snd (last (cr_kept r)) else ai st]" for r st
    by (auto simp: puts_def build_message_updates_def Let_def comp_def map_concat ai_def has_id_def)
  then show ?thesis unfolding u
    using respond_updates_apply [OF assms(1) _ _ refl _ assms(3), of "ai ?stored" "respond_compress_args cfg s" tk ask ?stored] assms(2)
    by (simp add: ai_def is_ai_def respond_compress_args_def)
qed

definition empty_state :: cs_state where
  "empty_state = \<lparr>g_query = [], g_user = [], g_tenant = [], g_session = [], g_messages = [], g_intent = [], g_target = [], g_confidence = 0,
     g_needs = False, g_question = None, g_order_no = None, g_course_query = None, g_blocked = False, g_block_reason = [], g_upgraded = False,
     g_last_intent = None, g_last_order_no = None, g_last_course_query = None, g_last_course_name = None, g_handoff_pending = False,
     g_last_order = None, g_last_course = None, g_last_course_key = None, g_summary = [], g_answer = [], g_structured = None,
     g_visualization = None, g_oss_url = None\<rparr>"

definition demo_turn_settings :: turn_settings where
  "demo_turn_settings = \<lparr>ts_default_tenant = (asc ''demo''), ts_history_budget = 1000, ts_keep_recent = 4, ts_discard_score = 3/10,
     ts_summarize_score = 6/10, ts_max_messages = 20, ts_use_llm = False, ts_summary_chars = 800\<rparr>"

text \<open>A reducer as documented, which gives no ids to new messages.\<close>

definition demo_reducer :: "message list \<Rightarrow> message_update list \<Rightarrow> message list" where
  "demo_reducer ms us = map (replaced_by us) (filter (\<lambda>m. msg_id m \<notin> removed_ids us) ms) @ filter (\<lambda>x. \<not> has_id x) (puts us)"

lemma demo_reducer_laws: "reducer_laws demo_reducer"
  by (simp add: reducer_laws_def demo_reducer_def)

definition demo_session :: cs_state where
  "demo_session = empty_state\<lparr>g_session := (asc ''s1''), g_user := (asc ''u1''), g_tenant := (asc ''demo''), g_answer := (asc ''hello''),
     g_messages := [\<lparr>msg_role = Human, msg_text = (asc ''hi''), msg_id = Some (asc ''m1'')\<rparr>]\<rparr>"

theorem archived_session_is_recovered_witness:
  "in_recovered (hydrate_inputs_from_archive None True
     (persist_respond_turn demo_turn_settings True [] demo_session
        \<lparr>ru_answer = (asc ''hello''), ru_stored_answer = (asc ''hello''), ru_messages = [], ru_summary = [], ru_kept = [human (asc ''hi''), ai (asc ''hello'')]\<rparr>)
     (asc ''demo'') (asc ''u1'') (asc ''s1'') \<lparr>in_query = (asc ''again''), in_user = (asc ''u1''), in_tenant = (asc ''demo''), in_session = (asc ''s1''), in_recovered = None\<rparr>)
   = Some ([human (asc ''hi''), ai (asc ''hello'')], memory_of demo_session)"
proof -
  let ?upd = "\<lparr>ru_answer = (asc ''hello''), ru_stored_answer = (asc ''hello''), ru_messages = [], ru_summary = [], ru_kept = [human (asc ''hi''), ai (asc ''hello'')]\<rparr>"
  have i: "identity_of (ts_default_tenant demo_turn_settings) demo_session =
      \<lparr>iv_query = [], iv_user = (asc ''u1''), iv_tenant = (asc ''demo''), iv_session = (asc ''s1'')\<rparr>"
    by (simp add: identity_of_def demo_session_def empty_state_def strip_def is_space_def asc_def or_str_def)
  have m: "(memory_of demo_session)\<lparr>mv_summary := []\<rparr> = memory_of demo_session"
    by (simp add: memory_of_def demo_session_def empty_state_def)
  show ?thesis
    using archived_session_is_recovered [of demo_turn_settings demo_session _ "[]" ?upd, OF _ refl, unfolded i] m
    by (simp add: in_dialogue_def is_human_def is_ai_def human_def ai_def untag_def)
qed

theorem checkpoint_agrees_with_archive_witness:
  "length (filter (\<lambda>m. \<not> has_id m) (puts (ru_messages (finalize_respond_turn demo_tokenizer (\<lambda>_. None) demo_turn_settings demo_session)))) = 1"
  using checkpoint_agrees_with_archive [of demo_session demo_turn_settings demo_reducer _ demo_tokenizer "\<lambda>_. None", OF _ _ demo_reducer_laws refl]
  by (simp add: identified_def demo_session_def empty_state_def has_id_def ids_distinct_def demo_turn_settings_def)

end
