(* ===== verification/Graph.thy ===== *)
theory Graph
  imports Session_State
begin

text \<open>
  The conversation graph: the nodes of \<open>app/graph/nodes.py\<close>, the edges of
  \<open>app/graph/builder.py\<close>, \<open>persist_from_state\<close> of \<open>app/memory.py\<close> and
  \<open>rag_upgrade_updates\<close> of \<open>app/agents/policy.py\<close>. A node returns the patch of the state, a
  list of field updates in the order of the dictionary it stands for; the run of the graph is
  a step relation and, equivalently, a function.
\<close>

section \<open>Patches of the state\<close>

datatype field_update =
    SetQuery ustr | PatchMessages "message_update list"
  | SetBlocked bool | SetBlockReason ustr | SetIntent ustr | SetTarget ustr | SetConfidence rat | SetNeeds bool
  | SetQuestion "ustr option" | SetOrderNo "ustr option" | SetCourseQuery "ustr option" | SetUpgraded bool
  | SetLastIntent "ustr option" | SetLastOrderNo "ustr option" | SetLastCourseQuery "ustr option"
  | SetLastCourseName "ustr option" | SetHandoffPending bool
  | SetLastOrder "order_report snapshot option" | SetLastCourse "course_result snapshot option" | SetLastCourseKey "ustr option"
  | SetSummary ustr | SetAnswer ustr | SetStructured "tool_payload option" | SetVisualization "ustr option" | SetOssUrl "ustr option"

type_synonym reducer = "message list \<Rightarrow> message_update list \<Rightarrow> message list"

text \<open>The messages go through the reducer of the graph, every other field is overwritten.\<close>

fun apply_update :: "reducer \<Rightarrow> field_update \<Rightarrow> cs_state \<Rightarrow> cs_state" where
  "apply_update red (SetQuery x) s = s\<lparr>g_query := x\<rparr>"
| "apply_update red (PatchMessages us) s = s\<lparr>g_messages := red (g_messages s) us\<rparr>"
| "apply_update red (SetBlocked b) s = s\<lparr>g_blocked := b\<rparr>"
| "apply_update red (SetBlockReason x) s = s\<lparr>g_block_reason := x\<rparr>"
| "apply_update red (SetIntent x) s = s\<lparr>g_intent := x\<rparr>"
| "apply_update red (SetTarget x) s = s\<lparr>g_target := x\<rparr>"
| "apply_update red (SetConfidence c) s = s\<lparr>g_confidence := c\<rparr>"
| "apply_update red (SetNeeds b) s = s\<lparr>g_needs := b\<rparr>"
| "apply_update red (SetQuestion q) s = s\<lparr>g_question := q\<rparr>"
| "apply_update red (SetOrderNo n) s = s\<lparr>g_order_no := n\<rparr>"
| "apply_update red (SetCourseQuery q) s = s\<lparr>g_course_query := q\<rparr>"
| "apply_update red (SetUpgraded b) s = s\<lparr>g_upgraded := b\<rparr>"
| "apply_update red (SetLastIntent i) s = s\<lparr>g_last_intent := i\<rparr>"
| "apply_update red (SetLastOrderNo n) s = s\<lparr>g_last_order_no := n\<rparr>"
| "apply_update red (SetLastCourseQuery q) s = s\<lparr>g_last_course_query := q\<rparr>"
| "apply_update red (SetLastCourseName n) s = s\<lparr>g_last_course_name := n\<rparr>"
| "apply_update red (SetHandoffPending b) s = s\<lparr>g_handoff_pending := b\<rparr>"
| "apply_update red (SetLastOrder c) s = s\<lparr>g_last_order := c\<rparr>"
| "apply_update red (SetLastCourse c) s = s\<lparr>g_last_course := c\<rparr>"
| "apply_update red (SetLastCourseKey k) s = s\<lparr>g_last_course_key := k\<rparr>"
| "apply_update red (SetSummary x) s = s\<lparr>g_summary := x\<rparr>"
| "apply_update red (SetAnswer x) s = s\<lparr>g_answer := x\<rparr>"
| "apply_update red (SetStructured p) s = s\<lparr>g_structured := p\<rparr>"
| "apply_update red (SetVisualization v) s = s\<lparr>g_visualization := v\<rparr>"
| "apply_update red (SetOssUrl u) s = s\<lparr>g_oss_url := u\<rparr>"

definition apply_updates :: "reducer \<Rightarrow> field_update list \<Rightarrow> cs_state \<Rightarrow> cs_state" where
  "apply_updates red us s = fold (apply_update red) us s"

definition reset_updates :: "field_update list" where
  "reset_updates = [SetBlocked False, SetBlockReason [], SetIntent [], SetTarget [], SetConfidence 0, SetNeeds False, SetQuestion None,
     SetOrderNo None, SetCourseQuery None, SetUpgraded False, SetAnswer [], SetStructured None, SetVisualization None, SetOssUrl None]"

text \<open>A key that \<open>slot_updates_after_turn\<close> leaves out is not in the patch.\<close>

definition slot_patch :: "slot_updates \<Rightarrow> field_update list" where
  "slot_patch u = SetHandoffPending (up_handoff_pending u) #
     (case up_last_intent u of None \<Rightarrow> [] | Some i \<Rightarrow> [SetLastIntent (Some i)]) @
     (case up_last_order_no u of None \<Rightarrow> [] | Some n \<Rightarrow> [SetLastOrderNo (Some n)]) @
     (case up_last_course_query u of None \<Rightarrow> [] | Some q \<Rightarrow> [SetLastCourseQuery (Some q)]) @
     (case up_last_course_name u of None \<Rightarrow> [] | Some n \<Rightarrow> [SetLastCourseName (Some n)])"

definition cache_patch :: "cache_updates \<Rightarrow> field_update list" where
  "cache_patch d = map (\<lambda>(_, v). case v of CacheOrder sn \<Rightarrow> SetLastOrder (Some sn) | CacheCourse sn \<Rightarrow> SetLastCourse (Some sn)
     | CacheKey k \<Rightarrow> SetLastCourseKey (Some k)) d"

section \<open>Environment and world\<close>

text \<open>
  The environment of a turn: the components that the nodes call, the context variables that
  the turn was started with, and as arguments the ReACT agent, the streaming course answer and
  the reducer. Nodes run in copies of the context, so what a node sets there reaches only
  what that node calls.
\<close>

datatype node_error = TenantRejected identity_error | QuotaUsedUp | CourseBroken course_error | SupervisorBroken cap_error | OrderBroken service_error

record 's course_answerer =
  stream_answer :: "'s cap_env \<Rightarrow> 's cap_world \<Rightarrow> course_request \<Rightarrow> (course_error + (ustr \<times> course_result)) \<times> 's cap_world"

record ('s, 'm) graph_env =
  ge_caps :: "'s cap_env"
  ge_registry :: "'s registry"
  ge_react :: "turn_args \<Rightarrow> cap_error + ustr"
  ge_answerer :: "'s course_answerer"
  ge_recognizer :: recognizer
  ge_profiles :: "'m profile_ops"
  ge_memory_cfg :: memory_settings
  ge_settings :: turn_settings
  ge_ask_summary :: "ustr \<Rightarrow> ustr option"
  ge_sessions_up :: bool
  ge_reducer :: reducer
  ge_ctx :: identity_ctx

text \<open>\<open>gw_learned\<close> records which order numbers were handed to the user's profile, by tenant and user.\<close>

record ('s, 'm) graph_world =
  gw_caps :: "'s cap_world"
  gw_memory :: "'m memory_world"
  gw_sessions :: "session_row list"
  gw_learned :: "(ustr \<times> ustr \<times> ustr option) list"

type_synonym ('s, 'm) node_result = "(node_error + field_update list) \<times> ('s, 'm) graph_world"

definition ge_now :: "('s, 'm) graph_env \<Rightarrow> rat" where
  "ge_now env = te_now (ce_tools (ge_caps env))"

definition ge_stamp :: "('s, 'm) graph_env \<Rightarrow> ustr" where
  "ge_stamp env = te_stamp (ce_tools (ge_caps env))"

definition ident_of :: "('s, 'm) graph_env \<Rightarrow> cs_state \<Rightarrow> identity_view" where
  "ident_of env s = identity_of (ts_default_tenant (ge_settings env)) s"

text \<open>\<open>can_access_order\<close> as the nodes call it.\<close>

definition may_access :: "('s, 'm) graph_env \<Rightarrow> identity_view \<Rightarrow> ustr option \<Rightarrow> bool" where
  "may_access env i no = (let te = ce_tools (ge_caps env) in
     fst (can_access_order (te_db te) (ge_ctx env) (str_or_empty no) (iv_tenant i) (Some (iv_user i)) DIRECT_QUERY))"

text \<open>\<open>tool_failure_tracker_scope\<close> and \<open>session_tool_cache_scope\<close> around the body of a node.\<close>

definition scoped_env :: "('s, 'm) graph_env \<Rightarrow> identity_ctx \<Rightarrow> cs_state \<Rightarrow> 's cap_env" where
  "scoped_env env ctx s = (ge_caps env)\<lparr>ce_tools := (ce_tools (ge_caps env))\<lparr>te_session := session_cache_of s, te_ctx := ctx\<rparr>\<rparr>"

definition enter_scope :: "'s cap_world \<Rightarrow> 's cap_world" where
  "enter_scope w = w\<lparr>cw_tools := (cw_tools w)\<lparr>tw_tracker := Some []\<rparr>\<rparr>"

definition leave_scope :: "'s cap_world \<Rightarrow> 's cap_world \<Rightarrow> 's cap_world" where
  "leave_scope before w = w\<lparr>cw_tools := (cw_tools w)\<lparr>tw_tracker := tw_tracker (cw_tools before)\<rparr>\<rparr>"

section \<open>The nodes\<close>

definition handoff_state :: "ustr \<Rightarrow> field_update list" where
  "handoff_state answer = [SetIntent (asc ''handoff''), SetAnswer answer] @ slot_patch (slot_updates_after_turn (asc ''handoff'') None None None)"

definition security_node :: "('s, 'm) graph_env \<Rightarrow> cs_state \<Rightarrow> ('s, 'm) graph_world \<Rightarrow> ('s, 'm) node_result" where
  "security_node env s w =
     (let ident = ident_of env s in
      case set_current_tenant (ts_default_tenant (ge_settings env)) (iv_tenant ident) (ge_ctx env) of
        Inl e \<Rightarrow> (Inl (TenantRejected e), w)
      | Inr _ \<Rightarrow>
          (let verdict = inspect_input (iv_query ident) in
           (Inr (reset_updates @
             (if \<not> verdict_allowed verdict
              then [SetBlocked True, SetBlockReason (verdict_reason verdict),
                SetAnswer ([0x8BF7, 0x6C42, 0x5DF2, 0x88AB, 0x5B89, 0x5168, 0x4E2D, 0x95F4, 0x4EF6, 0x62E6, 0x622A, 0xFF1A] \<comment> \<open>blocked by the security layer\<close> @ verdict_reason verdict), SetIntent (asc ''chitchat'')]
              else [SetQuery (sanitized_text verdict), PatchMessages [Put (human (sanitized_text verdict))]])), w)))"

definition hydrate_slots :: "('s, 'm) graph_env \<Rightarrow> cs_state \<Rightarrow> ('s, 'm) graph_world \<Rightarrow> session_slots \<times> ('s, 'm) graph_world" where
  "hydrate_slots env s w =
     (let ident = ident_of env s;
          (m, mw) = load_user_memory (ge_profiles env) (ge_memory_cfg env) (gw_memory w) (ge_now env) (ge_stamp env) (iv_tenant ident) (iv_user ident);
          slots = overlay_user_memory (slots_of s) m
      in (if is_persistent_user (Some (iv_user ident)) \<and> truthy (last_order_no slots) \<and> \<not> may_access env ident (last_order_no slots)
          then slots\<lparr>last_order_no := None\<rparr> else slots, w\<lparr>gw_memory := mw\<rparr>))"

definition persist_from_state :: "('s, 'm) graph_env \<Rightarrow> cs_state \<Rightarrow> ('s, 'm) graph_world \<Rightarrow> ('s, 'm) graph_world" where
  "persist_from_state env s w =
     (let ident = ident_of env s; route = route_of s; memory = memory_of s;
          no = or_opt (rv_order_no route) (mv_last_order_no memory);
          no = (if truthy no \<and> is_persistent_user (Some (iv_user ident)) \<and> \<not> may_access env ident no then None else no)
      in w\<lparr>gw_memory := snd (save_user_memory (ge_profiles env) (ge_memory_cfg env) (gw_memory w) (ge_now env) (ge_stamp env)
             (iv_tenant ident) (iv_user ident) (nonempty_opt (rv_intent route)) no
             (or_opt (rv_course_query route) (mv_last_course_query memory)) (mv_last_course_name memory)
             (if rv_intent route = (asc ''handoff'') then Some (mv_handoff_pending memory) else None)),
           gw_learned := gw_learned w @ [(iv_tenant ident, iv_user ident, no)]\<rparr>)"

definition with_memory ::
  "('s, 'm) graph_env \<Rightarrow> cs_state \<Rightarrow> field_update list \<Rightarrow> ('s, 'm) graph_world \<Rightarrow> ('s, 'm) node_result" where
  "with_memory env s updates w = (Inr updates, persist_from_state env (apply_updates (ge_reducer env) updates s) w)"

definition recent_of :: "('s, 'm) graph_env \<Rightarrow> cs_state \<Rightarrow> message list" where
  "recent_of env s = recent_messages (rec_tokenizer (ge_recognizer env)) (rec_history (ge_recognizer env)) (g_messages s) None None None"

definition router_node :: "('s, 'm) graph_env \<Rightarrow> cs_state \<Rightarrow> ('s, 'm) graph_world \<Rightarrow> ('s, 'm) node_result" where
  "router_node env s w =
     (if rv_blocked (route_of s) then (Inr [], w)
      else let ident = ident_of env s; memory = memory_of s; history = recent_of env s; (slots, w) = hydrate_slots env s w
        in case recognize_intent (ge_recognizer env) (iv_query ident) history (Some slots) (Some (mv_summary memory)) of
             Inl _ \<Rightarrow> (Inl QuotaUsedUp, w)
           | Inr d \<Rightarrow> (Inr [SetIntent (intent d), SetTarget (target d), SetConfidence (confidence d), SetNeeds (needs_clarification d),
               SetQuestion (clarification_question d), SetOrderNo (order_no d), SetCourseQuery (course_query d),
               SetLastIntent (last_intent slots), SetLastOrderNo (last_order_no slots), SetLastCourseQuery (last_course_query slots),
               SetLastCourseName (last_course_name slots), SetHandoffPending (handoff_pending slots)], w))"

definition rag_upgrade_updates :: "rag_upgrade \<Rightarrow> field_update list" where
  "rag_upgrade_updates u = [SetTarget (up_target u), SetIntent (up_intent u), SetNeeds False, SetQuestion None,
     SetOrderNo (up_order_no u), SetCourseQuery (up_course_query u), SetUpgraded True]"

definition rag_node :: "('s, 'm) graph_env \<Rightarrow> cs_state \<Rightarrow> ('s, 'm) graph_world \<Rightarrow> ('s, 'm) node_result" where
  "rag_node env s w =
     (let ident = ident_of env s; route = route_of s; memory = memory_of s in
      case set_current_tenant (ts_default_tenant (ge_settings env)) (iv_tenant ident) (ge_ctx env) of
        Inl e \<Rightarrow> (Inl (TenantRejected e), w)
      | Inr ctx \<Rightarrow>
          (let history = recent_of env s;
               query = expand_query (str_or_empty (or_opt (rv_course_query route) (Some (iv_query ident)))) history
                 (mv_last_course_query memory) (mv_last_course_name memory)
           in case decide_rag_upgrade (iv_query ident) (rv_order_no route) (Some query) of
                Some u \<Rightarrow> (Inr (rag_upgrade_updates u), w)
              | None \<Rightarrow>
                  (let caps = scoped_env env ctx s; te = ce_tools caps;
                       (res, cw) = stream_answer (ge_answerer env) caps (enter_scope (gw_caps w))
                         \<lparr>rq_query = query, rq_tenant = iv_tenant ident, rq_history = Some history,
                          rq_last_course_query = mv_last_course_query memory, rq_last_course_name = mv_last_course_name memory,
                          rq_summary = Some (mv_summary memory), rq_course_code = None\<rparr>;
                       cw = leave_scope (gw_caps w) cw
                   in case res of
                        Inl e \<Rightarrow> (Inl (CourseBroken e), w\<lparr>gw_caps := cw\<rparr>)
                      | Inr (answer, result) \<Rightarrow>
                          (let key = normalize_course_cache_key (Some query) None;
                               cw = (if is_cacheable_course_result result
                                 then cw\<lparr>cw_tools := (cw_tools cw)\<lparr>tw_store := put_cached_course (te_ops te) (te_cfg te)
                                   (tw_store (cw_tools cw)) (te_now te) result key (iv_tenant ident) (iv_user ident)\<rparr>\<rparr> else cw)
                           in with_memory env s
                             ([SetStructured (Some (CoursePayload result)), SetAnswer answer] @
                              slot_patch (slot_updates_after_turn (asc ''course_consult'') None (Some query) (Some (cc_name result))) @
                              cache_patch (course_cache_dict (session_updates_for_course result key (te_now te))))
                             (w\<lparr>gw_caps := cw\<rparr>)))))"

definition tool_node :: "('s, 'm) graph_env \<Rightarrow> cs_state \<Rightarrow> ('s, 'm) graph_world \<Rightarrow> ('s, 'm) node_result" where
  "tool_node env s w =
     (let ident = ident_of env s; route = route_of s; memory = memory_of s in
      case set_current_tenant (ts_default_tenant (ge_settings env)) (iv_tenant ident) (ge_ctx env) of
        Inl e \<Rightarrow> (Inl (TenantRejected e), w)
      | Inr ctx \<Rightarrow>
          (let caps = scoped_env env (set_current_user (Some (iv_user ident)) ctx) s;
               (res, tw) = query_order (ce_tools caps) (ce_pool caps) (cw_tools (enter_scope (gw_caps w))) (iv_query ident) (rv_order_no route)
                 (iv_tenant ident) (iv_user ident) (mv_last_order_no memory) True False True;
               w = w\<lparr>gw_caps := leave_scope (gw_caps w) ((gw_caps w)\<lparr>cw_tools := tw\<rparr>)\<rparr>
           in case res of
                Inl (EscalatedTo d) \<Rightarrow>
                  with_memory env s (handoff_state (str_or_empty (or_opt (esc_message d) (Some (build_handoff_answer True None))))) w
              | Inl (QueryTimeout m) \<Rightarrow> (Inr [SetAnswer m, SetIntent (asc ''order'')], w)
              | Inl (BadOrder MissingOrder) \<Rightarrow> (Inl (OrderBroken MissingOrder), w)
              | Inl (BadOrder e) \<Rightarrow> (Inr [SetAnswer (service_error_text (ce_tools caps) e), SetIntent (asc ''order'')], w)
              | Inr rep \<Rightarrow> with_memory env s
                  ([SetStructured (Some (OrderPayload rep)), SetVisualization (Some (visualization rep)), SetOssUrl (oss_url rep),
                    SetAnswer (format_order_answer rep), SetOrderNo (Some (rep_order_no rep))] @
                   cache_patch (order_cache_dict (cache_state_updates_for_order rep (te_now (ce_tools caps)))) @
                   slot_patch (slot_updates_after_turn (asc ''order'') (Some (rep_order_no rep)) None None)) w))"

definition supervisor_args :: "('s, 'm) graph_env \<Rightarrow> cs_state \<Rightarrow> turn_args" where
  "supervisor_args env s =
     (let ident = ident_of env s; route = route_of s; memory = memory_of s in
      \<lparr>ta_query = iv_query ident, ta_user = iv_user ident, ta_tenant = iv_tenant ident, ta_history = Some (recent_of env s),
       ta_order_no = or_opt (rv_order_no route) (mv_last_order_no memory),
       ta_course_query = or_opt (rv_course_query route) (mv_last_course_query memory),
       ta_last_course_name = mv_last_course_name memory, ta_summary = Some (mv_summary memory), ta_intent = Some (rv_intent route),
       ta_needs_clarification = rv_needs route, ta_question = rv_question route\<rparr>)"

definition handoff_reason :: "ustr option \<Rightarrow> escalation_reason option" where
  "handoff_reason r = (if r = Some (asc ''transient_exhausted'') then Some Transient_Exhausted else if r = Some (asc ''react_limit'') then Some React_Limit else None)"

definition supervisor_node :: "('s, 'm) graph_env \<Rightarrow> cs_state \<Rightarrow> ('s, 'm) graph_world \<Rightarrow> ('s, 'm) node_result" where
  "supervisor_node env s w =
     (let ident = ident_of env s; route = route_of s; memory = memory_of s;
          (res, cw) = run_supervisor (ge_registry env) (scoped_env env (ge_ctx env) s) (ge_react env) (supervisor_args env s) (enter_scope (gw_caps w));
          w = w\<lparr>gw_caps := leave_scope (gw_caps w) cw\<rparr>
      in case res of
           Inl e \<Rightarrow> (Inl (SupervisorBroken e), w)
         | Inr d \<Rightarrow>
             if sd_final_intent d = (asc ''handoff'') \<and> sd_reason d \<in> {Some (asc ''transient_exhausted''), Some (asc ''react_limit''), Some (asc ''tool-escalation'')}
             then with_memory env s (handoff_state (str_or_empty (or_opt (sd_answer d)
                    (Some (build_handoff_answer True (handoff_reason (sd_reason d))))))) w
             else let itn = or_str (sd_final_intent d) (or_str (rv_intent route) (asc ''mixed'')) in
               if sd_action d = (asc ''ask_user'')
               then (Inr [SetAnswer (str_or_empty (or_opt (sd_answer d) (sd_question d))), SetIntent itn], w)
               else let bound = or_opt (sd_order_no d) (or_opt (rv_order_no route) (mv_last_order_no memory));
                        bound = (if truthy bound \<and> \<not> may_access env ident bound then None else bound)
                 in with_memory env s
                   ([SetAnswer (str_or_empty (sd_answer d)), SetIntent itn] @ cache_patch (sd_cache_updates d) @
                    slot_patch (slot_updates_after_turn itn bound
                      (or_opt (sd_course_query d) (or_opt (rv_course_query route) (mv_last_course_query memory))) None)) w)"

definition chitchat_node :: "('s, 'm) graph_env \<Rightarrow> cs_state \<Rightarrow> ('s, 'm) graph_world \<Rightarrow> ('s, 'm) node_result" where
  "chitchat_node env s w = (Inr [SetAnswer ([0x6211, 0x662F, 0x8BFE, 0x7A0B, 0x4E0E, 0x8BA2, 0x5355, 0x667A, 0x80FD, 0x5BA2, 0x670D, 0xFF0C, 0x53EF, 0x4EE5, 0x54A8, 0x8BE2, 0x8BFE, 0x7A0B, 0x5927, 0x7EB2, 0xFF08, 0x4F8B, 0x5982, 0x300C] @ asc ''Python'' @ [0x5165, 0x95E8, 0x8BFE, 0x5305, 0x542B, 0x54EA, 0x4E9B, 0x5185, 0x5BB9, 0xFF1F, 0x300D, 0xFF09, 0xFF0C, 0x6216, 0x67E5, 0x8BE2, 0x8BA2, 0x5355, 0x8FDB, 0x5EA6, 0xFF08, 0x4F8B, 0x5982, 0x300C, 0x67E5, 0x8BE2, 0x8BA2, 0x5355] @ asc ''#20251114001'' @ [0x7684, 0x9000, 0x6B3E, 0x8FDB, 0x5EA6, 0x300D, 0xFF09, 0x3002]) \<comment> \<open>what the assistant can do\<close>], w)"

definition handoff_node :: "('s, 'm) graph_env \<Rightarrow> cs_state \<Rightarrow> ('s, 'm) graph_world \<Rightarrow> ('s, 'm) node_result" where
  "handoff_node env s w = with_memory env s (handoff_state (build_handoff_answer False None)) w"

definition respond_node :: "('s, 'm) graph_env \<Rightarrow> cs_state \<Rightarrow> ('s, 'm) graph_world \<Rightarrow> ('s, 'm) node_result" where
  "respond_node env s w =
     (let upd = finalize_respond_turn (rec_tokenizer (ge_recognizer env)) (ge_ask_summary env) (ge_settings env) s
      in (Inr [SetAnswer (ru_answer upd), PatchMessages (ru_messages upd), SetSummary (ru_summary upd)],
          w\<lparr>gw_sessions := persist_respond_turn (ge_settings env) (ge_sessions_up env) (gw_sessions w) s upd\<rparr>))"

section \<open>The graph\<close>

datatype node = Security | Router | Rag | Tool | Supervisor | Chitchat | Handoff | Respond

fun run_node :: "node \<Rightarrow> ('s, 'm) graph_env \<Rightarrow> cs_state \<Rightarrow> ('s, 'm) graph_world \<Rightarrow> ('s, 'm) node_result" where
  "run_node Security = security_node"
| "run_node Router = router_node"
| "run_node Rag = rag_node"
| "run_node Tool = tool_node"
| "run_node Supervisor = supervisor_node"
| "run_node Chitchat = chitchat_node"
| "run_node Handoff = handoff_node"
| "run_node Respond = respond_node"

definition node_names :: "(ustr \<times> node) list" where
  "node_names = [((asc ''rag''), Rag), ((asc ''tool''), Tool), ((asc ''supervisor''), Supervisor), ((asc ''chitchat''), Chitchat), ((asc ''handoff''), Handoff), ((asc ''respond''), Respond)]"

definition after_router :: "cs_state \<Rightarrow> node option" where
  "after_router s = (let route = route_of s in
     map_of node_names (next_after_router default_policy (rv_blocked route) (Some (rv_target route)) (Some (rv_intent route)) (rv_confidence route)))"

definition after_rag :: "cs_state \<Rightarrow> node option" where
  "after_rag s = (let route = route_of s in map_of node_names (next_after_rag (rv_upgraded route) (Some (rv_target route))))"

text \<open>\<open>Some None\<close> is the end of the graph; \<open>None\<close> would be an edge the graph does not have.\<close>

fun next_node :: "node \<Rightarrow> cs_state \<Rightarrow> node option option" where
  "next_node Security s = Some (Some Router)"
| "next_node Router s = map_option Some (after_router s)"
| "next_node Rag s = map_option Some (after_rag s)"
| "next_node Respond s = Some None"
| "next_node _ s = Some (Some Respond)"


datatype ('s, 'm) config =
    At node cs_state "('s, 'm) graph_world"
  | Done cs_state "('s, 'm) graph_world"
  | Failed node_error "('s, 'm) graph_world"

inductive graph_step :: "('s, 'm) graph_env \<Rightarrow> ('s, 'm) config \<Rightarrow> ('s, 'm) config \<Rightarrow> bool" for env where
  Move: "run_node n env s w = (Inr us, w') \<Longrightarrow> s' = apply_updates (ge_reducer env) us s \<Longrightarrow> next_node n s' = Some (Some n') \<Longrightarrow>
     graph_step env (At n s w) (At n' s' w')"
| Finish: "run_node n env s w = (Inr us, w') \<Longrightarrow> s' = apply_updates (ge_reducer env) us s \<Longrightarrow> next_node n s' = Some None \<Longrightarrow>
     graph_step env (At n s w) (Done s' w')"
| Fail: "run_node n env s w = (Inl e, w') \<Longrightarrow> graph_step env (At n s w) (Failed e w')"

inductive_cases at_step: "graph_step env (At n s w) c"
inductive_simps at_step_simps: "graph_step env (At n s w) c"

abbreviation graph_steps :: "('s, 'm) graph_env \<Rightarrow> ('s, 'm) config \<Rightarrow> ('s, 'm) config \<Rightarrow> bool" where
  "graph_steps env \<equiv> (graph_step env)\<^sup>*\<^sup>*"

fun is_end :: "('s, 'm) config \<Rightarrow> bool" where
  "is_end (At n s w) = False"
| "is_end _ = True"

text \<open>How far a node is from the end of the graph.\<close>

fun rank :: "node \<Rightarrow> nat" where
  "rank Security = 5" | "rank Router = 4" | "rank Rag = 3" | "rank Respond = 1" | "rank _ = 2"

lemma node_names_simps [simp]:
  "map_of node_names (asc ''rag'') = Some Rag" "map_of node_names (asc ''tool'') = Some Tool" "map_of node_names (asc ''supervisor'') = Some Supervisor"
  "map_of node_names (asc ''chitchat'') = Some Chitchat" "map_of node_names (asc ''handoff'') = Some Handoff" "map_of node_names (asc ''respond'') = Some Respond"
  by (simp_all add: node_names_def asc_def)

lemma after_router_cases: "\<exists>n \<in> {Rag, Tool, Supervisor, Chitchat, Handoff, Respond}. after_router s = Some n"
  by (auto simp: after_router_def next_after_router_def target_by_key_def Let_def split: option.splits if_splits)

lemma after_rag_cases: "after_rag s \<in> {Some Supervisor, Some Respond}"
  by (simp add: after_rag_def next_after_rag_def Let_def)

lemma next_node_defined: "\<exists>n'. next_node n s = Some n'"
  using after_router_cases [of s] after_rag_cases [of s] by (cases n) auto

lemma next_rank: "next_node n s = Some (Some n') \<Longrightarrow> rank n' < rank n"
  using after_router_cases [of s] after_rag_cases [of s] by (cases n) auto

lemma rank_pos [simp]: "Suc 0 \<le> rank n"
  by (cases n) auto

text \<open>The whole run, as a function.\<close>

function run_from :: "('s, 'm) graph_env \<Rightarrow> node \<Rightarrow> cs_state \<Rightarrow> ('s, 'm) graph_world \<Rightarrow> ('s, 'm) config" where
  "run_from env n s w =
     (case run_node n env s w of
        (Inl e, w') \<Rightarrow> Failed e w'
      | (Inr us, w') \<Rightarrow>
          (let s' = apply_updates (ge_reducer env) us s in
           case next_node n s' of Some (Some n') \<Rightarrow> run_from env n' s' w' | _ \<Rightarrow> Done s' w'))"
  by pat_completeness auto
termination by (relation "measure (\<lambda>(env, n, s, w). rank n)") (auto dest: next_rank)

declare run_from.simps [simp del]

lemma graph_step_deterministic: "graph_step env c d \<Longrightarrow> graph_step env c d' \<Longrightarrow> d = d'"
  by (auto elim!: graph_step.cases)

lemma end_no_step: "is_end c \<Longrightarrow> \<not> graph_step env c d"
  by (auto elim: graph_step.cases)

lemma step_once:
  assumes "graph_step env c d" "1 \<le> (r :: nat)"
  shows "\<exists>k. 1 \<le> k \<and> k \<le> r \<and> (graph_step env ^^ k) c d"
  by (intro exI [of _ 1] conjI) (use assms in \<open>auto simp: relpowp_1\<close>)

lemma run_from_steps:
  "is_end (run_from env n s w) \<and> (\<exists>k. 1 \<le> k \<and> k \<le> rank n \<and> (graph_step env ^^ k) (At n s w) (run_from env n s w))"
proof (induction env n s w rule: run_from.induct)
  case (1 env n s w)
  obtain res w' where r: "run_node n env s w = (res, w')" by (cases "run_node n env s w")
  show ?case
  proof (cases res)
    case (Inl e)
    then have "run_from env n s w = Failed e w'" "graph_step env (At n s w) (Failed e w')"
      using r by (auto simp: run_from.simps [of env n s w] intro: graph_step.intros)
    then show ?thesis using step_once [of env "At n s w" _ "rank n"] by simp
  next
    case (Inr us)
    let ?s = "apply_updates (ge_reducer env) us s"
    obtain nxt where nxt: "next_node n ?s = Some nxt" using next_node_defined by blast
    show ?thesis
    proof (cases nxt)
      case None
      then have "run_from env n s w = Done ?s w'" "graph_step env (At n s w) (Done ?s w')"
        using r Inr nxt by (auto simp: run_from.simps [of env n s w] intro: graph_step.intros)
      then show ?thesis using step_once [of env "At n s w" _ "rank n"] by simp
    next
      case (Some n')
      then have f: "run_from env n s w = run_from env n' ?s w'" "graph_step env (At n s w) (At n' ?s w')"
        using r Inr nxt by (auto simp: run_from.simps [of env n s w] intro: graph_step.intros)
      from 1 [OF r [symmetric] Inr refl nxt Some] obtain k where
        k: "is_end (run_from env n' ?s w')" "k \<le> rank n'" "(graph_step env ^^ k) (At n' ?s w') (run_from env n' ?s w')" by auto
      have "(graph_step env ^^ Suc k) (At n s w) (run_from env n s w)" unfolding f(1) by (rule relpowp_Suc_I2 [OF f(2) k(3)])
      moreover have "Suc k \<le> rank n" using k(2) next_rank nxt Some by force
      ultimately show ?thesis using k(1) f(1) by (intro conjI exI [of _ "Suc k"]) auto
    qed
  qed
qed

lemma steps_deterministic:
  assumes "graph_steps env c d" "graph_steps env c d'" "is_end d" "is_end d'"
  shows "d = d'"
  using assms
proof (induction rule: converse_rtranclp_induct)
  case base
  then show ?case by (metis converse_rtranclpE end_no_step)
next
  case (step c e)
  then show ?case by (metis converse_rtranclpE end_no_step graph_step_deterministic)
qed

text \<open>
  C24: Every turn ends. From the security check the graph takes at most five steps to an answer
  or to an exception, whatever the components return; it is the only end that the steps can
  reach, and no execution of the graph goes on after it.
\<close>

theorem turn_ends:
  "(\<exists>k \<le> 5. (graph_step env ^^ k) (At Security s w) (run_from env Security s w)) \<and>
   (graph_steps env (At Security s w) c \<and> is_end c \<longleftrightarrow> c = run_from env Security s w) \<and>
   (is_end c \<longrightarrow> (\<nexists>d. graph_step env c d))"
proof -
  from run_from_steps [of env Security s w] obtain k where
    k: "k \<le> 5" "(graph_step env ^^ k) (At Security s w) (run_from env Security s w)" "is_end (run_from env Security s w)" by auto
  then have s: "graph_steps env (At Security s w) (run_from env Security s w)" by (blast intro: relpowp_imp_rtranclp)
  show ?thesis using k s steps_deterministic [OF s] end_no_step by blast
qed


section \<open>What a turn writes\<close>

definition person :: "('s, 'm) graph_env \<Rightarrow> cs_state \<Rightarrow> ustr \<times> ustr \<times> ustr" where
  "person env s = (let i = ident_of env s in (iv_tenant i, iv_user i, iv_session i))"

lemma apply_update_identity [simp]:
  "g_user (apply_update red u s) = g_user s" "g_tenant (apply_update red u s) = g_tenant s" "g_session (apply_update red u s) = g_session s"
  by (cases u; simp)+

lemma apply_updates_identity [simp]:
  "g_user (apply_updates red us s) = g_user s" "g_tenant (apply_updates red us s) = g_tenant s" "g_session (apply_updates red us s) = g_session s"
  unfolding apply_updates_def by (induction us arbitrary: s) auto

lemma person_apply [simp]: "person env (apply_updates red us s) = person env s"
  by (simp add: person_def ident_of_def identity_of_def)

definition profile_owner :: "ustr \<Rightarrow> ustr \<Rightarrow> ustr \<times> ustr" where
  "profile_owner tn u = (or_str (strip tn) (asc ''demo''), strip u)"

definition session_owner :: "ustr \<Rightarrow> ustr \<Rightarrow> ustr \<Rightarrow> ustr \<times> ustr \<times> ustr" where
  "session_owner tn u sid = (or_str (strip tn) (asc ''demo''), or_str (strip u) (asc ''anonymous''), strip sid)"

text \<open>An order number handed to a profile is one that the user may access.\<close>

definition learned_ok :: "('s, 'm) graph_env \<Rightarrow> ustr \<times> ustr \<times> ustr option \<Rightarrow> bool" where
  "learned_ok env x = (case x of (tn, u, no) \<Rightarrow> is_persistent_user (Some u) \<and> truthy no \<longrightarrow>
     fst (can_access_order (te_db (ce_tools (ge_caps env))) (ge_ctx env) (str_or_empty no) tn (Some u) DIRECT_QUERY))"

definition writes_own :: "('s, 'm) graph_env \<Rightarrow> ustr \<times> ustr \<times> ustr \<Rightarrow> ('s, 'm) graph_world \<Rightarrow> ('s, 'm) graph_world \<Rightarrow> bool" where
  "writes_own env p w w' = (case p of (tn, u, sid) \<Rightarrow>
     (\<forall>tn' u'. profile_owner tn' u' \<noteq> profile_owner tn u \<longrightarrow>
        load_user_profile True (mw_rows (gw_memory w')) tn' u' = load_user_profile True (mw_rows (gw_memory w)) tn' u') \<and>
     (\<forall>tn' u' sid'. session_owner tn' u' sid' \<noteq> session_owner tn u sid \<longrightarrow>
        load_session_archive True (gw_sessions w') tn' u' sid' = load_session_archive True (gw_sessions w) tn' u' sid') \<and>
     (\<exists>new. gw_learned w' = gw_learned w @ map (\<lambda>no. (tn, u, no)) new \<and> (\<forall>no \<in> set new. learned_ok env (tn, u, no))))"

lemma writes_own_refl:
  "gw_memory w' = gw_memory w \<Longrightarrow> gw_sessions w' = gw_sessions w \<Longrightarrow> gw_learned w' = gw_learned w \<Longrightarrow> writes_own env p w w'"
  by (auto simp: writes_own_def split: prod.splits intro!: exI [of _ "[]"])

lemma writes_own_trans:
  assumes "writes_own env p w w'" "writes_own env p w' w''"
  shows "writes_own env p w w''"
proof -
  obtain tn u sid where p: "p = (tn, u, sid)" by (cases p)
  from assms obtain a b where "gw_learned w' = gw_learned w @ map (\<lambda>no. (tn, u, no)) a" "\<forall>no \<in> set a. learned_ok env (tn, u, no)"
    "gw_learned w'' = gw_learned w' @ map (\<lambda>no. (tn, u, no)) b" "\<forall>no \<in> set b. learned_ok env (tn, u, no)"
    by (auto simp: writes_own_def p)
  then have "gw_learned w'' = gw_learned w @ map (\<lambda>no. (tn, u, no)) (a @ b) \<and> (\<forall>no \<in> set (a @ b). learned_ok env (tn, u, no))" by auto
  with assms show ?thesis unfolding writes_own_def p prod.case by (intro conjI) (auto simp del: map_append)
qed

lemma upsert_other_owner:
  "profile_owner tn' u' \<noteq> profile_owner tn u \<Longrightarrow>
     load_user_profile True (upsert_user_profile up rows tn u m) tn' u' = load_user_profile True rows tn' u'"
proof (cases up)
  case False
  then have "upsert_user_profile up rows tn u m = rows" by (simp add: upsert_user_profile_def Let_def)
  then show ?thesis by simp
qed (use load_upsert_other [of tn u tn' u'] in \<open>auto simp: profile_owner_def\<close>)

lemma persist_from_state_writes: "writes_own env (person env s) w (persist_from_state env s w)"
proof -
  let ?i = "ident_of env s" and ?no = "or_opt (rv_order_no (route_of s)) (mv_last_order_no (memory_of s))"
  define no where "no = (if truthy ?no \<and> is_persistent_user (Some (iv_user ?i)) \<and> \<not> may_access env ?i ?no then None else ?no)"
  have "learned_ok env (iv_tenant ?i, iv_user ?i, no)"
    by (auto simp: learned_ok_def no_def may_access_def Let_def)
  moreover have "gw_learned (persist_from_state env s w) = gw_learned w @ map (\<lambda>no. (iv_tenant ?i, iv_user ?i, no)) [no]"
    by (simp add: persist_from_state_def Let_def no_def)
  moreover have "load_user_profile True (mw_rows (gw_memory (persist_from_state env s w))) tn' u' = load_user_profile True (mw_rows (gw_memory w)) tn' u'"
    if "profile_owner tn' u' \<noteq> profile_owner (iv_tenant ?i) (iv_user ?i)" for tn' u'
    using upsert_other_owner [OF that] by (simp add: persist_from_state_def save_user_memory_def Let_def case_prod_beta load_rows)
  moreover have "gw_sessions (persist_from_state env s w) = gw_sessions w" by (simp add: persist_from_state_def Let_def)
  ultimately show ?thesis unfolding writes_own_def person_def Let_def prod.case
    by (intro conjI exI [of _ "[no]"]) auto
qed

lemma with_memory_writes: "with_memory env s us w = (res, w') \<Longrightarrow> writes_own env (person env s) w w'"
  using persist_from_state_writes [of env "apply_updates (ge_reducer env) us s" w] by (auto simp: with_memory_def)

lemma hydrate_writes: "writes_own env p w (snd (hydrate_slots env s w))"
  by (auto simp: hydrate_slots_def Let_def case_prod_beta load_rows writes_own_def split: prod.splits intro!: exI [of _ "[]"])

lemma caps_writes: "writes_own env p w0 w \<Longrightarrow> writes_own env p w0 (w\<lparr>gw_caps := c\<rparr>)"
  by (rule writes_own_trans, assumption) (rule writes_own_refl, auto)

lemma caps_then_writes: "writes_own env p (w\<lparr>gw_caps := c\<rparr>) w' \<Longrightarrow> writes_own env p w w'"
  by (rule writes_own_trans [OF writes_own_refl]) auto

lemma node_writes: "run_node n env s w = (res, w') \<Longrightarrow> writes_own env (person env s) w w'"
proof (cases n)
  case Router
  assume "run_node n env s w = (res, w')"
  then have "w' = w \<or> w' = snd (hydrate_slots env s w)"
    by (auto simp: Router router_node_def Let_def case_prod_beta split: if_splits sum.splits)
  then show ?thesis using hydrate_writes [of env "person env s" w s] by (auto intro: writes_own_refl)
next
  case Rag
  assume "run_node n env s w = (res, w')"
  then show ?thesis
    by (auto simp: Rag rag_node_def Let_def case_prod_beta split: sum.splits option.splits
        dest!: with_memory_writes intro: writes_own_refl caps_then_writes)
next
  case Tool
  assume "run_node n env s w = (res, w')"
  then show ?thesis
    by (auto simp: Tool tool_node_def Let_def case_prod_beta split: sum.splits option.splits tool_error.splits service_error.splits
        dest!: with_memory_writes intro: writes_own_refl caps_then_writes)
next
  case Supervisor
  assume "run_node n env s w = (res, w')"
  then show ?thesis
    by (auto simp: Supervisor supervisor_node_def Let_def case_prod_beta split: sum.splits if_splits
        dest!: with_memory_writes intro: writes_own_refl caps_then_writes)
next
  case Respond
  assume "run_node n env s w = (res, w')"
  then have "w' = w\<lparr>gw_sessions := persist_respond_turn (ge_settings env) (ge_sessions_up env) (gw_sessions w) s
      (finalize_respond_turn (rec_tokenizer (ge_recognizer env)) (ge_ask_summary env) (ge_settings env) s)\<rparr>"
    by (auto simp: Respond respond_node_def Let_def)
  then show ?thesis
    by (auto simp: writes_own_def person_def ident_of_def persist_respond_turn_def Let_def session_owner_def load_upsert_other_session
        intro!: exI [of _ "[]"])
qed (auto simp: security_node_def chitchat_node_def handoff_node_def Let_def split: sum.splits
    dest!: with_memory_writes intro: writes_own_refl)

fun config_world :: "('s, 'm) config \<Rightarrow> ('s, 'm) graph_world" where
  "config_world (At n s w) = w"
| "config_world (Done s w) = w"
| "config_world (Failed e w) = w"

fun config_state :: "('s, 'm) config \<Rightarrow> cs_state option" where
  "config_state (At n s w) = Some s"
| "config_state (Done s w) = Some s"
| "config_state (Failed e w) = None"

lemma steps_write_own:
  "graph_steps env (At n s w) c \<Longrightarrow>
     writes_own env (person env s) w (config_world c) \<and> (\<forall>s'. config_state c = Some s' \<longrightarrow> person env s' = person env s)"
proof (induction rule: rtranclp_induct)
  case base
  then show ?case by (auto intro: writes_own_refl)
next
  case (step c d)
  from step(2,3) show ?case
    by (auto elim!: graph_step.cases dest!: node_writes intro: writes_own_trans)
qed


section \<open>A turn starts from the verdict\<close>

lemma apply_updates_append [simp]: "apply_updates red (us @ vs) s = apply_updates red vs (apply_updates red us s)"
  by (simp add: apply_updates_def)

lemma apply_updates_simps [simp]: "apply_updates red [] s = s" "apply_updates red (u # us) s = apply_updates red us (apply_update red u s)"
  by (simp_all add: apply_updates_def)

lemma apply_reset: "apply_updates red reset_updates s = reset_turn_fields s"
  by (simp add: reset_updates_def reset_turn_fields_def route_turn_reset_def result_turn_reset_def)

lemma reset_query: "(reset_turn_fields s)\<lparr>g_query := q\<rparr> = (reset_turn_fields (s\<lparr>g_query := []\<rparr>))\<lparr>g_query := q\<rparr>"
  by (simp add: reset_turn_fields_def route_turn_reset_def result_turn_reset_def)


section \<open>The answer of a turn\<close>

lemma re_sub_nonempty: "repl \<noteq> [] \<Longrightarrow> s \<noteq> [] \<Longrightarrow> re_sub a repl pre s \<noteq> []"
  by (cases s) (auto simp: re_sub.simps Let_def split: list.splits prod.splits)

lemma mask_pii_nonempty: "s \<noteq> [] \<Longrightarrow> fst (mask_pii s) \<noteq> []"
proof -
  have step: "fst (mask_step x p) \<noteq> []" if "fst x \<noteq> []" "snd (snd p) \<noteq> []" for x p
    using that by (cases x; cases p) (simp add: mask_step_text re_sub_nonempty)
  have "fst (foldl mask_step x ps) \<noteq> []" if "fst x \<noteq> []" "\<forall>p \<in> set ps. snd (snd p) \<noteq> []" for x ps
    using that by (induction ps arbitrary: x) (auto simp: step)
  moreover have "\<forall>p \<in> set pii_patterns. snd (snd p) \<noteq> []" by (simp add: pii_patterns_def asc_def)
  moreover assume "s \<noteq> []"
  ultimately show ?thesis unfolding mask_pii_def by simp
qed

lemma strip_nonempty: "strip s \<noteq> [] \<Longrightarrow> s \<noteq> []"
  by (auto simp: strip_def)

lemma resolve_answer_nonempty: "resolve_respond_answer s \<noteq> []"
  by (auto simp: resolve_respond_answer_def Let_def llm_unavailable_answer_def or_str_def dest: strip_nonempty)

lemma run_ends_in_respond:
  assumes "graph_steps env c (Done s' w')" "c \<noteq> Done s' w'"
  obtains s0 w0 us where "graph_steps env c (At Respond s0 w0)" "respond_node env s0 w0 = (Inr us, w')"
    "s' = apply_updates (ge_reducer env) us s0"
proof -
  from assms obtain d where d: "graph_steps env c d" "graph_step env d (Done s' w')" by (metis rtranclp.cases)
  have last: "n = Respond" if "next_node n s = Some None" for n s using that by (cases n) auto
  from d(2) obtain n s0 us w0 where "d = At n s0 w0" "run_node n env s0 w0 = (Inr us, w')" "s' = apply_updates (ge_reducer env) us s0"
    "next_node n s' = Some None" by (auto elim!: graph_step.cases)
  moreover from this have "n = Respond" using last by blast
  ultimately show ?thesis using d(1) by (intro that) auto
qed


section \<open>Blocked turns\<close>

lemma blocked_router: "g_blocked s \<Longrightarrow> router_node env s w = (Inr [], w) \<and> after_router s = Some Respond"
  by (simp add: router_node_def after_router_def next_after_router_def route_of_def Let_def)

lemma blocked_apply:
  assumes "security_node env s w = (Inr us, w')" "\<not> verdict_allowed (inspect_input (g_query s))"
  shows "apply_updates red us s = (reset_turn_fields s)\<lparr>g_blocked := True, g_block_reason := verdict_reason (inspect_input (g_query s)),
      g_answer := [0x8BF7, 0x6C42, 0x5DF2, 0x88AB, 0x5B89, 0x5168, 0x4E2D, 0x95F4, 0x4EF6, 0x62E6, 0x622A, 0xFF1A] \<comment> \<open>blocked by the security layer\<close> @ verdict_reason (inspect_input (g_query s)), g_intent := (asc ''chitchat'')\<rparr> \<and> w' = w"
  using assms by (auto simp: security_node_def ident_of_def identity_of_def Let_def apply_reset split: sum.splits)

text \<open>
  C28: A blocked turn reaches no component. When the filter rejects the message, the graph goes
  from the security check over the router straight to the exit: no order query, retrieval,
  ReACT agent or profile is touched, the message is not added to the conversation, and the
  slots of the session stay as they were. The answer names the block and the reason.
\<close>

theorem blocked_turn_reaches_nothing:
  assumes "\<not> verdict_allowed (inspect_input (g_query s))" and "graph_steps env (At Security s w) c"
  shows "gw_caps (config_world c) = gw_caps w \<and> gw_memory (config_world c) = gw_memory w \<and> gw_learned (config_world c) = gw_learned w \<and>
    (case c of At n s' w' \<Rightarrow> n \<in> {Security, Router, Respond} \<and> g_messages s' = g_messages s \<and> gw_sessions w' = gw_sessions w
     | Done s' w' \<Rightarrow> g_answer s' = inspect_output ([0x8BF7, 0x6C42, 0x5DF2, 0x88AB, 0x5B89, 0x5168, 0x4E2D, 0x95F4, 0x4EF6, 0x62E6, 0x622A, 0xFF1A] \<comment> \<open>blocked by the security layer\<close> @ verdict_reason (inspect_input (g_query s))) \<and>
         slots_of s' = slots_of s
     | Failed e w' \<Rightarrow> (\<exists>x. e = TenantRejected x))"
proof -
  let ?r = "verdict_reason (inspect_input (g_query s))"
  define b where "b = (reset_turn_fields s)\<lparr>g_blocked := True, g_block_reason := ?r,
      g_answer := [0x8BF7, 0x6C42, 0x5DF2, 0x88AB, 0x5B89, 0x5168, 0x4E2D, 0x95F4, 0x4EF6, 0x62E6, 0x622A, 0xFF1A] \<comment> \<open>blocked by the security layer\<close> @ ?r, g_intent := (asc ''chitchat'')\<rparr>"
  have bf: "g_blocked b" "g_messages b = g_messages s" "slots_of b = slots_of s" "resolve_respond_answer b = [0x8BF7, 0x6C42, 0x5DF2, 0x88AB, 0x5B89, 0x5168, 0x4E2D, 0x95F4, 0x4EF6, 0x62E6, 0x622A, 0xFF1A] \<comment> \<open>blocked by the security layer\<close> @ ?r"
    by (simp_all add: b_def reset_turn_fields_def route_turn_reset_def result_turn_reset_def slots_of_def memory_of_def resolve_respond_answer_def
        result_of_def strip_def is_space_def)
  have sec: "apply_updates red us s = b" "w' = w" if "security_node env s w = (Inr us, w')" for red us w'
    using blocked_apply [OF that assms(1), of red] by (simp_all add: b_def)
  have fail: "\<exists>x. e = TenantRejected x \<and> w' = w" if "security_node env s w = (Inl e, w')" for e w'
    using that by (auto simp: security_node_def Let_def split: sum.splits)
  have from_security: "d = At Router b w \<or> (\<exists>x. d = Failed (TenantRejected x) w)" if "graph_step env (At Security s w) d" for d
    using that
  proof (cases rule: graph_step.cases)
    case (Move us w' s' n')
    then have e: "security_node env s w = (Inr us, w')" by simp
    from Move sec(1) [OF e] sec(2) [OF e] show ?thesis by simp
  next
    case (Fail e w')
    with fail [of e w'] show ?thesis by auto
  qed auto
  have from_router: "d = At Respond b w" if "graph_step env (At Router b w) d" for d
    using that by (cases rule: graph_step.cases) (auto simp: blocked_router [OF bf(1)])
  have from_respond: "\<exists>us w'. respond_node env b w = (Inr us, w') \<and> d = Done (apply_updates (ge_reducer env) us b) w'"
    if "graph_step env (At Respond b w) d" for d
    using that by (cases rule: graph_step.cases) (auto simp: respond_node_def Let_def)
  have "c = At Security s w \<or> (\<exists>x. c = Failed (TenantRejected x) w) \<or> c = At Router b w \<or> c = At Respond b w \<or>
      (\<exists>us w'. respond_node env b w = (Inr us, w') \<and> c = Done (apply_updates (ge_reducer env) us b) w')"
    using assms(2)
  proof (induction rule: rtranclp_induct)
    case (step c d)
    from step(3) show ?case
      using step(2) from_security [of d] from_router [of d] from_respond [of d] end_no_step [of c env d] by auto
  qed simp
  then show ?thesis
  proof (elim disjE exE conjE)
    fix us w'
    assume u: "respond_node env b w = (Inr us, w')" "c = Done (apply_updates (ge_reducer env) us b) w'"
    have "slots_of (b\<lparr>g_answer := x, g_messages := y, g_summary := z\<rparr>) = slots_of b" for x y z
      by (simp add: slots_of_def memory_of_def)
    with u bf show ?thesis
      by (auto simp: respond_node_def Let_def finalize_respond_turn_def build_stored_answer_def case_prod_beta)
  qed (use bf in auto)
qed

section \<open>A concrete turn\<close>

definition demo_answerer :: "memory_tool_store course_answerer" where
  "demo_answerer = \<lparr>stream_answer = (\<lambda>_ w _. (Inr ((asc ''none''), \<lparr>cc_name = not_found_course, cc_summary = (asc ''none''), cc_modules = [], cc_path = [],
     cc_prerequisites = [], cc_sources = [], cc_evidence = []\<rparr>), w))\<rparr>"

definition demo_graph_env :: "(memory_tool_store, payload ref_store user_store) graph_env" where
  "demo_graph_env = \<lparr>ge_caps = demo_cap_env, ge_registry = builtin_registry, ge_react = (\<lambda>_. Inr []), ge_answerer = demo_answerer,
     ge_recognizer = demo_recognizer, ge_profiles = redis_profile_ops, ge_memory_cfg = demo_memory_settings, ge_settings = demo_turn_settings,
     ge_ask_summary = (\<lambda>_. None), ge_sessions_up = True, ge_reducer = demo_reducer, ge_ctx = initial_ctx\<rparr>"

definition demo_graph_world :: "(memory_tool_store, payload ref_store user_store) graph_world" where
  "demo_graph_world = \<lparr>gw_caps = demo_cap_world, gw_memory = demo_memory_world, gw_sessions = [], gw_learned = []\<rparr>"

lemma run_reaches: "graph_steps env (At n s w) (run_from env n s w)"
  using run_from_steps [of env n s w] by (blast intro: relpowp_imp_rtranclp)

lemma demo_blocked: "\<not> verdict_allowed (inspect_input (g_query demo_session))"
  by (simp add: inspect_input_def strip_def demo_session_def empty_state_def)

lemma demo_done: "\<exists>s' w'. run_from demo_graph_env Security demo_session demo_graph_world = Done s' w'"
proof -
  have "\<exists>us. security_node demo_graph_env demo_session demo_graph_world = (Inr us, demo_graph_world)"
    by (simp add: security_node_def ident_of_def identity_of_def demo_session_def empty_state_def demo_graph_env_def demo_turn_settings_def
        set_current_tenant_def normalize_tenant_id_def tenant_re_def tenant_char_def strip_def is_space_def asc_def or_str_def Let_def)
  then obtain us where us: "security_node demo_graph_env demo_session demo_graph_world = (Inr us, demo_graph_world)" by blast
  have b: "g_blocked (apply_updates red us demo_session)" for red
    using blocked_apply [OF us demo_blocked, of red] by simp
  show ?thesis
    by (simp add: us blocked_router [OF b] run_from.simps [of _ Security] run_from.simps [of _ Router] run_from.simps [of _ Respond] respond_node_def Let_def)
qed

theorem turn_ends_witness:
  "\<nexists>d. graph_step demo_graph_env (run_from demo_graph_env Security demo_session demo_graph_world) d"
proof -
  have e: "is_end (run_from demo_graph_env Security demo_session demo_graph_world)" using demo_done by force
  show ?thesis
    using turn_ends [of demo_graph_env demo_session demo_graph_world "run_from demo_graph_env Security demo_session demo_graph_world"] e by blast
qed




theorem blocked_turn_reaches_nothing_witness:
  "gw_caps (config_world (run_from demo_graph_env Security demo_session demo_graph_world)) = demo_cap_world"
  using blocked_turn_reaches_nothing [OF demo_blocked run_reaches [of demo_graph_env Security demo_session demo_graph_world]]
  by (simp add: demo_graph_world_def)

end
