(* ===== verification/Rag_Answer.thy ===== *)
theory Rag_Answer
  imports Rag_Search Graph
begin

text \<open>
  The course agent (\<open>app/agents/rag.py\<close>): from a question to the retrieved documents, the
  evidence and the answer. The language model, its Markdown stream and the prompt store are
  arguments; the counters and the log are left out. The answerer of this theory is the one
  that the graph's course node calls.
\<close>

section \<open>Evidence\<close>

definition evidence_excerpt_chars :: nat where
  "evidence_excerpt_chars = 120"

definition evidence_key :: "document \<Rightarrow> ustr \<times> ustr" where
  "evidence_key d = (strip (source_of d), or_str (strip (str_or_empty (d_section_path d))) (strip (str_or_empty (d_module d))))"

definition evidence_of :: "document \<Rightarrow> evidence_section" where
  "evidence_of d =
     (let excerpt = strip (replace_all [10] (asc '' '') (d_content d)) in
      \<lparr>es_source = strip (source_of d), es_section_path = strip (str_or_empty (d_section_path d)), es_module_name = strip (str_or_empty (d_module d)),
       es_excerpt = (if evidence_excerpt_chars < length excerpt then take evidence_excerpt_chars excerpt @ [0x2026] \<comment> \<open>dots\<close> else excerpt)\<rparr>)"

fun evidence_loop :: "(ustr \<times> ustr) set \<Rightarrow> document list \<Rightarrow> evidence_section list" where
  "evidence_loop seen [] = []"
| "evidence_loop seen (d # ds) =
     (if evidence_key d \<in> seen then evidence_loop seen ds else evidence_of d # evidence_loop (insert (evidence_key d) seen) ds)"

definition build_evidence_from_docs :: "document list \<Rightarrow> evidence_section list" where
  "build_evidence_from_docs ds = evidence_loop {} ds"

definition with_evidence :: "course_result \<Rightarrow> document list \<Rightarrow> course_result" where
  "with_evidence res ds = res\<lparr>cc_evidence := build_evidence_from_docs ds\<rparr>"

definition not_found_summary :: ustr where
  "not_found_summary = [0x77E5, 0x8BC6, 0x5E93, 0x4E2D, 0x6CA1, 0x6709, 0x5339, 0x914D, 0x5185, 0x5BB9, 0xFF0C, 0x8BF7, 0x6362, 0x4E2A, 0x8BFE, 0x7A0B, 0x540D, 0x79F0, 0x518D, 0x8BD5, 0x3002] \<comment> \<open>nothing matches, try another course name\<close>"

definition not_found_result :: course_result where
  "not_found_result = \<lparr>cc_name = not_found_course, cc_summary = not_found_summary, cc_modules = [], cc_path = [],
     cc_prerequisites = [], cc_sources = [], cc_evidence = []\<rparr>"

section \<open>Retrieval\<close>

record miss_record =
  ms_tenant :: ustr
  ms_query :: ustr
  ms_search :: ustr
  ms_reason :: ustr
  ms_rewrite :: ustr

record retrieval =
  rt_documents :: "document list"
  rt_hits :: "document list"
  rt_stats :: trim_stats
  rt_miss :: "miss_record option"
  rt_low_confidence :: bool

text \<open>Which queries are searched: those of the prepared question when it is the one that is searched.\<close>

definition retrieval_queries_for :: "query_settings \<Rightarrow> search_context option \<Rightarrow> ustr \<Rightarrow> ustr list option" where
  "retrieval_queries_for cfg ctx query =
     (case ctx of
        Some c \<Rightarrow> if sq_queries c \<noteq> [] \<and> sq_search c = query then Some (sq_queries c)
          else let ds = decompose_retrieval_queries cfg query in if 1 < length ds then Some ds else None
      | None \<Rightarrow> let ds = decompose_retrieval_queries cfg query in if 1 < length ds then Some ds else None)"

definition accepted_hits :: "search_env \<Rightarrow> int \<Rightarrow> ustr option \<Rightarrow> search_hit list \<Rightarrow> document list" where
  "accepted_hits env k code ranked =
     (let hits = take_int k (map sh_document (filter (passes_min_score (se_min_score env)) ranked)) in
      if hits = [] \<and> truthy code \<and> ranked \<noteq> []
      then take_int k (map sh_document (filter (\<lambda>h. sh_low h \<or> passes_min_score 0 h) ranked)) else hits)"

definition retrieve_course_docs ::
  "search_env \<Rightarrow> query_settings \<Rightarrow> stores \<Rightarrow> lexical \<Rightarrow> search_context option \<Rightarrow> ustr \<Rightarrow> int \<Rightarrow> ustr \<Rightarrow> ustr option \<Rightarrow>
     (rag_error + retrieval) \<times> lexical" where
  "retrieve_course_docs env cfg ss wix ctx query k tenant code =
     (case search_tenant_documents env ss wix query tenant k code (retrieval_queries_for cfg ctx query) of
        (Inl e, wix) \<Rightarrow> (Inl e, wix)
      | (Inr found, wix) \<Rightarrow>
          (let ranked = tr_hits found; hits = accepted_hits env k code ranked;
               strict = take_int k (filter (passes_min_score (se_min_score env)) ranked);
               low = list_ex sh_low (take_int k ranked);
               low = (if strict = [] \<and> truthy code \<and> ranked \<noteq> [] then low \<or> tr_fallback found else low);
               rejected = ranked \<noteq> [] \<and> hits = []
           in case iter_tenant_documents ss tenant code of
                Inl e \<Rightarrow> (Inl e, wix)
              | Inr corpus \<Rightarrow>
                  (let scored = (if hits \<noteq> [] then expand_hit_documents_scored hits corpus (se_neighbor env) else []);
                       (expanded, stats) = trim_rag_context_by_budget env scored (se_budget env);
                       original = (case ctx of Some c \<Rightarrow> or_str (sq_original c) query | None \<Rightarrow> query);
                       searched = (case ctx of Some c \<Rightarrow> or_str (sq_search c) query | None \<Rightarrow> query);
                       miss = \<lparr>ms_tenant = tenant, ms_query = original, ms_search = searched,
                         ms_reason = (if rejected then (asc ''low_score'') else (asc ''rag_empty'')), ms_rewrite = (case ctx of Some c \<Rightarrow> sq_reason c | None \<Rightarrow> [])\<rparr>
                   in (Inr (if hits = []
                         then \<lparr>rt_documents = [], rt_hits = [], rt_stats = stats, rt_miss = Some miss, rt_low_confidence = low\<rparr>
                         else \<lparr>rt_documents = expanded, rt_hits = hits, rt_stats = stats, rt_miss = None, rt_low_confidence = low\<rparr>), wix))))"

section \<open>The course's title\<close>

definition course_name_re :: re where
  "course_name_re = Cat (lit [0x8BFE, 0x7A0B, 0x540D, 0x79F0] \<comment> \<open>course name\<close>) (Cat (Cls (\<lambda>c. c = 0xFF1A \<or> c = 58))
     (Cat (Many is_space 0 None) (Grp (Many (\<lambda>c. c \<noteq> 10) 1 None))))"

text \<open>\<open>document_course_code\<close> of every document; the first that raises ends it.\<close>

fun course_codes :: "document list \<Rightarrow> rag_error + ustr list" where
  "course_codes [] = Inr []"
| "course_codes (d # ds) =
     (case document_course_code d of Inl e \<Rightarrow> Inl e
      | Inr c \<Rightarrow> (case course_codes ds of Inl e \<Rightarrow> Inl e | Inr cs \<Rightarrow> Inr (if c \<noteq> [] then c # cs else cs)))"

definition count_codes :: "ustr list \<Rightarrow> (ustr, nat) dict" where
  "count_codes cs = foldl (\<lambda>m c. AList.update c (case map_of m c of None \<Rightarrow> 1 | Some n \<Rightarrow> n + 1) m) [] cs"

definition course_code_query_overlap :: "search_env \<Rightarrow> ustr \<Rightarrow> document list \<Rightarrow> ustr \<Rightarrow> nat" where
  "course_code_query_overlap env query ds code =
     (let tokens = filter (\<lambda>t. 2 \<le> length t) (tokenize env query) in
      if tokens = [] then 0
      else sum_list (map (\<lambda>d. if document_course_code d \<noteq> Inr code then 0
        else length (filter (\<lambda>t. occurs t (lower (d_content d))) tokens)) ds))"

definition stamped_name :: "document \<Rightarrow> ustr" where
  "stamped_name d = strip (str_or_empty (d_course_name d))"

text \<open>\<open>if x and x not in names: names.append(x)\<close>.\<close>

definition add_new :: "ustr list \<Rightarrow> ustr \<Rightarrow> ustr list" where
  "add_new names x = (if x \<noteq> [] \<and> x \<notin> set names then names @ [x] else names)"

definition title_of_code :: "search_env \<Rightarrow> course_catalog \<Rightarrow> ustr \<Rightarrow> ustr \<Rightarrow> document list \<Rightarrow> ustr list \<Rightarrow> ustr option" where
  "title_of_code env rows tenant query ds codes =
     (case sort_key (\<lambda>(c, n). (- int n, - int (course_code_query_overlap env query ds c))) (count_codes codes) of
        [] \<Rightarrow> None
      | (dominant, _) # _ \<Rightarrow>
          (case filter (\<lambda>x. x \<noteq> []) (map stamped_name (filter (\<lambda>d. document_course_code d = Inr dominant) ds)) of
             name # _ \<Rightarrow> Some name
           | [] \<Rightarrow> (let name = map_of (load_course_catalog rows []) (tenant, dominant) in if truthy name then name else None)))"

definition title_in_text :: "ustr \<Rightarrow> document list \<Rightarrow> ustr list \<Rightarrow> ustr" where
  "title_in_text query ds catalog_names =
     (let names = foldl add_new [] (map strip (concat (map (\<lambda>d. find_all course_name_re [] (d_content d)) ds)))
      in case filter (\<lambda>n. occurs n query) names of
           n # _ \<Rightarrow> n
         | [] \<Rightarrow> (case names @ catalog_names of
              n # _ \<Rightarrow> n
            | [] \<Rightarrow> if occurs (asc ''Python'' @ [0x5165, 0x95E8]) \<comment> \<open>introduction\<close> (join [10] (map d_content ds)) then (asc ''Python'' @ [0x5165, 0x95E8, 0x8BFE]) \<comment> \<open>introduction course\<close> else [0x76F8, 0x5173, 0x8BFE, 0x7A0B] \<comment> \<open>related course\<close>))"

definition course_title_from_docs :: "search_env \<Rightarrow> course_catalog \<Rightarrow> ustr \<Rightarrow> ustr \<Rightarrow> document list \<Rightarrow> rag_error + ustr" where
  "course_title_from_docs env rows tenant query ds =
     (let catalog_names = foldl add_new [] (map stamped_name ds)
      in case filter (\<lambda>n. occurs n query) catalog_names of
           n # _ \<Rightarrow> Inr n
         | [] \<Rightarrow> (case course_codes ds of
              Inl e \<Rightarrow> Inl e
            | Inr codes \<Rightarrow> Inr (case title_of_code env rows tenant query ds codes of Some t \<Rightarrow> t | None \<Rightarrow> title_in_text query ds catalog_names)))"

section \<open>Answers without a model\<close>

definition sources_of :: "document list \<Rightarrow> ustr list" where
  "sources_of ds = sort (remdups (map (\<lambda>d. case d_source d of None \<Rightarrow> (asc ''None'') | Some s \<Rightarrow> s) ds))"

text \<open>
  The pattern of a module's heading has two groups, its number and its title; the matches are the
  same whichever group is captured.
\<close>

definition module_re :: "(re \<Rightarrow> re) \<Rightarrow> (re \<Rightarrow> re) \<Rightarrow> re" where
  "module_re g h = Cat (lit [0x6A21, 0x5757] \<comment> \<open>module\<close>) (Cat (Many is_space 0 None) (Cat (g (Many is_digit 1 None))
     (Cat (Many (\<lambda>c. c = 0xFF1A \<or> c = 58 \<or> c = 46 \<or> is_space c) 0 None) (h (Many (\<lambda>c. c \<noteq> 10) 1 None)))))"

definition module_names :: "ustr \<Rightarrow> ustr list" where
  "module_names text = map2 (\<lambda>n t. [0x6A21, 0x5757] \<comment> \<open>module\<close> @ n @ (asc '' '') @ strip t) (find_all (module_re Grp id) [] text) (find_all (module_re id Grp) [] text)"

definition fallback_structure :: "search_env \<Rightarrow> course_catalog \<Rightarrow> ustr \<Rightarrow> ustr \<Rightarrow> document list \<Rightarrow> rag_error + course_result" where
  "fallback_structure env rows tenant query ds =
     (let joined = join [10, 10] (map d_content ds) in
      case course_title_from_docs env rows tenant query ds of
        Inl e \<Rightarrow> Inl e
      | Inr title \<Rightarrow>
          (let names = module_names joined;
               path = [\<lparr>ls_stage = [0x5165, 0x95E8] \<comment> \<open>start\<close>, ls_modules = take 2 names, ls_goal = [0x5EFA, 0x7ACB, 0x8BED, 0x6CD5, 0x4E0E, 0x73AF, 0x5883, 0x57FA, 0x7840] \<comment> \<open>syntax and tools\<close>\<rparr>,
                 \<lparr>ls_stage = [0x5DE9, 0x56FA] \<comment> \<open>consolidate\<close>, ls_modules = take 2 (drop 2 names), ls_goal = [0x638C, 0x63E1, 0x5E38, 0x7528, 0x6570, 0x636E, 0x7ED3, 0x6784, 0x4E0E, 0x51FD, 0x6570] \<comment> \<open>data structures and functions\<close>\<rparr>,
                 \<lparr>ls_stage = [0x5B9E, 0x6218] \<comment> \<open>practice\<close>, ls_modules = drop 4 names, ls_goal = [0x72EC, 0x7ACB, 0x5B8C, 0x6210, 0x5C0F, 0x9879, 0x76EE] \<comment> \<open>a small project\<close>\<rparr>]
           in Inr \<lparr>cc_name = title, cc_summary = replace_all [10] (asc '' '') (take 180 joined),
                cc_modules = (let ms = map (\<lambda>n. \<lparr>cm_name = n, cm_topics = [], cm_duration_hours = 0, cm_outcome = []\<rparr>) names
                  in if ms = [] then [\<lparr>cm_name = [0x8BFE, 0x7A0B, 0x6A21, 0x5757, 0x8BE6, 0x89C1, 0x77E5, 0x8BC6, 0x5E93] \<comment> \<open>see the knowledge base\<close>, cm_topics = [], cm_duration_hours = 0, cm_outcome = []\<rparr>] else ms),
                cc_path = filter (\<lambda>s. ls_modules s \<noteq> []) path, cc_prerequisites = [], cc_sources = sources_of ds,
                cc_evidence = build_evidence_from_docs ds\<rparr>))"

definition retrieval_stub :: "document list \<Rightarrow> course_result" where
  "retrieval_stub ds =
     \<lparr>cc_name = (case search course_name_re [] (join [10] (map d_content ds)) of Some (Some g, _) \<Rightarrow> strip g | _ \<Rightarrow> []),
      cc_summary = [], cc_modules = [], cc_path = [], cc_prerequisites = [], cc_sources = sources_of ds, cc_evidence = build_evidence_from_docs ds\<rparr>"

section \<open>Answers with a model\<close>

datatype content_part = PartText ustr | PartDict "ustr option" "ustr option"

datatype chunk_content = ContentText ustr | ContentParts "content_part list" | ContentOther

fun part_text :: "content_part \<Rightarrow> ustr" where
  "part_text (PartText t) = t"
| "part_text (PartDict kind t) = (if kind = Some (asc ''text'') then str_or_empty t else [])"

fun chunk_text :: "chunk_content \<Rightarrow> ustr" where
  "chunk_text (ContentText t) = t"
| "chunk_text (ContentParts ps) = concat (map part_text ps)"
| "chunk_text ContentOther = []"

text \<open>\<open>_emit_token\<close>: what reaches the stream for one piece of the answer.\<close>

definition emit_token :: "ustr \<Rightarrow> ustr list" where
  "emit_token content = (if content = [] then [] else let masked = fst (mask_pii content) in if masked = [] then [] else [masked])"

record answer_env =
  ae_search :: search_env
  ae_query :: query_settings
  ae_history :: history_settings
  ae_prompt :: "ustr \<Rightarrow> ustr \<Rightarrow> ustr"
  ae_structured :: "ustr \<Rightarrow> ustr \<Rightarrow> exn + course_result option"
  ae_stream :: "ustr \<Rightarrow> ustr \<Rightarrow> chunk_content list \<times> exn option"

definition rag_structured_system :: ustr where
  "rag_structured_system =
     [0x4F60, 0x662F, 0x8BFE, 0x7A0B, 0x54A8, 0x8BE2, 0x52A9, 0x624B, 0x3002, 0x53EA, 0x6839, 0x636E, 0x68C0, 0x7D22, 0x5230, 0x7684, 0x5927, 0x7EB2, 0x4F5C, 0x7B54, 0xFF0C, 0x4E0D, 0x8981, 0x7F16, 0x9020, 0x3002] \<comment> \<open>answer from the retrieved outlines only\<close> @
     [0x8F93, 0x51FA, 0x8BFE, 0x7A0B, 0x6A21, 0x5757, 0x5217, 0x8868, 0x548C, 0x5B66, 0x4E60, 0x8DEF, 0x5F84, 0xFF08, 0x5165, 0x95E8, 47, 0x5DE9, 0x56FA, 47, 0x5B9E, 0x6218, 0xFF09, 0x3002] \<comment> \<open>list modules and a path\<close> @
     [0x53EF, 0x7ED3, 0x5408, 0x5BF9, 0x8BDD, 0x5386, 0x53F2, 0x7406, 0x89E3, 0x6307, 0x4EE3, 0xFF0C, 0x4F46, 0x7B54, 0x6848, 0x5FC5, 0x987B, 0x4EE5, 0x68C0, 0x7D22, 0x7ED3, 0x679C, 0x4E3A, 0x51C6, 0x3002] \<comment> \<open>the history only resolves references\<close>"

definition rag_markdown_system :: ustr where
  "rag_markdown_system =
     [0x4F60, 0x662F, 0x8BFE, 0x7A0B, 0x54A8, 0x8BE2, 0x52A9, 0x624B, 0x3002, 0x53EA, 0x6839, 0x636E, 0x68C0, 0x7D22, 0x5230, 0x7684, 0x5927, 0x7EB2, 0x4F5C, 0x7B54, 0xFF0C, 0x4E0D, 0x8981, 0x7F16, 0x9020, 0x3002] \<comment> \<open>answer from the retrieved outlines only\<close> @
     ([0x7528] @ asc '' Markdown '' @ [0x56DE, 0x590D, 0xFF1A, 0x5148, 0x5199, 0x8BFE, 0x7A0B, 0x6807, 0x9898, 0x4E0E, 0x6458, 0x8981, 0xFF0C, 0x518D, 0x5217, 0x8BFE, 0x7A0B, 0x6A21, 0x5757, 0xFF0C, 0x518D, 0x5199, 0x5B66, 0x4E60, 0x8DEF, 0x5F84, 0xFF08, 0x5165, 0x95E8, 47, 0x5DE9, 0x56FA, 47, 0x5B9E, 0x6218, 0xFF09, 0x3002]) \<comment> \<open>in Markdown: title, modules, path\<close> @
     [0x53EF, 0x7ED3, 0x5408, 0x5BF9, 0x8BDD, 0x5386, 0x53F2, 0x7406, 0x89E3, 0x6307, 0x4EE3, 0xFF0C, 0x4F46, 0x7B54, 0x6848, 0x5FC5, 0x987B, 0x4EE5, 0x68C0, 0x7D22, 0x7ED3, 0x679C, 0x4E3A, 0x51C6, 0x3002] \<comment> \<open>the history only resolves references\<close>"

definition rag_exn :: "rag_error \<Rightarrow> exn" where
  "rag_exn e = \<lparr>ex_class = (case e of AttributeMissing \<Rightarrow> (asc ''AttributeError'') | IndexUnavailable \<Rightarrow> (asc ''IndexUnavailableError'')
       | IndexMismatch \<Rightarrow> (asc ''EmbeddingIndexMismatchError'') | EmptyKnowledge \<Rightarrow> (asc ''RuntimeError'')),
     ex_message = [], ex_os_error = False, ex_pool_busy = False\<rparr>"

text \<open>\<open>is_llm_degradable\<close> on an exception that is seen through its class.\<close>

definition exn_degradable :: "exn \<Rightarrow> bool" where
  "exn_degradable e \<longleftrightarrow> ex_class e \<noteq> (asc ''TenantQuotaExceededError'')"

definition on_llm_failure ::
  "answer_env \<Rightarrow> 's cap_env \<Rightarrow> 's cap_world \<Rightarrow> ustr \<Rightarrow> document list \<Rightarrow> exn \<Rightarrow> (course_error + course_result) \<times> 's cap_world" where
  "on_llm_failure ae env w query ds exc =
     (if \<not> exn_degradable exc then (Inl (CourseRaised exc), w)
      else let te = ce_tools env; tw = cw_tools w; tenant = current_tenant (te_ctx te); uid = get_current_user (te_ctx te);
          key = normalize_course_cache_key (Some query) None;
          (cached, store) = get_cached_course (te_ops te) (te_cfg te) (te_session te) (tw_store tw) (te_now te) key tenant uid;
          tw = tw\<lparr>tw_store := store\<rparr>
        in case cached of
             Some c \<Rightarrow> (Inr (annotate_stale_course (cr_payload c) (max 0 (te_now te - cr_cached_at c))), w\<lparr>cw_tools := tw\<rparr>)
           | None \<Rightarrow>
               (let (d, tracker) = escalation_for_transient (te_cfg te) (tw_tracker tw) tool_course key;
                    w = w\<lparr>cw_tools := tw\<lparr>tw_tracker := tracker\<rparr>\<rparr>
                in case raise_if_escalated d of
                     Some e \<Rightarrow> (Inl (CourseEscalated e), w)
                   | None \<Rightarrow> (case fallback_structure (ae_search ae) (ce_catalog env) tenant query ds of
                         Inl e \<Rightarrow> (Inl (CourseRaised (rag_exn e)), w) | Inr res \<Rightarrow> (Inr res, w))))"

definition user_block :: "answer_env \<Rightarrow> course_request \<Rightarrow> document list \<Rightarrow> ustr" where
  "user_block ae req ds =
     (let context = join ([10, 10] @ asc ''---'' @ [10, 10]) (map format_rag_context_chunk ds);
          history = format_history_for_prompt (se_tokenizer (ae_search ae)) (ae_history ae)
            (case rq_history req of None \<Rightarrow> [] | Some ms \<Rightarrow> ms) None None (rq_summary req);
          block = [0x7528, 0x6237, 0x95EE, 0x9898, 0xFF1A] \<comment> \<open>question\<close> @ rq_query req @ [10, 10, 0x68C0, 0x7D22, 0x7ED3, 0x679C, 0xFF1A, 10] \<comment> \<open>results\<close> @ context
      in if history \<noteq> [] then [0x5BF9, 0x8BDD, 0x5386, 0x53F2, 0xFF1A, 10] \<comment> \<open>history\<close> @ history @ [10, 10] @ block else block)"

definition default_k :: int where
  "default_k = 8"

text \<open>The common start of both answers: the prepared question is searched.\<close>

definition documents_for ::
  "answer_env \<Rightarrow> course_catalog \<Rightarrow> stores \<Rightarrow> lexical \<Rightarrow> ustr \<Rightarrow> course_request \<Rightarrow> (rag_error + retrieval) \<times> lexical" where
  "documents_for ae rows ss wix current req =
     (let tenant = or_str (rq_tenant req) current;
          ctx = prepare_search_query (ae_query ae) rows (rq_query req) (case rq_history req of None \<Rightarrow> [] | Some ms \<Rightarrow> ms) tenant
            (rq_last_course_query req) (rq_last_course_name req)
      in retrieve_course_docs (ae_search ae) (ae_query ae) ss wix (Some ctx) (sq_search ctx) default_k tenant (rq_course_code req))"

definition consult_course ::
  "answer_env \<Rightarrow> stores \<Rightarrow> lexical \<Rightarrow> 's cap_env \<Rightarrow> 's cap_world \<Rightarrow> course_request \<Rightarrow> (course_error + course_result) \<times> 's cap_world" where
  "consult_course ae ss wix env w req =
     (let current = current_tenant (te_ctx (ce_tools env)) in
      case fst (documents_for ae (ce_catalog env) ss wix current req) of
        Inl e \<Rightarrow> (Inl (CourseRaised (rag_exn e)), w)
      | Inr found \<Rightarrow>
          (let ds = rt_documents found in
           if ds = [] then (Inr not_found_result, w)
           else if \<not> qs_llm_enabled (ae_query ae)
           then (case fallback_structure (ae_search ae) (ce_catalog env) current (rq_query req) ds of
               Inl e \<Rightarrow> (Inl (CourseRaised (rag_exn e)), w) | Inr res \<Rightarrow> (Inr (with_evidence res ds), w))
           else case ae_structured ae (ae_prompt ae (asc ''cs.rag_structured'') rag_structured_system) (user_block ae req ds) of
               Inl exc \<Rightarrow> (case on_llm_failure ae env w (rq_query req) ds exc of
                   (Inl e, w) \<Rightarrow> (Inl e, w) | (Inr res, w) \<Rightarrow> (Inr (with_evidence res ds), w))
             | Inr None \<Rightarrow> (Inr (with_evidence (retrieval_stub ds) ds), w)
             | Inr (Some res) \<Rightarrow> (Inr (with_evidence (res\<lparr>cc_sources := sources_of ds\<rparr>) ds), w)))"

definition no_text_answer :: ustr where
  "no_text_answer = [0x5DF2, 0x68C0, 0x7D22, 0x5230, 0x76F8, 0x5173, 0x8D44, 0x6599, 0xFF0C, 0x4F46, 0x672A, 0x80FD, 0x751F, 0x6210, 0x8BF4, 0x660E, 0xFF0C, 0x8BF7, 0x7A0D, 0x540E, 0x91CD, 0x8BD5, 0x3002] \<comment> \<open>found, but nothing was generated\<close>"

text \<open>The streamed answer; the last component is what reached the stream.\<close>

definition stream_course_answer ::
  "answer_env \<Rightarrow> stores \<Rightarrow> lexical \<Rightarrow> 's cap_env \<Rightarrow> 's cap_world \<Rightarrow> course_request \<Rightarrow>
     (course_error + (ustr \<times> course_result)) \<times> 's cap_world \<times> ustr list" where
  "stream_course_answer ae ss wix env w req =
     (let current = current_tenant (te_ctx (ce_tools env)) in
      case fst (documents_for ae (ce_catalog env) ss wix current req) of
        Inl e \<Rightarrow> (Inl (CourseRaised (rag_exn e)), w, [])
      | Inr found \<Rightarrow>
          (let ds = rt_documents found in
           if ds = [] then (Inr (cc_summary not_found_result, not_found_result), w, [])
           else if \<not> qs_llm_enabled (ae_query ae)
           then (case fallback_structure (ae_search ae) (ce_catalog env) current (rq_query req) ds of
               Inl e \<Rightarrow> (Inl (CourseRaised (rag_exn e)), w, [])
             | Inr res \<Rightarrow> (let res = with_evidence res ds in (Inr (format_course_answer res, res), w, [])))
           else let (chunks, failure) = ae_stream ae (ae_prompt ae (asc ''cs.rag_markdown'') rag_markdown_system) (user_block ae req ds);
                    deltas = filter (\<lambda>t. t \<noteq> []) (map chunk_text chunks); emitted = concat (map emit_token deltas)
             in case failure of
                 Some exc \<Rightarrow> (case on_llm_failure ae env w (rq_query req) ds exc of
                     (Inl e, w) \<Rightarrow> (Inl e, w, emitted)
                   | (Inr res, w) \<Rightarrow> (let res = with_evidence res ds in (Inr (format_course_answer res, res), w, emitted)))
               | None \<Rightarrow> (Inr (or_str (strip (concat deltas)) no_text_answer, with_evidence (retrieval_stub ds) ds), w, emitted)))"

text \<open>The answerer of the graph's course node, over one version of the indexes.\<close>

definition rag_answerer :: "answer_env \<Rightarrow> stores \<Rightarrow> lexical \<Rightarrow> 's course_answerer" where
  "rag_answerer ae ss wix = \<lparr>stream_answer = (\<lambda>env w req. let (res, w, _) = stream_course_answer ae ss wix env w req in (res, w))\<rparr>"

section \<open>Where the documents come from\<close>

lemma filter_or_raise_keeps: "filter_or_raise P xs = Inr ys \<Longrightarrow> y \<in> set ys \<Longrightarrow> y \<in> set xs \<and> P y = Inr True"
  by (induction xs arbitrary: ys) (auto split: sum.splits if_splits)

lemma corpus_scope:
  assumes "iter_tenant_documents ss tenant code = Inr corpus" "d \<in> set corpus"
  shows "in_scope ss tenant code d"
proof -
  let ?docs = "concat (map (\<lambda>sc. live_documents (the (map_of ss sc))) (search_scopes ss tenant code))"
  have "d \<in> set ?docs \<and> matches_course code d = Inr True"
  proof (cases "truthy code")
    case True
    then show ?thesis using assms filter_or_raise_keeps [of "matches_course code" ?docs corpus d] by (simp add: iter_tenant_documents_def)
  next
    case False
    then show ?thesis using assms by (auto simp: iter_tenant_documents_def Let_def matches_course_def)
  qed
  then show ?thesis using scope_store by (fastforce simp: in_scope_def)
qed

lemma accepted_hits_docs: "d \<in> set (accepted_hits env k code ranked) \<Longrightarrow> d \<in> sh_document ` set ranked"
  by (auto simp: accepted_hits_def Let_def split: if_splits dest!: subsetD [OF set_take_int])

lemma consider_item_nonempty: "consider_item sel i \<noteq> []"
  by (auto simp: consider_item_def better_item_def Let_def)

lemma foldl_consider_nonempty: "sel \<noteq> [] \<or> is \<noteq> [] \<Longrightarrow> foldl consider_item sel is \<noteq> []"
  by (induction "is" arbitrary: sel) (auto simp: consider_item_nonempty)

lemma expand_nonempty: "hits \<noteq> [] \<Longrightarrow> expand_hit_documents_scored hits corpus n \<noteq> []"
proof -
  assume "hits \<noteq> []"
  then obtain h hs where "hits = h # hs" by (cases hits) auto
  then have "concat (map (hit_items w ps cs ss) (enumerate 0 hits)) \<noteq> []" for w ps cs ss
    by (simp add: hit_items_def Let_def)
  then have "foldl consider_item [] (concat (map (hit_items w ps cs ss) (enumerate 0 hits))) \<noteq> []" for w ps cs ss
    by (intro foldl_consider_nonempty) blast
  then show ?thesis unfolding expand_hit_documents_scored_def by (metis map_is_Nil_conv set_empty set_sort)
qed

lemma trim_docs:
  assumes "trim_rag_context_by_budget env items budget = (docs, st)"
  shows "set docs \<subseteq> ci_document ` set items \<and> (items \<noteq> [] \<longrightarrow> docs \<noteq> [])"
  using trim_summary [OF assms] by auto

definition own_document :: "stores \<Rightarrow> ustr \<Rightarrow> ustr option \<Rightarrow> document \<Rightarrow> bool" where
  "own_document ss tenant code d \<longleftrightarrow> \<not> d_deleted d \<and>
     (if truthy code then d \<in> set (docs_of ss tenant) \<and> Inr (str_or_empty code) = document_course_code d
      else d \<in> set (docs_of ss tenant) \<union> set (docs_of ss platform_tenant))"

lemma in_scope_own: "in_scope ss tenant code d \<Longrightarrow> own_document ss tenant code d"
  by (auto simp: in_scope_def own_document_def live_documents_def search_scopes_def matches_course_def str_or_empty_def split: if_splits sum.splits option.splits)

lemma retrieve_scope:
  assumes "similar_ok env" "lexical_ok ss wix" "retrieve_course_docs env cfg ss wix ctx query k tenant code = (res, wix')"
  shows "lexical_ok ss wix'" and "res = Inr r \<Longrightarrow> d \<in> set (rt_documents r) \<union> set (rt_hits r) \<Longrightarrow> in_scope ss tenant code d"
    and "res = Inr r \<Longrightarrow> (rt_documents r = []) = (rt_hits r = []) \<and> (rt_miss r = None) = (rt_documents r \<noteq> [])"
proof -
  obtain s w where b: "search_tenant_documents env ss wix query tenant k code (retrieval_queries_for cfg ctx query) = (s, w)"
    by (cases "search_tenant_documents env ss wix query tenant k code (retrieval_queries_for cfg ctx query)")
  note scope = search_tenant_scope [OF assms(1,2) b]
  have "wix' = w" using assms(3) b by (auto simp: retrieve_course_docs_def Let_def split: sum.splits prod.splits)
  with scope(1) show "lexical_ok ss wix'" by simp
  have shape: "\<exists>found corpus st. s = Inr found \<and> iter_tenant_documents ss tenant code = Inr corpus \<and>
    (let hits = accepted_hits env k code (tr_hits found) in
     if hits = [] then rt_documents r = [] \<and> rt_hits r = [] \<and> rt_miss r \<noteq> None
     else rt_hits r = hits \<and> rt_miss r = None \<and>
       trim_rag_context_by_budget env (expand_hit_documents_scored hits corpus (se_neighbor env)) (se_budget env) = (rt_documents r, st))" if "res = Inr r"
    using assms(3) b that by (auto simp: retrieve_course_docs_def Let_def split: sum.splits prod.splits)
  show "(rt_documents r = []) = (rt_hits r = []) \<and> (rt_miss r = None) = (rt_documents r \<noteq> [])" if "res = Inr r"
    using shape [OF that] trim_docs expand_nonempty by (fastforce simp: Let_def split: if_splits)
  assume res: "res = Inr r" and d: "d \<in> set (rt_documents r) \<union> set (rt_hits r)"
  from shape [OF res] obtain found corpus st where f: "s = Inr found" and corpus: "iter_tenant_documents ss tenant code = Inr corpus"
    and rest: "let hits = accepted_hits env k code (tr_hits found) in
     if hits = [] then rt_documents r = [] \<and> rt_hits r = [] \<and> rt_miss r \<noteq> None
     else rt_hits r = hits \<and> rt_miss r = None \<and>
       trim_rag_context_by_budget env (expand_hit_documents_scored hits corpus (se_neighbor env)) (se_budget env) = (rt_documents r, st)" by blast
  have hits: "rt_hits r = accepted_hits env k code (tr_hits found)" using rest by (auto simp: Let_def split: if_splits)
  have docs: "x \<in> set (rt_hits r) \<union> set corpus" if x: "x \<in> set (rt_documents r)" for x
  proof -
    from rest x have "trim_rag_context_by_budget env (expand_hit_documents_scored (rt_hits r) corpus (se_neighbor env)) (se_budget env) = (rt_documents r, st)"
      by (auto simp: Let_def split: if_splits)
    from trim_docs [OF this] x obtain i where "i \<in> set (expand_hit_documents_scored (rt_hits r) corpus (se_neighbor env))" "x = ci_document i" by blast
    then show ?thesis using expand_docs by blast
  qed
  have "in_scope ss tenant code x" if "x \<in> set (rt_hits r)" for x
    using that scope(2) [OF f] unfolding hits by (auto dest: accepted_hits_docs)
  with d docs corpus_scope [OF corpus] show "in_scope ss tenant code d" by blast
qed

text \<open>
  C31: Whatever a retrieval returns, the hits and the context around them, is a live chunk of the
  tenant's own index or of the platform's; with a bound course it is a chunk of that course from the
  tenant's own index. Nothing is returned exactly when there was no hit, and exactly then the miss
  is recorded.
\<close>

theorem retrieval_stays_in_scope:
  assumes "similar_ok env" "lexical_ok ss wix" "retrieve_course_docs env cfg ss wix ctx query k tenant code = (Inr r, wix')"
  shows "(\<forall>d \<in> set (rt_documents r) \<union> set (rt_hits r). own_document ss tenant code d)
    \<and> (rt_documents r = [] \<longleftrightarrow> rt_hits r = []) \<and> (rt_miss r = None \<longleftrightarrow> rt_documents r \<noteq> []) \<and> lexical_ok ss wix'"
  using retrieve_scope [OF assms] in_scope_own by blast

section \<open>Where the evidence comes from\<close>

lemma evidence_loop_docs: "e \<in> set (evidence_loop seen ds) \<Longrightarrow> \<exists>d \<in> set ds. e = evidence_of d \<and> evidence_key d \<notin> seen"
  by (induction seen ds rule: evidence_loop.induct) (auto split: if_splits)

definition cited_key :: "evidence_section \<Rightarrow> ustr \<times> ustr" where
  "cited_key e = (es_source e, or_str (es_section_path e) (es_module_name e))"

lemma cited_key_of [simp]: "cited_key (evidence_of d) = evidence_key d"
  by (simp add: cited_key_def evidence_of_def evidence_key_def Let_def)

lemma evidence_distinct: "distinct (map cited_key (evidence_loop seen ds))"
proof (induction seen ds rule: evidence_loop.induct)
  case (2 seen d ds)
  then show ?case by (auto dest!: evidence_loop_docs)
qed simp

lemma evidence_length: "length (es_excerpt (evidence_of d)) \<le> 121"
  by (simp add: evidence_of_def evidence_excerpt_chars_def Let_def)

definition cites :: "stores \<Rightarrow> ustr \<Rightarrow> ustr option \<Rightarrow> course_result \<Rightarrow> bool" where
  "cites ss tenant code res \<longleftrightarrow> distinct (map cited_key (cc_evidence res)) \<and>
     (\<forall>e \<in> set (cc_evidence res). length (es_excerpt e) \<le> 121 \<and> (\<exists>d. own_document ss tenant code d \<and> e = evidence_of d))"

lemma with_evidence_cites: "\<forall>d \<in> set ds. own_document ss tenant code d \<Longrightarrow> cites ss tenant code (with_evidence res ds)"
  by (auto simp: cites_def with_evidence_def build_evidence_from_docs_def evidence_distinct evidence_length dest!: evidence_loop_docs)

lemma documents_scope:
  assumes "similar_ok (ae_search ae)" "lexical_ok ss wix" "fst (documents_for ae rows ss wix current req) = Inr r" "d \<in> set (rt_documents r)"
  shows "own_document ss (or_str (rq_tenant req) current) (rq_course_code req) d"
  using assms(3,4) retrieve_scope(2) [OF assms(1,2)] in_scope_own unfolding documents_for_def Let_def
  by (metis UnI1 prod.collapse)

text \<open>
  C32: Whichever way the course agent comes to its answer (nothing found, no model, a failed model, a
  cached result, a generated text), what the result cites are excerpts of at most 121 characters of
  live chunks that the tenant may read, and no section is cited twice.
\<close>

theorem answer_cites_own_documents:
  assumes "similar_ok (ae_search ae)" "lexical_ok ss wix"
    and "stream_answer (rag_answerer ae ss wix) env w req = (Inr (answer, res), w')"
  shows "cites ss (or_str (rq_tenant req) (current_tenant (te_ctx (ce_tools env)))) (rq_course_code req) res"
proof -
  let ?current = "current_tenant (te_ctx (ce_tools env))"
  obtain em where st: "stream_course_answer ae ss wix env w req = (Inr (answer, res), w', em)"
    using assms(3) by (auto simp: rag_answerer_def split: prod.splits)
  then obtain found where f: "fst (documents_for ae (ce_catalog env) ss wix ?current req) = Inr found"
    by (auto simp: stream_course_answer_def Let_def split: sum.splits)
  let ?ds = "rt_documents found"
  have "res = not_found_result \<or> (\<exists>res'. res = with_evidence res' ?ds)"
    using st f by (auto simp: stream_course_answer_def Let_def split: if_splits sum.splits prod.splits option.splits)
  moreover have "cites ss t c not_found_result" for t c by (simp add: cites_def not_found_result_def)
  moreover have "cites ss (or_str (rq_tenant req) ?current) (rq_course_code req) (with_evidence res' ?ds)" for res'
    by (rule with_evidence_cites) (use documents_scope [OF assms(1,2) f] in blast)
  ultimately show ?thesis by metis
qed

section \<open>What may go wrong\<close>

definition legacy_chunk :: "document \<Rightarrow> bool" where
  "legacy_chunk d \<longleftrightarrow> \<not> truthy (d_code d) \<and> \<not> truthy (d_course_file d) \<and> (\<exists>stem. source_of d = stem @ (asc ''.md''))"

lemma legacy_chunk_raises: "legacy_chunk d \<Longrightarrow> truthy code \<Longrightarrow> matches_course code d = Inl AttributeMissing"
  by (auto simp: legacy_chunk_def matches_course_def document_course_code_def truthy_def or_opt_def str_or_empty_def starts_with_iff Let_def split: option.splits)

lemma filter_or_raise_fails:
  "x \<in> set xs \<Longrightarrow> P x = Inl e \<Longrightarrow> (\<And>y e'. P y = Inl e' \<Longrightarrow> e' = e) \<Longrightarrow> filter_or_raise P xs = Inl e"
proof (induction xs)
  case (Cons y xs)
  show ?case
  proof (cases "P y")
    case (Inl e')
    then show ?thesis using Cons.prems(3) by simp
  next
    case (Inr b)
    then have "x \<in> set xs" using Cons.prems(1,2) by auto
    then show ?thesis using Inr Cons.IH [OF _ Cons.prems(2,3)] by simp
  qed
next
  case Nil
  from Nil(1) show ?case by simp
qed

text \<open>
  One live chunk of an old index that has no course code, only the name of a Markdown file,
  makes every retrieval for a bound course of that tenant raise, whatever is asked and whatever the
  course: the compatibility branch for such chunks calls a method that paths do not have.
\<close>

lemma legacy_chunk_retrieval:
  assumes "d \<in> set (live_documents (docs_of ss tenant))" "legacy_chunk d" "truthy code"
  shows "fst (retrieve_course_docs env cfg ss wix ctx query k tenant code) = Inl AttributeMissing"
proof (cases "search_tenant_documents env ss wix query tenant k code (retrieval_queries_for cfg ctx query)")
  case (Pair s w)
  have "docs_of ss tenant \<noteq> []" using assms(1) by (auto simp: live_documents_def)
  then have "map_of ss tenant = Some (docs_of ss tenant)" by (auto simp: docs_of_def split: option.splits)
  then have "iter_tenant_documents ss tenant code = Inl AttributeMissing"
    using assms filter_or_raise_fails [of d "live_documents (docs_of ss tenant)" "matches_course code" AttributeMissing]
      legacy_chunk_raises [OF assms(2,3)] matches_course_raises
    by (simp add: iter_tenant_documents_def search_scopes_def)
  with Pair show ?thesis using search_tenant_raises [of env ss wix query tenant k code] by (cases s) (auto simp: retrieve_course_docs_def Let_def)
qed

text \<open>
  A streamed answer fails only on the retrieval itself, on a used-up quota, on a failure after
  which the turn is handed to a person, or on a chunk without a course code; every other failure of
  the model is answered from the cache or from the documents.
\<close>

lemma course_answer_failures:
  assumes "fst (stream_answer (rag_answerer ae ss wix) env w req) = Inl e"
  shows "(\<exists>r. e = CourseRaised (rag_exn r)) \<or> (\<exists>exc. e = CourseRaised exc \<and> \<not> exn_degradable exc) \<or> (\<exists>d. e = CourseEscalated d \<and> escalate d)"
  using assms
  by (auto simp: rag_answerer_def stream_course_answer_def on_llm_failure_def raise_if_escalated_def Let_def
      split: prod.splits sum.splits if_splits option.splits)

definition demo_stores :: stores where
  "demo_stores = [((asc ''demo''), [demo_document (asc ''old outline'') (asc ''a.md'') True, demo_document (asc ''outline'') (asc ''a.md'') False]),
     ((asc ''other''), [demo_document (asc ''secret'') (asc ''b.md'') False])]"

definition demo_search_context :: search_context where
  "demo_search_context = \<lparr>sq_original = (asc ''outline''), sq_search = (asc ''outline''), sq_applied = False, sq_reason = (asc ''none''), sq_queries = [(asc ''outline'')]\<rparr>"

lemma demo_outline: "strip (asc ''outline'') = (asc ''outline'')" "truthy (Some (asc ''py''))" "(asc ''outline'') \<noteq> []"
  by (simp_all add: asc_def strip_def is_space_def truthy_def)

lemma demo_search:
  "search_vector demo_search_env demo_stores query (asc ''demo'') 24 (Some (asc ''py'')) = Inr [(demo_document (asc ''outline'') (asc ''a.md'') False, 3/4)]"
  by (simp add: search_vector_def search_scopes_def demo_outline demo_stores_def demo_search_env_def vector_inner_k_def demo_document_def
      matches_course_def document_course_code_def is_retrieval_chunk_def l2_to_similarity_def or_opt_def str_or_empty_def truthy_def asc_def Let_def)

lemma demo_hits:
  "\<exists>r. search_tenant_documents demo_search_env demo_stores [] (asc ''outline'') (asc ''demo'') 8 (Some (asc ''py'')) (Some [(asc ''outline'')]) = (Inr r, []) \<and>
     tr_hits r = [\<lparr>sh_document = demo_document (asc ''outline'') (asc ''a.md'') False, sh_score = 3/4, sh_vector = 3/4, sh_bm25 = 0, sh_low = False\<rparr>]"
  using demo_search
  by (simp add: search_tenant_documents_def single_query_hits_def ranked_for_def demo_outline default_fetch_k_def vector_hits_def take_int_def Let_def
      demo_search_env_def)

lemma demo_corpus: "iter_tenant_documents demo_stores (asc ''demo'') (Some (asc ''py'')) = Inr [demo_document (asc ''outline'') (asc ''a.md'') False]"
  by (simp add: iter_tenant_documents_def search_scopes_def demo_outline demo_stores_def live_documents_def demo_document_def
      matches_course_def document_course_code_def or_opt_def str_or_empty_def truthy_def asc_def Let_def)

lemma demo_accepted:
  "accepted_hits demo_search_env 8 code [\<lparr>sh_document = d, sh_score = a, sh_vector = a, sh_bm25 = 0, sh_low = False\<rparr>] = [d]"
  by (simp add: accepted_hits_def passes_min_score_def demo_search_env_def take_int_def)

lemma demo_retrieval:
  "\<exists>r. retrieve_course_docs demo_search_env demo_query_settings demo_stores [] (Some demo_search_context) (asc ''outline'') 8 (asc ''demo'') (Some (asc ''py'')) = (Inr r, [])
     \<and> rt_hits r = [demo_document (asc ''outline'') (asc ''a.md'') False]"
proof -
  obtain found where f: "search_tenant_documents demo_search_env demo_stores [] (asc ''outline'') (asc ''demo'') 8 (Some (asc ''py'')) (Some [(asc ''outline'')]) = (Inr found, [])"
    "tr_hits found = [\<lparr>sh_document = demo_document (asc ''outline'') (asc ''a.md'') False, sh_score = 3/4, sh_vector = 3/4, sh_bm25 = 0, sh_low = False\<rparr>]"
    using demo_hits by blast
  have q: "retrieval_queries_for demo_query_settings (Some demo_search_context) (asc ''outline'') = Some [(asc ''outline'')]"
    by (simp add: retrieval_queries_for_def demo_search_context_def)
  show ?thesis unfolding retrieve_course_docs_def q f(1)
    by (simp add: f(2) demo_accepted demo_corpus Let_def split: prod.split)
qed

theorem retrieval_stays_in_scope_witness:
  "\<exists>r wix. retrieve_course_docs demo_search_env demo_query_settings demo_stores [] (Some demo_search_context) (asc ''outline'') 8 (asc ''demo'') (Some (asc ''py'')) = (Inr r, wix)
     \<and> rt_documents r \<noteq> [] \<and> (\<forall>d \<in> set (rt_documents r). \<not> d_deleted d \<and> d \<in> set (docs_of demo_stores (asc ''demo'')))"
proof -
  obtain r where r: "retrieve_course_docs demo_search_env demo_query_settings demo_stores [] (Some demo_search_context) (asc ''outline'') 8 (asc ''demo'') (Some (asc ''py'')) = (Inr r, [])"
    "rt_hits r = [demo_document (asc ''outline'') (asc ''a.md'') False]" using demo_retrieval by blast
  have "lexical_ok demo_stores []" by (simp add: lexical_ok_def)
  from retrieval_stays_in_scope [OF demo_similar_ok this r(1)] r show ?thesis by (auto simp: own_document_def demo_outline)
qed

lemma retrieve_total:
  assumes "\<not> truthy code"
  shows "\<exists>r wix'. retrieve_course_docs env cfg ss wix ctx query k tenant code = (Inr r, wix')"
proof -
  obtain found wix' where "search_tenant_documents env ss wix query tenant k code (retrieval_queries_for cfg ctx query) = (Inr found, wix')"
    using search_tenant_total [OF assms] by blast
  moreover obtain corpus where "iter_tenant_documents ss tenant code = Inr corpus" using assms by (simp add: iter_tenant_documents_def Let_def)
  ultimately show ?thesis by (simp add: retrieve_course_docs_def Let_def split: prod.split)
qed

lemma stream_total:
  assumes "\<not> truthy (rq_course_code req)" "qs_llm_enabled (ae_query ae)" "\<And>sys user. \<exists>chunks. ae_stream ae sys user = (chunks, None)"
  shows "\<exists>answer res. stream_answer (rag_answerer ae ss wix) env w req = (Inr (answer, res), w)"
proof -
  obtain r where r: "fst (documents_for ae (ce_catalog env) ss wix (current_tenant (te_ctx (ce_tools env))) req) = Inr r"
    using retrieve_total [OF assms(1)] unfolding documents_for_def Let_def by (metis fst_conv)
  obtain chunks where "ae_stream ae (ae_prompt ae (asc ''cs.rag_markdown'') rag_markdown_system) (user_block ae req (rt_documents r)) = (chunks, None)"
    using assms(3) by blast
  with r show ?thesis using assms(2) by (simp add: rag_answerer_def stream_course_answer_def Let_def)
qed

definition demo_answer_env :: answer_env where
  "demo_answer_env = \<lparr>ae_search = demo_search_env, ae_query = demo_query_settings\<lparr>qs_llm_enabled := True\<rparr>,
     ae_history = \<lparr>history_token_budget = 100, history_min_messages = 1\<rparr>, ae_prompt = (\<lambda>_ fallback. fallback),
     ae_structured = (\<lambda>_ _. Inr None), ae_stream = (\<lambda>_ _. ([ContentText (asc ''ok'')], None))\<rparr>"

definition demo_request :: course_request where
  "demo_request = \<lparr>rq_query = (asc ''outline''), rq_tenant = (asc ''demo''), rq_history = None, rq_last_course_query = None, rq_last_course_name = None,
     rq_summary = None, rq_course_code = None\<rparr>"

theorem answer_cites_own_documents_witness:
  "\<exists>answer res. stream_answer (rag_answerer demo_answer_env demo_stores []) demo_cap_env demo_cap_world demo_request = (Inr (answer, res), demo_cap_world)
     \<and> cites demo_stores (asc ''demo'') None res"
proof -
  have "\<not> truthy (rq_course_code demo_request)" "qs_llm_enabled (ae_query demo_answer_env)" "\<exists>chunks. ae_stream demo_answer_env sys user = (chunks, None)" for sys user
    by (simp_all add: demo_request_def demo_answer_env_def truthy_def)
  from stream_total [OF this, where env = demo_cap_env and w = demo_cap_world and ss = demo_stores and wix = "[]"] obtain answer res
    where r: "stream_answer (rag_answerer demo_answer_env demo_stores []) demo_cap_env demo_cap_world demo_request = (Inr (answer, res), demo_cap_world)"
    by blast
  have "similar_ok (ae_search demo_answer_env)" "lexical_ok demo_stores []" using demo_similar_ok by (simp_all add: demo_answer_env_def lexical_ok_def)
  from answer_cites_own_documents [OF this r] r show ?thesis by (auto simp: demo_request_def or_str_def asc_def)
qed

end
