(* ===== verification/Turn.thy ===== *)
theory Turn
  imports Rag_Answer Gateway
begin

text \<open>
  One turn of the conversation as the client sees it: the frames of the graph turned into
  events (\<open>app/graph/stream.py\<close>) and the turn around them (\<open>app/graph/runner.py\<close>). What the
  lock, the graph and the accounting of the turn answer are arguments; the clock and the spans
  are left out.
\<close>

section \<open>Events\<close>

record chat_response =
  cp_answer :: ustr
  cp_intent :: ustr
  cp_blocked :: bool
  cp_structured :: "tool_payload option"
  cp_visualization :: "ustr option"
  cp_oss_url :: "ustr option"
  cp_session :: ustr
  cp_usage :: "(int \<times> int \<times> int \<times> nat) option"
  cp_request_id :: "ustr option"
  cp_trace_id :: "ustr option"

datatype sse_event =
    MetaEvent (meta_session: ustr) (meta_user: ustr) (meta_tenant: ustr) (meta_request: ustr) (meta_trace: "ustr option")
  | StatusEvent ustr ustr
  | TokenEvent ustr
  | AnswerEvent ustr ustr bool
  | DoneEvent chat_response

definition node_status :: "ustr \<Rightarrow> ustr" where
  "node_status n =
     (case map_of [((asc ''security''), [0x6B63, 0x5728, 0x505A, 0x5B89, 0x5168, 0x68C0, 0x67E5, 0x2026] \<comment> \<open>checking\<close>), ((asc ''router''), [0x6B63, 0x5728, 0x8BC6, 0x522B, 0x610F, 0x56FE, 0x2026] \<comment> \<open>recognising the intent\<close>),
        ((asc ''rag''), [0x6B63, 0x5728, 0x68C0, 0x7D22, 0x8BFE, 0x7A0B, 0x77E5, 0x8BC6, 0x5E93, 0x2026] \<comment> \<open>searching the courses\<close>), ((asc ''tool''), [0x6B63, 0x5728, 0x67E5, 0x8BE2, 0x8BA2, 0x5355, 0x2026] \<comment> \<open>looking up the order\<close>),
        ((asc ''supervisor''), [0x6B63, 0x5728, 0x7EFC, 0x5408, 0x5904, 0x7406, 0x95EE, 0x9898, 0x2026] \<comment> \<open>working on it\<close>), ((asc ''chitchat''), [0x6B63, 0x5728, 0x6574, 0x7406, 0x56DE, 0x590D, 0x2026] \<comment> \<open>preparing\<close>),
        ((asc ''handoff''), [0x6B63, 0x5728, 0x8F6C, 0x63A5, 0x4EBA, 0x5DE5, 0x2026] \<comment> \<open>handing over\<close>), ((asc ''respond''), [0x6B63, 0x5728, 0x751F, 0x6210, 0x56DE, 0x590D, 0x2026] \<comment> \<open>answering\<close>)] n of
      Some t \<Rightarrow> t | None \<Rightarrow> n)"

text \<open>
  What the turn has accumulated: the keys that are read later; the others, and the messages, are
  not kept. \<open>None\<close>: the key has not been written.
\<close>

record public =
  pb_answer :: "ustr option"
  pb_intent :: "ustr option"
  pb_blocked :: "bool option"
  pb_structured :: "tool_payload option option"
  pb_visualization :: "ustr option option"
  pb_oss_url :: "ustr option option"

definition nothing_public :: public where
  "nothing_public = \<lparr>pb_answer = None, pb_intent = None, pb_blocked = None, pb_structured = None, pb_visualization = None, pb_oss_url = None\<rparr>"

fun merge_field :: "field_update \<Rightarrow> public \<Rightarrow> public" where
  "merge_field (SetAnswer x) p = p\<lparr>pb_answer := Some x\<rparr>"
| "merge_field (SetIntent x) p = p\<lparr>pb_intent := Some x\<rparr>"
| "merge_field (SetBlocked b) p = p\<lparr>pb_blocked := Some b\<rparr>"
| "merge_field (SetStructured x) p = p\<lparr>pb_structured := Some x\<rparr>"
| "merge_field (SetVisualization x) p = p\<lparr>pb_visualization := Some x\<rparr>"
| "merge_field (SetOssUrl x) p = p\<lparr>pb_oss_url := Some x\<rparr>"
| "merge_field _ p = p"

definition merge_public :: "field_update list \<Rightarrow> public \<Rightarrow> public" where
  "merge_public us p = fold merge_field us p"

definition public_intent :: "public \<Rightarrow> ustr" where
  "public_intent p = or_str (str_or_empty (pb_intent p)) (asc ''chitchat'')"

definition public_blocked :: "public \<Rightarrow> bool" where
  "public_blocked p \<longleftrightarrow> pb_blocked p = Some True"

text \<open>A frame of the graph: \<open>None\<close> stands for a payload that is not a dictionary or not a text.\<close>

datatype stream_item = CustomItem ustr "ustr option" | CustomOther | UpdatesItem "(ustr \<times> field_update list option) list" | OtherItem

fun events_from_custom :: "ustr \<Rightarrow> ustr option \<Rightarrow> sse_event list" where
  "events_from_custom event body = (if event \<noteq> (asc ''token'') \<or> \<not> truthy body then [] else [TokenEvent (str_or_empty body)])"

record frames =
  fr_events :: "sse_event list"
  fr_public :: public
  fr_nodes :: "ustr list"

definition updates_frame :: "ustr \<times> field_update list option \<Rightarrow> frames \<Rightarrow> frames" where
  "updates_frame np f =
     (let (n, payload) = np; status = StatusEvent n (node_status n) in
      case payload of
        None \<Rightarrow> f\<lparr>fr_events := fr_events f @ [status], fr_nodes := fr_nodes f @ [n]\<rparr>
      | Some us \<Rightarrow>
          (let p = merge_public us (fr_public f); answer = str_or_empty (pb_answer (merge_public us nothing_public))
           in \<lparr>fr_events = fr_events f @ status # (if answer \<noteq> [] then [AnswerEvent answer (public_intent p) (public_blocked p)] else []),
               fr_public = p, fr_nodes = fr_nodes f @ [n]\<rparr>))"

definition events_from_updates :: "(ustr \<times> field_update list option) list \<Rightarrow> frames \<Rightarrow> frames" where
  "events_from_updates chunk f = fold updates_frame chunk f"

fun events_from_stream_item :: "stream_item \<Rightarrow> frames \<Rightarrow> frames" where
  "events_from_stream_item (CustomItem event body) f = f\<lparr>fr_events := fr_events f @ events_from_custom event body\<rparr>"
| "events_from_stream_item CustomOther f = f"
| "events_from_stream_item (UpdatesItem chunk) f = events_from_updates chunk f"
| "events_from_stream_item OtherItem f = f"

section \<open>The turn\<close>

record chat_turn =
  tn_tenant :: ustr
  tn_uid :: ustr
  tn_sid :: ustr
  tn_thread :: ustr
  tn_query :: ustr
  tn_ctx :: identity_ctx

text \<open>\<open>ChatTurn.__init__\<close>; \<open>fresh\<close> is the new session id. A tenant that is not well-formed is refused.\<close>

definition new_turn ::
  "ustr \<Rightarrow> ustr \<Rightarrow> identity_ctx \<Rightarrow> ustr \<Rightarrow> ustr option \<Rightarrow> ustr option \<Rightarrow> ustr option \<Rightarrow> identity_error + chat_turn" where
  "new_turn default_tenant fresh ctx message user_id tenant_id session_id =
     (let tenant = or_str (str_or_empty tenant_id) default_tenant in
      case set_current_tenant default_tenant tenant ctx of
        Inl e \<Rightarrow> Inl e
      | Inr ctx \<Rightarrow>
          (let uid = or_str (strip (str_or_empty user_id)) (asc ''anonymous''); sid = or_str (strip (str_or_empty session_id)) fresh
           in Inr \<lparr>tn_tenant = tenant, tn_uid = uid, tn_sid = sid, tn_thread = make_thread_id tenant sid uid, tn_query = message,
                tn_ctx = set_current_user (Some uid) ctx\<rparr>))"

record trace_ids =
  ti_request :: ustr
  ti_trace :: ustr

definition meta_event :: "trace_ids \<Rightarrow> chat_turn \<Rightarrow> sse_event" where
  "meta_event ids t = MetaEvent (tn_sid t) (tn_uid t) (tn_tenant t) (ti_request ids) (nonempty_opt (ti_trace ids))"

definition quota_answer :: ustr where
  "quota_answer = [0x4ECA, 0x65E5, 0x5927, 0x6A21, 0x578B, 0x989D, 0x5EA6, 0x5DF2, 0x7528, 0x5B8C, 0xFF0C, 0x8BF7, 0x660E, 0x65E5, 0x518D, 0x8BD5, 0x6216, 0x8054, 0x7CFB, 0x7BA1, 0x7406, 0x5458, 0x3002] \<comment> \<open>today's quota is used up\<close>"

definition plain_response :: "ustr \<Rightarrow> ustr \<Rightarrow> chat_response" where
  "plain_response answer sid = \<lparr>cp_answer = answer, cp_intent = (asc ''chitchat''), cp_blocked = False, cp_structured = None, cp_visualization = None,
     cp_oss_url = None, cp_session = sid, cp_usage = None, cp_request_id = None, cp_trace_id = None\<rparr>"

definition quota_done :: "ustr \<Rightarrow> chat_response" where
  "quota_done sid = plain_response quota_answer sid"

definition unavailable_done :: "ustr \<Rightarrow> chat_response" where
  "unavailable_done sid = plain_response llm_unavailable_answer sid"

definition usage_dict :: "turn_usage \<Rightarrow> (int \<times> int \<times> int \<times> nat) option" where
  "usage_dict u = (if tu_steps u \<noteq> [] \<or> tu_total u \<noteq> 0 then Some (tu_prompt u, tu_completion u, tu_total u, length (tu_steps u)) else None)"

definition done_payload :: "trace_ids \<Rightarrow> public \<Rightarrow> ustr \<Rightarrow> turn_usage \<Rightarrow> chat_response" where
  "done_payload ids p sid usage =
     (let answer = str_or_empty (pb_answer p) in
      \<lparr>cp_answer = (if strip answer = [] \<and> \<not> public_blocked p then llm_unavailable_answer else answer),
       cp_intent = public_intent p, cp_blocked = public_blocked p,
       cp_structured = (case pb_structured p of None \<Rightarrow> None | Some x \<Rightarrow> x),
       cp_visualization = (case pb_visualization p of None \<Rightarrow> None | Some x \<Rightarrow> x),
       cp_oss_url = (case pb_oss_url p of None \<Rightarrow> None | Some x \<Rightarrow> x),
       cp_session = sid, cp_usage = usage_dict usage, cp_request_id = nonempty_opt (ti_request ids), cp_trace_id = nonempty_opt (ti_trace ids)\<rparr>)"

definition attach_trace_ids :: "trace_ids \<Rightarrow> chat_response \<Rightarrow> chat_response" where
  "attach_trace_ids ids r = r
     \<lparr>cp_request_id := if ti_request ids \<noteq> [] \<and> \<not> truthy (cp_request_id r) then Some (ti_request ids) else cp_request_id r,
      cp_trace_id := if ti_trace ids \<noteq> [] \<and> \<not> truthy (cp_trace_id r) then Some (ti_trace ids) else cp_trace_id r\<rparr>"

section \<open>The record of a turn\<close>

record turn_snapshot =
  sn_trace :: ustr
  sn_tenant :: ustr
  sn_query :: ustr
  sn_search :: ustr
  sn_intent :: ustr
  sn_empty :: bool
  sn_sources :: "ustr list"
  sn_course :: ustr
  sn_rewrite :: ustr
  sn_preview :: ustr
  sn_session :: ustr
  sn_request :: ustr

record turn_record =
  lg_intent :: ustr
  lg_blocked :: bool
  lg_nodes :: "ustr list"
  lg_outcome :: ustr
  lg_query :: ustr
  lg_query_chars :: nat
  lg_llm_calls :: nat
  lg_rag_empty :: bool
  lg_snapshot :: "turn_snapshot option"
  lg_miss :: "miss_record option"

definition course_of :: "public \<Rightarrow> course_result option" where
  "course_of p = (case pb_structured p of Some (Some (CoursePayload c)) \<Rightarrow> Some c | _ \<Rightarrow> None)"

definition record_turn :: "trace_ids \<Rightarrow> search_context option \<Rightarrow> chat_turn \<Rightarrow> frames \<Rightarrow> ustr \<Rightarrow> turn_usage \<Rightarrow> turn_record" where
  "record_turn ids ctx t f outcome usage =
     (let p = fr_public f; itn = public_intent p; raw = tn_query t;
          empty = (itn = (asc ''course_consult'') \<and> map_option cc_name (course_of p) = Some not_found_course);
          searched = (case ctx of Some c \<Rightarrow> sq_search c | None \<Rightarrow> raw); why = (case ctx of Some c \<Rightarrow> sq_reason c | None \<Rightarrow> [])
      in \<lparr>lg_intent = itn, lg_blocked = public_blocked p, lg_nodes = fr_nodes f, lg_outcome = outcome, lg_query = fst (mask_pii (take 200 raw)),
          lg_query_chars = length raw, lg_llm_calls = length (tu_steps usage), lg_rag_empty = empty,
          lg_snapshot = (if ti_trace ids = [] then None else Some
            \<lparr>sn_trace = ti_trace ids, sn_tenant = tn_tenant t, sn_query = raw, sn_search = searched, sn_intent = itn, sn_empty = empty,
             sn_sources = (case course_of p of Some c \<Rightarrow> cc_sources c | None \<Rightarrow> []), sn_course = (case course_of p of Some c \<Rightarrow> cc_name c | None \<Rightarrow> []),
             sn_rewrite = why, sn_preview = take 200 (str_or_empty (pb_answer p)), sn_session = tn_sid t, sn_request = ti_request ids\<rparr>),
          lg_miss = (if ti_trace ids \<noteq> [] \<and> empty
            then Some \<lparr>ms_tenant = tn_tenant t, ms_query = raw, ms_search = searched, ms_reason = (asc ''rag_empty_turn''), ms_rewrite = why\<rparr> else None)\<rparr>)"

section \<open>The stream of a turn\<close>

datatype graph_end = GraphDone | GraphQuota | GraphCircuitOpen | GraphRaised

datatype turn_end = TurnClosed | TurnBusy | TurnRaised

record turn_output =
  to_events :: "sse_event list"
  to_end :: turn_end
  to_record :: turn_record
  to_ctx :: identity_ctx

text \<open>
  \<open>_chat_turn_stream\<close> once the turn is built: \<open>free\<close> tells whether the lock of the session was
  taken, \<open>items\<close> and \<open>ended\<close> what the graph streamed, \<open>usage\<close> what the accounting hands out at the
  end.
\<close>

definition chat_turn_stream ::
  "trace_ids \<Rightarrow> search_context option \<Rightarrow> bool \<Rightarrow> stream_item list \<Rightarrow> graph_end \<Rightarrow> turn_usage \<Rightarrow> chat_turn \<Rightarrow> turn_output" where
  "chat_turn_stream ids ctx free items ended usage t =
     (let start = \<lparr>fr_events = [], fr_public = nothing_public, fr_nodes = []\<rparr>;
          left = set_current_user (Some (asc ''anonymous'')) (tn_ctx t)
      in if \<not> free
         then \<lparr>to_events = [], to_end = TurnBusy, to_record = record_turn ids ctx t start (asc ''session_busy'') usage, to_ctx = left\<rparr>
         else let f = fold events_from_stream_item items start; seen = meta_event ids t # fr_events f
           in case ended of
                GraphDone \<Rightarrow> \<lparr>to_events = seen @ [DoneEvent (done_payload ids (fr_public f) (tn_sid t) usage)], to_end = TurnClosed,
                  to_record = record_turn ids ctx t f (asc ''ok'') usage, to_ctx = left\<rparr>
              | GraphQuota \<Rightarrow> \<lparr>to_events = seen @ [DoneEvent (attach_trace_ids ids (quota_done (tn_sid t)))], to_end = TurnClosed,
                  to_record = record_turn ids ctx t f (asc ''quota'') usage, to_ctx = left\<rparr>
              | GraphCircuitOpen \<Rightarrow> \<lparr>to_events = seen @ [DoneEvent (attach_trace_ids ids (unavailable_done (tn_sid t)))], to_end = TurnClosed,
                  to_record = record_turn ids ctx t f (asc ''llm_unavailable'') usage, to_ctx = left\<rparr>
              | GraphRaised \<Rightarrow> \<lparr>to_events = seen, to_end = TurnRaised, to_record = record_turn ids ctx t f (asc ''error'') usage, to_ctx = left\<rparr>)"

section \<open>What the client receives\<close>

fun is_done :: "sse_event \<Rightarrow> bool" where
  "is_done (DoneEvent r) = True"
| "is_done e = False"

fun is_meta :: "sse_event \<Rightarrow> bool" where
  "is_meta (MetaEvent s u t r i) = True"
| "is_meta e = False"

lemma updates_frame_events: "\<exists>es. fr_events (updates_frame np f) = fr_events f @ es \<and> list_all (\<lambda>e. \<not> is_done e \<and> \<not> is_meta e) es"
  by (auto simp: updates_frame_def Let_def split: prod.split option.split)

lemma events_from_updates_events:
  "\<exists>es. fr_events (events_from_updates chunk f) = fr_events f @ es \<and> list_all (\<lambda>e. \<not> is_done e \<and> \<not> is_meta e) es"
  unfolding events_from_updates_def
proof (induction chunk arbitrary: f)
  case (Cons np chunk)
  obtain es where "fr_events (updates_frame np f) = fr_events f @ es" "list_all (\<lambda>e. \<not> is_done e \<and> \<not> is_meta e) es"
    using updates_frame_events [of np f] by blast
  moreover obtain es' where "fr_events (fold updates_frame chunk (updates_frame np f)) = fr_events (updates_frame np f) @ es'"
    "list_all (\<lambda>e. \<not> is_done e \<and> \<not> is_meta e) es'" using Cons.IH by blast
  ultimately show ?case by (intro exI [of _ "es @ es'"]) simp
qed simp

lemma item_events: "\<exists>es. fr_events (events_from_stream_item i f) = fr_events f @ es \<and> list_all (\<lambda>e. \<not> is_done e \<and> \<not> is_meta e) es"
  by (cases i) (use events_from_updates_events in \<open>auto\<close>)

lemma items_events: "\<exists>es. fr_events (fold events_from_stream_item items f) = fr_events f @ es \<and> list_all (\<lambda>e. \<not> is_done e \<and> \<not> is_meta e) es"
proof (induction items arbitrary: f)
  case (Cons i items)
  obtain es where "fr_events (events_from_stream_item i f) = fr_events f @ es" "list_all (\<lambda>e. \<not> is_done e \<and> \<not> is_meta e) es"
    using item_events [of i f] by blast
  moreover obtain es' where "fr_events (fold events_from_stream_item items (events_from_stream_item i f)) = fr_events (events_from_stream_item i f) @ es'"
    "list_all (\<lambda>e. \<not> is_done e \<and> \<not> is_meta e) es'" using Cons.IH by blast
  ultimately show ?case by (intro exI [of _ "es @ es'"]) simp
qed simp

text \<open>
  A turn whose session is busy sends nothing and raises. Every other turn opens with one event
  that carries its own session, user and tenant; unless the graph raises an unexpected exception it
  closes with exactly one final event for that session, also when the quota is used up or the
  breaker is open, and then the recorded outcome says so. In every case the turn is recorded and
  the worker's user is the anonymous one again.
\<close>

lemma turn_stream_shape:
  fixes ids ctx free items ended usage t
  defines "out \<equiv> chat_turn_stream ids ctx free items ended usage t"
  shows "(to_end out = TurnBusy \<longleftrightarrow> \<not> free) \<and> (\<not> free \<longrightarrow> to_events out = [])
    \<and> (free \<longrightarrow> (\<exists>es. to_events out = meta_event ids t # es \<and> list_all (\<lambda>e. \<not> is_meta e) es
         \<and> (if ended = GraphRaised then to_end out = TurnRaised \<and> list_all (\<lambda>e. \<not> is_done e) es
            else to_end out = TurnClosed \<and> (\<exists>r. last es = DoneEvent r \<and> cp_session r = tn_sid t) \<and> length (filter is_done es) = 1)))
    \<and> (lg_outcome (to_record out) = (asc ''ok'') \<longleftrightarrow> free \<and> ended = GraphDone) \<and> get_current_user (to_ctx out) = (asc ''anonymous'')"
proof -
  obtain es where es: "fr_events (fold events_from_stream_item items \<lparr>fr_events = [], fr_public = nothing_public, fr_nodes = []\<rparr>) = es"
    "list_all (\<lambda>e. \<not> is_done e \<and> \<not> is_meta e) es"
    using items_events [of items "\<lparr>fr_events = [], fr_public = nothing_public, fr_nodes = []\<rparr>"] by auto
  have no: "filter is_done es = []" "list_all (\<lambda>e. \<not> is_done e) es" "list_all (\<lambda>e. \<not> is_meta e) es"
    using es(2) by (auto simp: filter_empty_conv list_all_iff)
  have anon: "get_current_user (set_current_user (Some (asc ''anonymous'')) c) = (asc ''anonymous'')" for c
    by (simp add: get_current_user_def set_current_user_def or_str_def strip_def is_space_def asc_def)
  show ?thesis
    by (cases ended) (auto simp: out_def chat_turn_stream_def Let_def es(1) no anon record_turn_def done_payload_def attach_trace_ids_def quota_done_def
        unavailable_done_def plain_response_def)
qed

section \<open>The final event reports the final state\<close>

fun node_name :: "node \<Rightarrow> ustr" where
  "node_name Security = (asc ''security'')" | "node_name Router = (asc ''router'')" | "node_name Rag = (asc ''rag'')" | "node_name Tool = (asc ''tool'')"
| "node_name Supervisor = (asc ''supervisor'')" | "node_name Chitchat = (asc ''chitchat'')" | "node_name Handoff = (asc ''handoff'')" | "node_name Respond = (asc ''respond'')"

text \<open>What the graph streams: the patch of every node that returned; an empty patch is not a dictionary in the stream.\<close>

function run_updates :: "('s, 'm) graph_env \<Rightarrow> node \<Rightarrow> cs_state \<Rightarrow> ('s, 'm) graph_world \<Rightarrow> (ustr \<times> field_update list option) list" where
  "run_updates env n s w =
     (case run_node n env s w of
        (Inl e, w') \<Rightarrow> []
      | (Inr us, w') \<Rightarrow>
          (let s' = apply_updates (ge_reducer env) us s in
           (node_name n, if us = [] then None else Some us) #
             (case next_node n s' of Some (Some n') \<Rightarrow> run_updates env n' s' w' | _ \<Rightarrow> [])))"
  by pat_completeness auto
termination by (relation "measure (\<lambda>(env, n, s, w). rank n)") (auto dest: next_rank)

declare run_updates.simps [simp del]

definition reports :: "public \<Rightarrow> cs_state \<Rightarrow> bool" where
  "reports p s \<longleftrightarrow> pb_answer p = Some (g_answer s) \<and> pb_intent p = Some (g_intent s) \<and> pb_blocked p = Some (g_blocked s) \<and>
     pb_structured p = Some (g_structured s) \<and> pb_visualization p = Some (g_visualization s) \<and> pb_oss_url p = Some (g_oss_url s)"

lemma merge_field_reports: "reports p s \<Longrightarrow> reports (merge_field u p) (apply_update red u s)"
  by (cases u) (auto simp: reports_def)

lemma merge_public_reports: "reports p s \<Longrightarrow> reports (merge_public us p) (apply_updates red us s)"
  unfolding merge_public_def apply_updates_def by (induction us arbitrary: p s) (auto intro: merge_field_reports)

lemma reset_reports: "reports (merge_public reset_updates p) (apply_updates red reset_updates s)"
  by (simp add: reports_def merge_public_def reset_updates_def)

definition payload_public :: "ustr \<times> field_update list option \<Rightarrow> public \<Rightarrow> public" where
  "payload_public np p = (case snd np of None \<Rightarrow> p | Some us \<Rightarrow> merge_public us p)"

fun updates_of :: "stream_item \<Rightarrow> (ustr \<times> field_update list option) list" where
  "updates_of (UpdatesItem chunk) = chunk"
| "updates_of _ = []"

lemma updates_frame_public: "fr_public (updates_frame np f) = payload_public np (fr_public f)"
  by (auto simp: updates_frame_def payload_public_def Let_def split: prod.split option.split)

lemma events_from_updates_public: "fr_public (events_from_updates chunk f) = fold payload_public chunk (fr_public f)"
  unfolding events_from_updates_def by (induction chunk arbitrary: f) (auto simp: updates_frame_public)

lemma items_public: "fr_public (fold events_from_stream_item items f) = fold payload_public (concat (map updates_of items)) (fr_public f)"
proof (induction items arbitrary: f)
  case (Cons i items)
  then show ?case by (cases i) (simp_all add: events_from_updates_public)
qed simp

lemma run_updates_reports:
  "run_from env n s w = Done s' w' \<Longrightarrow> reports p s \<Longrightarrow> reports (fold payload_public (run_updates env n s w) p) s'"
proof (induction env n s w arbitrary: p rule: run_from.induct)
  case (1 env n s w)
  obtain us w1 where r: "run_node n env s w = (Inr us, w1)"
    using 1(2) by (auto simp: run_from.simps [of env n s w] split: prod.splits sum.splits)
  let ?s = "apply_updates (ge_reducer env) us s"
  let ?p = "payload_public (node_name n, if us = [] then None else Some us) p"
  have p: "reports ?p ?s" using merge_public_reports [OF 1(3)] 1(3) by (auto simp: payload_public_def)
  show ?case
  proof (cases "next_node n ?s")
    case None
    then show ?thesis using next_node_defined by (metis option.distinct(1))
  next
    case (Some nxt)
    show ?thesis
    proof (cases nxt)
      case None
      with Some r 1(2) p show ?thesis by (simp add: run_from.simps [of env n s w] run_updates.simps [of env n s w])
    next
      case (Some n')
      with \<open>next_node n ?s = Some nxt\<close> r 1(2) have "run_from env n' ?s w1 = Done s' w'" by (simp add: run_from.simps [of env n s w])
      from 1(1) [OF r [symmetric] refl refl \<open>next_node n ?s = Some nxt\<close> Some this p] r Some \<open>next_node n ?s = Some nxt\<close> show ?thesis
        by (simp add: run_updates.simps [of env n s w])
    qed
  qed
qed

lemma security_resets: "security_node env s w = (Inr us, w') \<Longrightarrow> \<exists>vs. us = reset_updates @ vs"
  by (auto simp: security_node_def Let_def split: sum.splits)

lemma security_start:
  assumes "run_from env Security s w = Done s' w'"
  shows "reports (fold payload_public (run_updates env Security s w) p) s'"
proof -
  obtain us w1 where r: "security_node env s w = (Inr us, w1)"
    using assms by (auto simp: run_from.simps [of env Security s w] split: prod.splits sum.splits)
  obtain vs where us: "us = reset_updates @ vs" using security_resets [OF r] by blast
  have "us \<noteq> []" by (simp add: us reset_updates_def)
  let ?s = "apply_updates (ge_reducer env) us s"
  have "reports (merge_public us p) ?s"
    using merge_public_reports [OF reset_reports, where us = vs] by (simp add: us merge_public_def)
  moreover have "run_from env Router ?s w1 = Done s' w'" using assms r by (simp add: run_from.simps [of env Security s w])
  ultimately have "reports (fold payload_public (run_updates env Router ?s w1) (merge_public us p)) s'" using run_updates_reports by blast
  then show ?thesis using r \<open>us \<noteq> []\<close> by (simp add: run_updates.simps [of env Security s w] payload_public_def)
qed

lemma final_answer_nonempty:
  assumes "run_from env Security s w = Done s' w'"
  shows "g_answer s' \<noteq> []"
proof -
  have "graph_steps env (At Security s w) (Done s' w')" using run_reaches [of env Security s w] assms by simp
  then obtain s0 w0 us where r: "respond_node env s0 w0 = (Inr us, w')" "s' = apply_updates (ge_reducer env) us s0"
    using run_ends_in_respond by blast
  then have "g_answer s' = fst (mask_pii (resolve_respond_answer s0))"
    by (auto simp: respond_node_def finalize_respond_turn_def build_stored_answer_def inspect_output_def Let_def case_prod_beta)
  then show ?thesis using mask_pii_nonempty [OF resolve_answer_nonempty] by simp
qed

definition response_of :: "cs_state \<Rightarrow> trace_ids \<Rightarrow> ustr \<Rightarrow> turn_usage \<Rightarrow> chat_response" where
  "response_of s ids sid usage =
     \<lparr>cp_answer = (if strip (g_answer s) = [] \<and> \<not> g_blocked s then llm_unavailable_answer else g_answer s), cp_intent = or_str (g_intent s) (asc ''chitchat''),
      cp_blocked = g_blocked s, cp_structured = g_structured s, cp_visualization = g_visualization s, cp_oss_url = g_oss_url s, cp_session = sid,
      cp_usage = usage_dict usage, cp_request_id = nonempty_opt (ti_request ids), cp_trace_id = nonempty_opt (ti_trace ids)\<rparr>"

text \<open>
  C33: When the graph ends, the last event of the turn is the projection of the graph's final state,
  whatever else was streamed in between and whatever an earlier turn left in the state: its answer
  is not empty and its intent, verdict, structured result, picture and link are those of the state.
\<close>

theorem done_reports_final_state:
  assumes "run_from env Security s w = Done s' w'" "concat (map updates_of items) = run_updates env Security s w"
  shows "last (to_events (chat_turn_stream ids ctx True items GraphDone usage t)) = DoneEvent (response_of s' ids (tn_sid t) usage)
    \<and> cp_answer (response_of s' ids (tn_sid t) usage) \<noteq> []"
proof -
  have "reports (fold payload_public (concat (map updates_of items)) nothing_public) s'" unfolding assms(2) by (rule security_start [OF assms(1)])
  then have "done_payload ids (fold payload_public (concat (map updates_of items)) nothing_public) (tn_sid t) usage = response_of s' ids (tn_sid t) usage"
    by (simp add: reports_def done_payload_def response_of_def public_intent_def public_blocked_def Let_def)
  then show ?thesis using final_answer_nonempty [OF assms(1)]
    by (simp add: chat_turn_stream_def items_public response_of_def llm_unavailable_answer_def Let_def)
qed

text \<open>Every answer that a node sets is sent to the client at once, before the exit node has filtered it.\<close>

lemma early_answer_is_sent:
  assumes "UpdatesItem [(n, Some us)] \<in> set items" "pb_answer (merge_public us nothing_public) = Some a" "a \<noteq> []"
  shows "\<exists>itn b. AnswerEvent a itn b \<in> set (fr_events (fold events_from_stream_item items f))"
proof -
  from assms(1) obtain before after where i: "items = before @ UpdatesItem [(n, Some us)] # after" by (meson split_list)
  let ?f = "updates_frame (n, Some us) (fold events_from_stream_item before f)"
  have "\<exists>itn b. AnswerEvent a itn b \<in> set (fr_events ?f)" using assms(2,3) by (auto simp: updates_frame_def Let_def)
  moreover have "set (fr_events ?f) \<subseteq> set (fr_events (fold events_from_stream_item after ?f))" using items_events [of after ?f] by auto
  ultimately show ?thesis by (auto simp: i events_from_updates_def)
qed

section \<open>A concrete turn\<close>

definition demo_ids :: trace_ids where
  "demo_ids = \<lparr>ti_request = (asc ''r1''), ti_trace = []\<rparr>"

definition demo_chat_turn :: chat_turn where
  "demo_chat_turn = \<lparr>tn_tenant = (asc ''demo''), tn_uid = (asc ''u1''), tn_sid = (asc ''s1''), tn_thread = (asc ''demo:u1:s1''), tn_query = (asc ''hello''), tn_ctx = initial_ctx\<rparr>"

definition demo_usage :: turn_usage where
  "demo_usage = \<lparr>tu_prompt = 0, tu_completion = 0, tu_total = 0, tu_steps = []\<rparr>"

theorem done_reports_final_state_witness:
  "\<exists>s' w'. run_from demo_graph_env Security demo_session demo_graph_world = Done s' w' \<and>
     last (to_events (chat_turn_stream demo_ids None True
       (map (\<lambda>np. UpdatesItem [np]) (run_updates demo_graph_env Security demo_session demo_graph_world)) GraphDone demo_usage demo_chat_turn)) =
       DoneEvent (response_of s' demo_ids (asc ''s1'') demo_usage)"
proof -
  obtain s' w' where d: "run_from demo_graph_env Security demo_session demo_graph_world = Done s' w'" using demo_done by blast
  have "concat (map updates_of (map (\<lambda>np. UpdatesItem [np]) us)) = us" for us by (induction us) simp_all
  from done_reports_final_state [OF d this, where ids = demo_ids and ctx = None and usage = demo_usage and t = demo_chat_turn] d
  show ?thesis by (simp add: demo_chat_turn_def)
qed

end
