(* ===== verification/React.thy ===== *)
theory React
  imports Rag_Answer
begin

text \<open>
  The ReACT agent: the security middleware around its tool and model calls
  (\<open>app/security/middleware.py\<close>) and the agent with its offline path (\<open>app/agents/react.py\<close>). The
  agent that LangChain builds is an argument, seen through what a run of it returns or raises
  and what it leaves in the world.
\<close>

section \<open>The middleware\<close>

datatype tool_exn = BubbleUp | EscalationRaised escalation_decision | PlainError exn

record tool_request =
  tq_name :: ustr
  tq_id :: ustr
  tq_order_no :: "ustr option"
  tq_question :: "ustr option"
  tq_query :: "ustr option"

text \<open>A tool message; a content that is no text (\<open>None\<close>) is left alone.\<close>

record tool_message =
  tm_content :: "ustr option"
  tm_name :: "ustr option"
  tm_call_id :: ustr
  tm_error :: bool

definition max_transient_attempts :: nat where
  "max_transient_attempts = 2"

definition tool_resource_key :: "tool_request \<Rightarrow> ustr" where
  "tool_resource_key q =
     (if truthy (tq_order_no q) then str_or_empty (tq_order_no q)
      else let question = or_opt (tq_question q) (tq_query q)
        in if truthy question then take 120 (str_or_empty question) else or_str (tq_name q) (asc ''default''))"

definition sanitize_tool_result :: "tool_message \<Rightarrow> tool_message" where
  "sanitize_tool_result m = (case tm_content m of None \<Rightarrow> m | Some c \<Rightarrow> m\<lparr>tm_content := Some (fst (mask_pii c))\<rparr>)"

definition error_tool_message :: "tool_request \<Rightarrow> exn \<Rightarrow> tool_message" where
  "error_tool_message q exc =
     (let detail = fst (mask_pii (take 200 (strip (replace_all [10] (asc '' '') (ex_message exc))))) in
      \<lparr>tm_content = Some ([0x5DE5, 0x5177, 32] \<comment> \<open>tool\<close> @ or_str (tq_name q) (asc ''unknown'') @ [32, 0x6267, 0x884C, 0x5931, 0x8D25, 0xFF1A] \<comment> \<open>failed\<close> @ or_str detail (ex_class exc) @
         [0x3002, 0x8BF7, 0x6839, 0x636E, 0x9519, 0x8BEF, 0x4FEE, 0x6B63, 0x53C2, 0x6570, 0x540E, 0x91CD, 0x8BD5, 0xFF1B, 0x82E5, 0x662F, 0x4E1A, 0x52A1, 0x9519, 0x8BEF, 0x8BF7, 0x5411, 0x7528, 0x6237, 0x8BF4, 0x660E, 0xFF0C, 0x4E0D, 0x8981, 0x7528, 0x76F8, 0x540C, 0x53C2, 0x6570, 0x53CD, 0x590D, 0x8C03, 0x7528, 0x3002] \<comment> \<open>correct the arguments, do not repeat the call\<close>),
       tm_name = nonempty_opt (tq_name q), tm_call_id = or_str (tq_id q) (asc ''unknown''), tm_error = True\<rparr>)"

text \<open>What the middleware keeps beside the answer: the audit records and the count of transient failures.\<close>

datatype audit = ToolCalled ustr | ToolFailed ustr nat ustr

record 'w middleware_state =
  mw_world :: 'w
  mw_audit :: "audit list"
  mw_tracker :: "failure_tracker option"

type_synonym 'w tool_handler = "'w \<Rightarrow> (tool_exn + tool_message) \<times> 'w"

text \<open>The attempts of \<open>wrap_tool_call\<close>; \<open>fuel\<close> counts those that are left.\<close>

fun tool_attempts ::
  "tool_settings \<Rightarrow> tool_request \<Rightarrow> 'w tool_handler \<Rightarrow> nat \<Rightarrow> nat \<Rightarrow> 'w middleware_state \<Rightarrow> (tool_exn + tool_message) \<times> 'w middleware_state" where
  "tool_attempts cfg q h attempt 0 s = (Inl BubbleUp, s)"
| "tool_attempts cfg q h attempt (Suc fuel) s =
     (let (res, w) = h (mw_world s); s = s\<lparr>mw_world := w\<rparr> in
      case res of
        Inr m \<Rightarrow> (Inr (sanitize_tool_result m), s)
      | Inl BubbleUp \<Rightarrow> (Inl BubbleUp, s)
      | Inl (EscalationRaised d) \<Rightarrow> (Inl (EscalationRaised d), s)
      | Inl (PlainError exc) \<Rightarrow>
          (let s = s\<lparr>mw_audit := mw_audit s @ [ToolFailed (tq_name q) attempt (take 200 (ex_message exc))]\<rparr> in
           if 0 < fuel \<and> is_transient_error exc then tool_attempts cfg q h (attempt + 1) fuel s
           else (Inr (error_tool_message q exc),
                 if is_transient_tool_failure (Some exc) None
                 then s\<lparr>mw_tracker := snd (escalation_for_transient cfg (mw_tracker s) (or_str (tq_name q) (asc ''unknown'')) (tool_resource_key q))\<rparr> else s)))"

definition wrap_tool_call ::
  "tool_settings \<Rightarrow> tool_request \<Rightarrow> 'w tool_handler \<Rightarrow> 'w middleware_state \<Rightarrow> (tool_exn + tool_message) \<times> 'w middleware_state" where
  "wrap_tool_call cfg q h s =
     tool_attempts cfg q h 1 max_transient_attempts (s\<lparr>mw_audit := mw_audit s @ [ToolCalled (tq_name q)]\<rparr>)"

text \<open>Messages to and from the model; \<open>None\<close> is a content that is no text.\<close>

definition wrap_model_call :: "ustr option list \<Rightarrow> ustr option list" where
  "wrap_model_call messages = map (map_option (\<lambda>c. fst (mask_pii c))) messages"

definition before_agent :: "ustr list \<Rightarrow> ustr option" where
  "before_agent messages =
     (if messages = [] then None
      else let verdict = inspect_input (last messages)
        in if \<not> verdict_allowed verdict then Some ([0x8BF7, 0x6C42, 0x5DF2, 0x88AB, 0x5B89, 0x5168, 0x4E2D, 0x95F4, 0x4EF6, 0x62E6, 0x622A, 0xFF1A] \<comment> \<open>blocked by the security layer\<close> @ verdict_reason verdict) else None)"

definition after_model :: "ustr option list \<Rightarrow> ustr option" where
  "after_model messages =
     (if messages = [] then None
      else case last messages of None \<Rightarrow> None
        | Some c \<Rightarrow> let masked = inspect_output c in if masked = c then None else Some masked)"

text \<open>The observer of the limit on tool calls: \<open>Some\<close> is the answer that replaces the run.\<close>

definition on_limit_hit :: "bool \<Rightarrow> bool \<Rightarrow> ustr option" where
  "on_limit_hit on_react_limit hit =
     (if hit \<and> on_react_limit then Some (str_or_empty (esc_message escalation_for_react_limit)) else None)"

section \<open>The agent\<close>

datatype react_error = ReactTenant identity_error | ReactEscalated escalation_decision | ReactRaised exn

record agent_message =
  am_ai :: bool
  am_calls :: nat
  am_extra_calls :: nat
  am_chunk_calls :: nat
  am_body :: chunk_content

definition message_has_tool_calls :: "agent_message \<Rightarrow> bool" where
  "message_has_tool_calls m \<longleftrightarrow> 0 < am_calls m \<or> 0 < am_extra_calls m \<or> 0 < am_chunk_calls m"

text \<open>The agent: \<open>None\<close> without a model; a run gets the text of the user message.\<close>

record 's react_agent =
  ra_invoke :: "ustr \<Rightarrow> 's cap_env \<Rightarrow> 's cap_world \<Rightarrow> (react_error + ustr) \<times> 's cap_world"
  ra_stream :: "ustr \<Rightarrow> 's cap_env \<Rightarrow> 's cap_world \<Rightarrow> agent_message list \<times> react_error option \<times> 's cap_world"

record 's react_env =
  rx_agent :: "'s react_agent option"
  rx_tokenizer :: tokenizer
  rx_history :: history_settings
  rx_default_tenant :: ustr

definition build_react_user_content :: "'s react_env \<Rightarrow> turn_args \<Rightarrow> ustr option \<Rightarrow> ustr" where
  "build_react_user_content rx a resolved_order =
     (let history = format_history_for_prompt (rx_tokenizer rx) (rx_history rx) (case ta_history a of None \<Rightarrow> [] | Some ms \<Rightarrow> ms) None None (ta_summary a);
          body = (if history \<noteq> [] then [0x5BF9, 0x8BDD, 0x5386, 0x53F2, 0xFF1A, 10] \<comment> \<open>history\<close> @ history @ [10, 10, 0x5F53, 0x524D, 0x7528, 0x6237, 0x95EE, 0x9898, 0xFF1A] \<comment> \<open>question\<close> @ ta_query a else ta_query a);
          body = (if truthy resolved_order \<and> \<not> occurs (str_or_empty resolved_order) body
            then body @ [10, 0xFF08, 0x5173, 0x8054, 0x8BA2, 0x5355, 0x53F7, 0xFF1A] \<comment> \<open>order\<close> @ str_or_empty resolved_order @ [0xFF09] \<comment> \<open>)\<close> else body);
          hint = strip (str_or_empty (or_opt (ta_last_course_name a) (ta_course_query a)))
      in if hint \<noteq> [] \<and> \<not> occurs hint body then body @ [10, 0xFF08, 0x5173, 0x8054, 0x8BFE, 0x7A0B, 0xFF1A] \<comment> \<open>course\<close> @ hint @ [0xFF09] \<comment> \<open>)\<close> else body)"

definition resolved_order :: "turn_args \<Rightarrow> ustr option" where
  "resolved_order a = or_opt (ta_order_no a) (or_opt (extract_order_no (ta_query a)) (order_no_from_history (case ta_history a of None \<Rightarrow> [] | Some ms \<Rightarrow> ms)))"

definition react_search_query :: "turn_args \<Rightarrow> ustr" where
  "react_search_query a = str_or_empty (or_opt (ta_course_query a) (or_opt (ta_last_course_name a) (Some (ta_query a))))"

definition cannot_answer :: ustr where
  "cannot_answer = [0x6682, 0x65F6, 0x65E0, 0x6CD5, 0x5904, 0x7406, 0x8BE5, 0x95EE, 0x9898, 0x3002] \<comment> \<open>cannot be handled now\<close>"

text \<open>A failed assertion is the only error of the order query that is not caught.\<close>

definition assertion_exn :: exn where
  "assertion_exn = \<lparr>ex_class = (asc ''AssertionError''), ex_message = [], ex_os_error = False, ex_pool_busy = False\<rparr>"

fun order_part :: "tool_error + order_report \<Rightarrow> react_error + ustr list" where
  "order_part (Inr rep) = Inr [format_order_answer rep]"
| "order_part (Inl (BadOrder MissingOrder)) = Inl (ReactRaised assertion_exn)"
| "order_part (Inl (BadOrder e)) = Inr []"
| "order_part (Inl (QueryTimeout m)) = Inl (ReactRaised \<lparr>ex_class = (asc ''TimeoutError''), ex_message = m, ex_os_error = True, ex_pool_busy = False\<rparr>)"
| "order_part (Inl (EscalatedTo d)) = Inl (ReactEscalated d)"

definition offline_react :: "'s cap_env \<Rightarrow> 's cap_world \<Rightarrow> turn_args \<Rightarrow> (react_error + ustr) \<times> 's cap_world" where
  "offline_react env w a =
     (let resolved = resolved_order a;
          (ord, tw) = query_order (ce_tools env) (Ran ()) (cw_tools w) (ta_query a) resolved (ta_tenant a) (ta_user a)
            (or_opt (ta_order_no a) resolved) False False False;
          w = w\<lparr>cw_tools := tw\<rparr>
      in case order_part ord of
           Inl e \<Rightarrow> (Inl e, w)
         | Inr parts \<Rightarrow>
             (case retrieve_course env w \<lparr>rq_query = react_search_query a, rq_tenant = ta_tenant a, rq_history = ta_history a,
                  rq_last_course_query = ta_course_query a, rq_last_course_name = ta_last_course_name a, rq_summary = ta_summary a,
                  rq_course_code = None\<rparr> (get_current_user (te_ctx (ce_tools env))) of
                (Inl (CourseRaised exc), w) \<Rightarrow> (Inl (ReactRaised exc), w)
              | (Inl (CourseEscalated d), w) \<Rightarrow> (Inl (ReactEscalated d), w)
              | (Inr course, w) \<Rightarrow>
                  (let parts = (if cc_name course \<noteq> not_found_course then parts @ [format_course_answer course] else parts)
                   in (Inr (or_str (join [10, 10] parts) cannot_answer), w))))"

definition default_handoff_text :: ustr where
  "default_handoff_text = [0x5DF2, 0x4E3A, 0x60A8, 0x8F6C, 0x63A5, 0x4EBA, 0x5DE5, 0x5BA2, 0x670D, 0x3002] \<comment> \<open>you are handed over\<close>"

definition react_or_offline ::
  "'s cap_env \<Rightarrow> 's cap_world \<Rightarrow> turn_args \<Rightarrow> ('s cap_world \<Rightarrow> (react_error + ustr) \<times> 's cap_world) option \<Rightarrow> (react_error + ustr) \<times> 's cap_world" where
  "react_or_offline env w a runner =
     (case runner of
        None \<Rightarrow> offline_react env w a
      | Some run \<Rightarrow>
          (case run w of
             (Inr answer, w) \<Rightarrow> (Inr answer, w)
           | (Inl (ReactEscalated d), w) \<Rightarrow> (Inr (str_or_empty (or_opt (esc_message d) (Some default_handoff_text))), w)
           | (Inl (ReactTenant e), w) \<Rightarrow> offline_react env w a
           | (Inl (ReactRaised exc), w) \<Rightarrow> if exn_degradable exc then offline_react env w a else (Inl (ReactRaised exc), w)))"

text \<open>The context, the cache of the session and the failure tracker around a run.\<close>

definition react_scope ::
  "'s react_env \<Rightarrow> 's cap_env \<Rightarrow> session_tool_cache \<Rightarrow> 's cap_world \<Rightarrow> turn_args \<Rightarrow>
     ('s cap_env \<Rightarrow> 's cap_world \<Rightarrow> (react_error + ustr) \<times> 's cap_world) \<Rightarrow> (react_error + ustr) \<times> 's cap_world" where
  "react_scope rx env session w a body =
     (case set_current_tenant (rx_default_tenant rx) (ta_tenant a) (te_ctx (ce_tools env)) of
        Inl e \<Rightarrow> (Inl (ReactTenant e), w)
      | Inr ctx \<Rightarrow>
          (let env = env\<lparr>ce_tools := (ce_tools env)\<lparr>te_ctx := set_current_user (Some (ta_user a)) ctx, te_session := session\<rparr>\<rparr>;
               (res, w') = body env (enter_scope w)
           in (res, leave_scope w w')))"

definition run_react_inner ::
  "'s react_env \<Rightarrow> 's cap_env \<Rightarrow> session_tool_cache \<Rightarrow> 's cap_world \<Rightarrow> turn_args \<Rightarrow> (react_error + ustr) \<times> 's cap_world" where
  "run_react_inner rx env session w a =
     react_scope rx env session w a (\<lambda>env w. react_or_offline env w a
       (map_option (\<lambda>ag. ra_invoke ag (build_react_user_content rx a (resolved_order a)) env) (rx_agent rx)))"

definition final_deltas :: "agent_message list \<Rightarrow> ustr list" where
  "final_deltas ms = filter (\<lambda>t. t \<noteq> []) (map (chunk_text \<circ> am_body) (filter (\<lambda>m. am_ai m \<and> \<not> message_has_tool_calls m) ms))"

definition last_text :: "agent_message list \<Rightarrow> ustr option" where
  "last_text ms = (if ms = [] then None else case am_body (last ms) of ContentText c \<Rightarrow> if strip c \<noteq> [] then Some c else None | _ \<Rightarrow> None)"

text \<open>\<open>_astream\<close>: without any text the whole run is made again, without streaming.\<close>

definition stream_runner ::
  "'s react_env \<Rightarrow> 's react_agent \<Rightarrow> 's cap_env \<Rightarrow> session_tool_cache \<Rightarrow> turn_args \<Rightarrow> 's cap_world \<Rightarrow> (react_error + ustr) \<times> 's cap_world" where
  "stream_runner rx ag env session a w =
     (let (ms, failure, w) = ra_stream ag (build_react_user_content rx a (resolved_order a)) env w in
      case failure of
        Some e \<Rightarrow> (Inl e, w)
      | None \<Rightarrow>
          (let answer = strip (concat (final_deltas ms)) in
           if answer \<noteq> [] then (Inr answer, w)
           else case last_text ms of Some c \<Rightarrow> (Inr c, w) | None \<Rightarrow> run_react_inner rx env session w a))"

definition stream_react ::
  "'s react_env \<Rightarrow> 's cap_env \<Rightarrow> session_tool_cache \<Rightarrow> 's cap_world \<Rightarrow> turn_args \<Rightarrow> (react_error + ustr) \<times> 's cap_world" where
  "stream_react rx env session w a =
     react_scope rx env session w a (\<lambda>env w. react_or_offline env w a (map_option (\<lambda>ag. stream_runner rx ag env session a) (rx_agent rx)))"

section \<open>Failing tools\<close>

lemma tool_attempts_errors:
  "tool_attempts cfg q h n (Suc fuel) s = (Inl e, s') \<Longrightarrow> e = BubbleUp \<or> (\<exists>d. e = EscalationRaised d)"
proof (induction fuel arbitrary: n s)
  case 0
  then show ?case by (auto simp: Let_def split: prod.splits sum.splits tool_exn.splits if_splits)
next
  case (Suc fuel)
  obtain res w where h: "h (mw_world s) = (res, w)" by (cases "h (mw_world s)")
  show ?case
  proof (cases "\<exists>exc. res = Inl (PlainError exc) \<and> is_transient_error exc")
    case True
    then show ?thesis using Suc.IH Suc.prems h by (auto simp: Let_def simp del: tool_attempts.simps(2) simp add: tool_attempts.simps(2) [of cfg q h n "Suc fuel" s])
  next
    case False
    then show ?thesis using Suc.prems h by (auto simp: Let_def split: sum.splits tool_exn.splits if_splits)
  qed
qed

lemma wrap_tool_call_errors: "wrap_tool_call cfg q h s = (Inl e, s') \<Longrightarrow> e = BubbleUp \<or> (\<exists>d. e = EscalationRaised d)"
  unfolding wrap_tool_call_def max_transient_attempts_def numeral_2_eq_2 by (rule tool_attempts_errors)

text \<open>
  C35: A tool whose calls time out is tried twice and its failure becomes a message for the model. The
  failure is counted, but the decision to hand over that the count leads to is dropped: however
  often the tool fails, the agent goes on.
\<close>

theorem middleware_drops_escalation:
  fixes q :: tool_request
  assumes "\<And>w. h w = (Inl (PlainError exc), f w)" "is_transient_error exc" "mw_tracker s = Some tr"
  defines "key \<equiv> failure_key (or_str (tq_name q) (asc ''unknown'')) (tool_resource_key q)"
  shows "\<exists>s' tr'. wrap_tool_call cfg q h s = (Inr (error_tool_message q exc), s') \<and> mw_world s' = f (f (mw_world s))
    \<and> mw_tracker s' = Some tr' \<and> failures tr' key = failures tr key + 1
    \<and> (escalation_enabled cfg \<and> transient_threshold cfg \<le> int (failures tr key) + 1 \<longrightarrow>
       (\<exists>d. fst (escalation_for_transient cfg (mw_tracker s) (or_str (tq_name q) (asc ''unknown'')) (tool_resource_key q)) = Some d \<and> escalate d))"
proof -
  have t: "is_transient_tool_failure (Some exc) None" using assms(2) by (simp add: is_transient_tool_failure_def)
  let ?e = "escalation_for_transient cfg (Some tr) (or_str (tq_name q) (asc ''unknown'')) (tool_resource_key q)"
  have e: "snd ?e = Some (snd (record_transient tr (or_str (tq_name q) (asc ''unknown'')) (tool_resource_key q)))"
    by (simp add: escalation_for_transient_def case_prod_beta Let_def)
  have d: "\<exists>d. fst ?e = Some d \<and> escalate d" if "escalation_enabled cfg" "transient_threshold cfg \<le> int (failures tr key) + 1"
    using that by (auto simp: escalation_for_transient_def case_prod_beta Let_def failures_record key_def)
  show ?thesis using d
    by (auto simp: wrap_tool_call_def max_transient_attempts_def numeral_2_eq_2 assms(1-3) t e failures_record key_def Let_def)
qed

section \<open>Answers\<close>

lemma order_part_bad: "order_part (Inl (BadOrder b)) = Inl e \<Longrightarrow> e = ReactRaised assertion_exn"
  by (cases b) simp_all

lemma offline_order: "order_part (fst (query_order te (Ran ()) tw q n tn u l p r b)) = Inl e \<Longrightarrow> e = ReactRaised assertion_exn"
  by (auto simp: query_order_def Let_def split: sum.splits prod.splits if_splits dest: order_part_bad)

lemma consulted_course:
  assumes "\<And>req. \<exists>res. ce_consult env req = Inr res"
  shows "\<exists>res w'. retrieve_course env w req user = (Inr res, w')"
proof -
  obtain res where "ce_consult env req = Inr res" using assms by blast
  then show ?thesis by (simp add: retrieve_course_def Let_def)
qed

lemma offline_errors:
  assumes "\<And>req. \<exists>res. ce_consult env req = Inr res" "fst (offline_react env w a) = Inl e"
  shows "e = ReactRaised assertion_exn"
proof -
  let ?res = "resolved_order a"
  obtain ord tw where q: "query_order (ce_tools env) (Ran ()) (cw_tools w) (ta_query a) ?res (ta_tenant a) (ta_user a)
    (or_opt (ta_order_no a) ?res) False False False = (ord, tw)" by fastforce
  show ?thesis
  proof (cases "order_part ord")
    case (Inl e')
    then have "e' = ReactRaised assertion_exn" using offline_order q by (metis fst_conv)
    with Inl assms(2) q show ?thesis by (simp add: offline_react_def Let_def)
  next
    case (Inr parts)
    let ?req = "\<lparr>rq_query = react_search_query a, rq_tenant = ta_tenant a, rq_history = ta_history a,
      rq_last_course_query = ta_course_query a, rq_last_course_name = ta_last_course_name a, rq_summary = ta_summary a, rq_course_code = None\<rparr>"
    obtain res w' where "retrieve_course env (w\<lparr>cw_tools := tw\<rparr>) ?req (get_current_user (te_ctx (ce_tools env))) = (Inr res, w')"
      using consulted_course [OF assms(1)] by blast
    with Inr assms(2) q show ?thesis by (simp add: offline_react_def Let_def)
  qed
qed

definition allowed_failure :: "react_error \<Rightarrow> bool" where
  "allowed_failure e \<longleftrightarrow> (\<exists>i. e = ReactTenant i) \<or> (\<exists>exc. e = ReactRaised exc \<and> (exc = assertion_exn \<or> \<not> exn_degradable exc))"

lemma react_or_offline_errors:
  assumes "\<And>req. \<exists>res. ce_consult env req = Inr res" "fst (react_or_offline env w a runner) = Inl e"
  shows "allowed_failure e"
  using assms(2) offline_errors [OF assms(1)] unfolding react_or_offline_def allowed_failure_def
  by (fastforce split: option.splits prod.splits sum.splits react_error.splits if_splits)


text \<open>A stream in which the agent only called tools is followed by a second run of the same agent.\<close>

lemma silent_stream_runs_again:
  assumes "ra_stream ag (build_react_user_content rx a (resolved_order a)) env w = (ms, None, w')"
    "strip (concat (final_deltas ms)) = []" "last_text ms = None"
  shows "stream_runner rx ag env session a w = run_react_inner rx env session w' a"
  using assms by (simp add: stream_runner_def)

definition demo_timeout :: exn where
  "demo_timeout = \<lparr>ex_class = (asc ''TimeoutError''), ex_message = (asc ''slow''), ex_os_error = True, ex_pool_busy = False\<rparr>"

definition demo_tool_request :: tool_request where
  "demo_tool_request = \<lparr>tq_name = tool_order, tq_id = (asc ''c1''), tq_order_no = Some (asc ''20251114001''), tq_question = None, tq_query = None\<rparr>"

theorem middleware_drops_escalation_witness:
  "\<exists>s'. wrap_tool_call (demo_tool_settings\<lparr>escalation_enabled := True, transient_threshold := 1\<rparr>) demo_tool_request (\<lambda>n. (Inl (PlainError demo_timeout), n + 1))
       \<lparr>mw_world = 0::nat, mw_audit = [], mw_tracker = Some []\<rparr> = (Inr (error_tool_message demo_tool_request demo_timeout), s') \<and> mw_world s' = 2"
  using middleware_drops_escalation [of "\<lambda>n. (Inl (PlainError demo_timeout), n + 1)" demo_timeout "\<lambda>n. n + 1"
      "\<lparr>mw_world = 0::nat, mw_audit = [], mw_tracker = Some []\<rparr>" "[]" "demo_tool_settings\<lparr>escalation_enabled := True, transient_threshold := 1\<rparr>" demo_tool_request]
  by (auto simp: is_transient_error_def demo_timeout_def)

definition demo_react_env :: "memory_tool_store react_env" where
  "demo_react_env = \<lparr>rx_agent = Some \<lparr>ra_invoke = (\<lambda>_ _ w. (Inr [], w)),
     ra_stream = (\<lambda>_ _ w. ([], Some (ReactRaised \<lparr>ex_class = (asc ''TenantQuotaExceededError''), ex_message = [], ex_os_error = False, ex_pool_busy = False\<rparr>), w))\<rparr>,
     rx_tokenizer = \<lparr>encoding_length = None, estimate_ratio = 1\<rparr>, rx_history = \<lparr>history_token_budget = 100, history_min_messages = 1\<rparr>, rx_default_tenant = (asc ''demo'')\<rparr>"


end
