(* ===== verification/Metrics.thy ===== *)
theory Metrics
  imports Text "HOL-Library.List_Lexorder" "HOL-Library.Product_Lexorder"
begin

text \<open>
  The metrics of a worker and their merge over the workers: \<open>app/observability/metrics/\<close>
  (\<open>store.py\<close>, \<open>multiproc.py\<close>, \<open>instruments.py\<close>, \<open>render.py\<close>). A worker counts in memory and
  writes snapshots into a shared directory; a scrape merges the snapshots of the living
  workers. Floats are exact rationals, the operating system (which process lives, whether a
  write succeeds) is an argument.
\<close>

section \<open>The store of a worker\<close>

type_synonym labels = "(ustr \<times> ustr) list"

definition label_key :: "labels \<Rightarrow> labels" where
  "label_key ls = sort ls"

datatype bound = Upto rat | Inf

fun below :: "rat \<Rightarrow> bound \<Rightarrow> bool" where
  "below v (Upto b) \<longleftrightarrow> v \<le> b"
| "below v Inf \<longleftrightarrow> True"

record hist =
  h_bounds :: "bound list"
  h_buckets :: "int list"
  h_count :: int
  h_sum :: rat

definition fresh_hist :: "bound list \<Rightarrow> hist" where
  "fresh_hist bs = \<lparr>h_bounds = bs, h_buckets = replicate (length bs) 0, h_count = 0, h_sum = 0\<rparr>"

definition hist_observe :: "rat \<Rightarrow> hist \<Rightarrow> hist" where
  "hist_observe v h =
     h\<lparr>h_count := h_count h + 1, h_sum := h_sum h + v,
       h_buckets := map2 (\<lambda>b n. if below v b then n + 1 else n) (h_bounds h) (h_buckets h)\<rparr>"

text \<open>Values by metric name and labels.\<close>

type_synonym 'v series = "(ustr, (labels, 'v) dict) dict"

definition series_of :: "'v series \<Rightarrow> ustr \<Rightarrow> (labels, 'v) dict" where
  "series_of d name = (case map_of d name of None \<Rightarrow> [] | Some s \<Rightarrow> s)"

definition set_value :: "ustr \<Rightarrow> labels \<Rightarrow> 'v \<Rightarrow> 'v series \<Rightarrow> 'v series" where
  "set_value name key v d = AList.update name (AList.update key v (series_of d name)) d"

record metric_store =
  ms_counters :: "rat series"
  ms_hists :: "hist series"
  ms_dirty :: bool
  ms_flushed :: rat

definition reset_metrics :: metric_store where
  "reset_metrics = \<lparr>ms_counters = [], ms_hists = [], ms_dirty = False, ms_flushed = 0\<rparr>"

datatype metric_event = Inc ustr rat labels | Observe ustr rat "bound list" labels

definition add_counter :: "rat series \<Rightarrow> ustr \<Rightarrow> labels \<Rightarrow> rat \<Rightarrow> rat series" where
  "add_counter d name ls amount =
     (let key = label_key ls in set_value name key ((case map_of (series_of d name) key of None \<Rightarrow> 0 | Some x \<Rightarrow> x) + amount) d)"

definition add_observation :: "hist series \<Rightarrow> ustr \<Rightarrow> bound list \<Rightarrow> labels \<Rightarrow> rat \<Rightarrow> hist series" where
  "add_observation d name bs ls v =
     (let key = label_key ls;
          h = (case map_of (series_of d name) key of None \<Rightarrow> fresh_hist bs | Some h \<Rightarrow> h)
      in set_value name key (hist_observe v h) d)"

text \<open>\<open>inc\<close> and \<open>observe\<close> up to the flush.\<close>

fun note_event :: "metric_store \<Rightarrow> metric_event \<Rightarrow> metric_store" where
  "note_event st (Inc name amount ls) = st\<lparr>ms_counters := add_counter (ms_counters st) name ls amount, ms_dirty := True\<rparr>"
| "note_event st (Observe name v bs ls) = st\<lparr>ms_hists := add_observation (ms_hists st) name bs ls v, ms_dirty := True\<rparr>"

section \<open>Snapshots\<close>

text \<open>In JSON an infinite bound is null.\<close>

record hist_row =
  hr_labels :: labels
  hr_bounds :: "rat option list"
  hr_buckets :: "int list"
  hr_count :: int
  hr_sum :: rat

fun bound_to_json :: "bound \<Rightarrow> rat option" where
  "bound_to_json Inf = None"
| "bound_to_json (Upto b) = Some b"

fun bound_from_json :: "rat option \<Rightarrow> bound" where
  "bound_from_json None = Inf"
| "bound_from_json (Some b) = Upto b"

definition hist_to_json :: "labels \<Rightarrow> hist \<Rightarrow> hist_row" where
  "hist_to_json ls h =
     \<lparr>hr_labels = ls, hr_bounds = map bound_to_json (h_bounds h), hr_buckets = h_buckets h, hr_count = h_count h, hr_sum = h_sum h\<rparr>"

definition hist_from_json :: "hist_row \<Rightarrow> hist option" where
  "hist_from_json r =
     (let bs = map bound_from_json (hr_bounds r) in
      if bs = [] then None
      else if length (hr_buckets r) \<noteq> length bs then None
      else Some \<lparr>h_bounds = bs, h_buckets = hr_buckets r, h_count = hr_count r, h_sum = hr_sum r\<rparr>)"

record gauges =
  ga_in_flight :: int
  ga_pools :: "(ustr, int) dict"

record metric_snapshot =
  sn_pid :: nat
  sn_counters :: "(ustr \<times> (labels \<times> rat) list) list"
  sn_hists :: "(ustr \<times> hist_row list) list"
  sn_gauges :: gauges

definition snapshot_payload :: "nat \<Rightarrow> gauges \<Rightarrow> metric_store \<Rightarrow> metric_snapshot" where
  "snapshot_payload pid g st =
     \<lparr>sn_pid = pid, sn_counters = ms_counters st,
      sn_hists = map (\<lambda>(name, s). (name, map (\<lambda>(ls, h). hist_to_json ls h) s)) (ms_hists st), sn_gauges = g\<rparr>"

text \<open>The shared directory: a file holds a snapshot or cannot be read; \<open>None\<close>: the merge is off.\<close>

type_synonym metrics_dir = "(ustr, metric_snapshot option) dict"

definition snapshot_name :: "nat \<Rightarrow> ustr" where
  "snapshot_name pid = (asc ''cs-'') @ show_nat pid @ (asc ''.json'')"

definition is_digit_char :: "nat \<Rightarrow> bool" where
  "is_digit_char c \<longleftrightarrow> 48 \<le> c \<and> c \<le> 57"

definition pid_from_name :: "ustr \<Rightarrow> nat option" where
  "pid_from_name name =
     (if \<not> starts_with (asc ''cs-'') name \<or> \<not> starts_with (rev (asc ''.json'')) (rev name) then None
      else let raw = take (length name - 8) (drop 3 name)
        in if raw = [] \<or> \<not> list_all is_digit_char raw then None else Some (read_nat raw))"

definition pid_alive :: "(nat \<Rightarrow> bool) \<Rightarrow> nat \<Rightarrow> bool" where
  "pid_alive os pid \<longleftrightarrow> pid > 0 \<and> os pid"

definition flush_interval :: rat where
  "flush_interval = 5 / 100"

text \<open>\<open>ok\<close>: the file could be written.\<close>

definition flush_snapshot ::
  "bool \<Rightarrow> rat \<Rightarrow> nat \<Rightarrow> gauges \<Rightarrow> bool \<Rightarrow> metric_store \<Rightarrow> metrics_dir option \<Rightarrow> metric_store \<times> metrics_dir option" where
  "flush_snapshot force now pid g ok st dir =
     (case dir of
        None \<Rightarrow> (st, None)
      | Some fs \<Rightarrow>
          if \<not> force \<and> \<not> ms_dirty st then (st, dir)
          else if \<not> force \<and> now - ms_flushed st < flush_interval then (st, dir)
          else (st\<lparr>ms_dirty := False, ms_flushed := now\<rparr>,
                Some (if ok then AList.update (snapshot_name pid) (Some (snapshot_payload pid g st)) fs else fs)))"

text \<open>\<open>inc\<close> and \<open>observe\<close>.\<close>

definition count_event ::
  "metric_event \<Rightarrow> rat \<Rightarrow> nat \<Rightarrow> gauges \<Rightarrow> bool \<Rightarrow> metric_store \<Rightarrow> metrics_dir option \<Rightarrow> metric_store \<times> metrics_dir option" where
  "count_event e now pid g ok st dir = flush_snapshot False now pid g ok (note_event st e) dir"

definition remove_pid_file :: "nat \<Rightarrow> metrics_dir option \<Rightarrow> metrics_dir option" where
  "remove_pid_file pid dir = map_option (AList.delete (snapshot_name pid)) dir"

section \<open>Merging\<close>

definition tool_pool_labels :: "ustr list" where
  "tool_pool_labels = [(asc ''order''), (asc ''course'')]"

definition empty_tool_pool_gauges :: "(ustr, int) dict" where
  "empty_tool_pool_gauges = map (\<lambda>p. (p, 0)) tool_pool_labels"

definition pool_value :: "(ustr, int) dict \<Rightarrow> ustr \<Rightarrow> int" where
  "pool_value d p = (case map_of d p of None \<Rightarrow> 0 | Some n \<Rightarrow> n)"

definition local_tool_pool_in_flight :: "(ustr, int) dict \<Rightarrow> (ustr, int) dict" where
  "local_tool_pool_in_flight counts = map (\<lambda>p. (p, pool_value counts p)) tool_pool_labels"

definition merge_tool_pool_gauges :: "(ustr, int) dict \<Rightarrow> (ustr, int) dict \<Rightarrow> (ustr, int) dict" where
  "merge_tool_pool_gauges dest raw = foldl (\<lambda>d p. AList.update p (pool_value d p + pool_value raw p) d) dest tool_pool_labels"

definition hist_merge :: "hist \<Rightarrow> hist \<Rightarrow> hist" where
  "hist_merge e h =
     (if h_bounds e \<noteq> h_bounds h then e
      else e\<lparr>h_count := h_count e + h_count h, h_sum := h_sum e + h_sum h, h_buckets := map2 (+) (h_buckets e) (h_buckets h)\<rparr>)"

definition add_histogram :: "hist series \<Rightarrow> ustr \<Rightarrow> labels \<Rightarrow> hist \<Rightarrow> hist series" where
  "add_histogram d name ls h =
     (let key = label_key ls in
      case map_of (series_of d name) key of None \<Rightarrow> set_value name key h d | Some e \<Rightarrow> set_value name key (hist_merge e h) d)"

record merged =
  mg_counters :: "rat series"
  mg_hists :: "hist series"
  mg_in_flight :: int
  mg_pools :: "(ustr, int) dict"

definition nothing_merged :: merged where
  "nothing_merged = \<lparr>mg_counters = [], mg_hists = [], mg_in_flight = 0, mg_pools = empty_tool_pool_gauges\<rparr>"

definition merge_counters :: "rat series \<Rightarrow> (ustr \<times> (labels \<times> rat) list) list \<Rightarrow> rat series" where
  "merge_counters d rows = foldl (\<lambda>d (name, rs). foldl (\<lambda>d (ls, v). add_counter d name ls v) d rs) d rows"

definition merge_histograms :: "hist series \<Rightarrow> (ustr \<times> hist_row list) list \<Rightarrow> hist series" where
  "merge_histograms d rows =
     foldl (\<lambda>d (name, rs). foldl (\<lambda>d r. case hist_from_json r of None \<Rightarrow> d | Some h \<Rightarrow> add_histogram d name (hr_labels r) h) d rs) d rows"

definition merge_snapshot :: "merged \<Rightarrow> metric_snapshot option \<Rightarrow> merged" where
  "merge_snapshot m content =
     (case content of
        None \<Rightarrow> m
      | Some sn \<Rightarrow>
          \<lparr>mg_counters = merge_counters (mg_counters m) (sn_counters sn), mg_hists = merge_histograms (mg_hists m) (sn_hists sn),
           mg_in_flight = mg_in_flight m + ga_in_flight (sn_gauges sn),
           mg_pools = merge_tool_pool_gauges (mg_pools m) (ga_pools (sn_gauges sn))\<rparr>)"

definition merge_snapshots :: "metric_snapshot option list \<Rightarrow> merged" where
  "merge_snapshots contents = foldl merge_snapshot nothing_merged contents"

definition snapshot_file :: "ustr \<Rightarrow> bool" where
  "snapshot_file name \<longleftrightarrow> length name \<ge> 8 \<and> starts_with (asc ''cs-'') name \<and> starts_with (rev (asc ''.json'')) (rev name)"

definition live_file :: "(nat \<Rightarrow> bool) \<Rightarrow> ustr \<Rightarrow> bool" where
  "live_file os name \<longleftrightarrow> (case pid_from_name name of None \<Rightarrow> False | Some pid \<Rightarrow> pid_alive os pid)"

definition cleanup_dead_pid_files :: "(nat \<Rightarrow> bool) \<Rightarrow> metrics_dir \<Rightarrow> metrics_dir" where
  "cleanup_dead_pid_files os fs = dict_filter (\<lambda>name _. snapshot_file name \<longrightarrow> live_file os name) fs"

definition collect_multiprocess ::
  "(nat \<Rightarrow> bool) \<Rightarrow> rat \<Rightarrow> nat \<Rightarrow> gauges \<Rightarrow> bool \<Rightarrow> metric_store \<Rightarrow> metrics_dir option \<Rightarrow>
     merged option \<times> metric_store \<times> metrics_dir option" where
  "collect_multiprocess os now pid g ok st dir =
     (case flush_snapshot True now pid g ok st dir of
        (st, None) \<Rightarrow> (None, st, None)
      | (st, Some fs) \<Rightarrow>
          (let fs = cleanup_dead_pid_files os fs; found = filter (\<lambda>(name, _). snapshot_file name) fs
           in (if found = [] then None else Some (merge_snapshots (map snd found)), st, Some fs)))"

section \<open>Values of a series\<close>

definition value_at :: "'v series \<Rightarrow> ustr \<Rightarrow> labels \<Rightarrow> 'v option" where
  "value_at d name key = map_of (series_of d name) key"

lemma value_at_set: "value_at (set_value n k v d) n' k' = (if n' = n \<and> k' = k then Some v else value_at d n' k')"
  by (simp add: value_at_def set_value_def series_of_def)

lemma label_key_idem [simp]: "label_key (label_key ls) = label_key ls"
  by (simp add: label_key_def sorted_sort_id)

text \<open>A well-formed series: dictionaries with normal label keys.\<close>

definition series_ok :: "'v series \<Rightarrow> bool" where
  "series_ok d \<longleftrightarrow> dict_ok d \<and> (\<forall>(n, s) \<in> set d. dict_ok s \<and> (\<forall>(k, v) \<in> set s. label_key k = k))"

lemma set_update_subset: "set (AList.update k v d) \<subseteq> insert (k, v) (set d)"
  by (induction d) auto

lemma series_ok_set:
  assumes "series_ok d" and "label_key k = k"
  shows "series_ok (set_value n k v d)"
proof -
  let ?good = "\<lambda>s :: (labels, 'a) dict. dict_ok s \<and> (\<forall>(k, v) \<in> set s. label_key k = k)"
  have d: "dict_ok d" "\<And>n s. (n, s) \<in> set d \<Longrightarrow> ?good s" using assms(1) by (auto simp: series_ok_def)
  have "?good (series_of d n)"
  proof (cases "map_of d n")
    case (Some s)
    with d(2) [OF map_of_SomeD [OF Some]] show ?thesis by (simp add: series_of_def)
  qed (simp add: series_of_def)
  then have u: "?good (AList.update k v (series_of d n))"
    using assms(2) set_update_subset [of k v "series_of d n"] by auto
  have "?good s" if "(m, s) \<in> set (set_value n k v d)" for m s
    using that u d(2) set_update_subset [of n "AList.update k v (series_of d n)" d] unfolding set_value_def by blast
  then have "\<forall>(m, s) \<in> set (set_value n k v d). ?good s" by blast
  then show ?thesis using d(1) unfolding series_ok_def by (simp add: set_value_def)
qed

lemma series_ok_Nil [simp]: "series_ok []"
  by (simp add: series_ok_def)

text \<open>Folding values into one.\<close>

definition fold_value :: "('v \<Rightarrow> 'v \<Rightarrow> 'v) \<Rightarrow> 'v option \<Rightarrow> 'v list \<Rightarrow> 'v option" where
  "fold_value comb = foldl (\<lambda>acc v. Some (case acc of None \<Rightarrow> v | Some w \<Rightarrow> comb w v))"

lemma fold_value_simps [simp]:
  "fold_value comb acc [] = acc"
  "fold_value comb acc (v # vs) = fold_value comb (Some (case acc of None \<Rightarrow> v | Some w \<Rightarrow> comb w v)) vs"
  "fold_value comb acc (vs @ ws) = fold_value comb (fold_value comb acc vs) ws"
  by (simp_all add: fold_value_def)

text \<open>What a series contributes to one value: nothing or its own.\<close>

lemma rows_of_series:
  assumes "series_ok d"
  shows "concat (map (\<lambda>(n', rs). concat (map (\<lambda>(ls, v). if n' = n \<and> label_key ls = k then [v] else []) rs)) d) =
    (case value_at d n k of None \<Rightarrow> [] | Some v \<Rightarrow> [v])"
proof -
  have inner: "dict_ok s \<Longrightarrow> \<forall>(k, v) \<in> set s. label_key k = k \<Longrightarrow>
      concat (map (\<lambda>(ls, v). if label_key ls = k then [v] else []) s) = (case map_of s k of None \<Rightarrow> [] | Some v \<Rightarrow> [v])"
    for s :: "(labels \<times> 'v) list"
  proof (induction s)
    case (Cons p s)
    obtain l v where p: "p = (l, v)" by fastforce
    from Cons.prems have ok: "dict_ok s" "\<forall>(k, v) \<in> set s. label_key k = k" "label_key l = l" "l \<notin> fst ` set s"
      by (auto simp: p dict_ok_def)
    from ok(4) have "map_of s l = None" by (simp add: map_of_eq_None_iff)
    with Cons.IH [OF ok(1,2)] ok(3) show ?case by (auto simp: p)
  qed simp
  show ?thesis using assms
  proof (induction d)
    case (Cons p d)
    obtain m s where p: "p = (m, s)" by fastforce
    from Cons.prems have ok: "series_ok d" "dict_ok s" "\<forall>(k, v) \<in> set s. label_key k = k" "m \<notin> fst ` set d"
      by (auto simp: p dict_ok_def series_ok_def)
    from ok(4) have fresh: "map_of d m = None" by (simp add: map_of_eq_None_iff)
    show ?case
    proof (cases "m = n")
      case True
      with fresh have "value_at d n k = None" by (simp add: value_at_def series_of_def)
      with Cons.IH [OF ok(1)] inner [OF ok(2,3)] True show ?thesis by (simp add: p value_at_def series_of_def)
    next
      case False
      then have none: "concat (map (\<lambda>(ls, v). if m = n \<and> label_key ls = k then [v] else []) s) = []" by auto
      from False have "value_at (p # d) n k = value_at d n k" by (simp add: p value_at_def series_of_def)
      with Cons.IH [OF ok(1)] none show ?thesis by (simp add: p)
    qed
  qed (simp add: value_at_def series_of_def)
qed

section \<open>Merging a series adds up its values\<close>

text \<open>
  A kind of value that sums up observations: putting two summaries together is the summary of all
  observations of both.
\<close>

locale summing =
  fixes comb :: "'v \<Rightarrow> 'v \<Rightarrow> 'v"
    and value_of :: "'a list \<Rightarrow> 'v"
  assumes comb_value: "xs \<noteq> [] \<Longrightarrow> ys \<noteq> [] \<Longrightarrow> comb (value_of xs) (value_of ys) = value_of (xs @ ys)"
begin

definition value_opt :: "'a list \<Rightarrow> 'v option" where
  "value_opt xs = (if xs = [] then None else Some (value_of xs))"

lemma fold_values:
  "fold_value comb (value_opt xs) (concat (map (\<lambda>ys. case value_opt ys of None \<Rightarrow> [] | Some v \<Rightarrow> [v]) yss)) = value_opt (xs @ concat yss)"
proof (induction yss arbitrary: xs)
  case (Cons ys yss)
  have "fold_value comb (value_opt xs) (case value_opt ys of None \<Rightarrow> [] | Some v \<Rightarrow> [v]) = value_opt (xs @ ys)"
    by (auto simp: value_opt_def comb_value)
  with Cons.IH [of "xs @ ys"] show ?case by simp
qed simp

lemma fold_one: "fold_value comb (value_opt xs) [value_of ys] = value_opt (xs @ ys)" if "ys \<noteq> []"
  using that by (simp add: value_opt_def comb_value)

lemma fold_all: "fold_value comb None (concat (map (\<lambda>ys. case value_opt ys of None \<Rightarrow> [] | Some v \<Rightarrow> [v]) yss)) = value_opt (concat yss)"
  using fold_values [of "[]" yss] by (simp add: value_opt_def)

end

interpretation counters: summing "(+)" "sum_list :: rat list \<Rightarrow> rat"
  by unfold_locales simp

text \<open>The histogram of some observations.\<close>

definition hist_of :: "bound list \<Rightarrow> rat list \<Rightarrow> hist" where
  "hist_of bs vs =
     \<lparr>h_bounds = bs, h_buckets = map (\<lambda>b. int (length (filter (\<lambda>v. below v b) vs))) bs, h_count = int (length vs), h_sum = sum_list vs\<rparr>"

lemma map2_map: "map2 f (map g xs) (map h xs) = map (\<lambda>x. f (g x) (h x)) xs"
  by (induction xs) simp_all

lemma hist_merge_of: "hist_merge (hist_of bs vs) (hist_of bs ws) = hist_of bs (vs @ ws)"
  by (simp add: hist_merge_def hist_of_def map2_map)

lemma hist_observe_of: "hist_observe v (hist_of bs vs) = hist_of bs (vs @ [v])"
proof -
  have "map2 (\<lambda>b n. if below v b then n + 1 else n) bs (map h bs) = map (\<lambda>b. if below v b then h b + 1 else h b) bs"
    for h :: "bound \<Rightarrow> int" by (induction bs) simp_all
  then show ?thesis by (auto simp: hist_observe_def hist_of_def)
qed

lemma fresh_hist_of: "fresh_hist bs = hist_of bs []"
  by (simp add: fresh_hist_def hist_of_def map_replicate_const)

interpretation histograms: summing hist_merge "hist_of bs" for bs
  by unfold_locales (rule hist_merge_of)

text \<open>The row of a histogram in a snapshot is read back as it was, unless it has no bounds.\<close>

lemma hist_row_roundtrip: "hist_from_json (hist_to_json ls (hist_of bs vs)) = (if bs = [] then None else Some (hist_of bs vs))"
proof -
  have "bound_from_json (bound_to_json b) = b" for b by (cases b) simp_all
  then show ?thesis by (simp add: hist_from_json_def hist_to_json_def hist_of_def comp_def)
qed

text \<open>The bucket of an infinite bound counts everything, and a wider bucket holds a narrower one.\<close>

fun bound_le :: "bound \<Rightarrow> bound \<Rightarrow> bool" where
  "bound_le _ Inf \<longleftrightarrow> True"
| "bound_le (Upto a) (Upto b) \<longleftrightarrow> a \<le> b"
| "bound_le Inf (Upto b) \<longleftrightarrow> False"

lemma below_mono: "bound_le a b \<Longrightarrow> below v a \<Longrightarrow> below v b"
  by (induction a b rule: bound_le.induct) auto

lemma hist_cumulative:
  assumes "i < length bs" and "j < length bs" and "bound_le (bs ! i) (bs ! j)"
  shows "h_buckets (hist_of bs vs) ! i \<le> h_buckets (hist_of bs vs) ! j"
    and "bs ! j = Inf \<Longrightarrow> h_buckets (hist_of bs vs) ! j = h_count (hist_of bs vs)"
proof -
  have "length (filter (\<lambda>v. below v (bs ! i)) vs) \<le> length (filter (\<lambda>v. below v (bs ! j)) vs)"
    using below_mono [OF assms(3)] by (induction vs) auto
  then show "h_buckets (hist_of bs vs) ! i \<le> h_buckets (hist_of bs vs) ! j" using assms by (simp add: hist_of_def)
  show "bs ! j = Inf \<Longrightarrow> h_buckets (hist_of bs vs) ! j = h_count (hist_of bs vs)" using assms by (simp add: hist_of_def)
qed

section \<open>What a worker has counted\<close>

fun amounts_of :: "ustr \<Rightarrow> labels \<Rightarrow> metric_event \<Rightarrow> rat list" where
  "amounts_of n k (Inc name a ls) = (if name = n \<and> label_key ls = k then [a] else [])"
| "amounts_of n k (Observe name v bs ls) = []"

fun values_of :: "ustr \<Rightarrow> labels \<Rightarrow> metric_event \<Rightarrow> rat list" where
  "values_of n k (Inc name a ls) = []"
| "values_of n k (Observe name v bs ls) = (if name = n \<and> label_key ls = k then [v] else [])"

text \<open>A histogram is always observed with the bounds of its name, as \<open>instruments.py\<close> does.\<close>

fun event_ok :: "(ustr \<Rightarrow> bound list) \<Rightarrow> metric_event \<Rightarrow> bool" where
  "event_ok B (Inc name a ls) \<longleftrightarrow> True"
| "event_ok B (Observe name v bs ls) \<longleftrightarrow> bs = B name \<and> bs \<noteq> []"

definition counted :: "metric_event list \<Rightarrow> metric_store" where
  "counted es = foldl note_event reset_metrics es"

lemma value_at_add_counter:
  "value_at (add_counter d name ls a) n k =
    (if name = n \<and> label_key ls = k then fold_value (+) (value_at d n k) [a] else value_at d n k)"
  by (auto simp: add_counter_def Let_def value_at_set value_at_def [symmetric] split: option.splits)

lemma value_at_add_histogram:
  "value_at (add_histogram d name ls h) n k =
    (if name = n \<and> label_key ls = k then fold_value hist_merge (value_at d n k) [h] else value_at d n k)"
  by (auto simp: add_histogram_def Let_def value_at_set value_at_def [symmetric] split: option.splits)

lemma value_at_add_observation:
  assumes "value_at d n k = histograms.value_opt (B n) vs"
  shows "value_at (add_observation d name (B name) ls v) n k =
    histograms.value_opt (B n) (vs @ (if name = n \<and> label_key ls = k then [v] else []))"
proof (cases "name = n \<and> label_key ls = k")
  case True
  with assms show ?thesis
    by (cases "vs = []") (simp_all add: add_observation_def Let_def value_at_set value_at_def [symmetric] fresh_hist_of hist_observe_of
      histograms.value_opt_def)
next
  case False
  with assms show ?thesis by (auto simp: add_observation_def Let_def value_at_set)
qed

definition store_ok :: "metric_store \<Rightarrow> bool" where
  "store_ok st \<longleftrightarrow> series_ok (ms_counters st) \<and> series_ok (ms_hists st)"

lemma counted_append: "counted (es @ [e]) = note_event (counted es) e"
  by (simp add: counted_def)

lemma counted_values:
  assumes "list_all (event_ok B) es"
  shows "store_ok (counted es) \<and> value_at (ms_counters (counted es)) n k = counters.value_opt (concat (map (amounts_of n k) es))
    \<and> value_at (ms_hists (counted es)) n k = histograms.value_opt (B n) (concat (map (values_of n k) es))"
  using assms
proof (induction es rule: rev_induct)
  case Nil
  then show ?case
    by (simp add: counted_def reset_metrics_def store_ok_def value_at_def series_of_def counters.value_opt_def histograms.value_opt_def)
next
  case (snoc e es)
  then have IH: "store_ok (counted es)" "value_at (ms_counters (counted es)) n k = counters.value_opt (concat (map (amounts_of n k) es))"
    "value_at (ms_hists (counted es)) n k = histograms.value_opt (B n) (concat (map (values_of n k) es))" and e: "event_ok B e" by simp_all
  show ?case
  proof (cases e)
    case (Inc name a ls)
    from IH(1) have "store_ok (counted (es @ [e]))"
      by (simp add: counted_append Inc store_ok_def add_counter_def Let_def series_ok_set)
    moreover have "value_at (add_counter (ms_counters (counted es)) name ls a) n k
        = counters.value_opt (concat (map (amounts_of n k) es) @ amounts_of n k (Inc name a ls))"
      unfolding value_at_add_counter IH(2)
      using counters.fold_one [of "[a]" "concat (map (amounts_of n k) es)"] by simp
    ultimately show ?thesis using IH(3) by (simp add: counted_append Inc)
  next
    case (Observe name v bs ls)
    with e have bs: "bs = B name" by simp
    from IH(1) have "store_ok (counted (es @ [e]))"
      by (simp add: counted_append Observe store_ok_def add_observation_def Let_def series_ok_set)
    moreover have "value_at (add_observation (ms_hists (counted es)) name bs ls v) n k
        = histograms.value_opt (B n) (concat (map (values_of n k) es) @ values_of n k (Observe name v bs ls))"
      using value_at_add_observation [where B = B, OF IH(3), of name ls v] by (simp add: bs)
    ultimately show ?thesis using IH(2) by (simp add: counted_append Observe)
  qed
qed

lemma hists_are_of:
  assumes "list_all (event_ok B) es" and "(n, s) \<in> set (ms_hists (counted es))" and "(k, h) \<in> set s"
  shows "\<exists>vs. h = hist_of (B n) vs \<and> B n \<noteq> []"
proof -
  from counted_values [OF assms(1), of n k] have ok: "series_ok (ms_hists (counted es))" by (simp add: store_ok_def)
  with assms have "map_of (ms_hists (counted es)) n = Some s" "map_of s k = Some h"
    by (auto simp: series_ok_def dict_ok_def map_of_eq_Some_iff)
  then have v: "value_at (ms_hists (counted es)) n k = Some h" by (simp add: value_at_def series_of_def)
  with counted_values [OF assms(1), of n k] have "concat (map (values_of n k) es) \<noteq> []" "h = hist_of (B n) (concat (map (values_of n k) es))"
    by (auto simp: histograms.value_opt_def split: if_splits)
  moreover from this(1) obtain e where "e \<in> set es" "values_of n k e \<noteq> []" by auto
  with assms(1) have "B n \<noteq> []" by (cases e) (auto simp: list_all_iff split: if_splits)
  ultimately show ?thesis by blast
qed

section \<open>Merging the snapshots of workers\<close>

lemma value_at_merge_rows:
  "value_at (foldl (\<lambda>d (ls, v). add_counter d name ls v) d rs) n k =
     fold_value (+) (value_at d n k) (concat (map (\<lambda>(ls, v). if name = n \<and> label_key ls = k then [v] else []) rs))"
  by (induction rs arbitrary: d) (auto simp: value_at_add_counter)

lemma value_at_merge_counters:
  "value_at (merge_counters d rows) n k =
     fold_value (+) (value_at d n k) (concat (map (\<lambda>(n', rs). concat (map (\<lambda>(ls, v). if n' = n \<and> label_key ls = k then [v] else []) rs)) rows))"
  unfolding merge_counters_def
proof (induction rows arbitrary: d)
  case (Cons p rows)
  obtain m rs where p: "p = (m, rs)" by fastforce
  show ?case using Cons.IH by (simp add: p value_at_merge_rows)
qed simp

definition hist_rows :: "hist series \<Rightarrow> (ustr \<times> hist_row list) list" where
  "hist_rows hs = map (\<lambda>(name, s). (name, map (\<lambda>(ls, h). hist_to_json ls h) s)) hs"

definition rows_readable :: "hist series \<Rightarrow> bool" where
  "rows_readable hs \<longleftrightarrow> (\<forall>(n, s) \<in> set hs. \<forall>(ls, h) \<in> set s. hist_from_json (hist_to_json ls h) = Some h)"

lemma hr_labels_of [simp]: "hr_labels (hist_to_json ls h) = ls"
  by (simp add: hist_to_json_def)

lemma value_at_hist_rows:
  "\<forall>(ls, h) \<in> set s. hist_from_json (hist_to_json ls h) = Some h \<Longrightarrow>
   value_at (foldl (\<lambda>d r. case hist_from_json r of None \<Rightarrow> d | Some h \<Rightarrow> add_histogram d name (hr_labels r) h) d (map (\<lambda>(ls, h). hist_to_json ls h) s)) n k =
     fold_value hist_merge (value_at d n k) (concat (map (\<lambda>(ls, v). if name = n \<and> label_key ls = k then [v] else []) s))"
  by (induction s arbitrary: d) (auto simp: value_at_add_histogram)

lemma value_at_merge_histograms:
  assumes "rows_readable hs"
  shows "value_at (merge_histograms d (hist_rows hs)) n k =
     fold_value hist_merge (value_at d n k) (concat (map (\<lambda>(n', s). concat (map (\<lambda>(ls, v). if n' = n \<and> label_key ls = k then [v] else []) s)) hs))"
  using assms unfolding merge_histograms_def hist_rows_def
proof (induction hs arbitrary: d)
  case (Cons p hs)
  obtain m s where p: "p = (m, s)" by fastforce
  from Cons.prems have "rows_readable hs" "\<forall>(ls, h) \<in> set s. hist_from_json (hist_to_json ls h) = Some h"
    by (auto simp: rows_readable_def p)
  then show ?case using Cons.IH by (simp add: p value_at_hist_rows)
qed simp

lemma counted_readable: "list_all (event_ok B) es \<Longrightarrow> rows_readable (ms_hists (counted es))"
  unfolding rows_readable_def using hists_are_of by (fastforce simp: hist_row_roundtrip)

text \<open>A worker: its gauges and what it counted.\<close>

type_synonym worker = "gauges \<times> metric_event list"

definition snapshot_of :: "nat \<times> worker \<Rightarrow> metric_snapshot option" where
  "snapshot_of = (\<lambda>(pid, g, es). Some (snapshot_payload pid g (counted es)))"

lemma pool_value_update [simp]: "pool_value (AList.update q v d) p = (if p = q then v else pool_value d p)"
  by (simp add: pool_value_def)

lemma pool_value_merge:
  "p \<in> set tool_pool_labels \<Longrightarrow> pool_value (merge_tool_pool_gauges d raw) p = pool_value d p + pool_value raw p"
  by (auto simp: merge_tool_pool_gauges_def tool_pool_labels_def)

lemma merged_from:
  assumes "\<forall>(pid, g, es) \<in> set ws. list_all (event_ok B) es" and "p \<in> set tool_pool_labels"
  shows "value_at (mg_counters (foldl merge_snapshot m (map snapshot_of ws))) n k = fold_value (+) (value_at (mg_counters m) n k)
      (concat (map (\<lambda>ys. case counters.value_opt ys of None \<Rightarrow> [] | Some v \<Rightarrow> [v]) (map (\<lambda>(pid, g, es). concat (map (amounts_of n k) es)) ws)))
    \<and> value_at (mg_hists (foldl merge_snapshot m (map snapshot_of ws))) n k = fold_value hist_merge (value_at (mg_hists m) n k)
      (concat (map (\<lambda>ys. case histograms.value_opt (B n) ys of None \<Rightarrow> [] | Some v \<Rightarrow> [v]) (map (\<lambda>(pid, g, es). concat (map (values_of n k) es)) ws)))
    \<and> mg_in_flight (foldl merge_snapshot m (map snapshot_of ws)) = mg_in_flight m + sum_list (map (\<lambda>(pid, g, es). ga_in_flight g) ws)
    \<and> pool_value (mg_pools (foldl merge_snapshot m (map snapshot_of ws))) p = pool_value (mg_pools m) p + sum_list (map (\<lambda>(pid, g, es). pool_value (ga_pools g) p) ws)"
  using assms
proof (induction ws arbitrary: m)
  case (Cons w ws)
  obtain pid g es where w: "w = (pid, g, es)" by (cases w) auto
  from Cons.prems have es: "list_all (event_ok B) es" and rest: "\<forall>(pid, g, es) \<in> set ws. list_all (event_ok B) es" by (auto simp: w)
  note c = counted_values [OF es, of n k]
  then have ok: "series_ok (ms_counters (counted es))" "series_ok (ms_hists (counted es))" by (simp_all add: store_ok_def)
  let ?m = "merge_snapshot m (snapshot_of w)"
  have "value_at (mg_counters ?m) n k = fold_value (+) (value_at (mg_counters m) n k)
      (case counters.value_opt (concat (map (amounts_of n k) es)) of None \<Rightarrow> [] | Some v \<Rightarrow> [v])"
    using c rows_of_series [OF ok(1)]
    by (simp add: w merge_snapshot_def snapshot_of_def snapshot_payload_def value_at_merge_counters)
  moreover have "value_at (mg_hists ?m) n k = fold_value hist_merge (value_at (mg_hists m) n k)
      (case histograms.value_opt (B n) (concat (map (values_of n k) es)) of None \<Rightarrow> [] | Some v \<Rightarrow> [v])"
    using c rows_of_series [OF ok(2)]
    by (simp add: w merge_snapshot_def snapshot_of_def snapshot_payload_def hist_rows_def [symmetric] value_at_merge_histograms [OF counted_readable [OF es]])
  moreover have "mg_in_flight ?m = mg_in_flight m + ga_in_flight g"
    by (simp add: w merge_snapshot_def snapshot_of_def snapshot_payload_def)
  moreover have "pool_value (mg_pools ?m) p = pool_value (mg_pools m) p + pool_value (ga_pools g) p"
    using Cons.prems(2) by (simp add: w merge_snapshot_def snapshot_of_def snapshot_payload_def pool_value_merge)
  ultimately show ?case using Cons.IH [OF rest Cons.prems(2), of ?m] by (simp add: w)
qed simp

definition all_events :: "(nat \<times> worker) list \<Rightarrow> metric_event list" where
  "all_events ws = concat (map (\<lambda>(pid, g, es). es) ws)"

text \<open>The merge of snapshots is the store of one worker that counted everything.\<close>

lemma merge_is_one_worker:
  assumes "\<forall>(pid, g, es) \<in> set ws. list_all (event_ok B) es" and "m = merge_snapshots (map snapshot_of ws)"
  shows "value_at (mg_counters m) n k = value_at (ms_counters (counted (all_events ws))) n k
    \<and> value_at (mg_hists m) n k = value_at (ms_hists (counted (all_events ws))) n k
    \<and> mg_in_flight m = sum_list (map (\<lambda>(pid, g, es). ga_in_flight g) ws)
    \<and> (p \<in> set tool_pool_labels \<longrightarrow> pool_value (mg_pools m) p = sum_list (map (\<lambda>(pid, g, es). pool_value (ga_pools g) p) ws))"
proof -
  have all: "list_all (event_ok B) (all_events ws)"
    using assms(1) by (auto simp: all_events_def list_all_iff)
  have a: "concat (map (f n k) (all_events ws)) = concat (map (\<lambda>(pid, g, es). concat (map (f n k) es)) ws)"
    for f :: "ustr \<Rightarrow> labels \<Rightarrow> metric_event \<Rightarrow> rat list" by (induction ws) (auto simp: all_events_def)
  have empty: "value_at (mg_counters nothing_merged) n k = None" "value_at (mg_hists nothing_merged) n k = None" "mg_in_flight nothing_merged = 0"
    "q \<in> set tool_pool_labels \<Longrightarrow> pool_value (mg_pools nothing_merged) q = 0" for q
    by (auto simp: nothing_merged_def value_at_def series_of_def pool_value_def empty_tool_pool_gauges_def tool_pool_labels_def)
  obtain q where q: "q \<in> set tool_pool_labels" by (auto simp: tool_pool_labels_def)
  note m = merged_from [OF assms(1), of _ nothing_merged n k, folded merge_snapshots_def, folded assms(2), unfolded empty]
  show ?thesis
    using m [OF q] m [of p] empty(4) counted_values [OF all, of n k]
    by (simp add: counters.fold_all histograms.fold_all a [of amounts_of] a [of values_of] del: map_map)
qed

section \<open>A scrape\<close>

lemma starts_with_append [simp]: "starts_with p (p @ r)"
  by (simp add: starts_with_iff)

lemma pid_from_snapshot_name [simp]: "pid_from_name (snapshot_name pid) = Some pid"
proof -
  have l: "length (asc ''cs-'') = 3" "length (asc ''.json'') = 5" by (simp_all add: asc_def)
  have "starts_with (rev (asc ''.json'')) (rev (snapshot_name pid))" by (simp add: snapshot_name_def)
  moreover have "take (length (snapshot_name pid) - 8) (drop 3 (snapshot_name pid)) = show_nat pid"
    using l by (simp add: snapshot_name_def)
  moreover have "list_all is_digit_char (show_nat pid)"
    using show_nat_digits by (auto simp: list_all_iff is_digit_char_def)
  ultimately show ?thesis by (simp add: pid_from_name_def Let_def) (simp add: snapshot_name_def)
qed

lemma snapshot_name_file [simp]: "snapshot_file (snapshot_name pid)"
proof -
  have l: "length (asc ''cs-'') = 3" "length (asc ''.json'') = 5" by (simp_all add: asc_def)
  have "starts_with (rev (asc ''.json'')) (rev (snapshot_name pid))" by (simp add: snapshot_name_def)
  with l show ?thesis by (simp add: snapshot_file_def) (simp add: snapshot_name_def)
qed

lemma snapshot_name_inj [simp]: "snapshot_name p = snapshot_name q \<longleftrightarrow> p = q"
  by (simp add: snapshot_name_def)

definition dir_of :: "(nat \<times> worker) list \<Rightarrow> metrics_dir" where
  "dir_of ws = map (\<lambda>w. (snapshot_name (fst w), snapshot_of w)) ws"

definition living :: "(nat \<Rightarrow> bool) \<Rightarrow> (nat \<times> worker) list \<Rightarrow> (nat \<times> worker) list" where
  "living os ws = filter (\<lambda>w. pid_alive os (fst w)) ws"

text \<open>The store of a worker holds exactly what it counted, flushed or not.\<close>

definition holds_counts :: "metric_store \<Rightarrow> metric_event list \<Rightarrow> bool" where
  "holds_counts st es \<longleftrightarrow> ms_counters st = ms_counters (counted es) \<and> ms_hists st = ms_hists (counted es)"

lemma holds_counts_start: "holds_counts reset_metrics []"
  by (simp add: holds_counts_def counted_def)

lemma flush_keeps_counts:
  "flush_snapshot force now pid g ok st dir = (st', dir') \<Longrightarrow> ms_counters st' = ms_counters st \<and> ms_hists st' = ms_hists st"
  by (auto simp: flush_snapshot_def split: option.splits if_splits)

lemma count_event_holds:
  assumes "holds_counts st es" and "count_event e now pid g ok st dir = (st', dir')"
  shows "holds_counts st' (es @ [e])"
  using flush_keeps_counts [OF assms(2) [unfolded count_event_def]] assms(1)
  by (cases e) (simp_all add: holds_counts_def counted_append)

lemma payload_holds: "holds_counts st es \<Longrightarrow> Some (snapshot_payload pid g st) = snapshot_of (pid, g, es)"
  by (simp add: holds_counts_def snapshot_of_def snapshot_payload_def)

lemma dir_of_update:
  "AList.update (snapshot_name pid) (snapshot_of (pid, w)) (dir_of ws) = dir_of (AList.update pid w ws)"
  by (induction ws) (auto simp: dir_of_def)

lemma cleanup_dir_of: "cleanup_dead_pid_files os (dir_of ws) = dir_of (living os ws)"
  by (induction ws) (auto simp: cleanup_dead_pid_files_def dict_filter_def dir_of_def living_def live_file_def)

lemma filter_dir_of: "filter (\<lambda>(name, _). snapshot_file name) (dir_of ws) = dir_of ws"
  by (induction ws) (auto simp: dir_of_def)

lemma scrape_result:
  assumes st: "holds_counts st es"
    and run: "collect_multiprocess os now pid g True st (Some (dir_of ws)) = (res, st', dir')"
  defines "ws' \<equiv> living os (AList.update pid (g, es) ws)"
  shows "dir' = Some (dir_of ws') \<and> res = (if ws' = [] then None else Some (merge_snapshots (map snapshot_of ws')))"
proof -
  have d: "AList.update (snapshot_name pid) (Some (snapshot_payload pid g st)) (dir_of ws) = dir_of (AList.update pid (g, es) ws)"
    unfolding payload_holds [OF st] by (rule dir_of_update)
  have e: "map snd (dir_of x) = map snapshot_of x" "dir_of x = [] \<longleftrightarrow> x = []" for x by (simp_all add: dir_of_def comp_def)
  show ?thesis
    using run by (cases "ws' = []") (auto simp: collect_multiprocess_def flush_snapshot_def d cleanup_dir_of filter_dir_of ws'_def [symmetric] Let_def e)
qed

lemma living_self: "pid_alive os pid \<Longrightarrow> living os (AList.update pid w ws) \<noteq> []"
  by (induction ws) (auto simp: living_def)

text \<open>
  C39: A scrape of a living worker answers with what one single worker would have counted that had
  seen the events of all living workers: every counter and every histogram, whatever order and
  whatever labels; the gauges are the sums over the living workers, and the directory is left with
  their snapshots only. Workers that died no longer count.
\<close>

theorem scrape_counts_living_workers:
  assumes st: "holds_counts st es" and alive: "pid_alive os pid"
    and ok: "list_all (event_ok B) es" "\<forall>(pid, g, es) \<in> set ws. list_all (event_ok B) es"
    and run: "collect_multiprocess os now pid g True st (Some (dir_of ws)) = (res, st', dir')"
    and ws': "ws' = living os (AList.update pid (g, es) ws)"
  shows "dir' = Some (dir_of ws') \<and> (\<exists>m. res = Some m
    \<and> (\<forall>n k. value_at (mg_counters m) n k = value_at (ms_counters (counted (all_events ws'))) n k
        \<and> value_at (mg_hists m) n k = value_at (ms_hists (counted (all_events ws'))) n k)
    \<and> mg_in_flight m = sum_list (map (\<lambda>(pid, g, es). ga_in_flight g) ws')
    \<and> (\<forall>p \<in> set tool_pool_labels. pool_value (mg_pools m) p = sum_list (map (\<lambda>(pid, g, es). pool_value (ga_pools g) p) ws')))"
proof -
  have "\<forall>(pid, g, es) \<in> set ws'. list_all (event_ok B) es"
    using ok set_update_subset [of pid "(g, es)" ws] by (auto simp: ws' living_def)
  from merge_is_one_worker [OF this refl] scrape_result [OF st run] living_self [OF alive, of "(g, es)" ws]
  show ?thesis by (simp add: ws')
qed

definition no_gauges :: gauges where
  "no_gauges = \<lparr>ga_in_flight = 1, ga_pools = []\<rparr>"

theorem scrape_counts_living_workers_witness:
  "\<exists>m. fst (collect_multiprocess (\<lambda>p. p \<noteq> 9) 1 7 no_gauges True (counted [Inc (asc ''a'') 1 []])
      (Some (dir_of [(8, no_gauges, [Inc (asc ''a'') 2 []]), (9, no_gauges, [Inc (asc ''a'') 4 []])]))) = Some m
    \<and> value_at (mg_counters m) (asc ''a'') [] = Some 3 \<and> mg_in_flight m = 2"
proof -
  let ?ws = "[(8, no_gauges, [Inc (asc ''a'') 2 []]), (9, no_gauges, [Inc (asc ''a'') 4 []])]"
  obtain res st' dir' where run: "collect_multiprocess (\<lambda>p. p \<noteq> 9) 1 7 no_gauges True (counted [Inc (asc ''a'') 1 []]) (Some (dir_of ?ws)) = (res, st', dir')"
    using prod_cases3 by blast
  have ws': "living (\<lambda>p. p \<noteq> 9) (AList.update 7 (no_gauges, [Inc (asc ''a'') 1 []]) ?ws) = [(8, no_gauges, [Inc (asc ''a'') 2 []]), (7, no_gauges, [Inc (asc ''a'') 1 []])]"
    by (simp add: living_def pid_alive_def)
  have "value_at (ms_counters (counted [Inc (asc ''a'') 2 [], Inc (asc ''a'') 1 []])) (asc ''a'') [] = Some 3"
    by (simp add: counted_def reset_metrics_def add_counter_def label_key_def set_value_def series_of_def value_at_def Let_def)
  with scrape_counts_living_workers [OF _ _ _ _ run ws' [symmetric], where B = "\<lambda>_. []"] run
  show ?thesis by (auto simp: holds_counts_def pid_alive_def all_events_def no_gauges_def)
qed

section \<open>Instruments\<close>

definition known :: "ustr list \<Rightarrow> ustr \<Rightarrow> ustr \<Rightarrow> ustr" where
  "known allowed fallback s = (if s \<in> set allowed then s else fallback)"

definition tool_order_outcomes :: "ustr list" where
  "tool_order_outcomes = [(asc ''ok''), (asc ''not_found''), (asc ''deny''), (asc ''timeout''), (asc ''busy''), (asc ''error'')]"

definition runaway_reasons :: "ustr list" where
  "runaway_reasons = [(asc ''high_llm_calls''), (asc ''react_limit'')]"

definition escalation_reasons :: "ustr list" where
  "escalation_reasons = [(asc ''transient_exhausted''), (asc ''react_limit'')]"

definition tool_cache_sources :: "ustr list" where
  "tool_cache_sources = [(asc ''session''), (asc ''redis'')]"

definition chat_busy_reasons :: "ustr list" where
  "chat_busy_reasons = [(asc ''cluster''), (asc ''tenant'')]"

definition duration_buckets :: "bound list" where
  "duration_buckets = [Upto (5/100), Upto (1/10), Upto (1/4), Upto (1/2), Upto 1, Upto (5/2), Upto 5, Upto 10, Upto 30, Inf]"

definition llm_calls_buckets :: "bound list" where
  "llm_calls_buckets = [Upto 1, Upto 2, Upto 3, Upto 4, Upto 5, Upto 8, Upto 12, Upto 20, Inf]"

definition queue_buckets :: "bound list" where
  "queue_buckets = [Upto (1/1000), Upto (5/1000), Upto (1/100), Upto (5/100), Upto (1/10), Upto (1/4), Upto (1/2), Upto 1, Upto (5/2), Inf]"

text \<open>What every function of \<open>instruments.py\<close> counts, in order.\<close>

definition inc_http :: "ustr \<Rightarrow> ustr \<Rightarrow> int \<Rightarrow> metric_event list" where
  "inc_http verb path st = [Inc (asc ''cs_http_requests_total'') 1 [((asc ''method''), verb), ((asc ''path''), path), ((asc ''status''), show_int st)]]"

definition observe_http :: "ustr \<Rightarrow> ustr \<Rightarrow> int \<Rightarrow> rat \<Rightarrow> metric_event list" where
  "observe_http verb path st elapsed =
     [Observe (asc ''cs_http_duration_seconds'') elapsed duration_buckets [((asc ''method''), verb), ((asc ''path''), path), ((asc ''status''), show_int st)]]"

definition inc_chat :: "ustr \<Rightarrow> ustr \<Rightarrow> bool \<Rightarrow> ustr \<Rightarrow> metric_event list" where
  "inc_chat tenant intent blocked outcome =
     [Inc (asc ''cs_chat_requests_total'') 1 [((asc ''tenant''), tenant), ((asc ''intent''), or_str intent (asc ''unknown'')),
        ((asc ''blocked''), if blocked then (asc ''true'') else (asc ''false'')), ((asc ''outcome''), outcome)]]"

definition observe_chat :: "ustr \<Rightarrow> rat \<Rightarrow> metric_event list" where
  "observe_chat intent elapsed = [Observe (asc ''cs_chat_duration_seconds'') elapsed duration_buckets [((asc ''intent''), or_str intent (asc ''unknown''))]]"

definition observe_node :: "ustr \<Rightarrow> rat \<Rightarrow> metric_event list" where
  "observe_node node elapsed = [Observe (asc ''cs_node_duration_seconds'') elapsed duration_buckets [((asc ''node''), or_str node (asc ''unknown''))]]"

definition observe_ttft :: "ustr \<Rightarrow> rat \<Rightarrow> metric_event list" where
  "observe_ttft intent elapsed = [Observe (asc ''cs_ttft_seconds'') elapsed duration_buckets [((asc ''intent''), or_str intent (asc ''unknown''))]]"

definition observe_llm_calls :: "ustr \<Rightarrow> int \<Rightarrow> metric_event list" where
  "observe_llm_calls intent calls =
     [Observe (asc ''cs_llm_calls_per_turn'') (of_int (max 0 calls)) llm_calls_buckets [((asc ''intent''), or_str intent (asc ''unknown''))]]"

definition inc_react_limit_hit :: "metric_event list" where
  "inc_react_limit_hit = [Inc (asc ''cs_react_limit_hit_total'') 1 []]"

definition inc_tool_cache_hit :: "ustr \<Rightarrow> ustr \<Rightarrow> metric_event list" where
  "inc_tool_cache_hit tool source =
     [Inc (asc ''cs_tool_cache_hit_total'') 1 [((asc ''tool''), or_str tool (asc ''unknown'')), ((asc ''source''), known tool_cache_sources (asc ''redis'') source)]]"

definition inc_tool_escalation :: "ustr \<Rightarrow> metric_event list" where
  "inc_tool_escalation reason = [Inc (asc ''cs_tool_escalation_total'') 1 [((asc ''reason''), known escalation_reasons (asc ''transient_exhausted'') reason)]]"

definition inc_user_feedback :: "ustr \<Rightarrow> metric_event list" where
  "inc_user_feedback v = [Inc (asc ''cs_user_feedback_total'') 1 [((asc ''value''), known [(asc ''up''), (asc ''down'')] (asc ''down'') v)]]"

definition inc_tool_call :: "ustr \<Rightarrow> ustr \<Rightarrow> ustr \<Rightarrow> metric_event list" where
  "inc_tool_call tool outcome tenant =
     [Inc (asc ''cs_tool_calls_total'') 1 [((asc ''tool''), or_str tool (asc ''unknown'')), ((asc ''outcome''), known tool_order_outcomes (asc ''error'') outcome),
        ((asc ''tenant''), or_str tenant (asc ''demo''))]]"

definition inc_agent_runaway :: "ustr \<Rightarrow> metric_event list" where
  "inc_agent_runaway reason = [Inc (asc ''cs_agent_runaway_total'') 1 [((asc ''reason''), known runaway_reasons (asc ''high_llm_calls'') reason)]]"

definition maybe_inc_runaway_llm_calls :: "int \<Rightarrow> int \<Rightarrow> metric_event list" where
  "maybe_inc_runaway_llm_calls threshold calls = (if threshold > 0 \<and> calls > threshold then inc_agent_runaway (asc ''high_llm_calls'') else [])"

definition inc_chat_busy :: "ustr \<Rightarrow> metric_event list" where
  "inc_chat_busy reason = [Inc (asc ''cs_chat_busy_total'') 1 [((asc ''reason''), known chat_busy_reasons (asc ''cluster'') reason)]]"

definition inc_session_busy :: "metric_event list" where
  "inc_session_busy = [Inc (asc ''cs_session_busy_total'') 1 []]"

definition inc_tool_pool_rejected :: "ustr \<Rightarrow> metric_event list" where
  "inc_tool_pool_rejected pool = [Inc (asc ''cs_tool_pool_rejected_total'') 1 [((asc ''pool''), known tool_pool_labels (asc ''unknown'') pool)]]"

definition observe_tool_pool_queue :: "ustr \<Rightarrow> rat \<Rightarrow> metric_event list" where
  "observe_tool_pool_queue pool duration =
     [Observe (asc ''cs_tool_pool_queue_seconds'') (max 0 duration) queue_buckets [((asc ''pool''), known tool_pool_labels (asc ''unknown'') pool)]]"

definition estimate_llm_cost_yuan :: "rat \<Rightarrow> rat \<Rightarrow> int \<Rightarrow> int \<Rightarrow> rat" where
  "estimate_llm_cost_yuan prompt_price completion_price prompt completion =
     of_int (max 0 prompt) * prompt_price / 1000000 + of_int (max 0 completion) * completion_price / 1000000"

definition inc_llm :: "rat \<Rightarrow> rat \<Rightarrow> ustr \<Rightarrow> ustr \<Rightarrow> bool \<Rightarrow> int \<Rightarrow> int \<Rightarrow> int \<Rightarrow> rat \<Rightarrow> metric_event list" where
  "inc_llm prompt_price completion_price tenant tag cache_hit tokens prompt_tokens completion_tokens elapsed =
     (let hit = (if cache_hit then (asc ''true'') else (asc ''false''));
          prompt0 = max 0 prompt_tokens; completion = max 0 completion_tokens;
          prompt = (if \<not> cache_hit \<and> prompt0 = 0 \<and> completion = 0 \<and> tokens \<noteq> 0 then max 0 tokens else prompt0);
          cost = estimate_llm_cost_yuan prompt_price completion_price prompt completion;
          token_event = (\<lambda>n direction. if n \<noteq> 0 then [Inc (asc ''cs_llm_tokens_total'') (of_int n) [((asc ''tenant''), tenant), ((asc ''tag''), tag), ((asc ''direction''), direction)]] else [])
      in [Inc (asc ''cs_llm_requests_total'') 1 [((asc ''tenant''), tenant), ((asc ''tag''), tag), ((asc ''cache_hit''), hit)]] @
         (if cache_hit then [] else token_event prompt (asc ''prompt'') @ token_event completion (asc ''completion'') @
            (if cost > 0 then [Inc (asc ''cs_llm_cost_yuan_total'') cost [((asc ''tenant''), tenant), ((asc ''tag''), tag)]] else [])) @
         [Observe (asc ''cs_llm_duration_seconds'') elapsed duration_buckets [((asc ''tag''), tag), ((asc ''cache_hit''), hit)]])"

definition inc_llm_error :: "ustr \<Rightarrow> ustr \<Rightarrow> metric_event list" where
  "inc_llm_error tag error_class = [Inc (asc ''cs_llm_errors_total'') 1 [((asc ''tag''), tag), ((asc ''error_class''), error_class)]]"

definition inc_llm_circuit :: "ustr \<Rightarrow> metric_event list" where
  "inc_llm_circuit ev = [Inc (asc ''cs_llm_circuit_total'') 1 [((asc ''event''), known [(asc ''open''), (asc ''reject'')] (asc ''reject'') ev)]]"

definition inc_rag_empty :: "ustr \<Rightarrow> ustr \<Rightarrow> metric_event list" where
  "inc_rag_empty tenant reason = [Inc (asc ''cs_rag_empty_total'') 1 [((asc ''tenant''), tenant), ((asc ''reason''), reason)]]"

definition inc_rag_route_upgrade :: "ustr \<Rightarrow> metric_event list" where
  "inc_rag_route_upgrade tenant = [Inc (asc ''cs_rag_route_upgrade_total'') 1 [((asc ''tenant''), tenant)]]"

definition inc_order_access_deny :: "ustr \<Rightarrow> ustr \<Rightarrow> ustr \<Rightarrow> metric_event list" where
  "inc_order_access_deny tenant reason ctx =
     [Inc (asc ''cs_order_access_deny_total'') 1 [((asc ''tenant''), tenant), ((asc ''reason''), reason), ((asc ''context''), ctx)]]"

text \<open>Every histogram has one set of bounds, so the merge never meets two.\<close>

definition metric_bounds :: "ustr \<Rightarrow> bound list" where
  "metric_bounds name = (if name = (asc ''cs_llm_calls_per_turn'') then llm_calls_buckets
     else if name = (asc ''cs_tool_pool_queue_seconds'') then queue_buckets else duration_buckets)"

lemma buckets_nonempty [simp]: "duration_buckets \<noteq> []" "llm_calls_buckets \<noteq> []" "queue_buckets \<noteq> []"
  by (simp_all add: duration_buckets_def llm_calls_buckets_def queue_buckets_def)

lemma instruments_keep_bounds:
  "list_all (event_ok metric_bounds) (observe_http m p s e)" "list_all (event_ok metric_bounds) (observe_chat i e)"
  "list_all (event_ok metric_bounds) (observe_node i e)" "list_all (event_ok metric_bounds) (observe_ttft i e)"
  "list_all (event_ok metric_bounds) (observe_llm_calls i n)" "list_all (event_ok metric_bounds) (observe_tool_pool_queue i e)"
  "list_all (event_ok metric_bounds) (inc_llm pp cp t g h n1 n2 n3 e)"
  by (simp_all add: observe_http_def observe_chat_def observe_node_def observe_ttft_def observe_llm_calls_def observe_tool_pool_queue_def
      inc_llm_def Let_def metric_bounds_def)

text \<open>A cached answer costs nothing; a call without a breakdown counts all its tokens as prompt.\<close>

lemma cached_call_costs_nothing:
  "cs \<in> {(asc ''cs_llm_tokens_total''), (asc ''cs_llm_cost_yuan_total'')} \<Longrightarrow> concat (map (amounts_of cs k) (inc_llm pp cp t g True n p c e)) = []"
  by (auto simp: inc_llm_def Let_def)

lemma llm_tokens_counted:
  assumes "0 \<le> p" and "0 \<le> c" and "0 \<le> n"
  shows "sum_list (concat (map (\<lambda>d. concat (map (amounts_of (asc ''cs_llm_tokens_total'') (label_key [((asc ''tenant''), t), ((asc ''tag''), g), ((asc ''direction''), d)])) (inc_llm pp cp t g False n p c e)))
      [(asc ''prompt''), (asc ''completion'')])) = of_int (if p = 0 \<and> c = 0 then n else p + c)"
proof -
  have "label_key [((asc ''tenant''), t), ((asc ''tag''), g), ((asc ''direction''), d)] = [((asc ''direction''), d), ((asc ''tag''), g), ((asc ''tenant''), t)]" for d
    by (simp add: label_key_def asc_def)
  with assms show ?thesis by (auto simp: inc_llm_def Let_def)
qed

section \<open>The text of a scrape\<close>

definition metric_help :: "(ustr \<times> ustr) list" where
  "metric_help = [((asc ''cs_http_requests_total''), (asc ''HTTP '' @ [0x8BF7, 0x6C42, 0x6570]) \<comment> \<open>HTTP requests\<close>),
     ((asc ''cs_http_duration_seconds''), (asc ''HTTP '' @ [0x5904, 0x7406, 0x8017, 0x65F6, 0xFF08] @ asc ''SSE '' @ [0x4E3A, 0x5230, 0x9996, 0x5305, 0xFF0C, 0x975E, 0x9996] @ asc '' token'' @ [0xFF09]) \<comment> \<open>HTTP latency to the first byte\<close>),
     ((asc ''cs_chat_requests_total''), [0x5BF9, 0x8BDD, 0x8F6E, 0x6B21, 0x6570] \<comment> \<open>turns\<close>),
     ((asc ''cs_chat_duration_seconds''), [0x6574, 0x8F6E, 0x5BF9, 0x8BDD, 0x56FE, 0x8017, 0x65F6] \<comment> \<open>time of a turn\<close>),
     ((asc ''cs_chat_busy_total''), ([0x5BF9, 0x8BDD, 0x5E76, 0x53D1, 0x6253, 0x6EE1, 0x6B21, 0x6570, 0xFF08] @ asc ''HTTP 429'' @ [0xFF1B] @ asc ''reason=cluster|tenant'' @ [0xFF09]) \<comment> \<open>turns rejected for slots\<close>),
     ((asc ''cs_session_busy_total''), ([0x540C, 0x4E00, 0x4F1A, 0x8BDD, 0x9501, 0x51B2, 0x7A81, 0x6B21, 0x6570, 0xFF08] @ asc ''HTTP 409'' @ [0xFF09]) \<comment> \<open>session lock conflicts\<close>),
     ((asc ''cs_llm_requests_total''), (asc ''LLM Gateway '' @ [0x8C03, 0x7528, 0x6B21, 0x6570]) \<comment> \<open>model calls\<close>),
     ((asc ''cs_llm_tokens_total''), (asc ''LLM token '' @ [0x7D2F, 0x8BA1, 0xFF08, 0x6309] @ asc '' direction=prompt|completion '' @ [0x5206, 0x5217, 0xFF09]) \<comment> \<open>tokens\<close>),
     ((asc ''cs_llm_cost_yuan_total''), (asc ''LLM '' @ [0x4F30, 0x7B97, 0x6210, 0x672C, 0x7D2F, 0x8BA1, 0xFF08, 0x5143, 0xFF0C, 0x6309, 0x914D, 0x7F6E, 0x5355, 0x4EF7, 0xFF09]) \<comment> \<open>estimated cost\<close>),
     ((asc ''cs_llm_duration_seconds''), (asc ''LLM '' @ [0x8C03, 0x7528, 0x8017, 0x65F6]) \<comment> \<open>model latency\<close>),
     ((asc ''cs_llm_errors_total''), (asc ''LLM '' @ [0x8C03, 0x7528, 0x5931, 0x8D25, 0x6B21, 0x6570]) \<comment> \<open>model failures\<close>),
     ((asc ''cs_llm_circuit_total''), (asc ''LLM '' @ [0x7194, 0x65AD, 0x4E8B, 0x4EF6, 0xFF08] @ asc ''event=open|reject'' @ [0xFF09]) \<comment> \<open>breaker events\<close>),
     ((asc ''cs_rag_empty_total''), [0x8BFE, 0x7A0B, 0x68C0, 0x7D22, 0x7A7A, 0x53EC, 0x56DE, 0x6B21, 0x6570, 0xFF08, 0x542B, 0x4F4E, 0x5206, 0x62D2, 0x7B54, 0xFF09] \<comment> \<open>empty retrievals\<close>),
     ((asc ''cs_rag_route_upgrade_total''), (asc ''RAG '' @ [0x7A7A, 0x53EC, 0x56DE, 0x4E14, 0x95EE, 0x53E5, 0x542B, 0x8BA2, 0x5355, 0x4FE1, 0x53F7, 0x3001, 0x5347, 0x7EA7, 0x5230] @ asc '' ReACT '' @ [0x7684, 0x6B21, 0x6570]) \<comment> \<open>upgrades to ReACT\<close>),
     ((asc ''cs_order_access_deny_total''), [0x8BA2, 0x5355, 0x6743, 0x9650, 0x62D2, 0x7EDD, 0x6B21, 0x6570, 0xFF08, 0x6309, 0x539F, 0x56E0, 43, 0x4E0A, 0x4E0B, 0x6587, 43, 0x79DF, 0x6237, 0x5206, 0x6876, 0xFF09] \<comment> \<open>denied orders\<close>),
     ((asc ''cs_tool_calls_total''), ([0x5DE5, 0x5177, 0x8C03, 0x7528, 0x6B21, 0x6570, 0xFF08, 0x6309] @ asc '' tool+outcome'' @ [0xFF1B] @ asc ''order_query / course_retrieve'' @ [0xFF1B] @ asc ''outcome=ok|not_found|deny|timeout|busy|error'' @ [0xFF09]) \<comment> \<open>tool calls\<close>),
     ((asc ''cs_tool_pool_rejected_total''), ([0x5DE5, 0x5177, 0x7EBF, 0x7A0B, 0x6C60, 0x80CC, 0x538B, 0x62D2, 0x7EDD, 0x6B21, 0x6570, 0xFF08] @ asc ''pool=order|course'' @ [0xFF09]) \<comment> \<open>pool rejections\<close>),
     ((asc ''cs_tool_pool_queue_seconds''), ([0x5DE5, 0x5177, 0x7EBF, 0x7A0B, 0x6C60] @ asc '' submit '' @ [0x524D, 0x7684, 0x6392, 0x961F, 0x7B49, 0x5F85, 0x8017, 0x65F6, 0xFF08] @ asc ''pool=order|course'' @ [0xFF09]) \<comment> \<open>waiting for the pool\<close>),
     ((asc ''cs_tool_pool_in_flight''), ([0x5DE5, 0x5177, 0x7EBF, 0x7A0B, 0x6C60, 0x5F53, 0x524D, 0x5360, 0x7528] @ asc '' + '' @ [0x6392, 0x961F, 0x69FD, 0x6570, 0xFF08] @ asc ''pool=order|course'' @ [0xFF09]) \<comment> \<open>pool slots in use\<close>),
     ((asc ''cs_agent_runaway_total''), (asc ''Agent '' @ [0x8DD1, 0x98DE, 0x6B21, 0x6570, 0xFF08] @ asc ''high_llm_calls / react_limit'' @ [0xFF09]) \<comment> \<open>runaway agents\<close>),
     ((asc ''cs_chat_in_flight''), ([0x5F53, 0x524D, 0x5360, 0x7528, 0x7684, 0x5BF9, 0x8BDD, 0x5E76, 0x53D1, 0x69FD, 0xFF08, 0x6709] @ asc '' Redis '' @ [0x65F6, 0x4E3A, 0x96C6, 0x7FA4, 0x5408, 0x8BA1, 0xFF09]) \<comment> \<open>chat slots in use\<close>),
     ((asc ''cs_node_duration_seconds''), (asc ''LangGraph '' @ [0x8282, 0x70B9, 0x8017, 0x65F6]) \<comment> \<open>time of a node\<close>),
     ((asc ''cs_ttft_seconds''), ([0x5BF9, 0x8BDD, 0x5F00, 0x59CB, 0x5230, 0x9996, 0x6761] @ asc '' SSE token '' @ [0x7684, 0x7B49, 0x5F85]) \<comment> \<open>time to the first token\<close>),
     ((asc ''cs_llm_calls_per_turn''), ([0x6BCF, 0x8F6E, 0x5BF9, 0x8BDD] @ asc '' LLM '' @ [0x8C03, 0x7528, 0x6B21, 0x6570, 0xFF08, 0x542B] @ asc '' cache hit'' @ [0xFF09]) \<comment> \<open>model calls of a turn\<close>),
     ((asc ''cs_react_limit_hit_total''), (asc ''ReACT '' @ [0x5DE5, 0x5177, 0x8C03, 0x7528, 0x649E] @ asc '' run_limit '' @ [0x6B21, 0x6570]) \<comment> \<open>ReACT limit hits\<close>),
     ((asc ''cs_tool_cache_hit_total''), ([0x5DE5, 0x5177, 0x5931, 0x8D25, 0x7F13, 0x5B58, 0x56DE, 0x9000, 0x6B21, 0x6570, 0xFF08] @ asc ''tool+source=session|redis'' @ [0xFF09]) \<comment> \<open>fallbacks to the cache\<close>),
     ((asc ''cs_tool_escalation_total''), ([0x5DE5, 0x5177, 0x5931, 0x8D25, 0x81EA, 0x52A8, 0x8F6C, 0x4EBA, 0x5DE5, 0x6B21, 0x6570, 0xFF08] @ asc ''reason=transient_exhausted|react_limit'' @ [0xFF09]) \<comment> \<open>automatic hand-overs\<close>),
     ((asc ''cs_user_feedback_total''), ([0x7528, 0x6237, 0x8D5E, 0x8E29, 0x6B21, 0x6570, 0xFF08] @ asc ''value=up|down'' @ [0xFF09]) \<comment> \<open>user feedback\<close>)]"

definition help_of :: "ustr \<Rightarrow> ustr" where
  "help_of name = (case map_of metric_help name of None \<Rightarrow> name | Some h \<Rightarrow> h)"

text \<open>\<open>str.replace\<close> of one character.\<close>

definition replace_by :: "nat \<Rightarrow> ustr \<Rightarrow> ustr \<Rightarrow> ustr" where
  "replace_by c new s = concat (map (\<lambda>x. if x = c then new else [x]) s)"

definition esc :: "ustr \<Rightarrow> ustr" where
  "esc v = replace_by 34 [92, 34] (replace_by 10 [92, 110] (replace_by 92 [92, 92] v))"

definition format_labels :: "labels \<Rightarrow> ustr" where
  "format_labels ls = (if ls = [] then [] else [123] @ join [44] (map (\<lambda>(k, v). k @ [61, 34] @ esc v @ [34]) ls) @ [125])"

text \<open>The format \<open>:.6f\<close>.\<close>

definition format_6f :: "rat \<Rightarrow> ustr" where
  "format_6f x =
     (let n = nat (round_even (abs x * 1000000)); frac = show_nat (n mod 1000000)
      in (if x < 0 then [45] else []) @ show_nat (n div 1000000) @ [46] @ replicate (6 - length frac) 48 @ frac)"

definition format_counter_value :: "rat \<Rightarrow> ustr" where
  "format_counter_value v = (if abs (v - of_int (round_even v)) < 1 / 1000000000 then show_int (round_even v) else format_6f v)"

definition counter_lines :: "ustr \<Rightarrow> (labels, rat) dict \<Rightarrow> ustr list" where
  "counter_lines name series =
     [(asc ''# HELP '') @ name @ (asc '' '') @ help_of name, (asc ''# TYPE '') @ name @ (asc '' counter'')] @
     map (\<lambda>(ls, v). name @ format_labels ls @ (asc '' '') @ format_counter_value v) (sort_key fst series)"

definition bound_text :: "bound \<Rightarrow> ustr" where
  "bound_text b = (case b of Inf \<Rightarrow> (asc ''+Inf'') | Upto x \<Rightarrow> format_g x)"

definition hist_lines :: "ustr \<Rightarrow> (labels, hist) dict \<Rightarrow> ustr list" where
  "hist_lines name series =
     [(asc ''# HELP '') @ name @ (asc '' '') @ help_of name, (asc ''# TYPE '') @ name @ (asc '' histogram'')] @
     concat (map (\<lambda>(ls, h).
        map (\<lambda>(b, n). name @ (asc ''_bucket'') @ format_labels (label_key (AList.update (asc ''le'') (bound_text b) ls)) @ (asc '' '') @ show_int n) (zip (h_bounds h) (h_buckets h)) @
        [name @ (asc ''_sum'') @ format_labels ls @ (asc '' '') @ format_6f (h_sum h), name @ (asc ''_count'') @ format_labels ls @ (asc '' '') @ show_int (h_count h)])
       (sort_key fst series))"

definition tool_pool_gauge_lines :: "(ustr, int) dict \<Rightarrow> ustr list" where
  "tool_pool_gauge_lines counts =
     [(asc ''# HELP cs_tool_pool_in_flight '') @ help_of (asc ''cs_tool_pool_in_flight''), (asc ''# TYPE cs_tool_pool_in_flight gauge'')] @
     map (\<lambda>pool. (asc ''cs_tool_pool_in_flight{pool='') @ [34] @ pool @ [34] @ (asc ''} '') @ show_int (pool_value counts pool)) (sort tool_pool_labels)"

text \<open>
  \<open>render_prometheus\<close>: \<open>collected\<close> is the answer of \<open>collect_multiprocess\<close>, \<open>slots\<close> the count of a
  shared slot store that can be reached.
\<close>

definition render_prometheus :: "merged option \<Rightarrow> metric_store \<Rightarrow> gauges \<Rightarrow> int option \<Rightarrow> ustr" where
  "render_prometheus collected st g slots =
     (let m = (case collected of Some m \<Rightarrow> m
                | None \<Rightarrow> \<lparr>mg_counters = ms_counters st, mg_hists = ms_hists st, mg_in_flight = ga_in_flight g,
                           mg_pools = local_tool_pool_in_flight (ga_pools g)\<rparr>);
          in_flight = (case slots of Some n \<Rightarrow> n | None \<Rightarrow> mg_in_flight m)
      in join [10] (concat (map (\<lambda>(name, s). counter_lines name s) (sort_key fst (mg_counters m))) @
           concat (map (\<lambda>(name, s). hist_lines name s) (sort_key fst (mg_hists m))) @
           [(asc ''# HELP cs_chat_in_flight '') @ help_of (asc ''cs_chat_in_flight''), (asc ''# TYPE cs_chat_in_flight gauge''), (asc ''cs_chat_in_flight '') @ show_int in_flight] @
           tool_pool_gauge_lines (mg_pools m) @ [[]]))"

text \<open>Escaping is undone by reading the escapes back, so no two values look alike.\<close>

fun unescape :: "ustr \<Rightarrow> ustr" where
  "unescape (c # d # cs) = (if c = 92 then (if d = 110 then 10 else d) # unescape cs else c # unescape (d # cs))"
| "unescape cs = cs"

lemma esc_chars: "esc (c # s) = (if c = 92 then [92, 92] else if c = 10 then [92, 110] else if c = 34 then [92, 34] else [c]) @ esc s" "esc [] = []"
  by (simp_all add: esc_def replace_by_def)

lemma unescape_esc: "unescape (esc s) = s"
proof (induction s)
  case (Cons c s)
  have "c \<noteq> 92 \<Longrightarrow> unescape (c # esc s) = c # unescape (esc s)" by (cases "esc s") simp_all
  with Cons show ?case by (simp add: esc_chars)
qed (simp add: esc_chars)

text \<open>A value inside the quotes holds no line break, and every quote in it is escaped.\<close>

fun quotes_escaped :: "ustr \<Rightarrow> bool" where
  "quotes_escaped [] = True"
| "quotes_escaped (c # cs) = (if c = 92 then (case cs of [] \<Rightarrow> False | d # ds \<Rightarrow> quotes_escaped ds) else c \<noteq> 34 \<and> quotes_escaped cs)"

lemma esc_one_line: "10 \<notin> set (esc s) \<and> quotes_escaped (esc s)"
  by (induction s) (auto simp: esc_chars)

text \<open>No value of a label can add a line to the text of a counter or end its quotes.\<close>

lemma format_labels_one_line: "(\<And>k v. (k, v) \<in> set ls \<Longrightarrow> 10 \<notin> set k) \<Longrightarrow> 10 \<notin> set (format_labels ls)"
  using esc_one_line by (auto simp: format_labels_def dest!: set_join)

end
