(* ===== verification/Evaluation.thy ===== *)
theory Evaluation
  imports Text
begin

text \<open>
  Samples for the evaluation sets: \<open>app/evals/harvest.py\<close> keeps the last turns so that a later
  vote can find its turn, and appends failed cases to pending files without duplicates;
  \<open>app/evals/retrieval_metrics.py\<close> scores a ranking. The digest, the clock and the settings are
  arguments.
\<close>

section \<open>Turn snapshots\<close>

record eval_snapshot =
  es_trace :: ustr
  es_tenant :: ustr
  es_query :: ustr
  es_search_query :: ustr
  es_rag_empty :: bool
  es_sources :: "ustr list"
  es_course_name :: ustr
  es_rewrite_reason :: ustr
  es_intent :: ustr
  es_answer_preview :: ustr
  es_session :: ustr
  es_request :: ustr

text \<open>An ordered dictionary, oldest entry first.\<close>

type_synonym snapshot_cache = "(ustr, rat \<times> eval_snapshot) dict"

definition snapshot_ttl :: "int \<Rightarrow> rat" where
  "snapshot_ttl seconds = of_int (max 60 seconds)"

definition max_snapshots :: nat where
  "max_snapshots = 1000"

definition prune_snapshot_cache :: "int \<Rightarrow> rat \<Rightarrow> snapshot_cache \<Rightarrow> snapshot_cache" where
  "prune_snapshot_cache seconds now cache =
     (let cache = dict_filter (\<lambda>_ (ts, _). \<not> now - ts > snapshot_ttl seconds) cache
      in drop (length cache - max_snapshots) cache)"

definition cache_turn_snapshot :: "int \<Rightarrow> rat \<Rightarrow> eval_snapshot \<Rightarrow> snapshot_cache \<Rightarrow> snapshot_cache" where
  "cache_turn_snapshot seconds now sn cache =
     (let tid = strip (es_trace sn) in
      if tid = [] then cache else prune_snapshot_cache seconds now (AList.delete tid cache @ [(tid, (now, sn))]))"

definition get_turn_snapshot :: "int \<Rightarrow> rat \<Rightarrow> ustr \<Rightarrow> snapshot_cache \<Rightarrow> eval_snapshot option \<times> snapshot_cache" where
  "get_turn_snapshot seconds now trace_id cache =
     (let tid = strip trace_id in
      if tid = [] then (None, cache)
      else case map_of cache tid of
          None \<Rightarrow> (None, cache)
        | Some (ts, sn) \<Rightarrow> if now - ts > snapshot_ttl seconds then (None, AList.delete tid cache) else (Some sn, cache))"

section \<open>Pending cases\<close>

datatype pending_kind = RagCases | FaithfulnessCases

text \<open>A case; a key that is absent is \<open>None\<close>, the other fields of the dictionary are kept in \<open>ec_rest\<close>.\<close>

datatype eval_value = EText ustr | ETexts "ustr list" | EFlag bool

record eval_case =
  ec_id :: "ustr option"
  ec_source :: "ustr option"
  ec_query :: ustr
  ec_tenant :: ustr
  ec_rest :: "(ustr \<times> eval_value) list"

text \<open>
  \<open>json.dumps\<close> leaves U+0085, U+2028 and U+2029 as they are, and \<open>splitlines\<close> breaks lines at them: a
  row with such a character is read back as pieces that are no JSON. The line of a file is a row, such a
  torn row, or a blank or comment.
\<close>

datatype pending_line = Row eval_case | Torn eval_case | Comment

definition line_broken :: "ustr \<Rightarrow> bool" where
  "line_broken s \<longleftrightarrow> list_ex (\<lambda>c. c \<in> {0x85, 0x2028, 0x2029}) s"

fun value_texts :: "eval_value \<Rightarrow> ustr list" where
  "value_texts (EText t) = [t]"
| "value_texts (ETexts ts) = ts"
| "value_texts (EFlag b) = []"

definition case_texts :: "eval_case \<Rightarrow> ustr list" where
  "case_texts c = [str_or_empty (ec_id c), str_or_empty (ec_source c), ec_query c, ec_tenant c] @ concat (map (\<lambda>(k, v). value_texts v) (ec_rest c))"

definition torn :: "eval_case \<Rightarrow> bool" where
  "torn c \<longleftrightarrow> list_ex line_broken (case_texts c)"

record harvest =
  hv_seen :: "ustr list"
  hv_rag :: "pending_line list option"
  hv_faith :: "pending_line list option"

definition pending_file :: "pending_kind \<Rightarrow> harvest \<Rightarrow> pending_line list option" where
  "pending_file kind h = (case kind of RagCases \<Rightarrow> hv_rag h | FaithfulnessCases \<Rightarrow> hv_faith h)"

definition set_pending_file :: "pending_kind \<Rightarrow> pending_line list \<Rightarrow> harvest \<Rightarrow> harvest" where
  "set_pending_file kind ls h = (case kind of RagCases \<Rightarrow> h\<lparr>hv_rag := Some ls\<rparr> | FaithfulnessCases \<Rightarrow> h\<lparr>hv_faith := Some ls\<rparr>)"

definition case_key_text :: "ustr \<Rightarrow> ustr \<Rightarrow> ustr \<Rightarrow> ustr" where
  "case_key_text tenant query reason = tenant @ [124] @ query @ [124] @ reason"

definition dedupe_key :: "(ustr \<Rightarrow> ustr) \<Rightarrow> ustr \<Rightarrow> ustr \<Rightarrow> ustr \<Rightarrow> ustr" where
  "dedupe_key digest tenant query reason = digest (case_key_text tenant query reason)"

definition case_id :: "(ustr \<Rightarrow> ustr) \<Rightarrow> ustr \<Rightarrow> ustr \<Rightarrow> ustr \<Rightarrow> ustr" where
  "case_id digest tenant query reason = (asc ''pending-'') @ take 12 (digest (case_key_text tenant query reason))"

definition new_key :: "(ustr \<Rightarrow> ustr) \<Rightarrow> eval_case \<Rightarrow> ustr" where
  "new_key digest c = dedupe_key digest (or_str (ec_tenant c) (asc ''demo'')) (ec_query c)
     (or_str (or_str (str_or_empty (ec_source c)) (str_or_empty (ec_id c))) (asc ''unknown''))"

definition row_key :: "(ustr \<Rightarrow> ustr) \<Rightarrow> eval_case \<Rightarrow> ustr" where
  "row_key digest c = dedupe_key digest (or_str (ec_tenant c) (asc ''demo'')) (ec_query c)
     (or_str (str_or_empty (ec_source c)) (str_or_empty (ec_id c)))"

fun line_key :: "(ustr \<Rightarrow> ustr) \<Rightarrow> pending_line \<Rightarrow> ustr option" where
  "line_key digest (Row c) = Some (row_key digest c)"
| "line_key digest _ = None"

definition with_id :: "(ustr \<Rightarrow> ustr) \<Rightarrow> eval_case \<Rightarrow> eval_case" where
  "with_id digest c =
     (case ec_id c of
        Some _ \<Rightarrow> c
      | None \<Rightarrow> c\<lparr>ec_id := Some (case_id digest (or_str (ec_tenant c) (asc ''demo'')) (ec_query c)
           (or_str (or_str (str_or_empty (ec_source c)) (str_or_empty (ec_id c))) (asc ''unknown'')))\<rparr>)"

text \<open>The line as it is read back; the digest is hexadecimal.\<close>

definition written_line :: "(ustr \<Rightarrow> ustr) \<Rightarrow> eval_case \<Rightarrow> pending_line" where
  "written_line digest c = (if torn c then Torn (with_id digest c) else Row (with_id digest c))"

definition append_pending :: "bool \<Rightarrow> (ustr \<Rightarrow> ustr) \<Rightarrow> eval_case \<Rightarrow> pending_kind \<Rightarrow> harvest \<Rightarrow> bool \<times> harvest" where
  "append_pending enabled digest c kind h =
     (if \<not> enabled then (False, h)
      else
        let key = new_key digest c; present = (case pending_file kind h of None \<Rightarrow> [] | Some ls \<Rightarrow> ls) in
        if key \<in> set (hv_seen h) then (False, h)
        else if Some key \<in> set (map (line_key digest) present) then (False, h\<lparr>hv_seen := List.insert key (hv_seen h)\<rparr>)
        else (True, set_pending_file kind (present @ [written_line digest c]) (h\<lparr>hv_seen := List.insert key (hv_seen h)\<rparr>)))"

definition record_retrieval_miss ::
  "bool \<Rightarrow> (ustr \<Rightarrow> ustr) \<Rightarrow> ustr \<Rightarrow> ustr \<Rightarrow> ustr \<Rightarrow> ustr \<Rightarrow> ustr \<Rightarrow> ustr \<Rightarrow> harvest \<Rightarrow> bool \<times> harvest" where
  "record_retrieval_miss enabled digest tenant query search_query reason trace_id rewrite_reason h =
     append_pending enabled digest
       \<lparr>ec_id = None, ec_source = Some reason, ec_query = query, ec_tenant = tenant,
        ec_rest = [((asc ''expect_empty''), EFlag True), ((asc ''trace_id''), EText trace_id), ((asc ''search_query''), EText search_query),
          ((asc ''rewrite_reason''), EText rewrite_reason)]\<rparr> RagCases h"

definition down_case :: "eval_snapshot \<Rightarrow> ustr \<Rightarrow> ustr option \<Rightarrow> eval_case" where
  "down_case sn trace_id comment =
     \<lparr>ec_id = None, ec_source = Some (asc ''user_feedback_down''), ec_query = es_query sn, ec_tenant = es_tenant sn,
      ec_rest = (if es_course_name sn = [] then [] else [((asc ''expect_course_contains''), EText (es_course_name sn))]) @
        [((asc ''trace_id''), EText trace_id), ((asc ''search_query''), EText (es_search_query sn)), ((asc ''rewrite_reason''), EText (es_rewrite_reason sn)),
         ((asc ''sources''), ETexts (es_sources sn)), ((asc ''comment''), EText (str_or_empty comment)), ((asc ''rag_empty''), EFlag (es_rag_empty sn))]\<rparr>"

definition record_feedback_down ::
  "bool \<Rightarrow> (ustr \<Rightarrow> ustr) \<Rightarrow> int \<Rightarrow> rat \<Rightarrow> ustr \<Rightarrow> ustr option \<Rightarrow> snapshot_cache \<Rightarrow> harvest \<Rightarrow> bool \<times> snapshot_cache \<times> harvest" where
  "record_feedback_down enabled digest seconds now trace_id comment cache h =
     (case get_turn_snapshot seconds now trace_id cache of
        (None, cache) \<Rightarrow> (False, cache, h)
      | (Some sn, cache) \<Rightarrow>
          (let (written, h) = append_pending enabled digest (down_case sn trace_id comment) FaithfulnessCases h in (written, cache, h)))"

text \<open>\<open>merge_pending\<close>, for one file: the rows move to the end of the evaluation set; \<open>False\<close> only counts them.\<close>

definition pending_rows :: "pending_line list \<Rightarrow> pending_line list" where
  "pending_rows ls = filter (\<lambda>l. l \<noteq> Comment) ls"

definition merge_pending_file :: "bool \<Rightarrow> pending_kind \<Rightarrow> harvest \<Rightarrow> pending_line list \<Rightarrow> nat \<times> harvest \<times> pending_line list" where
  "merge_pending_file apply kind h target_rows =
     (case pending_file kind h of
        None \<Rightarrow> (0, h, target_rows)
      | Some ls \<Rightarrow>
          (let rows = pending_rows ls in
           if rows = [] then (0, h, target_rows)
           else if apply then (length rows, set_pending_file kind [] h, target_rows @ rows)
           else (length rows, h, target_rows)))"

section \<open>Scores of a ranking\<close>

fun unique_loop :: "ustr list \<Rightarrow> ustr list \<Rightarrow> ustr list" where
  "unique_loop ordered [] = ordered"
| "unique_loop ordered (s # ss) = unique_loop (if s \<noteq> [] \<and> s \<notin> set ordered then ordered @ [s] else ordered) ss"

definition unique_preserve_order :: "ustr list \<Rightarrow> ustr list" where
  "unique_preserve_order sources = unique_loop [] sources"

definition hit_at_k :: "ustr list \<Rightarrow> ustr set \<Rightarrow> nat \<Rightarrow> bool" where
  "hit_at_k ranked gold k \<longleftrightarrow> (if gold = {} then True else list_ex (\<lambda>s. s \<in> gold) (take k (unique_preserve_order ranked)))"

definition recall_at_k :: "ustr list \<Rightarrow> ustr set \<Rightarrow> nat \<Rightarrow> rat" where
  "recall_at_k ranked gold k =
     (if gold = {} then 1 else of_nat (card (set (take k (unique_preserve_order ranked)) \<inter> gold)) / of_nat (card gold))"

fun first_rank :: "nat \<Rightarrow> ustr set \<Rightarrow> ustr list \<Rightarrow> rat" where
  "first_rank i gold [] = 0"
| "first_rank i gold (s # ss) = (if s \<in> gold then 1 / of_nat i else first_rank (Suc i) gold ss)"

definition mrr :: "ustr list \<Rightarrow> ustr set \<Rightarrow> rat" where
  "mrr ranked gold = (if gold = {} then 1 else first_rank 1 gold (unique_preserve_order ranked))"

section \<open>The cache of turns is bounded and fresh\<close>

definition cache_ok :: "snapshot_cache \<Rightarrow> bool" where
  "cache_ok cache \<longleftrightarrow> dict_ok cache \<and> length cache \<le> max_snapshots"

lemma dict_ok_snoc: "dict_ok d \<Longrightarrow> dict_ok (AList.delete k d @ [(k, v)])"
  by (auto simp: dict_ok_def AList.delete_eq distinct_map_filter)

lemma dict_ok_drop: "dict_ok d \<Longrightarrow> dict_ok (drop n d)"
  by (simp add: dict_ok_def drop_map [symmetric] distinct_drop)

lemma prune_ok: "dict_ok c \<Longrightarrow> cache_ok (prune_snapshot_cache s now c)"
  unfolding cache_ok_def prune_snapshot_cache_def Let_def by (auto intro!: dict_ok_drop)

lemma prune_fresh: "(t, (ts, sn)) \<in> set (prune_snapshot_cache s now c) \<Longrightarrow> now - ts \<le> snapshot_ttl s"
  by (auto simp: prune_snapshot_cache_def Let_def dict_filter_def dest!: in_set_dropD)

lemma prune_keeps_new:
  assumes "dict_ok (c @ [(t, (now, sn))])"
  shows "map_of (prune_snapshot_cache s now (c @ [(t, (now, sn))])) t = Some (now, sn)"
proof -
  let ?f = "dict_filter (\<lambda>_ (ts, _). \<not> now - ts > snapshot_ttl s)"
  have f: "?f (c @ [(t, (now, sn))]) = ?f c @ [(t, (now, sn))]" by (simp add: dict_filter_def snapshot_ttl_def)
  have "map_of c t = None" using assms by (auto simp: dict_ok_def map_of_eq_None_iff)
  then have "t \<notin> fst ` set (?f c)" by (force simp: map_of_eq_None_iff dict_filter_def)
  then have "map_of (drop n (?f c)) t = None" for n by (auto simp: map_of_eq_None_iff dest: in_set_dropD)
  moreover have "Suc (length (?f c)) - max_snapshots \<le> length (?f c)" by (simp add: max_snapshots_def)
  ultimately show ?thesis
    by (simp add: prune_snapshot_cache_def f Let_def map_add_def)
qed

lemma cache_turn_snapshot_ok: "cache_ok c \<Longrightarrow> cache_ok (cache_turn_snapshot s now sn c)"
  by (auto simp: cache_turn_snapshot_def Let_def cache_ok_def intro!: prune_ok [unfolded cache_ok_def] dict_ok_snoc)

fun cache_turns :: "int \<Rightarrow> (rat \<times> eval_snapshot) list \<Rightarrow> snapshot_cache \<Rightarrow> snapshot_cache" where
  "cache_turns s [] c = c"
| "cache_turns s ((now, sn) # ts) c = cache_turns s ts (cache_turn_snapshot s now sn c)"

lemma cache_turns_ok: "cache_ok c \<Longrightarrow> cache_ok (cache_turns s ts c)"
  by (induction s ts c rule: cache_turns.induct) (simp_all add: cache_turn_snapshot_ok)

text \<open>
  However many turns were stored, the cache is a dictionary of at most a thousand of them; the turn
  stored last is found until its time is over, and afterwards it is gone.
\<close>

lemma feedback_finds_its_turn:
  assumes "cache_ok c" and "strip (es_trace sn) \<noteq> []" and "strip t = strip (es_trace sn)"
  shows "fst (get_turn_snapshot s later t (cache_turn_snapshot s now sn c)) = (if later - now > snapshot_ttl s then None else Some sn)"
proof -
  from assms(1) have "dict_ok c" by (simp add: cache_ok_def)
  from prune_keeps_new [OF dict_ok_snoc [OF this]] assms show ?thesis
    by (simp add: get_turn_snapshot_def cache_turn_snapshot_def Let_def)
qed

section \<open>Pending files hold no case twice\<close>

text \<open>Every caller names a source, so the key of a new case is the key of its row.\<close>

definition sourced :: "eval_case \<Rightarrow> bool" where
  "sourced c \<longleftrightarrow> str_or_empty (ec_source c) \<noteq> []"

lemma row_key_with_id: "sourced c \<Longrightarrow> row_key digest (with_id digest c) = new_key digest c"
  by (auto simp: sourced_def row_key_def new_key_def with_id_def or_str_def split: option.splits)

text \<open>The keys of the rows that were written, torn or not.\<close>

fun held_keys :: "(ustr \<Rightarrow> ustr) \<Rightarrow> pending_line list \<Rightarrow> ustr list" where
  "held_keys digest [] = []"
| "held_keys digest (Row c # ls) = row_key digest c # held_keys digest ls"
| "held_keys digest (Torn c # ls) = row_key digest c # held_keys digest ls"
| "held_keys digest (Comment # ls) = held_keys digest ls"

definition lines_of :: "pending_line list option \<Rightarrow> pending_line list" where
  "lines_of f = (case f of None \<Rightarrow> [] | Some ls \<Rightarrow> ls)"

fun is_torn :: "pending_line \<Rightarrow> bool" where
  "is_torn (Torn c) \<longleftrightarrow> True"
| "is_torn _ \<longleftrightarrow> False"

definition file_ok :: "(ustr \<Rightarrow> ustr) \<Rightarrow> pending_line list option \<Rightarrow> bool" where
  "file_ok digest f \<longleftrightarrow> distinct (held_keys digest (lines_of f)) \<and> list_all (\<lambda>l. \<not> is_torn l) (lines_of f)"

definition no_duplicates :: "(ustr \<Rightarrow> ustr) \<Rightarrow> harvest \<Rightarrow> bool" where
  "no_duplicates digest h \<longleftrightarrow> file_ok digest (hv_rag h) \<and> file_ok digest (hv_faith h)"

lemma held_keys_append: "held_keys digest (ls @ ls') = held_keys digest ls @ held_keys digest ls'"
  by (induction digest ls rule: held_keys.induct) simp_all

lemma held_keys_seen: "list_all (\<lambda>l. \<not> is_torn l) ls \<Longrightarrow> k \<in> set (held_keys digest ls) \<longleftrightarrow> Some k \<in> line_key digest ` set ls"
  by (induction digest ls rule: held_keys.induct) auto

lemma file_ok_append:
  assumes "file_ok digest f" and "sourced c" and "\<not> torn c" and "Some (new_key digest c) \<notin> line_key digest ` set (lines_of f)"
  shows "file_ok digest (Some (lines_of f @ [written_line digest c]))"
  using assms held_keys_seen [of "lines_of f" "new_key digest c" digest] row_key_with_id [OF assms(2), of digest]
  by (simp add: file_ok_def lines_of_def [of "Some _"] held_keys_append written_line_def)

lemma append_pending_distinct:
  assumes "no_duplicates digest h" and "sourced c" and "\<not> torn c"
  shows "no_duplicates digest (snd (append_pending enabled digest c kind h))"
  using assms file_ok_append [OF _ assms(2,3), of digest "pending_file kind h", unfolded lines_of_def]
  by (cases kind) (simp_all add: append_pending_def Let_def no_duplicates_def pending_file_def set_pending_file_def)

text \<open>What is written once is not written again by the same worker, and moving rows loses none.\<close>

lemma append_pending_once:
  "append_pending True digest c kind h = (True, h') \<Longrightarrow> fst (append_pending True digest c kind' h') = False"
  by (auto simp: append_pending_def Let_def set_pending_file_def split: if_splits pending_kind.splits)

lemma merge_pending_moves:
  "merge_pending_file True kind h tgt = (n, h', tgt') \<Longrightarrow>
     tgt' @ pending_rows (lines_of (pending_file kind h')) = tgt @ pending_rows (lines_of (pending_file kind h))"
  by (auto simp: lines_of_def merge_pending_file_def Let_def set_pending_file_def pending_file_def pending_rows_def
      split: option.splits if_splits pending_kind.splits)

text \<open>A run: a turn ends, a retrieval misses, a user votes a turn down, the worker restarts and keeps the files.\<close>

datatype harvest_op = TurnEnds rat eval_snapshot | Miss ustr ustr ustr ustr ustr ustr | Down rat ustr "ustr option" | Restart

fun harvest_step :: "bool \<Rightarrow> (ustr \<Rightarrow> ustr) \<Rightarrow> int \<Rightarrow> snapshot_cache \<times> harvest \<Rightarrow> harvest_op \<Rightarrow> snapshot_cache \<times> harvest" where
  "harvest_step en digest s (c, h) (TurnEnds now sn) = (cache_turn_snapshot s now sn c, h)"
| "harvest_step en digest s (c, h) (Miss tenant query sq reason trace rr) = (c, snd (record_retrieval_miss en digest tenant query sq reason trace rr h))"
| "harvest_step en digest s (c, h) (Down now trace comment) = snd (record_feedback_down en digest s now trace comment c h)"
| "harvest_step en digest s (c, h) Restart = ([], h\<lparr>hv_seen := []\<rparr>)"

definition snapshot_unbroken :: "eval_snapshot \<Rightarrow> bool" where
  "snapshot_unbroken sn \<longleftrightarrow> list_all (\<lambda>t. \<not> line_broken t)
     ([es_query sn, es_tenant sn, es_search_query sn, es_rewrite_reason sn, es_course_name sn] @ es_sources sn)"

fun op_unbroken :: "harvest_op \<Rightarrow> bool" where
  "op_unbroken (TurnEnds now sn) \<longleftrightarrow> snapshot_unbroken sn"
| "op_unbroken (Miss tenant query sq reason trace rr) \<longleftrightarrow> reason \<noteq> [] \<and> list_all (\<lambda>t. \<not> line_broken t) [tenant, query, sq, reason, trace, rr]"
| "op_unbroken (Down now trace comment) \<longleftrightarrow> \<not> line_broken trace \<and> \<not> line_broken (str_or_empty comment)"
| "op_unbroken Restart \<longleftrightarrow> True"

definition harvest_ok :: "(ustr \<Rightarrow> ustr) \<Rightarrow> snapshot_cache \<times> harvest \<Rightarrow> bool" where
  "harvest_ok digest st \<longleftrightarrow> (\<forall>(t, ts, sn) \<in> set (fst st). snapshot_unbroken sn) \<and> no_duplicates digest (snd st)"

lemma unbroken_Nil [simp]: "\<not> line_broken []"
  by (simp add: line_broken_def)

lemma cache_turn_subset: "set (cache_turn_snapshot s now sn c) \<subseteq> insert (strip (es_trace sn), (now, sn)) (set c)"
  by (auto simp: cache_turn_snapshot_def prune_snapshot_cache_def Let_def dict_filter_def AList.delete_eq dest!: in_set_dropD)

lemma get_turn_subset:
  "get_turn_snapshot s now t c = (r, c') \<Longrightarrow> set c' \<subseteq> set c \<and> (\<forall>sn. r = Some sn \<longrightarrow> (\<exists>t' ts. (t', ts, sn) \<in> set c))"
  by (auto simp: get_turn_snapshot_def Let_def AList.delete_eq split: if_splits option.splits) (blast dest: map_of_SomeD)

lemma down_case_whole:
  "snapshot_unbroken sn \<Longrightarrow> \<not> line_broken trace \<Longrightarrow> \<not> line_broken (str_or_empty comment) \<Longrightarrow>
     sourced (down_case sn trace comment) \<and> \<not> torn (down_case sn trace comment)"
  by (auto simp: down_case_def sourced_def torn_def case_texts_def snapshot_unbroken_def list_ex_iff list_all_iff)
    (auto simp: line_broken_def asc_def)

lemma harvest_step_ok:
  assumes "harvest_ok digest st" and "op_unbroken x"
  shows "harvest_ok digest (harvest_step en digest s st x)"
proof -
  obtain c h where st: "st = (c, h)" by fastforce
  with assms(1) have c: "\<forall>(t, ts, sn) \<in> set c. snapshot_unbroken sn" and h: "no_duplicates digest h" by (auto simp: harvest_ok_def)
  show ?thesis
  proof (cases x)
    case (TurnEnds now sn)
    with assms(2) c h cache_turn_subset [of s now sn c] show ?thesis by (auto simp: st harvest_ok_def)
  next
    case (Miss tenant query sq reason trace rr)
    with assms(2) c h show ?thesis
      by (auto simp: st harvest_ok_def record_retrieval_miss_def sourced_def torn_def case_texts_def intro!: append_pending_distinct)
  next
    case (Down now trace comment)
    obtain r c' where g: "get_turn_snapshot s now trace c = (r, c')" by fastforce
    note sub = get_turn_subset [OF g]
    with c have c': "\<forall>(t, ts, sn) \<in> set c'. snapshot_unbroken sn" by blast
    show ?thesis
    proof (cases r)
      case None
      with Down g c' h show ?thesis by (simp add: st harvest_ok_def record_feedback_down_def)
    next
      case (Some sn)
      with sub c have "snapshot_unbroken sn" by blast
      with down_case_whole [of sn trace comment] assms(2) Down
      have "no_duplicates digest (snd (append_pending en digest (down_case sn trace comment) FaithfulnessCases h))"
        by (intro append_pending_distinct h) simp_all
      with Down g Some c' show ?thesis by (auto simp: st harvest_ok_def record_feedback_down_def split: prod.splits)
    qed
  next
    case Restart
    with h show ?thesis by (simp add: st harvest_ok_def no_duplicates_def)
  qed
qed

text \<open>
  C40: Whatever turns end, misses and votes are recorded, in whatever order and with restarts between
  them that empty the memory, no pending file ever holds two rows of the same tenant, question and
  reason, as long as no text holds a character at which Python breaks lines and JSON does not escape.
\<close>

theorem harvest_has_no_duplicates:
  assumes "harvest_ok digest st" and "list_all op_unbroken ops"
  shows "no_duplicates digest (snd (foldl (harvest_step en digest s) st ops))"
proof -
  have "harvest_ok digest (foldl (harvest_step en digest s) st ops)"
    using assms by (induction ops arbitrary: st) (simp_all add: harvest_step_ok)
  then show ?thesis by (simp add: harvest_ok_def)
qed

definition empty_harvest :: harvest where
  "empty_harvest = \<lparr>hv_seen = [], hv_rag = None, hv_faith = None\<rparr>"

theorem harvest_has_no_duplicates_witness:
  "no_duplicates id (snd (foldl (harvest_step True id 60) ([], empty_harvest)
     [Miss (asc ''t'') (asc ''q'') [] (asc ''rag_empty'') [] [], Restart, Miss (asc ''t'') (asc ''q'') [] (asc ''rag_empty'') (asc ''x'') []]))"
  by (rule harvest_has_no_duplicates)
    (simp_all add: harvest_ok_def no_duplicates_def file_ok_def lines_of_def empty_harvest_def line_broken_def asc_def)

text \<open>With such a character in the question, the same miss is written again after a restart.\<close>

lemma torn_row_is_written_twice:
  "held_keys id (lines_of (hv_rag (snd (foldl (harvest_step True id 60) ([], empty_harvest)
     [Miss [116] [0x2028] [] [114] [] [], Restart, Miss [116] [0x2028] [] [114] [] []])))) = [[116, 124, 0x2028, 124, 114], [116, 124, 0x2028, 124, 114]]"
  by (simp add: record_retrieval_miss_def append_pending_def Let_def pending_file_def set_pending_file_def empty_harvest_def
      written_line_def torn_def case_texts_def line_broken_def new_key_def row_key_def with_id_def dedupe_key_def case_key_text_def or_str_def lines_of_def)

section \<open>The scores agree with each other\<close>

lemma unique_loop_distinct: "distinct ordered \<Longrightarrow> distinct (unique_loop ordered ss)"
  by (induction ordered ss rule: unique_loop.induct) auto

lemma first_rank_bounds: "0 < i \<Longrightarrow> 0 \<le> first_rank i gold ss \<and> first_rank i gold ss \<le> 1"
  by (induction i gold ss rule: first_rank.induct) auto

lemma first_rank_hit: "0 < i \<Longrightarrow> 0 < first_rank i gold ss \<longleftrightarrow> list_ex (\<lambda>s. s \<in> gold) ss"
  by (induction i gold ss rule: first_rank.induct) auto

lemma scores_bounded:
  assumes "finite gold"
  shows "0 \<le> recall_at_k ranked gold k \<and> recall_at_k ranked gold k \<le> 1 \<and> 0 \<le> mrr ranked gold \<and> mrr ranked gold \<le> 1"
proof -
  have "card (X \<inter> gold) \<le> card gold" for X using assms by (intro card_mono) auto
  then show ?thesis
    using first_rank_bounds [of 1 gold] by (auto simp: recall_at_k_def mrr_def divide_le_eq_1)
qed

lemma hit_iff_recall: "finite gold \<Longrightarrow> hit_at_k ranked gold k \<longleftrightarrow> 0 < recall_at_k ranked gold k"
  by (auto simp: hit_at_k_def recall_at_k_def list_ex_iff card_gt_0_iff zero_less_divide_iff)

lemma recall_mono:
  assumes "finite gold" and "j \<le> k"
  shows "recall_at_k ranked gold j \<le> recall_at_k ranked gold k"
proof -
  have "set (take j xs) \<subseteq> set (take k xs)" for xs :: "ustr list" using assms(2) by (rule set_take_subset_set_take)
  then have "card (set (take j xs) \<inter> gold) \<le> card (set (take k xs) \<inter> gold)" for xs :: "ustr list"
    using assms(1) by (intro card_mono) auto
  then show ?thesis by (simp add: recall_at_k_def divide_right_mono)
qed

lemma mrr_iff_some_hit: "gold \<noteq> {} \<Longrightarrow> 0 < mrr ranked gold \<longleftrightarrow> hit_at_k ranked gold (length (unique_preserve_order ranked))"
  by (simp add: mrr_def hit_at_k_def first_rank_hit)

end
