(* ===== verification/Api.thy ===== *)
theory Api
  imports Turn Chat_Slots Metrics Evaluation
begin

text \<open>
  The edge of the system: the conversation slots around a turn (\<open>app/concurrency.py\<close>), the HTTP
  routes of \<open>app/app.py\<close> and the upload of course outlines (\<open>app/rag/ingest_api.py\<close>). What a turn
  streams is the output of \<open>Turn\<close>; FastAPI, JSON and the file system are reduced to what the
  handlers ask of them.
\<close>

section \<open>Conversation slots\<close>

text \<open>A setting that is missing or zero takes its default; \<open>None\<close>: the tenant's limit is no number.\<close>

definition slot_limits_of :: "int \<Rightarrow> int option \<Rightarrow> int \<Rightarrow> slot_limits" where
  "slot_limits_of concurrency tenant_concurrency ttl =
     (let g = max 1 (if concurrency = 0 then 8 else concurrency);
          t = (case tenant_concurrency of None \<Rightarrow> 4 | Some n \<Rightarrow> n); t = (if t \<le> 0 then g else t)
      in \<lparr>global_limit = g, tenant_limit = max 1 (min t g), slot_ttl = max 1 (if ttl = 0 then 180 else ttl)\<rparr>)"

definition resolve_tenant :: "ustr \<Rightarrow> ustr option \<Rightarrow> ustr" where
  "resolve_tenant default_tenant tenant_id = (case normalize_tenant_id default_tenant tenant_id of Inl _ \<Rightarrow> default_tenant | Inr t \<Rightarrow> t)"

type_synonym 's acquire_op = "'s \<Rightarrow> ustr \<Rightarrow> int \<Rightarrow> int \<Rightarrow> int \<Rightarrow> rat \<Rightarrow> ustr \<Rightarrow> (busy_reason + ustr) \<times> 's"
type_synonym 's release_op = "'s \<Rightarrow> ustr \<Rightarrow> ustr \<Rightarrow> 's"

definition occupy :: "'s acquire_op \<Rightarrow> slot_limits \<Rightarrow> 's \<Rightarrow> ustr \<Rightarrow> rat \<Rightarrow> ustr \<Rightarrow> (busy_reason + ustr) \<times> 's" where
  "occupy acq lims s tenant now tok = acq s tenant (global_limit lims) (tenant_limit lims) (slot_ttl lims) now tok"

definition vacate :: "'s release_op \<Rightarrow> 's \<Rightarrow> ustr \<Rightarrow> ustr \<Rightarrow> 's" where
  "vacate rel s tenant tok = (if tok = [] then s else rel s tenant tok)"

text \<open>
  \<open>achat_stream\<close>: the slot is taken before the turn and given back after it, however it ended;
  \<open>others\<close> is what the other conversations do to the store while the turn runs.
\<close>

definition achat_stream ::
  "'s acquire_op \<Rightarrow> 's release_op \<Rightarrow> slot_limits \<Rightarrow> ('s \<Rightarrow> 's) \<Rightarrow> 's \<Rightarrow> ustr \<Rightarrow> rat \<Rightarrow> ustr \<Rightarrow> turn_output \<Rightarrow>
     (busy_reason + turn_output) \<times> 's" where
  "achat_stream acq rel lims others s tenant now tok out =
     (case occupy acq lims s tenant now tok of
        (Inl b, s) \<Rightarrow> (Inl b, s)
      | (Inr token, s) \<Rightarrow> (Inr out, vacate rel (others s) tenant token))"

fun done_of :: "sse_event \<Rightarrow> chat_response option" where
  "done_of (DoneEvent r) = Some r"
| "done_of _ = None"

text \<open>\<open>achat\<close>: the last final event; \<open>None\<close>: the turn raised, or there was none.\<close>

definition achat ::
  "'s acquire_op \<Rightarrow> 's release_op \<Rightarrow> slot_limits \<Rightarrow> ('s \<Rightarrow> 's) \<Rightarrow> 's \<Rightarrow> ustr \<Rightarrow> rat \<Rightarrow> ustr \<Rightarrow> turn_output \<Rightarrow> (busy_reason + turn_end \<times> chat_response option) \<times> 's" where
  "achat acq rel lims others s tenant now tok out =
     (case achat_stream acq rel lims others s tenant now tok out of
        (Inl b, s) \<Rightarrow> (Inl b, s)
      | (Inr out, s) \<Rightarrow> (Inr (to_end out, if to_end out = TurnClosed
            then (case rev (List.map_filter done_of (to_events out)) of [] \<Rightarrow> None | r # _ \<Rightarrow> Some r) else None), s))"

section \<open>Routes\<close>

definition metric_path :: "ustr \<Rightarrow> ustr" where
  "metric_path path =
     (if starts_with (asc ''/api/v1/orders/'') path then (asc ''/api/v1/orders/{order_no}'')
      else if starts_with (asc ''/static/'') path then (asc ''/static'') else or_str path (asc ''/''))"

text \<open>The header wins over the user of the body.\<close>

definition chat_user_id :: "ustr option \<Rightarrow> ustr option \<Rightarrow> identity_ctx \<Rightarrow> ustr \<times> identity_ctx" where
  "chat_user_id header body ctx = resolve_request_user [header, body] ctx"

datatype frame = EventFrame sse_event | ErrorFrame

datatype 'r http_reply = Reply 'r | HttpError nat ustr

definition busy_detail :: ustr where
  "busy_detail = [0x5BF9, 0x8BDD, 0x7E41, 0x5FD9, 0xFF0C, 0x8BF7, 0x7A0D, 0x540E, 0x91CD, 0x8BD5] \<comment> \<open>busy, try again later\<close>"

definition session_busy_detail :: ustr where
  "session_busy_detail = [0x540C, 0x4E00, 0x4F1A, 0x8BDD, 0x6B63, 0x5728, 0x5904, 0x7406, 0xFF0C, 0x8BF7, 0x7A0D, 0x540E, 0x91CD, 0x8BD5] \<comment> \<open>this session is being processed\<close>"

text \<open>\<open>chat_api\<close>: what ends the stream before its first event is a status, what ends it later is an error frame.\<close>

definition chat_api ::
  "'s acquire_op \<Rightarrow> 's release_op \<Rightarrow> slot_limits \<Rightarrow> ('s \<Rightarrow> 's) \<Rightarrow> 's \<Rightarrow> ustr \<Rightarrow> rat \<Rightarrow> ustr \<Rightarrow> turn_output \<Rightarrow> frame list http_reply \<times> 's" where
  "chat_api acq rel lims others s tenant now tok out =
     (case achat_stream acq rel lims others s tenant now tok out of
        (Inl b, s) \<Rightarrow> (HttpError 429 busy_detail, s)
      | (Inr out, s) \<Rightarrow>
          (if to_events out = []
           then if to_end out = TurnBusy then HttpError 409 session_busy_detail else HttpError 500 (asc ''Internal Server Error'')
           else Reply (map EventFrame (to_events out) @ (if to_end out = TurnClosed then [] else [ErrorFrame])), s))"

definition chat_api_compat ::
  "'s acquire_op \<Rightarrow> 's release_op \<Rightarrow> slot_limits \<Rightarrow> ('s \<Rightarrow> 's) \<Rightarrow> 's \<Rightarrow> ustr \<Rightarrow> rat \<Rightarrow> ustr \<Rightarrow> turn_output \<Rightarrow> chat_response http_reply \<times> 's" where
  "chat_api_compat acq rel lims others s tenant now tok out =
     (case achat acq rel lims others s tenant now tok out of
        (Inl b, s) \<Rightarrow> (HttpError 429 busy_detail, s)
      | (Inr (TurnBusy, _), s) \<Rightarrow> (HttpError 409 session_busy_detail, s)
      | (Inr (_, Some r), s) \<Rightarrow> (Reply r, s)
      | (Inr (_, None), s) \<Rightarrow> (HttpError 500 (asc ''Internal Server Error''), s))"

definition api_order ::
  "'s tool_env \<Rightarrow> unit pool_result \<Rightarrow> 's tool_world \<Rightarrow> ustr \<Rightarrow> bool \<Rightarrow> ustr \<Rightarrow> ustr \<Rightarrow> order_report http_reply \<times> 's tool_world" where
  "api_order env pool w number persist tenant user =
     (case query_order env pool w [] (Some number) tenant user None persist True True of
        (Inr rep, w) \<Rightarrow> (Reply rep, w)
      | (Inl (QueryTimeout m), w) \<Rightarrow> (HttpError 504 [0x8BA2, 0x5355, 0x67E5, 0x8BE2, 0x8D85, 0x65F6] \<comment> \<open>the query timed out\<close>, w)
      | (Inl (BadOrder MissingOrder), w) \<Rightarrow> (HttpError 500 (asc ''Internal Server Error''), w)
      | (Inl (BadOrder e), w) \<Rightarrow> (HttpError 404 (service_error_text env e), w)
      | (Inl (EscalatedTo d), w) \<Rightarrow> (HttpError 500 (asc ''Internal Server Error''), w))"

text \<open>
  A vote on a turn. \<open>enabled\<close>: Langfuse is configured, \<open>sent\<close>: it took the score. The reply names
  whether the vote was recorded, whether Langfuse has it, and why not.
\<close>

record feedback_reply =
  fb_recorded :: bool
  fb_langfuse :: bool
  fb_reason :: "ustr option"

definition score_user_feedback :: "bool \<Rightarrow> bool \<Rightarrow> ustr \<Rightarrow> rat \<Rightarrow> ustr option \<Rightarrow> feedback_reply \<times> metric_event list" where
  "score_user_feedback enabled sent trace_id v session_id =
     (let tid = strip trace_id; evs = inc_user_feedback (if v \<ge> 1/2 then (asc ''up'') else (asc ''down''));
          lost = (\<lambda>why. \<lparr>fb_recorded = True, fb_langfuse = False, fb_reason = Some why\<rparr>)
      in (if tid = [] \<and> strip (str_or_empty session_id) = [] then lost (asc ''missing_trace_id'')
          else if \<not> enabled then lost (asc ''langfuse_disabled'')
          else if sent then \<lparr>fb_recorded = True, fb_langfuse = True, fb_reason = None\<rparr> else lost (asc ''langfuse_error''), evs))"

definition feedback_api ::
  "bool \<Rightarrow> bool \<Rightarrow> bool \<Rightarrow> (ustr \<Rightarrow> ustr) \<Rightarrow> int \<Rightarrow> rat \<Rightarrow> int \<Rightarrow> ustr \<Rightarrow> ustr option \<Rightarrow> ustr option \<Rightarrow> snapshot_cache \<Rightarrow> harvest \<Rightarrow>
     feedback_reply http_reply \<times> metric_event list \<times> snapshot_cache \<times> harvest" where
  "feedback_api enabled sent harvesting digest seconds now v trace_id session_id comment cache h =
     (if v \<notin> {0, 1} then (HttpError 422 (asc ''value '' @ [0x53EA, 0x80FD, 0x662F, 32, 48, 0xFF08, 0x8E29, 0xFF09, 0x6216, 32, 49, 0xFF08, 0x8D5E, 0xFF09]) \<comment> \<open>value is 0 or 1\<close>, [], cache, h)
      else
        let (cache, h) = (if v = 0 then snd (record_feedback_down harvesting digest seconds now trace_id comment cache h) else (cache, h));
            (rep, evs) = score_user_feedback enabled sent trace_id (of_int v) session_id
        in (Reply rep, evs, cache, h))"

text \<open>
  \<open>ObservabilityMiddleware\<close>: the counters that a request writes. \<open>ResponseStart\<close> carries the status;
  the application may send nothing at all before it raises.
\<close>

datatype asgi_message = ResponseStart nat | ResponseBody

record request_log =
  rl_status :: nat
  rl_recorded :: bool
  rl_counts :: "(ustr \<times> ustr \<times> nat) list"
  rl_logged :: "(ustr \<times> ustr \<times> nat) list"

definition skip_http_log :: "ustr list" where
  "skip_http_log = [(asc ''/health''), (asc ''/ready''), (asc ''/metrics'')]"

definition count_request :: "ustr \<Rightarrow> ustr \<Rightarrow> request_log \<Rightarrow> request_log" where
  "count_request verb path l =
     (let entry = (verb, metric_path path, rl_status l)
      in l\<lparr>rl_recorded := True, rl_counts := rl_counts l @ [entry],
           rl_logged := rl_logged l @ (if path \<in> set skip_http_log then [] else [entry])\<rparr>)"

fun send_wrapper :: "ustr \<Rightarrow> ustr \<Rightarrow> request_log \<Rightarrow> asgi_message \<Rightarrow> request_log" where
  "send_wrapper verb path l (ResponseStart st) =
     (let l = l\<lparr>rl_status := st\<rparr> in if rl_recorded l then l else count_request verb path l)"
| "send_wrapper verb path l ResponseBody = l"

definition observe_request :: "ustr \<Rightarrow> ustr \<Rightarrow> asgi_message list \<Rightarrow> request_log" where
  "observe_request verb path sent =
     (let l = foldl (send_wrapper verb path) \<lparr>rl_status = 500, rl_recorded = False, rl_counts = [], rl_logged = []\<rparr> sent
      in if rl_recorded l then l else count_request verb path l)"

section \<open>Uploading an outline\<close>

text \<open>\<open>Path(s).name\<close>: the last component; empty and \<open>.\<close> components do not count.\<close>

definition path_name :: "ustr \<Rightarrow> ustr" where
  "path_name s = (case rev (filter (\<lambda>p. p \<noteq> [] \<and> p \<noteq> (asc ''.'')) (split_on ((=) 47) s)) of [] \<Rightarrow> [] | p # _ \<Rightarrow> p)"

datatype upload_error = NoToken | WrongToken | BadName | NotMarkdown | EmptyFile | BadTenant identity_error

definition require_admin_token :: "ustr \<Rightarrow> ustr option \<Rightarrow> upload_error option" where
  "require_admin_token configured header =
     (let expected = strip configured in
      if expected = [] then Some NoToken else if strip (str_or_empty header) \<noteq> expected then Some WrongToken else None)"

definition safe_markdown_name :: "ustr \<Rightarrow> upload_error + ustr" where
  "safe_markdown_name filename =
     (let name = strip (path_name filename) in
      if name = [] \<or> name \<in> {(asc ''.''), (asc ''..'')} then Inl BadName
      else if \<not> starts_with (rev (asc ''.md'')) (rev (lower name)) then Inl NotMarkdown else Inr name)"

text \<open>
  The files below the knowledge base: the tenants' directories, and the bytes of a file by its
  directory (\<open>None\<close> is the knowledge base itself) and name.
\<close>

record file_tree =
  ft_dirs :: "ustr list"
  ft_files :: "(ustr option \<times> ustr, nat list) dict"

definition target_dir :: "ustr \<Rightarrow> ustr \<Rightarrow> file_tree \<Rightarrow> (upload_error + ustr option) \<times> file_tree" where
  "target_dir default_tenant tenant_id ft =
     (case normalize_tenant_id default_tenant (Some (or_str tenant_id default_tenant)) of
        Inl e \<Rightarrow> (Inl (BadTenant e), ft)
      | Inr tenant \<Rightarrow>
          if tenant = default_tenant then (Inr None, ft)
          else (Inr (Some tenant), ft\<lparr>ft_dirs := List.insert tenant (ft_dirs ft)\<rparr>))"

text \<open>What \<open>bytes.strip\<close> removes.\<close>

definition ascii_space :: "nat \<Rightarrow> bool" where
  "ascii_space c \<longleftrightarrow> c \<in> {9, 10, 11, 12, 13, 32}"

text \<open>The files that \<open>load_knowledge_documents\<close> finds: its glob \<open>*.md\<close> minds the case.\<close>

definition found_by_ingest :: "ustr \<Rightarrow> bool" where
  "found_by_ingest name \<longleftrightarrow> starts_with (rev (asc ''.md'')) (rev name)"

record upload_reply =
  ur_tenant :: ustr
  ur_rebuild :: bool
  ur_saved :: "(ustr option \<times> ustr) option"

definition accepted :: "ustr \<Rightarrow> ustr \<Rightarrow> bool \<Rightarrow> (ustr option \<times> ustr) option \<Rightarrow> upload_error + upload_reply" where
  "accepted default_tenant tenant_id rebuild saved =
     (case normalize_tenant_id default_tenant (Some (or_str tenant_id default_tenant)) of
        Inl e \<Rightarrow> Inl (BadTenant e)
      | Inr t \<Rightarrow> Inr \<lparr>ur_tenant = t, ur_rebuild = rebuild, ur_saved = saved\<rparr>)"

text \<open>\<open>ingest_knowledge\<close>, up to the background task. The directory is made before the name is looked at.\<close>

definition ingest_knowledge ::
  "ustr \<Rightarrow> ustr \<Rightarrow> ustr option \<Rightarrow> ustr \<Rightarrow> bool \<Rightarrow> (ustr \<times> nat list) option \<Rightarrow> file_tree \<Rightarrow> (upload_error + upload_reply) \<times> file_tree" where
  "ingest_knowledge default_tenant token header tenant_id rebuild file ft =
     (case require_admin_token token header of
        Some e \<Rightarrow> (Inl e, ft)
      | None \<Rightarrow>
          (case file of
             None \<Rightarrow> (accepted default_tenant tenant_id rebuild None, ft)
           | Some (filename, body) \<Rightarrow>
               if filename = [] then (accepted default_tenant tenant_id rebuild None, ft)
               else (case target_dir default_tenant tenant_id ft of
                   (Inl e, ft) \<Rightarrow> (Inl e, ft)
                 | (Inr dir, ft) \<Rightarrow>
                     (case safe_markdown_name filename of
                        Inl e \<Rightarrow> (Inl e, ft)
                      | Inr name \<Rightarrow>
                          if list_all ascii_space body then (Inl EmptyFile, ft)
                          else (accepted default_tenant tenant_id rebuild (Some (dir, name)),
                                ft\<lparr>ft_files := AList.update (dir, name) body (ft_files ft)\<rparr>)))))"

section \<open>A conversation is one lease\<close>

lemma slot_after_append:
  "slot_after acq rel cnt lims s (ops @ ops') = slot_after acq rel cnt lims (slot_after acq rel cnt lims s ops) ops'"
  by (induction ops arbitrary: s rule: list.induct) (simp, case_tac x1, simp_all)

lemma ops_ok_append:
  "ops_ok lims clock L (ops @ ops') \<longleftrightarrow> ops_ok lims clock L ops \<and>
     ops_ok lims (last_clock clock ops) (slot_after spec_acquire spec_release spec_count lims L ops) ops'"
  by (induction ops arbitrary: clock L rule: list.induct) (simp, case_tac x1, simp_all add: spec_count_def)

lemma last_clock_append: "last_clock clock (ops @ ops') = last_clock (last_clock clock ops) ops'"
  by (induction ops arbitrary: clock rule: list.induct) (simp, case_tac x1, simp_all)

text \<open>What a conversation does to the store, as a sequence of its operations.\<close>

definition conversation :: "busy_reason + ustr \<Rightarrow> ustr \<Rightarrow> rat \<Rightarrow> ustr \<Rightarrow> slot_op list \<Rightarrow> slot_op list" where
  "conversation r tenant now tok ops = Acquire tenant now tok # (case r of Inl _ \<Rightarrow> [] | Inr _ \<Rightarrow> ops @ [Release tenant tok])"

context slot_store
begin

lemma granted_token: "inv s \<Longrightarrow> acquire s tn glim tlim ttl now tok = (Inr k, s') \<Longrightarrow> k = tok"
  using acquire_result [of s tn glim tlim ttl now tok] by (auto split: if_splits)

lemma conversation_ops:
  assumes "inv s" and "tok \<noteq> []"
  shows "snd (achat_stream acquire release lims (\<lambda>s. slot_after acquire release in_flight lims s ops) s tenant now tok out) =
    slot_after acquire release in_flight lims s
      (conversation (fst (acquire s tenant (global_limit lims) (tenant_limit lims) (slot_ttl lims) now tok)) tenant now tok ops)"
  using assms(2)
  by (auto simp: achat_stream_def occupy_def vacate_def conversation_def slot_after_append
      dest!: granted_token [OF assms(1)] split: prod.splits sum.splits)

lemma conversation_refines:
  assumes rep: "represents clock L s" and tok: "tok \<noteq> []"
    and ok: "ops_ok lims clock L (conversation r tenant now tok ops)"
    and r: "r = fst (spec_acquire L tenant (global_limit lims) (tenant_limit lims) (slot_ttl lims) now tok)"
    and run: "achat_stream acquire release lims (\<lambda>s. slot_after acquire release in_flight lims s ops) s tenant now tok out = (res, s')"
  shows "res = map_sum id (\<lambda>_. out) r \<and>
    represents (last_clock clock (conversation r tenant now tok ops))
      (slot_after spec_acquire spec_release spec_count lims L (conversation r tenant now tok ops)) s'"
proof -
  from rep have inv: "inv s" by (simp add: represents_def)
  obtain r0 s0 where a: "acquire s tenant (global_limit lims) (tenant_limit lims) (slot_ttl lims) now tok = (r0, s0)" by fastforce
  obtain L' where sp: "spec_acquire L tenant (global_limit lims) (tenant_limit lims) (slot_ttl lims) now tok = (r, L')"
    using r by (metis prod.collapse)
  from ok have "clock \<le> now" "L tok = None" by (auto simp: conversation_def)
  from acquire_refines [OF rep this a sp] have "r0 = r" by simp
  with a have r': "r = fst (acquire s tenant (global_limit lims) (tenant_limit lims) (slot_ttl lims) now tok)" by simp
  have "res = map_sum id (\<lambda>_. out) r"
    using run a \<open>r0 = r\<close> by (auto simp: achat_stream_def occupy_def split: sum.splits)
  moreover have "s' = slot_after acquire release in_flight lims s (conversation r tenant now tok ops)"
    using conversation_ops [OF inv tok, of lims ops tenant now out] run r' by simp
  ultimately show ?thesis using after_refines [OF rep ok] by simp
qed

end

text \<open>A lease leaves the specification with the conversation that took it.\<close>

lemma spec_conversation_gone:
  "slot_after spec_acquire spec_release spec_count lims L (conversation (Inr k) tenant now tok ops) tok = None"
  by (simp add: conversation_def slot_after_append spec_release_def)


lemma spec_conversation_token:
  assumes "L tok = None" and "r = fst (spec_acquire L tenant (global_limit lims) (tenant_limit lims) (slot_ttl lims) now tok)"
  shows "slot_after spec_acquire spec_release spec_count lims L (conversation r tenant now tok ops) tok = None"
proof (cases r)
  case (Inl b)
  then show ?thesis using assms by (auto simp: conversation_def spec_acquire_def split: if_splits)
qed (simp add: spec_conversation_gone)

lemma slot_limits_positive:
  "1 \<le> global_limit (slot_limits_of c t ttl)" "1 \<le> tenant_limit (slot_limits_of c t ttl)"
  by (simp_all add: slot_limits_of_def Let_def)

text \<open>
  C36: Whatever the settings say, whatever other conversations did before and do during a turn, and
  however the turn ends: after \<open>achat_stream\<close> the conversation's token holds no live slot of the
  cluster or of a tenant, the limits hold, and the turn ran exactly when the slot was granted.
\<close>

theorem conversation_frees_its_slot:
  fixes s0 :: "'r redis_slots" and c ttl :: int and t :: "int option" and clock now :: rat and tenant tok :: ustr and earlier during :: "slot_op list"
  defines "lims \<equiv> slot_limits_of c t ttl"
  defines "L \<equiv> slot_after spec_acquire spec_release spec_count lims Map.empty earlier"
    and "s \<equiv> slot_after redis_acquire redis_release redis_in_flight lims s0 earlier"
  defines "r \<equiv> fst (spec_acquire L tenant (global_limit lims) (tenant_limit lims) (slot_ttl lims) now tok)"
  assumes store: "empty_redis s0" and tok: "tok \<noteq> []"
    and ok: "ops_ok lims clock Map.empty (earlier @ conversation r tenant now tok during)"
    and run: "achat_stream redis_acquire redis_release lims
      (\<lambda>s. slot_after redis_acquire redis_release redis_in_flight lims s during) s tenant now tok out = (res, s')"
    and later: "last_clock clock (earlier @ conversation r tenant now tok during) \<le> now'"
  shows "(case r of Inl b \<Rightarrow> res = Inl b | Inr _ \<Rightarrow> res = Inr out)
    \<and> Redis_Client.live now' (redis_glob s') tok = None \<and> Redis_Client.live now' (redis_ten s' tn) tok = None
    \<and> live_count now' (redis_glob s') \<le> global_limit lims \<and> live_count now' (redis_ten s' tn) \<le> tenant_limit lims"
proof -
  let ?ops = "conversation r tenant now tok during" and ?c = "last_clock clock earlier"
  let ?L = "slot_after spec_acquire spec_release spec_count lims L ?ops"
  from ok have ok1: "ops_ok lims clock Map.empty earlier" and ok2: "ops_ok lims ?c L ?ops"
    by (simp_all add: ops_ok_append L_def)
  from redis_slots.after_refines [OF redis_represents_empty [OF store] ok1]
  have rep: "redis_slots.represents ?c L s" by (simp add: L_def s_def)
  from ok2 have fresh: "L tok = None" by (simp add: conversation_def)
  from redis_slots.conversation_refines [OF rep tok ok2 r_def [THEN meta_eq_to_obj_eq] run]
  have res: "res = map_sum id (\<lambda>_. out) r" and rep': "redis_slots.represents (last_clock ?c ?ops) ?L s'" by simp_all
  from later have t: "last_clock ?c ?ops \<le> now'" by (simp add: last_clock_append)
  note none = spec_conversation_token [OF fresh r_def [THEN meta_eq_to_obj_eq], of during]
  have "within_limits lims now' ?L"
    using within_later [OF spec_run_within [OF within_empty ok] later] slot_limits_positive [of c t ttl]
    by (simp add: slot_after_append L_def lims_def)
  then have "live_count now' (redis_glob s') \<le> global_limit lims" "live_count now' (redis_ten s' tn) \<le> tenant_limit lims"
    using redis_slots.represents_counts [OF rep' t] by (simp_all add: within_limits_def)
  moreover have "Redis_Client.live now' (redis_glob s') tok = None" "Redis_Client.live now' (redis_ten s' tn) tok = None"
    using rep' t none unfolding redis_slots.represents_def
    by (simp_all add: Redis_Client.live_def all_leases_def tenant_leases_def)
  ultimately show ?thesis using res by (auto split: sum.splits)
qed

theorem conversation_frees_its_slot_witness:
  "\<forall>out. (let lims = slot_limits_of 2 (Some 1) 10;
      s' = snd (achat_stream redis_acquire redis_release lims
        (\<lambda>s. slot_after redis_acquire redis_release redis_in_flight lims s [Acquire [98] 2 [2]]) demo_redis [97] 1 [1] out)
    in Redis_Client.live 3 (redis_glob s') [1] = None \<and> live_count 3 (redis_glob s') \<le> 2)"
proof
  fix out
  let ?l = "slot_limits_of 2 (Some 1) 10"
  have l: "?l = demo_lims" by (simp add: slot_limits_of_def demo_lims_def)
  obtain res s' where run: "achat_stream redis_acquire redis_release ?l
        (\<lambda>s. slot_after redis_acquire redis_release redis_in_flight ?l s [Acquire [98] 2 [2]]) demo_redis [97] 1 [1] out = (res, s')" by fastforce
  have r: "fst (spec_acquire Map.empty [97] (global_limit ?l) (tenant_limit ?l) (slot_ttl ?l) 1 [1]) = Inr [1]"
    by (simp add: l demo_lims_def spec_acquire_def live_count_def Redis_Client.live_def all_leases_def tenant_leases_def)
  have ok: "ops_ok ?l 0 Map.empty (conversation (Inr [1]) [97] 1 [1] [Acquire [98] 2 [2]])"
    by (simp add: l demo_lims_def conversation_def spec_acquire_def live_count_def Redis_Client.live_def all_leases_def tenant_leases_def spec_release_def)
  show "let lims = ?l; s' = snd (achat_stream redis_acquire redis_release lims
        (\<lambda>s. slot_after redis_acquire redis_release redis_in_flight lims s [Acquire [98] 2 [2]]) demo_redis [97] 1 [1] out)
    in Redis_Client.live 3 (redis_glob s') [1] = None \<and> live_count 3 (redis_glob s') \<le> 2"
    using conversation_frees_its_slot [of demo_redis "[1]" 2 "Some 1" 10 0 "[]" "[97]" 1 "[Acquire [98] 2 [2]]" out res s' 3 "[97]"] run ok r demo_redis_empty
    by (simp add: conversation_def slot_limits_of_def)
qed

section \<open>Replies\<close>

fun final_frame :: "frame \<Rightarrow> bool" where
  "final_frame (EventFrame e) \<longleftrightarrow> is_done e"
| "final_frame ErrorFrame \<longleftrightarrow> True"

fun meta_frame :: "frame \<Rightarrow> bool" where
  "meta_frame (EventFrame e) \<longleftrightarrow> is_meta e"
| "meta_frame ErrorFrame \<longleftrightarrow> False"

lemma one_done_last:
  assumes "length (filter is_done es) = 1" and "last es = DoneEvent r"
  shows "\<exists>fs. es = fs @ [DoneEvent r] \<and> list_all (\<lambda>e. \<not> is_done e) fs"
proof -
  from assms(1) have "es \<noteq> []" by auto
  then obtain fs where fs: "es = fs @ [DoneEvent r]" using assms(2) by (metis append_butlast_last_id)
  with assms(1) show ?thesis by (auto simp: filter_empty_conv list_all_iff)
qed

text \<open>
  C37: The chat route answers a turn with status 429 exactly when no slot was free and with 409 when
  the session is busy, and with no other error. Every other reply is a well-formed stream: one
  opening event with the turn's own identity, then progress, then exactly one closing frame, which is
  the error frame exactly when the graph raised an unexpected exception.
\<close>

theorem chat_reply_well_formed:
  fixes ids ctx free items ended usage t
  defines "out \<equiv> chat_turn_stream ids ctx free items ended usage t"
  shows "case fst (chat_api acq rel lims others s tenant now tok out) of
      HttpError code _ \<Rightarrow> (if code = 429 then isl (fst (occupy acq lims s tenant now tok))
        else code = 409 \<and> \<not> free \<and> \<not> isl (fst (occupy acq lims s tenant now tok)))
    | Reply frames \<Rightarrow> free \<and> \<not> isl (fst (occupy acq lims s tenant now tok)) \<and>
        (\<exists>fs z. frames = EventFrame (meta_event ids t) # fs @ [z] \<and> final_frame z
           \<and> list_all (\<lambda>f. \<not> final_frame f \<and> \<not> meta_frame f) fs \<and> (z = ErrorFrame \<longleftrightarrow> ended = GraphRaised))"
proof -
  obtain o' s1 where occ: "occupy acq lims s tenant now tok = (o', s1)" by fastforce
  note shape = turn_stream_shape [of ids ctx free items ended usage t, folded out_def]
  show ?thesis
  proof (cases o')
    case (Inl b)
    with occ show ?thesis by (simp add: chat_api_def achat_stream_def)
  next
    case (Inr token)
    show ?thesis
    proof (cases free)
      case False
      with shape occ Inr show ?thesis by (simp add: chat_api_def achat_stream_def)
    next
      case True
      with shape obtain es where es: "to_events out = meta_event ids t # es" "list_all (\<lambda>e. \<not> is_meta e) es"
        "if ended = GraphRaised then to_end out = TurnRaised \<and> list_all (\<lambda>e. \<not> is_done e) es
         else to_end out = TurnClosed \<and> (\<exists>r. last es = DoneEvent r \<and> cp_session r = tn_sid t) \<and> length (filter is_done es) = 1" by blast
      have "\<exists>fs z. map EventFrame es @ (if to_end out = TurnClosed then [] else [ErrorFrame]) = fs @ [z] \<and> final_frame z
           \<and> list_all (\<lambda>f. \<not> final_frame f \<and> \<not> meta_frame f) fs \<and> (z = ErrorFrame \<longleftrightarrow> ended = GraphRaised)"
      proof (cases "ended = GraphRaised")
        case True
        with es show ?thesis by (auto simp: list_all_iff)
      next
        case False
        with es(3) one_done_last [of es] obtain r fs where "to_end out = TurnClosed" "es = fs @ [DoneEvent r]" "list_all (\<lambda>e. \<not> is_done e) fs"
          by auto
        with es(2) False show ?thesis by (auto simp: list_all_iff)
      qed
      with es(1) occ Inr True show ?thesis by (simp add: chat_api_def achat_stream_def)
    qed
  qed
qed

text \<open>Every request is counted exactly once, with the first status sent, or 500 when none was.\<close>

lemma recorded_once:
  "rl_recorded l \<Longrightarrow> rl_counts (foldl (send_wrapper verb path) l sent) = rl_counts l \<and> rl_recorded (foldl (send_wrapper verb path) l sent)"
proof (induction sent arbitrary: l)
  case (Cons m sent)
  then show ?case by (cases m) (simp_all add: Let_def)
qed simp

fun first_status :: "asgi_message list \<Rightarrow> nat" where
  "first_status [] = 500"
| "first_status (ResponseStart st # _) = st"
| "first_status (ResponseBody # ms) = first_status ms"

lemma observed_once: "rl_counts (observe_request verb path sent) = [(verb, metric_path path, first_status sent)]"
proof -
  have "\<not> rl_recorded l \<Longrightarrow> rl_counts l = [] \<Longrightarrow> rl_status l = 500 \<Longrightarrow>
     rl_counts (let l = foldl (send_wrapper verb path) l sent in if rl_recorded l then l else count_request verb path l)
       = [(verb, metric_path path, first_status sent)]" for l
    by (induction sent arbitrary: l rule: first_status.induct) (simp_all add: Let_def count_request_def recorded_once)
  from this [of "\<lparr>rl_status = 500, rl_recorded = False, rl_counts = [], rl_logged = []\<rparr>"]
  show ?thesis by (simp add: observe_request_def)
qed

section \<open>Uploads stay in the knowledge base\<close>

definition safe_name :: "ustr \<Rightarrow> bool" where
  "safe_name name \<longleftrightarrow> name \<noteq> [] \<and> 47 \<notin> set name \<and> name \<noteq> (asc ''.'') \<and> name \<noteq> (asc ''..'') \<and> starts_with (rev (asc ''.md'')) (rev (lower name))"

lemma split_on_no_sep: "p \<in> set (split_on q s) \<Longrightarrow> c \<in> set p \<Longrightarrow> \<not> q c"
proof (induction s arbitrary: p)
  case (Cons x xs)
  then show ?case by (cases "split_on q xs") (auto split: if_splits, blast+)
qed simp

lemma set_strip: "set (strip s) \<subseteq> set s"
  unfolding strip_def by (metis set_dropWhileD set_rev subsetI)

lemma path_name_no_slash: "47 \<notin> set (path_name s)"
proof (cases "rev (filter (\<lambda>p. p \<noteq> [] \<and> p \<noteq> (asc ''.'')) (split_on ((=) 47) s))")
  case (Cons p ps)
  then have "p \<in> set (rev (filter (\<lambda>p. p \<noteq> [] \<and> p \<noteq> (asc ''.'')) (split_on ((=) 47) s)))" by simp
  then have "p \<in> set (split_on ((=) 47) s)" by simp
  with split_on_no_sep [of p "(=) 47" s 47] show ?thesis by (auto simp: path_name_def Cons)
qed (simp add: path_name_def)

lemma safe_markdown_name_safe: "safe_markdown_name filename = Inr name \<Longrightarrow> safe_name name"
  using path_name_no_slash [of filename] set_strip [of "path_name filename"]
  by (auto simp: safe_markdown_name_def safe_name_def Let_def split: if_splits)

lemma normalized_tenant: "normalize_tenant_id d raw = Inr t \<Longrightarrow> tenant_re t"
  by (auto simp: normalize_tenant_id_def Let_def split: if_splits)

text \<open>
  C38: Without the configured administrator's token an upload changes nothing, and an upload that
  fails changes no file. An upload that is accepted writes at most one file, the uploaded bytes,
  under a name that ends with \<open>.md\<close> and holds no separator, in the knowledge base itself or in the
  directory of a well-formed tenant; the reply names that tenant and file. No directory but that
  tenant's appears.
\<close>

theorem upload_stays_in_knowledge_base:
  assumes run: "ingest_knowledge default_tenant token header tenant_id rebuild file ft = (r, ft')"
  shows "(ft' \<noteq> ft \<longrightarrow> strip token \<noteq> [] \<and> strip (str_or_empty header) = strip token)
    \<and> (isl r \<longrightarrow> ft_files ft' = ft_files ft)
    \<and> (\<forall>d \<in> set (ft_dirs ft') - set (ft_dirs ft). tenant_re d \<and> d \<noteq> default_tenant)
    \<and> (\<forall>dir name. map_of (ft_files ft') (dir, name) \<noteq> map_of (ft_files ft) (dir, name) \<longrightarrow>
         (\<exists>rep filename body. r = Inr rep \<and> file = Some (filename, body) \<and> ur_saved rep = Some (dir, name) \<and> safe_name name
            \<and> map_of (ft_files ft') (dir, name) = Some body \<and> tenant_re (ur_tenant rep)
            \<and> dir = (if ur_tenant rep = default_tenant then None else Some (ur_tenant rep)) \<and> (dir \<noteq> None \<longrightarrow> ur_tenant rep \<in> set (ft_dirs ft'))))"
proof (cases "require_admin_token token header = None \<and> (\<exists>filename body. file = Some (filename, body) \<and> filename \<noteq> [])")
  case False
  then have "ft' = ft"
    using run by (auto simp: ingest_knowledge_def split: option.splits prod.splits if_splits)
  then show ?thesis by simp
next
  case True
  then obtain filename body where f: "file = Some (filename, body)" "filename \<noteq> []" and admin: "require_admin_token token header = None" by blast
  from admin have tok: "strip token \<noteq> [] \<and> strip (str_or_empty header) = strip token"
    by (auto simp: require_admin_token_def Let_def split: if_splits)
  show ?thesis
  proof (cases "normalize_tenant_id default_tenant (Some (or_str tenant_id default_tenant))")
    case (Inl e)
    with run f admin have "ft' = ft" by (simp add: ingest_knowledge_def target_dir_def)
    then show ?thesis by simp
  next
    case (Inr t)
    note t = normalized_tenant [OF Inr]
    define dir where "dir = (if t = default_tenant then None else Some t)"
    define ft1 where "ft1 = (if t = default_tenant then ft else ft\<lparr>ft_dirs := List.insert t (ft_dirs ft)\<rparr>)"
    have dirs: "\<forall>d \<in> set (ft_dirs ft1) - set (ft_dirs ft). tenant_re d \<and> d \<noteq> default_tenant" "ft_files ft1 = ft_files ft"
      "t \<noteq> default_tenant \<longrightarrow> t \<in> set (ft_dirs ft1)" using t by (auto simp: ft1_def)
    have td: "target_dir default_tenant tenant_id ft = (Inr dir, ft1)" using Inr by (simp add: target_dir_def dir_def ft1_def)
    show ?thesis
    proof (cases "safe_markdown_name filename")
      case (Inl e)
      with run f admin td have "ft' = ft1" "r = Inl e" by (simp_all add: ingest_knowledge_def)
      with tok dirs show ?thesis by auto
    next
      case name: (Inr name)
      show ?thesis
      proof (cases "list_all ascii_space body")
        case True
        with run f admin td name have "ft' = ft1" "r = Inl EmptyFile" by (simp_all add: ingest_knowledge_def)
        with tok dirs show ?thesis by auto
      next
        case False
        with run f admin td name Inr have
          ft': "ft' = ft1\<lparr>ft_files := AList.update (dir, name) body (ft_files ft1)\<rparr>" and
          r: "r = Inr \<lparr>ur_tenant = t, ur_rebuild = rebuild, ur_saved = Some (dir, name)\<rparr>"
          by (simp_all add: ingest_knowledge_def accepted_def)
        show ?thesis using tok dirs t safe_markdown_name_safe [OF name]
          by (simp add: ft' r f update_conv' dir_def)
      qed
    qed
  qed
qed

definition demo_tree :: file_tree where
  "demo_tree = \<lparr>ft_dirs = [], ft_files = []\<rparr>"

lemma demo_upload:
  "ingest_knowledge (asc ''demo'') (asc ''secret'') (Some (asc ''secret'')) (asc ''t1'') False (Some ((asc ''../../a.md''), [97])) demo_tree =
     (Inr \<lparr>ur_tenant = (asc ''t1''), ur_rebuild = False, ur_saved = Some (Some (asc ''t1''), (asc ''a.md''))\<rparr>,
      \<lparr>ft_dirs = [(asc ''t1'')], ft_files = [((Some (asc ''t1''), (asc ''a.md'')), [97])]\<rparr>)"
  by (simp add: ingest_knowledge_def require_admin_token_def target_dir_def safe_markdown_name_def path_name_def accepted_def demo_tree_def
      normalize_tenant_id_def tenant_re_def tenant_char_def ascii_space_def or_str_def str_or_empty_def strip_def is_space_def asc_def lower_def lower1_def)

theorem upload_stays_in_knowledge_base_witness:
  "ur_saved (projr (fst (ingest_knowledge (asc ''demo'') (asc ''secret'') (Some (asc ''secret'')) (asc ''t1'') False (Some ((asc ''../../a.md''), [97])) demo_tree))) = Some (Some (asc ''t1''), (asc ''a.md''))
   \<and> safe_name (asc ''a.md'')"
  using upload_stays_in_knowledge_base [OF demo_upload, THEN conjunct2, THEN conjunct2, THEN conjunct2,
      THEN spec [of _ "Some (asc ''t1'')"], THEN spec [of _ "(asc ''a.md'')"]]
  unfolding demo_upload by (simp add: demo_tree_def)

text \<open>A name with an upper-case suffix is accepted and saved, yet no ingest finds the file.\<close>

lemma upper_case_suffix_lost:
  "safe_markdown_name (asc ''A.MD'') = Inr (asc ''A.MD'') \<and> \<not> found_by_ingest (asc ''A.MD'')"
  by (simp add: safe_markdown_name_def path_name_def found_by_ingest_def strip_def is_space_def asc_def lower_def lower1_def)

end
