(* ===== verification/Spec2Isabelle.thy ===== *)
theory Spec2Isabelle
  imports Circuit Chat_Slots Tenancy Session_Lock Checkpointer Gateway Tool_Pool Turn React Api
begin

text \<open>
  A multi-tenant customer-service assistant for course consulting and order queries: a FastAPI
  application whose conversation is a LangGraph graph over a session state that is cached,
  checkpointed and archived, with an LLM behind a gateway. The development models the Python
  code under src/app/. Each theory opens with what it holds.

  How a message travels. A route (Api) takes a chat slot (Chat_Slots), the turn (Turn) takes a
  session lock (Session_Lock), restores the archived session when the checkpoint is gone, runs the
  graph and streams what it does, and the route gives the slot back. The graph (Graph) runs the security filter (Filters), the
  intent recognition (Intent, over Routing and Regex), one of the branches: course answer (Rag_Answer over
  Rag_Search, Rag_Index and Rag_Query), order query (Order_Capability), supervisor (Capabilities), ReACT agent (React), small talk or hand-over, and the exit
  node, which masks the answer, compresses the conversation (Compress, Summary, Window) and
  archives the session (Session_State). Order queries run in a bounded pool (Tool_Pool), with a
  result cache (Tool_Cache) and an escalation to a person (Escalation), and go to the order
  service (Order_Service) under the access rules (Order_Access). Facts of a turn go into the
  user's long-term memory (User_Memory). Every model call passes the gateway (Gateway), with
  its quota and cache stores (Gateway_Store) and the circuit breaker (Circuit). The state is
  kept by the cached checkpointer (Checkpointer, Checkpoint_Codec). Tenants, users and thread
  ids are in Tenancy, the client of Redis is the interface of Redis_Client.

  Which theory models which code (all under src/app/):
  Circuit: llm_gateway/circuit.py and exceptions.py. Chat_Slots: chat_slots.py. Tenancy:
  tenancy.py, thread_id.py. Order_No: the order number searches of agents/policy.py and
  services/order.py. Order_Access: security/order_access.py. Order_Service: services/order.py.
  Session_Lock, Checkpoint_Codec, Checkpointer: session_cache.py. Gateway_Store:
  llm_gateway/stores.py. Gateway: llm_gateway/gateway.py and its helpers. Routing:
  agents/policy.py. Intent: agents/intent.py, context/slots.py. Window: context/window.py and
  prompt helpers. Summary, Compress: context/summary/. Filters:
  security/filters.py. User_Memory: memory.py, db/archive.py (profiles). Tool_Cache: tool_cache.py.
  Escalation: tool_escalation.py. Tool_Pool: the order pool of executors.py. Order_Capability:
  capabilities/order.py. Capabilities: capabilities/ and agents/supervisor.py.
  Session_State: graph/state/, graph/hydrate.py, context/turn.py, db/archive.py (sessions).
  Graph: graph/nodes.py, graph/builder.py. Turn: graph/stream.py, graph/runner.py. React:
  agents/react.py, security/middleware.py. Rag_Query: rag/rewrite.py, rag/llm_rewrite.py,
  rag/catalog.py, rag/retrieval_plan.py. Rag_Index: rag/chunking.py and the indexes of
  rag/vectorstore.py. Rag_Search: the search of rag/vectorstore.py, rag/lexical.py,
  rag/reranker.py. Rag_Answer: agents/rag.py. Api: concurrency.py, the routes of app.py,
  rag/ingest_api.py. Metrics: observability/metrics/. Evaluation: evals/harvest.py,
  evals/retrieval_metrics.py. Prelude, Text and Regex hold the strings (code
  points as natural numbers), dictionaries (association lists in insertion order), Python's
  number formats and the backtracking matcher of \<open>re\<close>.

  Modelling. A class is a record, a dictionary an association list or a map, an exception the
  left value of a sum, a context variable or a process-wide object an explicit state. Time,
  random values and the answers of models, databases and remote stores are arguments; a store
  behind an interface is a locale whose laws state its documented behaviour, interpreted on the
  in-process implementation of the code and, for Redis, on a reference store. Loops are
  recursive functions with a measure; the graph is a step relation over nodes, states and
  worlds, and equivalently a function that ends because every edge lowers the rank of the node,
  so at most five steps are needed and no fuel; the only fuel is that of the decimal exponent of
  a number format (Text), which covers the range of a float.

  What the lemmas show. Per component: the invariants of its state, that the two
  implementations of each store agree, that limits hold, that encodings are inverted, that
  answers depend only on what the user may see. Across components: the graph theorems on the
  whole turn (it ends, it stays with its user, it starts from the verdict of the filter, its
  answer is filtered, a blocked turn reaches nothing), the agreement of checkpoint and
  archive, the stream of a turn (its final event reports the final state, its reply has exactly one
  closing frame), the slot that every conversation gives back, and retrieval: an incremental ingest
  leaves the chunks of a rebuild, a search stays in the tenant and the bound course, the evidence
  of an answer is made of its own documents; a scrape of the metrics answers as one worker that
  had counted everything. Several lemmas state what the code does where it does
  not do what it means to: an old chunk without a course code stops every bound search, the
  middleware drops a hand-over, a cancelled probe blocks the breaker, a stale report forgets its
  age, an upload with an upper-case suffix is never indexed, a torn row of an evaluation file is
  written twice.

  Arguments of the models, because their code is not in the repository: the embedding model, the
  similarity search of the vector index, the splitter and the tokenizer, the reranker, the agent loop
  of LangChain, the language models, the SQL database and the Redis server.

  Not modelled: tracing, logging and the health probes (they write to libraries and
  decide nothing), start-up, the command line, the wiring of the singletons, the loading of the
  configuration, the seed data and the schema of the database, the object store client, the
  offline evaluation script, and the pages of the HTTP application.
\<close>

end
